(* ===== verification/Prelude.thy ===== *)
theory Prelude
  imports
    Main
    "HOL-Library.AList"
    "HOL-Library.Char_ord"
    "HOL-Library.List_Lexorder"
    "HOL-Library.Product_Lexorder"
    "HOL-Library.Option_ord"
    "HOL-Library.Multiset"
begin

text \<open>
  Shared vocabulary of the development.

  \<^item> Integers: \<open>u64\<close>, \<open>usize\<close> (64-bit targets) and \<open>u32\<close> are modelled by \<open>nat\<close>;
    every saturating or wrapping operation of the source is written out below with
    its width.
  \<^item> Strings are byte strings (\<open>char list\<close>), ordered lexicographically as Rust's
    \<open>String\<close> is.
  \<^item> \<open>HashMap\<close> and \<open>BTreeMap\<close> are association lists with distinct keys and the
    operations of \<open>HOL-Library.AList\<close>; a \<open>BTreeMap\<close> is iterated in key order
    (\<open>btree_iter\<close>). A \<open>BTreeSet\<close> is its sorted list of elements.
  \<^item> Three interfaces used by several components are locales: the string codec of an
    enum (\<open>string_enum\<close>), the key/value store (\<open>kv_store\<close>, interpreted here on
    association lists) and the state machine with an invariant (\<open>machine\<close>).
\<close>

section \<open>Automation collections\<close>

named_theorems alist_simps \<open>lookup after insert, remove and in-place update\<close>
named_theorems rust_arith \<open>unfolding of width-bounded arithmetic\<close>

section \<open>Width-bounded arithmetic\<close>

definition u64_max :: nat where
  "u64_max = 18446744073709551615"

definition u32_max :: nat where
  "u32_max = 4294967295"

definition sat_add64 :: "nat \<Rightarrow> nat \<Rightarrow> nat" where
  "sat_add64 a b = min (a + b) u64_max"

definition sat_mul64 :: "nat \<Rightarrow> nat \<Rightarrow> nat" where
  "sat_mul64 a b = min (a * b) u64_max"

definition sat_add32 :: "nat \<Rightarrow> nat \<Rightarrow> nat" where
  "sat_add32 a b = min (a + b) u32_max"

definition sat_sub :: "nat \<Rightarrow> nat \<Rightarrow> nat" where
  "sat_sub a b = a - b"

definition wrapping_add64 :: "nat \<Rightarrow> nat \<Rightarrow> nat" where
  "wrapping_add64 a b = (a + b) mod (u64_max + 1)"

definition wrapping_add32 :: "nat \<Rightarrow> nat \<Rightarrow> nat" where
  "wrapping_add32 a b = (a + b) mod (u32_max + 1)"

lemmas rust_arith_defs [rust_arith] =
  u64_max_def u32_max_def sat_add64_def sat_mul64_def sat_add32_def sat_sub_def
  wrapping_add64_def wrapping_add32_def

lemma sat_add64_le_max [simp]: "sat_add64 a b \<le> u64_max"
  by (simp add: sat_add64_def)

lemma sat_mul64_le_max [simp]: "sat_mul64 a b \<le> u64_max"
  by (simp add: sat_mul64_def)

lemma sat_mul64_pos: "0 < a \<Longrightarrow> 0 < b \<Longrightarrow> 0 < sat_mul64 a b"
  by (simp add: sat_mul64_def u64_max_def)

lemma sat_add64_cong_less: "a < m \<Longrightarrow> sat_add64 a 1 \<le> m"
  by (simp add: sat_add64_def)

section \<open>Decimal rendering of unsigned integers\<close>

fun show_nat :: "nat \<Rightarrow> string" where
  "show_nat n =
     (if n < 10 then [''0123456789'' ! n]
      else show_nat (n div 10) @ [''0123456789'' ! (n mod 10)])"

declare show_nat.simps [simp del]

definition is_digit :: "char \<Rightarrow> bool" where
  "is_digit c \<longleftrightarrow> c \<in> set ''0123456789''"

lemma digit_nth_is_digit [simp]: "n < 10 \<Longrightarrow> is_digit (''0123456789'' ! n)"
  unfolding is_digit_def by (rule nth_mem) simp

lemma digit_nth_inj: "m < 10 \<Longrightarrow> n < 10 \<Longrightarrow> ''0123456789'' ! m = ''0123456789'' ! n \<longleftrightarrow> m = n"
  by (rule nth_eq_iff_index_eq) simp_all

lemma show_nat_nonempty [simp]: "show_nat n \<noteq> []"
  by (subst show_nat.simps) simp

lemma show_nat_digits: "c \<in> set (show_nat n) \<Longrightarrow> is_digit c"
proof (induction n rule: show_nat.induct)
  case (1 n)
  show ?case
  proof (cases "n < 10")
    case True
    with "1.prems" show ?thesis by (simp add: show_nat.simps [of n])
  next
    case False
    with "1.prems" have "c \<in> set (show_nat (n div 10)) \<or> c = ''0123456789'' ! (n mod 10)"
      by (auto simp: show_nat.simps [of n])
    with False "1.IH" show ?thesis by auto
  qed
qed

lemma show_nat_butlast_last:
  "10 \<le> n \<Longrightarrow> butlast (show_nat n) = show_nat (n div 10) \<and> last (show_nat n) = ''0123456789'' ! (n mod 10)"
  by (simp add: show_nat.simps [of n])

lemma show_nat_length_1: "length (show_nat n) = 1 \<longleftrightarrow> n < 10"
  by (subst show_nat.simps) auto

lemma show_nat_inj: "show_nat m = show_nat n \<Longrightarrow> m = n"
proof (induction m arbitrary: n rule: show_nat.induct)
  case (1 m)
  from "1.prems" have len: "m < 10 \<longleftrightarrow> n < 10"
    by (metis show_nat_length_1)
  show ?case
  proof (cases "m < 10")
    case True
    with len "1.prems" show ?thesis
      by (simp add: show_nat.simps [of m] show_nat.simps [of n] digit_nth_inj)
  next
    case False
    with len have m: "10 \<le> m" and n: "10 \<le> n" by auto
    note split = show_nat_butlast_last [OF m] show_nat_butlast_last [OF n]
    from "1.prems" split have "show_nat (m div 10) = show_nat (n div 10)"
      and "''0123456789'' ! (m mod 10) = ''0123456789'' ! (n mod 10)"
      by metis+
    with False "1.IH" have "m div 10 = n div 10" "m mod 10 = n mod 10"
      by (auto simp: digit_nth_inj)
    then show ?thesis by (metis div_mult_mod_eq)
  qed
qed

lemma show_nat_eq_iff [simp]: "show_nat m = show_nat n \<longleftrightarrow> m = n"
  by (auto dest: show_nat_inj)

text \<open>
  Two renderings \<open>prefix @ sep # rest\<close> with a separator that occurs in neither prefix
  agree only when the parts agree; and dually for a separator that the suffixes avoid.
\<close>

lemma append_sep_eq:
  "sep \<notin> set xs \<Longrightarrow> sep \<notin> set ys \<Longrightarrow>
   xs @ sep # us = ys @ sep # vs \<longleftrightarrow> xs = ys \<and> us = vs"
  by (induction xs arbitrary: ys) (auto simp: Cons_eq_append_conv, (case_tac ys; auto)+)

lemma append_sep_eq_rev:
  assumes "sep \<notin> set us" and "sep \<notin> set vs"
  shows "xs @ sep # us = ys @ sep # vs \<longleftrightarrow> xs = ys \<and> us = vs"
proof -
  have "xs @ sep # us = ys @ sep # vs \<longleftrightarrow> rev us @ sep # rev xs = rev vs @ sep # rev ys"
    by (metis append.assoc append_Cons append_Nil rev.simps(2) rev_append rev_rev_ident)
  also have "\<dots> \<longleftrightarrow> rev us = rev vs \<and> rev xs = rev ys"
    using assms by (intro append_sep_eq) simp_all
  finally show ?thesis by auto
qed

section \<open>Association lists as maps\<close>

text \<open>Lookups stay lookups: the simplifier does not turn them into list membership.\<close>

declare map_of_eq_Some_iff [simp del] Some_eq_map_of_iff [simp del]

type_synonym ('k, 'v) amap = "('k \<times> 'v) list"

abbreviation amap_keys :: "('k, 'v) amap \<Rightarrow> 'k list" where
  "amap_keys m \<equiv> map fst m"

abbreviation amap_wf :: "('k, 'v) amap \<Rightarrow> bool" where
  "amap_wf m \<equiv> distinct (map fst m)"

text \<open>\<open>amap_modify k f m\<close> is \<open>if let Some(v) = m.get_mut(k) { *v = f(v) }\<close>.\<close>

definition amap_modify :: "'k \<Rightarrow> ('v \<Rightarrow> 'v) \<Rightarrow> ('k, 'v) amap \<Rightarrow> ('k, 'v) amap" where
  "amap_modify k f m = map (\<lambda>(k', v). (k', if k' = k then f v else v)) m"

definition amap_values :: "('k, 'v) amap \<Rightarrow> 'v list" where
  "amap_values m = map snd m"

text \<open>\<open>HashMap::get(..).copied().unwrap_or(d)\<close>.\<close>

definition get_or :: "'v \<Rightarrow> 'v option \<Rightarrow> 'v" where
  "get_or d x = (case x of None \<Rightarrow> d | Some v \<Rightarrow> v)"

lemma get_or_simps [simp]: "get_or d None = d" "get_or d (Some v) = v"
  by (simp_all add: get_or_def)

text \<open>Iteration of a \<open>BTreeMap\<close> is in ascending key order.\<close>

definition btree_iter :: "('k::linorder, 'v) amap \<Rightarrow> ('k \<times> 'v) list" where
  "btree_iter m = sort_key fst m"

lemma amap_modify_keys [simp]: "map fst (amap_modify k f m) = map fst m"
  by (simp add: amap_modify_def split_def comp_def)

lemma length_amap_modify [simp]: "length (amap_modify k f m) = length m"
  by (simp add: amap_modify_def)

lemma map_of_amap_modify [alist_simps]:
  "map_of (amap_modify k f m) k' = (if k' = k then map_option f (map_of m k') else map_of m k')"
  by (induction m) (auto simp: amap_modify_def)

lemmas amap_conv [alist_simps] = update_conv' delete_conv'

lemma amap_wf_update [simp]: "amap_wf m \<Longrightarrow> amap_wf (AList.update k v m)"
  by (rule distinct_update)

lemma amap_wf_delete [simp]: "amap_wf m \<Longrightarrow> amap_wf (AList.delete k m)"
  by (rule distinct_delete)

lemma set_amap_keys: "set (amap_keys m) = dom (map_of m)"
  by (simp add: dom_map_of_conv_image_fst)

lemma amap_mem_iff: "amap_wf m \<Longrightarrow> (k, v) \<in> set m \<longleftrightarrow> map_of m k = Some v"
  by (auto simp: map_of_eq_Some_iff)

lemma amap_values_ex:
  assumes "amap_wf m"
  shows "(\<exists>v \<in> set (amap_values m). P v) \<longleftrightarrow> (\<exists>k v. map_of m k = Some v \<and> P v)"
proof
  assume "\<exists>v \<in> set (amap_values m). P v"
  then obtain k v where "(k, v) \<in> set m" "P v" by (auto simp: amap_values_def)
  then show "\<exists>k v. map_of m k = Some v \<and> P v" using amap_mem_iff [OF assms] by blast
next
  assume "\<exists>k v. map_of m k = Some v \<and> P v"
  then obtain k v where "(k, v) \<in> set m" "P v" by (auto dest: map_of_SomeD)
  then show "\<exists>v \<in> set (amap_values m). P v" by (force simp: amap_values_def)
qed

lemma update_new_append: "k \<notin> set (amap_keys m) \<Longrightarrow> AList.update k v m = m @ [(k, v)]"
  by (induction m) auto

lemma map_of_None_keys: "map_of m k = None \<longleftrightarrow> k \<notin> set (amap_keys m)"
  by (auto simp: map_of_eq_None_iff)

lemma set_btree_iter [simp]: "set (btree_iter m) = set m"
  by (simp add: btree_iter_def)

lemma distinct_btree_iter [simp]: "distinct (map fst (btree_iter m)) \<longleftrightarrow> amap_wf m"
proof -
  have "mset (map fst (btree_iter m)) = mset (map fst m)"
    by (simp add: btree_iter_def)
  then show ?thesis by (rule mset_eq_imp_distinct_iff)
qed

lemma sorted_btree_iter [simp]: "sorted (map fst (btree_iter m))"
  by (simp add: btree_iter_def)

text \<open>Counting the values that satisfy a predicate, and how map updates move the count.\<close>

definition amap_count :: "('v \<Rightarrow> bool) \<Rightarrow> ('k, 'v) amap \<Rightarrow> nat" where
  "amap_count P m = length (filter P (amap_values m))"

lemma amap_count_Nil [simp]: "amap_count P [] = 0"
  by (simp add: amap_count_def amap_values_def)

lemma amap_count_Cons [simp]:
  "amap_count P ((k, v) # m) = (if P v then Suc (amap_count P m) else amap_count P m)"
  by (simp add: amap_count_def amap_values_def)

lemma amap_count_append [simp]: "amap_count P (m @ m') = amap_count P m + amap_count P m'"
  by (simp add: amap_count_def amap_values_def)

lemma amap_count_le_length: "amap_count P m \<le> length m"
  by (induction m) (auto split: prod.splits)

lemma amap_count_update_new:
  "map_of m k = None \<Longrightarrow>
   amap_count P (AList.update k v m) = amap_count P m + (if P v then 1 else 0)"
  by (simp add: map_of_None_keys update_new_append)

lemma amap_count_delete:
  "amap_wf m \<Longrightarrow> map_of m k = Some v \<Longrightarrow>
   amap_count P m = amap_count P (AList.delete k m) + (if P v then 1 else 0)"
proof (induction m)
  case Nil
  then show ?case by simp
next
  case (Cons kv m)
  obtain k' v' where kv: "kv = (k', v')" by (cases kv)
  show ?case
  proof (cases "k' = k")
    case True
    with Cons.prems kv have "k \<notin> set (amap_keys m)" by auto
    then have "AList.delete k m = m" by simp
    with True Cons.prems kv show ?thesis by simp
  next
    case False
    with Cons kv show ?thesis by auto
  qed
qed

lemma amap_modify_notin: "k \<notin> fst ` set m \<Longrightarrow> amap_modify k f m = m"
  by (induction m) (auto simp: amap_modify_def)

lemma amap_count_modify:
  "amap_wf m \<Longrightarrow> map_of m k = Some v \<Longrightarrow>
   amap_count P (amap_modify k f m) + (if P v then 1 else 0)
     = amap_count P m + (if P (f v) then 1 else 0)"
proof (induction m)
  case Nil
  then show ?case by simp
next
  case (Cons kv m)
  obtain k' v' where kv: "kv = (k', v')" by (cases kv)
  have step: "amap_modify k f (kv # m) = (k', if k' = k then f v' else v') # amap_modify k f m"
    by (simp add: kv amap_modify_def)
  show ?case
  proof (cases "k' = k")
    case True
    with Cons.prems kv have "k \<notin> fst ` set m" by auto
    with True Cons.prems kv step show ?thesis by (simp add: amap_modify_notin)
  next
    case False
    with Cons kv step show ?thesis by auto
  qed
qed

lemma amap_count_zero_iff: "amap_count P m = 0 \<longleftrightarrow> (\<forall>(k, v) \<in> set m. \<not> P v)"
  by (auto simp: amap_count_def amap_values_def filter_empty_conv split_def)

lemma amap_count_pos: "(k, v) \<in> set m \<Longrightarrow> P v \<Longrightarrow> 0 < amap_count P m"
  using amap_count_zero_iff [of P m] by (metis (no_types, lifting) case_prodD neq0_conv)

lemma amap_count_card:
  "amap_wf m \<Longrightarrow> amap_count P m = card {k. \<exists>v. map_of m k = Some v \<and> P v}"
proof (induction m)
  case Nil
  then show ?case by simp
next
  case (Cons kv m)
  obtain k v where kv: "kv = (k, v)" by (cases kv)
  with Cons.prems have k: "map_of m k = None" by (simp add: map_of_None_keys)
  let ?A = "{k. \<exists>v. map_of m k = Some v \<and> P v}"
  have "?A \<subseteq> dom (map_of m)" by auto
  then have "finite ?A" by (rule finite_subset) (rule finite_dom_map_of)
  moreover have "k \<notin> ?A" using k by simp
  moreover have "{k'. \<exists>v'. map_of (kv # m) k' = Some v' \<and> P v'} = (if P v then insert k ?A else ?A)"
    using kv k by auto
  ultimately show ?case using Cons kv by simp
qed

lemma amap_count_mono:
  assumes "amap_wf m" "amap_wf m'"
    and sub: "\<And>k v. map_of m k = Some v \<Longrightarrow> P v \<Longrightarrow> \<exists>w. map_of m' k = Some w \<and> Q w"
  shows "amap_count P m \<le> amap_count Q m'"
proof -
  have "{k. \<exists>w. map_of m' k = Some w \<and> Q w} \<subseteq> dom (map_of m')" by auto
  then have "finite {k. \<exists>w. map_of m' k = Some w \<and> Q w}"
    by (rule finite_subset) (rule finite_dom_map_of)
  then have "card {k. \<exists>v. map_of m k = Some v \<and> P v} \<le> card {k. \<exists>w. map_of m' k = Some w \<and> Q w}"
    by (rule card_mono) (use sub in blast)
  then show ?thesis by (simp add: amap_count_card [OF assms(1)] amap_count_card [OF assms(2)])
qed

lemma length_delete_Some:
  "amap_wf m \<Longrightarrow> map_of m k = Some v \<Longrightarrow> Suc (length (AList.delete k m)) = length m"
  using amap_count_delete [of m k v "\<lambda>_. True"]
  by (simp add: amap_count_def amap_values_def)

section \<open>Ordered sets as sorted lists\<close>

definition bset_insert :: "'a::linorder \<Rightarrow> 'a list \<Rightarrow> 'a list" where
  "bset_insert x xs = (if x \<in> set xs then xs else insort x xs)"

definition bset_remove :: "'a \<Rightarrow> 'a list \<Rightarrow> 'a list" where
  "bset_remove x xs = filter (\<lambda>y. y \<noteq> x) xs"

lemma set_bset_insert [simp]: "set (bset_insert x xs) = insert x (set xs)"
  by (auto simp: bset_insert_def set_insort_key)

lemma set_bset_remove [simp]: "set (bset_remove x xs) = set xs - {x}"
  by (auto simp: bset_remove_def)

lemma sorted_bset_insert [simp]: "sorted xs \<Longrightarrow> sorted (bset_insert x xs)"
  by (simp add: bset_insert_def sorted_insort)

lemma sorted_bset_remove [simp]: "sorted xs \<Longrightarrow> sorted (bset_remove x xs)"
  by (simp add: bset_remove_def sorted_wrt_filter)

lemma distinct_bset_insert [simp]: "distinct xs \<Longrightarrow> distinct (bset_insert x xs)"
  by (simp add: bset_insert_def distinct_insort)

lemma distinct_bset_remove [simp]: "distinct xs \<Longrightarrow> distinct (bset_remove x xs)"
  by (simp add: bset_remove_def)

lemma length_bset_remove_less: "x \<in> set xs \<Longrightarrow> length (bset_remove x xs) < length xs"
  unfolding bset_remove_def by (rule length_filter_less [where x = x]) simp_all

section \<open>Iterator combinators\<close>

text \<open>\<open>Iterator::min_by_key\<close>: the first element whose key is least.\<close>

fun min_by_key :: "('a \<Rightarrow> 'k::linorder) \<Rightarrow> 'a list \<Rightarrow> 'a option" where
  "min_by_key f [] = None"
| "min_by_key f (x # xs) =
     (case min_by_key f xs of None \<Rightarrow> Some x | Some y \<Rightarrow> if f y < f x then Some y else Some x)"

lemma min_by_key_None [simp]: "min_by_key f xs = None \<longleftrightarrow> xs = []"
  by (cases xs) (auto split: option.splits)

lemma min_by_key_mem: "min_by_key f xs = Some x \<Longrightarrow> x \<in> set xs"
  by (induction xs arbitrary: x) (auto split: option.splits if_splits)

lemma min_by_key_le: "min_by_key f xs = Some x \<Longrightarrow> y \<in> set xs \<Longrightarrow> f x \<le> f y"
proof (induction xs arbitrary: x y)
  case Nil
  then show ?case by simp
next
  case (Cons a xs)
  then show ?case
    by (cases "min_by_key f xs") (fastforce split: if_splits)+
qed

text \<open>\<open>Iterator::find_map\<close>, and an update of the first element that \<open>iter_mut().find(..)\<close> returns.\<close>

fun find_map :: "('a \<Rightarrow> 'b option) \<Rightarrow> 'a list \<Rightarrow> 'b option" where
  "find_map f [] = None"
| "find_map f (x # xs) = (case f x of None \<Rightarrow> find_map f xs | Some y \<Rightarrow> Some y)"

lemma find_map_Some: "find_map f xs = Some y \<Longrightarrow> \<exists>x \<in> set xs. f x = Some y"
  by (induction xs) (auto split: option.splits)

lemma find_map_None: "find_map f xs = None \<longleftrightarrow> (\<forall>x \<in> set xs. f x = None)"
  by (induction xs) (auto split: option.splits)

fun modify_first :: "('a \<Rightarrow> bool) \<Rightarrow> ('a \<Rightarrow> 'a) \<Rightarrow> 'a list \<Rightarrow> 'a list" where
  "modify_first P f [] = []"
| "modify_first P f (x # xs) = (if P x then f x # xs else x # modify_first P f xs)"

lemma modify_first_map:
  "(\<And>x. P x \<Longrightarrow> h (f x) = h x) \<Longrightarrow> map h (modify_first P f xs) = map h xs"
  by (induction xs) auto

lemma find_modify_first_same:
  "(\<And>x. P x \<Longrightarrow> P (f x)) \<Longrightarrow> List.find P (modify_first P f xs) = map_option f (List.find P xs)"
  by (induction xs) auto

lemma find_modify_first_other:
  "(\<And>x. P x \<Longrightarrow> \<not> Q x \<and> \<not> Q (f x)) \<Longrightarrow> List.find Q (modify_first P f xs) = List.find Q xs"
  by (induction xs) auto

section \<open>Depth-first search\<close>

text \<open>
  What a depth-first search knows of the nodes it has finished: nothing leads out of them,
  and there is no cycle among them. Finishing a node all of whose successors are finished
  keeps this.
\<close>

definition closed_acyclic :: "('a \<times> 'a) set \<Rightarrow> 'a set \<Rightarrow> bool" where
  "closed_acyclic R D \<longleftrightarrow> (\<forall>a b. (a, b) \<in> R \<longrightarrow> a \<in> D \<longrightarrow> b \<in> D) \<and> acyclic {(a, b) \<in> R. a \<in> D}"

lemma closed_acyclic_insert:
  assumes ok: "closed_acyclic R D" and n: "n \<notin> D" and succ: "\<And>t. (n, t) \<in> R \<Longrightarrow> t \<in> D"
  shows "closed_acyclic R (insert n D)"
proof -
  let ?R = "{(a, b) \<in> R. a \<in> D}" and ?R' = "{(a, b) \<in> R. a \<in> insert n D}"
  have closed: "\<And>a b. a \<in> D \<Longrightarrow> (a, b) \<in> R \<Longrightarrow> b \<in> D" and ac: "acyclic ?R"
    using ok by (auto simp: closed_acyclic_def)
  have stays: "(a, b) \<in> ?R'\<^sup>* \<Longrightarrow> a \<in> D \<Longrightarrow> b \<in> D \<and> (a, b) \<in> ?R\<^sup>*" for a b
  proof (induction rule: rtrancl_induct)
    case (step y z)
    then have "(y, z) \<in> ?R" "z \<in> D" using closed by auto
    with step show ?case by (auto intro: rtrancl_into_rtrancl)
  qed simp
  have "acyclic ?R'"
  proof (rule acyclicI, rule allI, rule notI)
    fix x
    assume "(x, x) \<in> ?R'\<^sup>+"
    then obtain y where y: "(x, y) \<in> ?R'" "(y, x) \<in> ?R'\<^sup>*" by (meson tranclD)
    then have "y \<in> D" using closed succ by auto
    with stays [OF y(2)] have x: "x \<in> D" "(y, x) \<in> ?R\<^sup>*" by blast+
    with y have "(x, y) \<in> ?R" by auto
    from this x(2) have "(x, x) \<in> ?R\<^sup>+" by (rule rtrancl_into_trancl2)
    with ac show False by (simp add: acyclic_def)
  qed
  moreover have "b \<in> insert n D" if "(a, b) \<in> R" "a \<in> insert n D" for a b
    using that closed succ by auto
  ultimately show ?thesis by (auto simp: closed_acyclic_def)
qed

lemma successively_trancl:
  "successively (\<lambda>a b. (a, b) \<in> R) xs \<Longrightarrow> 2 \<le> length xs \<Longrightarrow> (hd xs, last xs) \<in> R\<^sup>+"
proof (induction xs)
  case (Cons x xs)
  show ?case
  proof (cases "length xs = 1")
    case True
    then obtain y where "xs = [y]" by (auto simp: length_Suc_conv)
    with Cons.prems show ?thesis by auto
  next
    case False
    with Cons.prems have "2 \<le> length xs" by simp
    with Cons have "(x, hd xs) \<in> R" "(hd xs, last xs) \<in> R\<^sup>+" by (auto simp: successively_Cons)
    then have "(x, last xs) \<in> R\<^sup>+" by (rule trancl_into_trancl2)
    with \<open>2 \<le> length xs\<close> show ?thesis by auto
  qed
qed simp

section \<open>Interfaces\<close>

text \<open>
  An enum with an \<open>ALL\<close> table, a total \<open>as_str\<close> and a \<open>parse\<close> that searches the
  table. Its law is that the names are distinct; the round trip follows.
\<close>

locale string_enum =
  fixes all :: "'a list" and as_str :: "'a \<Rightarrow> string" and parse :: "string \<Rightarrow> 'a option"
  assumes all_complete: "x \<in> set all"
    and as_str_inj: "as_str x = as_str y \<Longrightarrow> x = y"
    and parse_find: "parse raw = List.find (\<lambda>p. as_str p = raw) all"
begin

lemma parse_as_str: "parse (as_str x) = Some x"
proof -
  have "List.find (\<lambda>p. as_str p = as_str x) all \<noteq> None"
    using all_complete [of x] by (auto simp: find_None_iff)
  then show ?thesis
    by (auto simp: parse_find find_Some_iff dest: as_str_inj)
qed

lemma parse_Some_iff: "parse raw = Some x \<longleftrightarrow> raw = as_str x"
  using parse_as_str by (auto simp: parse_find find_Some_iff)

lemma parse_None_iff: "parse raw = None \<longleftrightarrow> raw \<notin> range as_str"
  using parse_Some_iff by (metis not_None_eq rangeE rangeI)

end

text \<open>
  A key/value store as the clients use it: what a lookup returns after an insert, a
  removal and an in-place update.
\<close>

locale kv_store =
  fixes get :: "'m \<Rightarrow> 'k \<Rightarrow> 'v option"
    and put :: "'k \<Rightarrow> 'v \<Rightarrow> 'm \<Rightarrow> 'm"
    and del :: "'k \<Rightarrow> 'm \<Rightarrow> 'm"
    and modify :: "'k \<Rightarrow> ('v \<Rightarrow> 'v) \<Rightarrow> 'm \<Rightarrow> 'm"
    and wf :: "'m \<Rightarrow> bool"
  assumes get_put: "get (put k v m) k' = (if k' = k then Some v else get m k')"
    and get_del: "get (del k m) k' = (if k' = k then None else get m k')"
    and get_modify: "get (modify k f m) k' = (if k' = k then map_option f (get m k') else get m k')"
    and wf_put: "wf m \<Longrightarrow> wf (put k v m)"
    and wf_del: "wf m \<Longrightarrow> wf (del k m)"
    and wf_modify: "wf m \<Longrightarrow> wf (modify k f m)"
begin

lemma put_del_fresh: "get m k = None \<Longrightarrow> get (del k (put k v m)) = get m"
  by (auto simp: get_del get_put)

lemma modify_absent: "get m k = None \<Longrightarrow> get (modify k f m) = get m"
  by (auto simp: get_modify)

lemma modify_other: "k' \<noteq> k \<Longrightarrow> get (modify k f m) k' = get m k'"
  by (simp add: get_modify)

end

interpretation amap: kv_store map_of AList.update AList.delete amap_modify
  "\<lambda>m :: ('k, 'v) amap. amap_wf m"
  by unfold_locales (auto simp: alist_simps)

text \<open>
  A component driven by operations from a start state, with an invariant that every
  operation keeps. The result is about whole sequences of operations.
\<close>

locale machine =
  fixes start :: "'s" and step :: "'s \<Rightarrow> 'op \<Rightarrow> 's" and inv :: "'s \<Rightarrow> bool"
  assumes inv_start: "inv start"
    and inv_step: "inv s \<Longrightarrow> inv (step s op)"
begin

lemma run_inv: "inv s \<Longrightarrow> inv (foldl step s ops)"
  by (induction ops arbitrary: s) (auto simp: inv_step)

lemma reachable_inv: "inv (foldl step start ops)"
  by (rule run_inv [OF inv_start])

end

text \<open>
  A component whose operations keep the invariant when they meet a condition on the state they
  find. The result is about sequences of operations that all meet it on the way; a
  \<open>machine\<close> is the case without a condition.
\<close>

primrec along :: "('s \<Rightarrow> 'op \<Rightarrow> 's) \<Rightarrow> ('s \<Rightarrow> 'op \<Rightarrow> bool) \<Rightarrow> 's \<Rightarrow> 'op list \<Rightarrow> bool" where
  "along step allowed s [] \<longleftrightarrow> True"
| "along step allowed s (op # ops) \<longleftrightarrow> allowed s op \<and> along step allowed (step s op) ops"

locale checked_machine =
  fixes start :: "'s" and step :: "'s \<Rightarrow> 'op \<Rightarrow> 's" and allowed :: "'s \<Rightarrow> 'op \<Rightarrow> bool" and inv :: "'s \<Rightarrow> bool"
  assumes checked_start: "inv start"
    and checked_step: "inv s \<Longrightarrow> allowed s op \<Longrightarrow> inv (step s op)"
begin

lemma checked_run: "inv s \<Longrightarrow> along step allowed s ops \<Longrightarrow> inv (foldl step s ops)"
  by (induction ops arbitrary: s) (auto simp: checked_step)

lemma checked_reachable: "along step allowed start ops \<Longrightarrow> inv (foldl step start ops)"
  by (rule checked_run [OF checked_start])

end

sublocale machine \<subseteq> always: checked_machine start step "\<lambda>s op. True" inv
  by unfold_locales (simp_all add: inv_start inv_step)

end
