(* ===== verification/Rust_Text.thy ===== *)
theory Rust_Text
  imports Prelude
begin

text \<open>
  The string functions of the Rust standard library that the components call, on UTF-8
  byte strings: \<open>join\<close>, \<open>strip_prefix\<close>, \<open>trim\<close> and its variants, \<open>lines\<close>, \<open>split\<close>,
  \<open>replace\<close> and the ASCII case functions.
\<close>

section \<open>Joining and prefixes\<close>

fun join_strings :: "string \<Rightarrow> string list \<Rightarrow> string" where
  "join_strings sep [] = []"
| "join_strings sep [x] = x"
| "join_strings sep (x # y # xs) = x @ sep @ join_strings sep (y # xs)"

definition strip_prefix :: "string \<Rightarrow> string \<Rightarrow> string option" where
  "strip_prefix p s = (if take (length p) s = p then Some (drop (length p) s) else None)"

lemma strip_prefix_append [simp]: "strip_prefix p (p @ s) = Some s"
  by (simp add: strip_prefix_def)

lemma strip_prefix_Some_iff: "strip_prefix p s = Some r \<longleftrightarrow> s = p @ r"
  by (auto simp: strip_prefix_def) (metis append_take_drop_id)

section \<open>White space\<close>

text \<open>
  \<open>str::trim\<close> and \<open>char::is_control\<close> on UTF-8 bytes. The white-space characters are
  U+0009 to U+000D, U+0020, U+0085, U+00A0, U+1680, U+2000 to U+200A, U+2028, U+2029,
  U+202F, U+205F and U+3000; the control characters are U+0000 to U+001F and U+007F to
  U+009F. \<open>ws_len s\<close> is the byte length of the white-space character \<open>s\<close> starts with,
  0 when it starts with none.
\<close>

definition byte :: "char \<Rightarrow> nat" where
  "byte c = of_char c"

definition ws_len :: "string \<Rightarrow> nat" where
  "ws_len s =
     (case map byte (take 3 s) of
        [] \<Rightarrow> 0
      | a # rest \<Rightarrow>
          if 9 \<le> a \<and> a \<le> 13 \<or> a = 32 then 1
          else case rest of
            [] \<Rightarrow> 0
          | b # rest2 \<Rightarrow>
              if a = 0xC2 \<and> (b = 0x85 \<or> b = 0xA0) then 2
              else case rest2 of
                [] \<Rightarrow> 0
              | c # _ \<Rightarrow>
                  if a = 0xE1 \<and> b = 0x9A \<and> c = 0x80 \<or>
                     a = 0xE2 \<and> b = 0x80 \<and> (0x80 \<le> c \<and> c \<le> 0x8A \<or> c = 0xA8 \<or> c = 0xA9 \<or> c = 0xAF) \<or>
                     a = 0xE2 \<and> b = 0x81 \<and> c = 0x9F \<or>
                     a = 0xE3 \<and> b = 0x80 \<and> c = 0x80
                  then 3 else 0)"

lemma ws_len_Nil [simp]: "ws_len [] = 0"
  by (simp add: ws_len_def)

function trim_start :: "string \<Rightarrow> string" where
  "trim_start s = (if ws_len s = 0 then s else trim_start (drop (ws_len s) s))"
  by pat_completeness auto
termination
proof (relation "measure length")
  fix s :: string assume "ws_len s \<noteq> 0"
  then show "(drop (ws_len s) s, s) \<in> measure length" by (cases s) auto
qed simp

text \<open>The byte length of the white-space character a string ends with.\<close>

definition ws_end_len :: "string \<Rightarrow> nat" where
  "ws_end_len s =
     (if s \<noteq> [] \<and> ws_len (drop (length s - 1) s) = 1 then 1
      else if 2 \<le> length s \<and> ws_len (drop (length s - 2) s) = 2 then 2
      else if 3 \<le> length s \<and> ws_len (drop (length s - 3) s) = 3 then 3
      else 0)"

lemma ws_end_len_Nil [simp]: "ws_end_len [] = 0"
  by (simp add: ws_end_len_def)

function trim_end :: "string \<Rightarrow> string" where
  "trim_end s = (if ws_end_len s = 0 then s else trim_end (take (length s - ws_end_len s) s))"
  by pat_completeness auto
termination
proof (relation "measure length")
  fix s :: string assume "ws_end_len s \<noteq> 0"
  then show "(take (length s - ws_end_len s) s, s) \<in> measure length" by (cases s) auto
qed simp

declare trim_start.simps [simp del] trim_end.simps [simp del]

definition trim :: "string \<Rightarrow> string" where
  "trim s = trim_end (trim_start s)"

fun has_control :: "string \<Rightarrow> bool" where
  "has_control [] = False"
| "has_control (c # s) =
     (byte c < 32 \<or> byte c = 127 \<or>
      byte c = 0xC2 \<and> (case s of [] \<Rightarrow> False | d # _ \<Rightarrow> 0x80 \<le> byte d \<and> byte d \<le> 0x9F) \<or>
      has_control s)"

section \<open>Splitting and replacing\<close>

abbreviation newline :: char where
  "newline \<equiv> CHR 0x0A"

abbreviation carriage_return :: char where
  "carriage_return \<equiv> CHR 0x0D"

abbreviation single_quote :: string where
  "single_quote \<equiv> [CHR 0x27]"

text \<open>The em dash of the source texts, in UTF-8.\<close>

definition em_dash :: string where
  "em_dash = [CHR 0xE2, CHR 0x80, CHR 0x94]"

text \<open>\<open>trim_start_matches\<close>, \<open>trim_end_matches\<close> and \<open>trim_matches\<close> of one ASCII character.\<close>

definition trim_start_matches :: "char \<Rightarrow> string \<Rightarrow> string" where
  "trim_start_matches c s = dropWhile (\<lambda>x. x = c) s"

definition trim_end_matches :: "char \<Rightarrow> string \<Rightarrow> string" where
  "trim_end_matches c s = rev (dropWhile (\<lambda>x. x = c) (rev s))"

definition trim_matches :: "char \<Rightarrow> string \<Rightarrow> string" where
  "trim_matches c s = trim_end_matches c (trim_start_matches c s)"

text \<open>
  \<open>str::lines\<close>: the pieces between line feeds, without the carriage return that precedes
  a line feed; a final line feed starts no further line.
\<close>

definition drop_cr :: "string \<Rightarrow> string" where
  "drop_cr acc = (case acc of [] \<Rightarrow> [] | c # cs \<Rightarrow> if c = carriage_return then cs else c # cs)"

fun lines_from :: "string \<Rightarrow> string \<Rightarrow> string list" where
  "lines_from acc [] = (if acc = [] then [] else [rev acc])"
| "lines_from acc (c # cs) =
     (if c = newline then rev (drop_cr acc) # lines_from [] cs else lines_from (c # acc) cs)"

definition lines :: "string \<Rightarrow> string list" where
  "lines s = lines_from [] s"

text \<open>\<open>str::split\<close> of one character: always at least one piece.\<close>

fun split_on :: "char \<Rightarrow> string \<Rightarrow> string list" where
  "split_on c [] = [[]]"
| "split_on c (x # xs) =
     (if x = c then [] # split_on c xs
      else case split_on c xs of [] \<Rightarrow> [[x]] | p # ps \<Rightarrow> (x # p) # ps)"

text \<open>\<open>replace("**", "")\<close>: non-overlapping occurrences from the left.\<close>

fun remove_stars :: "string \<Rightarrow> string" where
  "remove_stars (a # b # s) =
     (if a = CHR ''*'' \<and> b = CHR ''*'' then remove_stars s else a # remove_stars (b # s))"
| "remove_stars s = s"

definition ascii_lower :: "char \<Rightarrow> char" where
  "ascii_lower c = (if 65 \<le> byte c \<and> byte c \<le> 90 then char_of (byte c + 32) else c)"

definition to_ascii_lowercase :: "string \<Rightarrow> string" where
  "to_ascii_lowercase s = map ascii_lower s"

definition eq_ignore_ascii_case :: "string \<Rightarrow> string \<Rightarrow> bool" where
  "eq_ignore_ascii_case s t \<longleftrightarrow> to_ascii_lowercase s = to_ascii_lowercase t"

definition show_int :: "int \<Rightarrow> string" where
  "show_int i = (if i < 0 then CHR ''-'' # show_nat (nat (- i)) else show_nat (nat i))"

section \<open>What trimming leaves\<close>

lemma trim_Nil [simp]: "trim [] = []"
  by (simp add: trim_def trim_start.simps trim_end.simps)

lemma trim_start_suffix: "\<exists>p. s = p @ trim_start s"
proof (induction s rule: trim_start.induct)
  case (1 s)
  show ?case
  proof (cases "ws_len s = 0")
    case True
    then have "s = [] @ trim_start s" by (simp add: trim_start.simps [of s])
    then show ?thesis by blast
  next
    case False
    with 1 obtain p where p: "drop (ws_len s) s = p @ trim_start (drop (ws_len s) s)" by blast
    have "trim_start s = trim_start (drop (ws_len s) s)" using False by (simp add: trim_start.simps [of s])
    with p have "s = (take (ws_len s) s @ p) @ trim_start s" by (metis append.assoc append_take_drop_id)
    then show ?thesis by blast
  qed
qed

lemma trim_end_prefix: "\<exists>p. s = trim_end s @ p"
proof (induction s rule: trim_end.induct)
  case (1 s)
  let ?n = "length s - ws_end_len s"
  show ?case
  proof (cases "ws_end_len s = 0")
    case True
    then have "s = trim_end s @ []" by (simp add: trim_end.simps [of s])
    then show ?thesis by blast
  next
    case False
    with 1 obtain p where p: "take ?n s = trim_end (take ?n s) @ p" by blast
    have "trim_end s = trim_end (take ?n s)" using False by (simp add: trim_end.simps [of s])
    with p have "s = trim_end s @ (p @ drop ?n s)" by (metis append.assoc append_take_drop_id)
    then show ?thesis by blast
  qed
qed

lemma set_trim: "set (trim s) \<subseteq> set s"
  using trim_start_suffix [of s] trim_end_prefix [of "trim_start s"]
  unfolding trim_def by (metis Un_iff set_append subsetI)

end
