(* ===== verification/Cap_Stop.thy ===== *)
theory Cap_Stop
  imports Rust_Text
begin

text \<open>
  Typed cap stops (\<open>refact-work-core/src/cap_stop.rs\<close>): why a run stopped at a limit,
  and whether the parent may raise the limit and resume it. The JSON codec belongs to
  \<open>serde_json\<close> and is a parameter (\<open>to_json\<close>, \<open>from_json\<close>).
\<close>

datatype cap_kind =
  Steps | GoalTurns | GoalTokens | GoalMinutes | GoalCostCents | GoalNoProgress | ContextTokens | Spawns

primrec cap_kind_as_str :: "cap_kind \<Rightarrow> string" where
  "cap_kind_as_str Steps = ''max_steps''"
| "cap_kind_as_str GoalTurns = ''goal.max_turns''"
| "cap_kind_as_str GoalTokens = ''goal.max_tokens''"
| "cap_kind_as_str GoalMinutes = ''goal.max_minutes''"
| "cap_kind_as_str GoalCostCents = ''goal.max_cost_cents''"
| "cap_kind_as_str GoalNoProgress = ''goal.no_progress_turns''"
| "cap_kind_as_str ContextTokens = ''context_tokens''"
| "cap_kind_as_str Spawns = ''max_spawns''"

datatype cap_scope = ChildScope | RootScope | ProjectScope | EngineScope

record cap_stop =
  cs_key :: cap_kind
  cs_scope :: cap_scope
  cs_limit :: nat
  cs_used :: nat
  cs_resumable :: bool
  cs_run_generation :: nat

definition cap_stop_valid :: "cap_stop \<Rightarrow> bool" where
  "cap_stop_valid c \<longleftrightarrow>
     cs_limit c > 0 \<and> cs_used c \<ge> cs_limit c \<and> (cs_scope c = ChildScope \<or> cs_key c = Spawns)"

definition parent_can_raise_steps :: "cap_stop \<Rightarrow> bool" where
  "parent_can_raise_steps c \<longleftrightarrow>
     cap_stop_valid c \<and> cs_resumable c \<and> cs_key c = Steps \<and> cs_scope c = ChildScope"

definition cap_stop_from_error :: "(string \<Rightarrow> cap_stop option) \<Rightarrow> string \<Rightarrow> cap_stop option" where
  "cap_stop_from_error from_json err =
     (case strip_prefix ''CAP_STOP:'' err of
        None \<Rightarrow> None
      | Some body \<Rightarrow>
          (case from_json body of
             None \<Rightarrow> None
           | Some stop \<Rightarrow> if cap_stop_valid stop then Some stop else None))"

definition cap_stop_as_error :: "(cap_stop \<Rightarrow> 'e + string) \<Rightarrow> cap_stop \<Rightarrow> 'e + string" where
  "cap_stop_as_error to_json c =
     (case to_json c of Inl e \<Rightarrow> Inl e | Inr json \<Rightarrow> Inr (''CAP_STOP:'' @ json))"

lemma parent_can_raise_steps_scope:
  "parent_can_raise_steps c \<Longrightarrow> cs_scope c = ChildScope \<and> cs_limit c \<le> cs_used c"
  by (simp add: parent_can_raise_steps_def cap_stop_valid_def)

text \<open>
  A stop that was written as an error string with a serialiser the parser inverts is
  read back exactly when it is valid, and only valid stops are ever read: an exhausted
  positive limit, at child scope unless it is a spawn cap.
\<close>

lemma cap_stop_error_roundtrip:
  assumes json: "\<And>c j. to_json c = Inr j \<Longrightarrow> from_json j = Some c"
    and written: "cap_stop_as_error to_json stop = Inr err"
  shows "cap_stop_from_error from_json err = (if cap_stop_valid stop then Some stop else None)"
proof -
  from written obtain j where "to_json stop = Inr j" and "err = ''CAP_STOP:'' @ j"
    by (auto simp: cap_stop_as_error_def split: sum.splits)
  then show ?thesis
    using json [of stop j] by (simp only: cap_stop_from_error_def strip_prefix_append) simp
qed

definition sample_stop :: cap_stop where
  "sample_stop =
     \<lparr>cs_key = Steps, cs_scope = ChildScope, cs_limit = 10, cs_used = 10,
      cs_resumable = True, cs_run_generation = 3\<rparr>"

definition sample_json :: string where
  "sample_json =
     ''{\"key\":\"max_steps\",\"scope\":\"child\",\"limit\":10,\"used\":10,\"resumable\":true,\"run_generation\":3}''"

lemma cap_stop_error_roundtrip_example:
  "cap_stop_from_error (\<lambda>j. if j = sample_json then Some sample_stop else None)
     (''CAP_STOP:'' @ sample_json) = Some sample_stop"
proof -
  define to_json where
    "to_json = (\<lambda>c. if c = sample_stop then Inr sample_json else (Inl () :: unit + string))"
  have "cap_stop_as_error to_json sample_stop = Inr (''CAP_STOP:'' @ sample_json)"
    by (simp add: cap_stop_as_error_def to_json_def)
  moreover have "\<And>c j. to_json c = Inr j \<Longrightarrow>
      (if j = sample_json then Some sample_stop else None) = Some c"
    by (auto simp: to_json_def split: if_splits)
  ultimately have "cap_stop_from_error (\<lambda>j. if j = sample_json then Some sample_stop else None)
      (''CAP_STOP:'' @ sample_json) = (if cap_stop_valid sample_stop then Some sample_stop else None)"
    by (intro cap_stop_error_roundtrip [of to_json]) blast+
  moreover have "cap_stop_valid sample_stop"
    by (simp add: cap_stop_valid_def sample_stop_def)
  ultimately show ?thesis by simp
qed

end
