(* ===== verification/Identity.thy ===== *)
theory Identity
  imports Prelude
begin

text \<open>
  Work identities (\<open>refact-work-core/src/identity.rs\<close>): a run is one attempt of a piece
  of work, a piece of work is named by its runtime and id, and every run belongs to a
  scope (project and root checkout). The derived \<open>Ord\<close> of the source is the
  lexicographic order of the fields, given here as \<open>linorder\<close> instances, so that maps
  keyed by runs iterate as the source's \<open>BTreeMap\<close> does. The rendered form of a run key
  is shown to identify the run.
\<close>

section \<open>Runtime kinds\<close>

datatype runtime_kind = Trajectory | BackgroundAgent

definition runtime_kind_all :: "runtime_kind list" where
  "runtime_kind_all = [Trajectory, BackgroundAgent]"

primrec runtime_kind_as_str :: "runtime_kind \<Rightarrow> string" where
  "runtime_kind_as_str Trajectory = ''trajectory''"
| "runtime_kind_as_str BackgroundAgent = ''background_agent''"

definition runtime_kind_parse :: "string \<Rightarrow> runtime_kind option" where
  "runtime_kind_parse raw = List.find (\<lambda>k. runtime_kind_as_str k = raw) runtime_kind_all"

primrec runtime_kind_rank :: "runtime_kind \<Rightarrow> nat" where
  "runtime_kind_rank Trajectory = 0"
| "runtime_kind_rank BackgroundAgent = 1"

lemma runtime_kind_rank_inj: "runtime_kind_rank a = runtime_kind_rank b \<Longrightarrow> a = b"
  by (cases a; cases b) simp_all

instantiation runtime_kind :: linorder
begin

definition less_eq_runtime_kind :: "runtime_kind \<Rightarrow> runtime_kind \<Rightarrow> bool" where
  "less_eq_runtime_kind a b \<longleftrightarrow> runtime_kind_rank a \<le> runtime_kind_rank b"

definition less_runtime_kind :: "runtime_kind \<Rightarrow> runtime_kind \<Rightarrow> bool" where
  "less_runtime_kind a b \<longleftrightarrow> runtime_kind_rank a < runtime_kind_rank b"

instance
  by standard (auto simp: less_eq_runtime_kind_def less_runtime_kind_def dest: runtime_kind_rank_inj)

end

section \<open>Work keys and run keys\<close>

datatype work_key = WorkKey (wk_runtime: runtime_kind) (wk_id: string)

definition work_key_trajectory :: "string \<Rightarrow> work_key" where
  "work_key_trajectory i = WorkKey Trajectory i"

definition work_key_background_agent :: "string \<Rightarrow> work_key" where
  "work_key_background_agent i = WorkKey BackgroundAgent i"

definition work_key_display :: "work_key \<Rightarrow> string" where
  "work_key_display w = runtime_kind_as_str (wk_runtime w) @ '':'' @ wk_id w"

datatype run_key = RunKey (rk_work: work_key) (rk_attempt: nat)

definition work_key_run :: "work_key \<Rightarrow> nat \<Rightarrow> run_key" where
  "work_key_run w attempt = RunKey w attempt"

definition run_key_runtime :: "run_key \<Rightarrow> runtime_kind" where
  "run_key_runtime r = wk_runtime (rk_work r)"

definition run_key_display :: "run_key \<Rightarrow> string" where
  "run_key_display r = work_key_display (rk_work r) @ ''#'' @ show_nat (rk_attempt r)"

definition work_key_tuple :: "work_key \<Rightarrow> runtime_kind \<times> string" where
  "work_key_tuple w = (wk_runtime w, wk_id w)"

lemma work_key_tuple_inj: "work_key_tuple a = work_key_tuple b \<Longrightarrow> a = b"
  by (cases a; cases b) (simp add: work_key_tuple_def)

instantiation work_key :: linorder
begin

definition less_eq_work_key :: "work_key \<Rightarrow> work_key \<Rightarrow> bool" where
  "less_eq_work_key a b \<longleftrightarrow> work_key_tuple a \<le> work_key_tuple b"

definition less_work_key :: "work_key \<Rightarrow> work_key \<Rightarrow> bool" where
  "less_work_key a b \<longleftrightarrow> work_key_tuple a < work_key_tuple b"

instance
  by standard (auto simp: less_eq_work_key_def less_work_key_def dest: work_key_tuple_inj)

end

definition run_key_tuple :: "run_key \<Rightarrow> work_key \<times> nat" where
  "run_key_tuple r = (rk_work r, rk_attempt r)"

lemma run_key_tuple_inj: "run_key_tuple a = run_key_tuple b \<Longrightarrow> a = b"
  by (cases a; cases b) (simp add: run_key_tuple_def)

instantiation run_key :: linorder
begin

definition less_eq_run_key :: "run_key \<Rightarrow> run_key \<Rightarrow> bool" where
  "less_eq_run_key a b \<longleftrightarrow> run_key_tuple a \<le> run_key_tuple b"

definition less_run_key :: "run_key \<Rightarrow> run_key \<Rightarrow> bool" where
  "less_run_key a b \<longleftrightarrow> run_key_tuple a < run_key_tuple b"

instance
  by standard (auto simp: less_eq_run_key_def less_run_key_def dest: run_key_tuple_inj)

end

lemmas key_order_defs =
  less_eq_runtime_kind_def less_runtime_kind_def less_eq_work_key_def less_work_key_def
  less_eq_run_key_def less_run_key_def work_key_tuple_def run_key_tuple_def

section \<open>Scopes\<close>

datatype project_key = ProjectKey (project_key_as_str: string)

datatype checkout_key = CheckoutKey (checkout_key_as_str: string)

instantiation checkout_key :: linorder
begin

definition less_eq_checkout_key :: "checkout_key \<Rightarrow> checkout_key \<Rightarrow> bool" where
  "less_eq_checkout_key a b \<longleftrightarrow> checkout_key_as_str a \<le> checkout_key_as_str b"

definition less_checkout_key :: "checkout_key \<Rightarrow> checkout_key \<Rightarrow> bool" where
  "less_checkout_key a b \<longleftrightarrow> checkout_key_as_str a < checkout_key_as_str b"

instance
  by standard
    (auto simp: less_eq_checkout_key_def less_checkout_key_def intro: checkout_key.expand)

end

instantiation project_key :: linorder
begin

definition less_eq_project_key :: "project_key \<Rightarrow> project_key \<Rightarrow> bool" where
  "less_eq_project_key a b \<longleftrightarrow> project_key_as_str a \<le> project_key_as_str b"

definition less_project_key :: "project_key \<Rightarrow> project_key \<Rightarrow> bool" where
  "less_project_key a b \<longleftrightarrow> project_key_as_str a < project_key_as_str b"

instance
  by standard
    (auto simp: less_eq_project_key_def less_project_key_def intro: project_key.expand)

end

record work_scope =
  scope_project :: project_key
  scope_root :: checkout_key

definition work_scope_single :: "string \<Rightarrow> work_scope" where
  "work_scope_single project =
     \<lparr>scope_project = ProjectKey project, scope_root = CheckoutKey project\<rparr>"

section \<open>Rendered keys identify runs\<close>

interpretation runtime_kind_codec:
  string_enum runtime_kind_all runtime_kind_as_str runtime_kind_parse
proof
  fix x y :: runtime_kind and raw :: string
  show "x \<in> set runtime_kind_all"
    by (cases x) (simp_all add: runtime_kind_all_def)
  show "runtime_kind_as_str x = runtime_kind_as_str y \<Longrightarrow> x = y"
    by (cases x; cases y) simp_all
  show "runtime_kind_parse raw = List.find (\<lambda>p. runtime_kind_as_str p = raw) runtime_kind_all"
    by (rule runtime_kind_parse_def)
qed

lemma runtime_kind_as_str_no_colon: "CHR '':'' \<notin> set (runtime_kind_as_str k)"
  by (cases k) simp_all

lemma work_key_display_eq_iff: "work_key_display a = work_key_display b \<longleftrightarrow> a = b"
proof -
  have "work_key_display a = work_key_display b \<longleftrightarrow>
      runtime_kind_as_str (wk_runtime a) = runtime_kind_as_str (wk_runtime b) \<and> wk_id a = wk_id b"
    by (simp add: work_key_display_def append_sep_eq runtime_kind_as_str_no_colon)
  then show ?thesis
    by (auto intro: work_key.expand dest: runtime_kind_codec.as_str_inj)
qed

lemma show_nat_no_hash: "CHR ''#'' \<notin> set (show_nat n)"
  by (auto dest: show_nat_digits simp: is_digit_def)

text \<open>
  The rendered form of a run key, \<open>runtime:id#attempt\<close>, identifies the run: two
  run keys render alike exactly when they are equal, whatever characters the work id
  contains.
\<close>

lemma run_key_display_eq_iff: "run_key_display a = run_key_display b \<longleftrightarrow> a = b"
proof -
  have "run_key_display a = run_key_display b \<longleftrightarrow>
      work_key_display (rk_work a) = work_key_display (rk_work b) \<and>
      show_nat (rk_attempt a) = show_nat (rk_attempt b)"
    by (simp add: run_key_display_def append_sep_eq_rev show_nat_no_hash)
  then show ?thesis
    by (auto simp: work_key_display_eq_iff intro: run_key.expand)
qed

end
