(* ===== verification/Contracts.thy ===== *)
theory Contracts
  imports Identity
begin

text \<open>
  The shared work contracts (\<open>refact-work-core/src/contracts.rs\<close>): the life-cycle phase,
  origin and priority of a run with their string codecs, the summary a worker publishes
  and its activity classification.
\<close>

section \<open>Phases\<close>

datatype work_phase =
  Queued | Admitted | Running | ParkedPhase | Waiting | Finished | Failed | CancelledPhase

definition work_phase_all :: "work_phase list" where
  "work_phase_all =
     [Queued, Admitted, Running, ParkedPhase, Waiting, Finished, Failed, CancelledPhase]"

primrec work_phase_as_str :: "work_phase \<Rightarrow> string" where
  "work_phase_as_str Queued = ''queued''"
| "work_phase_as_str Admitted = ''admitted''"
| "work_phase_as_str Running = ''running''"
| "work_phase_as_str ParkedPhase = ''parked''"
| "work_phase_as_str Waiting = ''waiting''"
| "work_phase_as_str Finished = ''finished''"
| "work_phase_as_str Failed = ''failed''"
| "work_phase_as_str CancelledPhase = ''cancelled''"

definition work_phase_parse :: "string \<Rightarrow> work_phase option" where
  "work_phase_parse raw = List.find (\<lambda>p. work_phase_as_str p = raw) work_phase_all"

definition work_phase_is_terminal :: "work_phase \<Rightarrow> bool" where
  "work_phase_is_terminal p \<longleftrightarrow> p \<in> {Finished, Failed, CancelledPhase}"

definition work_phase_is_active :: "work_phase \<Rightarrow> bool" where
  "work_phase_is_active p \<longleftrightarrow> p \<in> {Admitted, Running, ParkedPhase, Waiting}"

section \<open>Origins\<close>

datatype work_origin = UserOrigin | Subchat | SchedulerOrigin | External

definition work_origin_all :: "work_origin list" where
  "work_origin_all = [UserOrigin, Subchat, SchedulerOrigin, External]"

primrec work_origin_as_str :: "work_origin \<Rightarrow> string" where
  "work_origin_as_str UserOrigin = ''user''"
| "work_origin_as_str Subchat = ''subchat''"
| "work_origin_as_str SchedulerOrigin = ''scheduler''"
| "work_origin_as_str External = ''external''"

definition work_origin_parse :: "string \<Rightarrow> work_origin option" where
  "work_origin_parse raw = List.find (\<lambda>p. work_origin_as_str p = raw) work_origin_all"

section \<open>Priorities\<close>

text \<open>Declared most urgent first, so the derived order puts the most urgent class lowest.\<close>

datatype work_priority = UserBlocking | Interactive | Normal | Speculative

definition work_priority_all :: "work_priority list" where
  "work_priority_all = [UserBlocking, Interactive, Normal, Speculative]"

primrec work_priority_as_str :: "work_priority \<Rightarrow> string" where
  "work_priority_as_str UserBlocking = ''user_blocking''"
| "work_priority_as_str Interactive = ''interactive''"
| "work_priority_as_str Normal = ''normal''"
| "work_priority_as_str Speculative = ''speculative''"

definition work_priority_names :: "string list" where
  "work_priority_names = [''user_blocking'', ''interactive'', ''normal'', ''speculative'']"

definition work_priority_parse :: "string \<Rightarrow> work_priority option" where
  "work_priority_parse raw = List.find (\<lambda>p. work_priority_as_str p = raw) work_priority_all"

primrec work_priority_rank :: "work_priority \<Rightarrow> nat" where
  "work_priority_rank UserBlocking = 0"
| "work_priority_rank Interactive = 1"
| "work_priority_rank Normal = 2"
| "work_priority_rank Speculative = 3"

lemma work_priority_rank_inj: "work_priority_rank a = work_priority_rank b \<Longrightarrow> a = b"
  by (cases a; cases b) simp_all

instantiation work_priority :: linorder
begin

definition less_eq_work_priority :: "work_priority \<Rightarrow> work_priority \<Rightarrow> bool" where
  "less_eq_work_priority a b \<longleftrightarrow> work_priority_rank a \<le> work_priority_rank b"

definition less_work_priority :: "work_priority \<Rightarrow> work_priority \<Rightarrow> bool" where
  "less_work_priority a b \<longleftrightarrow> work_priority_rank a < work_priority_rank b"

instance
  by standard
    (auto simp: less_eq_work_priority_def less_work_priority_def dest: work_priority_rank_inj)

end

lemmas work_priority_order_defs = less_eq_work_priority_def less_work_priority_def

section \<open>Summaries\<close>

datatype activity_state = Idle | Recent | Stale

record work_summary =
  sum_work :: work_key
  sum_run :: "run_key option"
  sum_scope :: work_scope
  sum_phase :: work_phase
  sum_origin :: work_origin
  sum_title :: string
  sum_depth :: nat
  sum_parent :: "work_key option"
  sum_updated_at_secs :: nat
  sum_activity :: activity_state
  sum_detail :: "string option"

definition work_summary_new :: "work_key \<Rightarrow> work_scope \<Rightarrow> work_phase \<Rightarrow> string \<Rightarrow> work_summary" where
  "work_summary_new work scope phase title =
     \<lparr>sum_work = work, sum_run = None, sum_scope = scope, sum_phase = phase,
      sum_origin = UserOrigin, sum_title = title, sum_depth = 0, sum_parent = None,
      sum_updated_at_secs = 0, sum_activity = Idle, sum_detail = None\<rparr>"

definition work_summary_runtime :: "work_summary \<Rightarrow> runtime_kind" where
  "work_summary_runtime s = wk_runtime (sum_work s)"

definition classify_activity :: "nat \<Rightarrow> nat \<Rightarrow> work_summary \<Rightarrow> work_summary" where
  "classify_activity now_secs recent_window_secs s =
     (let age = sat_sub now_secs (sum_updated_at_secs s)
      in s\<lparr>sum_activity :=
             if work_phase_is_terminal (sum_phase s) then Idle
             else if age \<le> recent_window_secs then Recent
             else Stale\<rparr>)"

text \<open>\<open>WorkerProjection::find_work\<close>, over the list the implementor publishes.\<close>

definition find_work :: "work_summary list \<Rightarrow> work_key \<Rightarrow> work_summary option" where
  "find_work list_work w = List.find (\<lambda>s. sum_work s = w) list_work"

section \<open>Codecs and classification\<close>

interpretation work_phase_codec: string_enum work_phase_all work_phase_as_str work_phase_parse
proof
  fix x y :: work_phase and raw :: string
  show "x \<in> set work_phase_all"
    by (cases x) (simp_all add: work_phase_all_def)
  show "work_phase_as_str x = work_phase_as_str y \<Longrightarrow> x = y"
    by (cases x; cases y) simp_all
  show "work_phase_parse raw = List.find (\<lambda>p. work_phase_as_str p = raw) work_phase_all"
    by (rule work_phase_parse_def)
qed

interpretation work_origin_codec: string_enum work_origin_all work_origin_as_str work_origin_parse
proof
  fix x y :: work_origin and raw :: string
  show "x \<in> set work_origin_all"
    by (cases x) (simp_all add: work_origin_all_def)
  show "work_origin_as_str x = work_origin_as_str y \<Longrightarrow> x = y"
    by (cases x; cases y) simp_all
  show "work_origin_parse raw = List.find (\<lambda>p. work_origin_as_str p = raw) work_origin_all"
    by (rule work_origin_parse_def)
qed

interpretation work_priority_codec:
  string_enum work_priority_all work_priority_as_str work_priority_parse
proof
  fix x y :: work_priority and raw :: string
  show "x \<in> set work_priority_all"
    by (cases x) (simp_all add: work_priority_all_def)
  show "work_priority_as_str x = work_priority_as_str y \<Longrightarrow> x = y"
    by (cases x; cases y) simp_all
  show "work_priority_parse raw = List.find (\<lambda>p. work_priority_as_str p = raw) work_priority_all"
    by (rule work_priority_parse_def)
qed

text \<open>
  The persisted names of phases, origins, priorities and runtimes round-trip: a
  string parses to a value exactly when it is that value's name, so no two values share
  a name and every foreign string is refused. The priority names the settings advertise
  are the names of the priority classes, most urgent first.
\<close>

lemma enum_names_roundtrip:
  "(work_phase_parse s = Some p \<longleftrightarrow> s = work_phase_as_str p) \<and>
   (work_origin_parse s = Some wo \<longleftrightarrow> s = work_origin_as_str wo) \<and>
   (work_priority_parse s = Some pr \<longleftrightarrow> s = work_priority_as_str pr) \<and>
   (runtime_kind_parse s = Some rk \<longleftrightarrow> s = runtime_kind_as_str rk) \<and>
   (work_priority_parse s = None \<longleftrightarrow> s \<notin> set work_priority_names) \<and>
   map work_priority_as_str work_priority_all = work_priority_names \<and>
   sorted work_priority_all"
proof -
  have names: "map work_priority_as_str work_priority_all = work_priority_names"
    by (simp add: work_priority_all_def work_priority_names_def)
  have rng: "range work_priority_as_str = set (map work_priority_as_str work_priority_all)"
    using work_priority_codec.all_complete by auto
  have sorted: "sorted work_priority_all"
    by (simp add: work_priority_all_def work_priority_order_defs)
  show ?thesis
    using names sorted rng
    by (simp add: work_phase_codec.parse_Some_iff work_origin_codec.parse_Some_iff
        work_priority_codec.parse_Some_iff runtime_kind_codec.parse_Some_iff
        work_priority_codec.parse_None_iff)
qed

lemma work_phase_trichotomy:
  "p = Queued \<and> \<not> work_phase_is_active p \<and> \<not> work_phase_is_terminal p \<or>
   p \<noteq> Queued \<and> work_phase_is_active p \<and> \<not> work_phase_is_terminal p \<or>
   p \<noteq> Queued \<and> \<not> work_phase_is_active p \<and> work_phase_is_terminal p"
  by (cases p) (simp_all add: work_phase_is_active_def work_phase_is_terminal_def)

lemma classify_activity_stale_iff:
  "sum_activity (classify_activity now w s) = Stale \<longleftrightarrow>
   \<not> work_phase_is_terminal (sum_phase s) \<and> sum_updated_at_secs s + w < now"
  by (auto simp: classify_activity_def Let_def sat_sub_def)

lemma find_work_Some:
  "find_work ws w = Some s \<Longrightarrow> s \<in> set ws \<and> sum_work s = w"
  by (auto simp: find_work_def find_Some_iff)

end
