(* ===== verification/Settings.thy ===== *)
theory Settings
  imports Contracts Rust_Text
begin

text \<open>
  The coordination settings (\<open>refact-work-core/src/settings.rs\<close>): the operator's limits
  for admission, approvals, questions, leases, the coordination store and provider
  pressure; their defaults; the validation that reports every violated bound; and the
  process-wide slot that only ever holds validated settings. The struct is one record,
  declared in two steps; \<open>usize\<close>, \<open>u64\<close> and \<open>u32\<close> fields are \<open>nat\<close>.
\<close>

section \<open>The settings struct\<close>

record admission_settings =
  enabled :: bool
  auto_inject_enabled :: bool
  memory_supervisor_override :: bool
  max_active_engine :: nat
  max_active_project :: nat
  max_active_root :: nat
  root_fairness_quantum :: nat
  root_weights :: "(string, nat) amap"
  max_root_weight_entries :: nat
  max_resume_burst :: nat
  default_priority :: work_priority
  max_priority_burst :: nat
  max_pending :: nat
  max_outstanding :: nat
  max_parked_residency :: nat
  max_subchat_depth :: nat
  max_read_stamps :: nat
  max_write_records :: nat
  max_undo_entries_per_file :: nat
  max_undo_bytes :: nat
  overview_default_rows :: nat
  overview_max_rows :: nat
  max_work_views :: nat
  max_work_cursors :: nat
  max_work_history_rows :: nat
  max_work_history_bytes :: nat
  max_work_provenance_records :: nat
  max_work_provenance_bytes :: nat
  work_cursor_ttl_secs :: nat
  work_subscription_interval_ms :: nat
  work_stream_timeout_ms :: nat
  work_reconnect_max_ms :: nat
  inspect_max_paths :: nat
  work_root_presence_ttl_ms :: nat
  capsule_token_budget :: nat
  capsule_max_rows :: nat
  min_interval_secs :: nat
  debounce_secs :: nat
  recent_window_secs :: nat
  lock_timeout_secs :: nat
  lock_poll_interval_ms :: nat
  approval_timeout_secs :: nat
  max_pending_approvals :: nat
  max_pending_questions :: nat
  question_default_expiry_secs :: nat
  question_max_expiry_secs :: nat
  deadlock_detection_enabled :: bool
  deadlock_scan_interval_ms :: nat
  deadlock_max_nodes :: nat
  deadlock_max_edges :: nat
  deadlock_detection_attempts :: nat
  deadlock_auto_cancel :: bool
  attention_batch_window_ms :: nat
  attention_max_outstanding_questions :: nat
  attention_default_timeout_secs :: nat
  delivery_default_ttl_secs :: nat
  delivery_max_ttl_secs :: nat
  delivery_max_pending :: nat
  delivery_status_retention :: nat
  agent_followup_max_count :: nat
  agent_followup_max_bytes :: nat
  agent_message_max_chars :: nat
  peer_grant_default_ttl_secs :: nat
  peer_grant_max_ttl_secs :: nat
  peer_grant_max_count :: nat
  broadcast_rate_limit :: nat
  broadcast_rate_window_secs :: nat
  mailbox_default_rows :: nat
  mailbox_max_rows :: nat
  board_max_reviewers :: nat
  board_claim_key_max_len :: nat
  board_allow_self_review :: bool
  max_wave_width :: nat
  max_pipeline_depth :: nat
  overlap_ordering_enabled :: bool
  agent_wait_default_ms :: nat
  agent_wait_max_ms :: nat
  agent_wait_max_agents :: nat
  subagent_default_steps :: nat
  subagent_max_steps :: nat
  launch_context_tokens :: nat
  launch_context_messages :: nat
  launch_context_entries :: nat
  launch_context_bytes :: nat
  launch_source_bytes :: nat
  agent_profile_max_count :: nat
  agent_profile_max_bytes :: nat
  handoff_report_max_entries :: nat
  handoff_report_max_chars :: nat
  handoff_metric_max_records :: nat
  handoff_finding_min_samples :: nat
  handoff_finding_retention_ms :: nat
  deliverable_max_corrections :: nat
  deliverable_result_budget_tokens :: nat
  strict_path_scope_default :: bool
  max_path_scope_entries :: nat
  agent_closed_retained_max :: nat
  agent_terminal_retained_max :: nat
  store_busy_timeout_ms :: nat

record coordination_settings = admission_settings +
  store_allow_non_local_filesystem :: bool
  presence_heartbeat_interval_ms :: nat
  presence_stale_after_ms :: nat
  lease_ttl_ms :: nat
  lease_renew_interval_ms :: nat
  lease_takeover_grace_ms :: nat
  merge_lease_wait_ms :: nat
  merge_lease_poll_interval_ms :: nat
  store_max_engine_instances :: nat
  store_max_run_intents :: nat
  store_max_queued_work :: nat
  store_max_leases :: nat
  store_max_outbox_messages :: nat
  store_max_activity_observations :: nat
  store_max_decomposition_outcomes :: nat
  store_max_disagreements :: nat
  disagreement_max_open :: nat
  disagreement_retention_ms :: nat
  disagreement_blocks_completion :: bool
  store_max_claims :: nat
  claim_max_per_subject :: nat
  claim_retention_ms :: nat
  claim_corroboration_step_per_mille :: nat
  claim_contradiction_min_confidence_per_mille :: nat
  store_max_causal_events :: nat
  decomposition_min_samples :: nat
  team_max_count :: nat
  team_role_max_count :: nat
  team_member_max_count :: nat
  team_mission_log_max_entries :: nat
  team_heartbeat_ttl_ms :: nat
  outbox_retention_secs :: nat
  outbox_prune_interval_secs :: nat
  run_intent_retention_secs :: nat
  provider_pressure_enabled :: bool
  provider_max_concurrency :: nat
  provider_min_concurrency :: nat
  provider_initial_concurrency :: nat
  provider_interactive_reserved_slots :: nat
  provider_aimd_increase_after_successes :: nat
  provider_aimd_decrease_cooldown_ms :: nat
  provider_retry_max_attempts :: nat
  provider_retry_base_backoff_ms :: nat
  provider_retry_max_backoff_ms :: nat
  provider_retry_jitter_per_mille :: nat
  provider_breaker_failure_threshold :: nat
  provider_breaker_cooldown_ms :: nat
  provider_max_retry_after_ms :: nat
  provider_pressure_max_buckets :: nat
  recovery_auto_retry_enabled :: bool
  recovery_max_retries :: nat
  recovery_delay_ms :: nat
  recovery_total_timeout_ms :: nat
  no_progress_repeat_threshold :: nat
  no_progress_unchanged_turns :: nat
  no_progress_window_turns :: nat
  metrics_enabled :: bool
  metrics_max_series :: nat
  metrics_max_explanations :: nat
  metrics_max_label_chars :: nat
  code_mode_enabled :: bool
  code_mode_timeout_ms :: nat
  code_mode_max_host_calls :: nat
  code_mode_max_intermediate_bytes :: nat

section \<open>Defaults\<close>

definition default_settings :: coordination_settings where
  "default_settings =
     \<lparr>enabled = True,
      auto_inject_enabled = True,
      memory_supervisor_override = False,
      max_active_engine = 32,
      max_active_project = 16,
      max_active_root = 16,
      root_fairness_quantum = 1,
      root_weights = [],
      max_root_weight_entries = 4096,
      max_resume_burst = 4,
      default_priority = Normal,
      max_priority_burst = 4,
      max_pending = 1024,
      max_outstanding = 4096,
      max_parked_residency = 256,
      max_subchat_depth = 5,
      max_read_stamps = 16384,
      max_write_records = 65536,
      max_undo_entries_per_file = 128,
      max_undo_bytes = 128 * 1024 * 1024,
      overview_default_rows = 50,
      overview_max_rows = 500,
      max_work_views = 4096,
      max_work_cursors = 16384,
      max_work_history_rows = 16384,
      max_work_history_bytes = 64 * 1024 * 1024,
      max_work_provenance_records = 16384,
      max_work_provenance_bytes = 4 * 1024 * 1024,
      work_cursor_ttl_secs = 300,
      work_subscription_interval_ms = 1000,
      work_stream_timeout_ms = 60000,
      work_reconnect_max_ms = 10000,
      inspect_max_paths = 200,
      work_root_presence_ttl_ms = 60000,
      capsule_token_budget = 1600,
      capsule_max_rows = 24,
      min_interval_secs = 60,
      debounce_secs = 5,
      recent_window_secs = 3600,
      lock_timeout_secs = 30,
      lock_poll_interval_ms = 25,
      approval_timeout_secs = 1800,
      max_pending_approvals = 256,
      max_pending_questions = 256,
      question_default_expiry_secs = 1800,
      question_max_expiry_secs = 604800,
      deadlock_detection_enabled = True,
      deadlock_scan_interval_ms = 5000,
      deadlock_max_nodes = 4096,
      deadlock_max_edges = 16384,
      deadlock_detection_attempts = 3,
      deadlock_auto_cancel = False,
      attention_batch_window_ms = 2000,
      attention_max_outstanding_questions = 32,
      attention_default_timeout_secs = 900,
      delivery_default_ttl_secs = 86400,
      delivery_max_ttl_secs = 604800,
      delivery_max_pending = 4096,
      delivery_status_retention = 16384,
      agent_followup_max_count = 64,
      agent_followup_max_bytes = 1024 * 1024,
      agent_message_max_chars = 65536,
      peer_grant_default_ttl_secs = 3600,
      peer_grant_max_ttl_secs = 604800,
      peer_grant_max_count = 256,
      broadcast_rate_limit = 32,
      broadcast_rate_window_secs = 60,
      mailbox_default_rows = 20,
      mailbox_max_rows = 200,
      board_max_reviewers = 256,
      board_claim_key_max_len = 256,
      board_allow_self_review = False,
      max_wave_width = 8,
      max_pipeline_depth = 16,
      overlap_ordering_enabled = True,
      agent_wait_default_ms = 60000,
      agent_wait_max_ms = 30 * 60 * 1000,
      agent_wait_max_agents = 128,
      subagent_default_steps = 256,
      subagent_max_steps = 4096,
      launch_context_tokens = 24000,
      launch_context_messages = 1024,
      launch_context_entries = 256,
      launch_context_bytes = 16 * 1024 * 1024,
      launch_source_bytes = 4 * 1024 * 1024,
      agent_profile_max_count = 256,
      agent_profile_max_bytes = 64 * 1024,
      handoff_report_max_entries = 16,
      handoff_report_max_chars = 512,
      handoff_metric_max_records = 512,
      handoff_finding_min_samples = 5,
      handoff_finding_retention_ms = 7 * 24 * 60 * 60 * 1000,
      deliverable_max_corrections = 1,
      deliverable_result_budget_tokens = 1024,
      strict_path_scope_default = False,
      max_path_scope_entries = 256,
      agent_closed_retained_max = 64,
      agent_terminal_retained_max = 500,
      store_busy_timeout_ms = 5000,
      store_allow_non_local_filesystem = False,
      presence_heartbeat_interval_ms = 15000,
      presence_stale_after_ms = 120000,
      lease_ttl_ms = 120000,
      lease_renew_interval_ms = 30000,
      lease_takeover_grace_ms = 60000,
      merge_lease_wait_ms = 300000,
      merge_lease_poll_interval_ms = 250,
      store_max_engine_instances = 512,
      store_max_run_intents = 65536,
      store_max_queued_work = 65536,
      store_max_leases = 16384,
      store_max_outbox_messages = 65536,
      store_max_activity_observations = 262144,
      store_max_decomposition_outcomes = 4096,
      store_max_disagreements = 4096,
      disagreement_max_open = 64,
      disagreement_retention_ms = 30 * 24 * 60 * 60 * 1000,
      disagreement_blocks_completion = False,
      store_max_claims = 4096,
      claim_max_per_subject = 64,
      claim_retention_ms = 30 * 24 * 60 * 60 * 1000,
      claim_corroboration_step_per_mille = 100,
      claim_contradiction_min_confidence_per_mille = 250,
      store_max_causal_events = 16384,
      decomposition_min_samples = 5,
      team_max_count = 32,
      team_role_max_count = 16,
      team_member_max_count = 64,
      team_mission_log_max_entries = 512,
      team_heartbeat_ttl_ms = 120000,
      outbox_retention_secs = 604800,
      outbox_prune_interval_secs = 3600,
      run_intent_retention_secs = 604800,
      provider_pressure_enabled = True,
      provider_max_concurrency = 16,
      provider_min_concurrency = 1,
      provider_initial_concurrency = 4,
      provider_interactive_reserved_slots = 1,
      provider_aimd_increase_after_successes = 8,
      provider_aimd_decrease_cooldown_ms = 1000,
      provider_retry_max_attempts = 4,
      provider_retry_base_backoff_ms = 500,
      provider_retry_max_backoff_ms = 60000,
      provider_retry_jitter_per_mille = 250,
      provider_breaker_failure_threshold = 8,
      provider_breaker_cooldown_ms = 30000,
      provider_max_retry_after_ms = 300000,
      provider_pressure_max_buckets = 4096,
      recovery_auto_retry_enabled = True,
      recovery_max_retries = 2,
      recovery_delay_ms = 10000,
      recovery_total_timeout_ms = 600000,
      no_progress_repeat_threshold = 3,
      no_progress_unchanged_turns = 12,
      no_progress_window_turns = 24,
      metrics_enabled = True,
      metrics_max_series = 4096,
      metrics_max_explanations = 2048,
      metrics_max_label_chars = 160,
      code_mode_enabled = False,
      code_mode_timeout_ms = 30000,
      code_mode_max_host_calls = 64,
      code_mode_max_intermediate_bytes = 262144\<rparr>"

section \<open>Violations\<close>

record settings_violation =
  viol_field :: string
  viol_message :: string

definition settings_violation_display :: "settings_violation \<Rightarrow> string" where
  "settings_violation_display v = viol_field v @ '': '' @ viol_message v"

type_synonym settings_error = "settings_violation list"

definition settings_error_display :: "settings_error \<Rightarrow> string" where
  "settings_error_display vs =
     ''invalid coordination settings: '' @ join_strings ''; '' (map settings_violation_display vs)"

text \<open>Each check is the list of violations it pushes.\<close>

definition at_least :: "string \<Rightarrow> nat \<Rightarrow> nat \<Rightarrow> settings_violation list" where
  "at_least field value minimum =
     (if value < minimum
      then [\<lparr>viol_field = field,
             viol_message = ''must be at least '' @ show_nat minimum @ '', got '' @ show_nat value\<rparr>]
      else [])"

definition not_greater :: "string \<Rightarrow> nat \<Rightarrow> string \<Rightarrow> nat \<Rightarrow> settings_violation list" where
  "not_greater field value other_field other =
     (if value > other
      then [\<lparr>viol_field = field,
             viol_message = ''must not exceed '' @ other_field @ '' ('' @ show_nat other @ ''), got ''
                            @ show_nat value\<rparr>]
      else [])"

definition root_weight_violations :: "string \<Rightarrow> nat \<Rightarrow> settings_violation list" where
  "root_weight_violations root weight =
     (if trim root = [] \<or> trim root \<noteq> root \<or> has_control root
      then [\<lparr>viol_field = ''root_weights'',
             viol_message = ''root IDs must be nonempty, trimmed and contain no control characters''\<rparr>]
      else [])
     @ at_least ''root_weights'' weight 1"

definition confidence_certain_per_mille :: nat where
  "confidence_certain_per_mille = 1000"

section \<open>Validation\<close>

definition validate_part1 :: "coordination_settings \<Rightarrow> settings_violation list" where
  "validate_part1 s = concat
     [not_greater ''recovery_max_retries'' (recovery_max_retries s) ''recovery retry limit'' 100,
      not_greater ''recovery_delay_ms'' (recovery_delay_ms s) ''recovery delay limit'' 3600000,
      at_least ''recovery_total_timeout_ms'' (recovery_total_timeout_ms s) 1000,
      not_greater ''recovery_total_timeout_ms'' (recovery_total_timeout_ms s) ''recovery timeout limit'' 86400000,
      at_least ''agent_terminal_retained_max'' (agent_terminal_retained_max s) 50,
      not_greater ''agent_terminal_retained_max'' (agent_terminal_retained_max s) ''agent terminal history limit'' 10000,
      at_least ''max_undo_entries_per_file'' (max_undo_entries_per_file s) 1,
      at_least ''max_undo_bytes'' (max_undo_bytes s) 1,
      at_least ''work_stream_timeout_ms'' (work_stream_timeout_ms s) 1,
      at_least ''work_reconnect_max_ms'' (work_reconnect_max_ms s) 1,
      concat (map (\<lambda>(field, value). at_least field value 1)
        [(''launch_context_tokens'', launch_context_tokens s),
         (''launch_context_messages'', launch_context_messages s),
         (''launch_context_entries'', launch_context_entries s),
         (''launch_context_bytes'', launch_context_bytes s),
         (''launch_source_bytes'', launch_source_bytes s),
         (''agent_profile_max_count'', agent_profile_max_count s),
         (''agent_profile_max_bytes'', agent_profile_max_bytes s),
         (''handoff_report_max_entries'', handoff_report_max_entries s),
         (''handoff_report_max_chars'', handoff_report_max_chars s),
         (''handoff_metric_max_records'', handoff_metric_max_records s),
         (''handoff_finding_min_samples'', handoff_finding_min_samples s),
         (''handoff_finding_retention_ms'', handoff_finding_retention_ms s),
         (''max_path_scope_entries'', max_path_scope_entries s),
         (''max_work_views'', max_work_views s),
         (''max_work_cursors'', max_work_cursors s),
         (''max_work_history_rows'', max_work_history_rows s),
         (''max_work_history_bytes'', max_work_history_bytes s),
         (''max_work_provenance_records'', max_work_provenance_records s),
         (''max_work_provenance_bytes'', max_work_provenance_bytes s),
         (''work_cursor_ttl_secs'', work_cursor_ttl_secs s),
         (''work_subscription_interval_ms'', work_subscription_interval_ms s),
         (''inspect_max_paths'', inspect_max_paths s),
         (''max_wave_width'', max_wave_width s),
         (''max_pipeline_depth'', max_pipeline_depth s)]),
      at_least ''max_active_engine'' (max_active_engine s) 1,
      at_least ''max_active_project'' (max_active_project s) 1,
      at_least ''max_active_root'' (max_active_root s) 1,
      at_least ''root_fairness_quantum'' (root_fairness_quantum s) 1,
      at_least ''max_resume_burst'' (max_resume_burst s) 1,
      at_least ''max_priority_burst'' (max_priority_burst s) 1]"

definition validate_part2 :: "coordination_settings \<Rightarrow> settings_violation list" where
  "validate_part2 s = concat
     [at_least ''max_root_weight_entries'' (max_root_weight_entries s) 1,
      not_greater ''root_weights'' (length (root_weights s)) ''max_root_weight_entries'' (max_root_weight_entries s),
      concat (map (\<lambda>(root, weight). root_weight_violations root weight) (btree_iter (root_weights s))),
      at_least ''max_pending'' (max_pending s) 1,
      at_least ''max_outstanding'' (max_outstanding s) 1,
      at_least ''max_parked_residency'' (max_parked_residency s) 1,
      not_greater ''max_parked_residency'' (max_parked_residency s) ''max_outstanding'' (max_outstanding s),
      at_least ''max_subchat_depth'' (max_subchat_depth s) 1,
      at_least ''max_read_stamps'' (max_read_stamps s) 1,
      at_least ''max_write_records'' (max_write_records s) 1,
      at_least ''overview_default_rows'' (overview_default_rows s) 1,
      at_least ''overview_max_rows'' (overview_max_rows s) 1,
      at_least ''capsule_token_budget'' (capsule_token_budget s) 1600,
      at_least ''capsule_max_rows'' (capsule_max_rows s) 1,
      at_least ''recent_window_secs'' (recent_window_secs s) 1,
      at_least ''work_root_presence_ttl_ms'' (work_root_presence_ttl_ms s) 1,
      at_least ''lock_timeout_secs'' (lock_timeout_secs s) 1,
      at_least ''approval_timeout_secs'' (approval_timeout_secs s) 1,
      concat (map (\<lambda>(field, value). at_least field value 1)
        [(''delivery_default_ttl_secs'', delivery_default_ttl_secs s),
         (''delivery_max_ttl_secs'', delivery_max_ttl_secs s),
         (''agent_wait_default_ms'', agent_wait_default_ms s),
         (''agent_wait_max_ms'', agent_wait_max_ms s),
         (''peer_grant_default_ttl_secs'', peer_grant_default_ttl_secs s),
         (''peer_grant_max_ttl_secs'', peer_grant_max_ttl_secs s),
         (''broadcast_rate_window_secs'', broadcast_rate_window_secs s)])]"

definition validate_part3 :: "coordination_settings \<Rightarrow> settings_violation list" where
  "validate_part3 s = concat
     [concat (map (\<lambda>(field, value). at_least field value 1)
        [(''delivery_max_pending'', delivery_max_pending s),
         (''delivery_status_retention'', delivery_status_retention s),
         (''agent_followup_max_count'', agent_followup_max_count s),
         (''agent_followup_max_bytes'', agent_followup_max_bytes s),
         (''agent_message_max_chars'', agent_message_max_chars s),
         (''peer_grant_max_count'', peer_grant_max_count s),
         (''broadcast_rate_limit'', broadcast_rate_limit s),
         (''mailbox_default_rows'', mailbox_default_rows s),
         (''mailbox_max_rows'', mailbox_max_rows s),
         (''board_max_reviewers'', board_max_reviewers s),
         (''board_claim_key_max_len'', board_claim_key_max_len s),
         (''agent_wait_max_agents'', agent_wait_max_agents s),
         (''agent_closed_retained_max'', agent_closed_retained_max s),
         (''store_max_engine_instances'', store_max_engine_instances s),
         (''store_max_run_intents'', store_max_run_intents s),
         (''store_max_queued_work'', store_max_queued_work s),
         (''store_max_leases'', store_max_leases s),
         (''store_max_outbox_messages'', store_max_outbox_messages s),
         (''store_max_activity_observations'', store_max_activity_observations s),
         (''store_max_decomposition_outcomes'', store_max_decomposition_outcomes s),
         (''store_max_disagreements'', store_max_disagreements s),
         (''disagreement_max_open'', disagreement_max_open s),
         (''store_max_claims'', store_max_claims s),
         (''claim_max_per_subject'', claim_max_per_subject s),
         (''claim_corroboration_step_per_mille'', claim_corroboration_step_per_mille s),
         (''store_max_causal_events'', store_max_causal_events s),
         (''decomposition_min_samples'', decomposition_min_samples s),
         (''team_max_count'', team_max_count s),
         (''team_role_max_count'', team_role_max_count s),
         (''team_member_max_count'', team_member_max_count s),
         (''team_mission_log_max_entries'', team_mission_log_max_entries s)]),
      at_least ''team_heartbeat_ttl_ms'' (team_heartbeat_ttl_ms s) 1,
      at_least ''disagreement_retention_ms'' (disagreement_retention_ms s) 1,
      at_least ''claim_retention_ms'' (claim_retention_ms s) 1,
      not_greater ''claim_contradiction_min_confidence_per_mille'' (claim_contradiction_min_confidence_per_mille s) ''full certainty'' confidence_certain_per_mille,
      not_greater ''claim_corroboration_step_per_mille'' (claim_corroboration_step_per_mille s) ''full certainty'' confidence_certain_per_mille,
      at_least ''store_busy_timeout_ms'' (store_busy_timeout_ms s) 1,
      at_least ''presence_heartbeat_interval_ms'' (presence_heartbeat_interval_ms s) 1,
      at_least ''outbox_retention_secs'' (outbox_retention_secs s) 1,
      at_least ''presence_stale_after_ms'' (presence_stale_after_ms s) 1,
      not_greater ''presence_heartbeat_interval_ms'' (presence_heartbeat_interval_ms s) ''presence_stale_after_ms'' (presence_stale_after_ms s),
      at_least ''outbox_prune_interval_secs'' (outbox_prune_interval_secs s) 1,
      at_least ''run_intent_retention_secs'' (run_intent_retention_secs s) 1,
      at_least ''no_progress_repeat_threshold'' (no_progress_repeat_threshold s) 2,
      at_least ''no_progress_unchanged_turns'' (no_progress_unchanged_turns s) 2,
      at_least ''no_progress_window_turns'' (no_progress_window_turns s) 2,
      at_least ''metrics_max_series'' (metrics_max_series s) 1,
      at_least ''metrics_max_explanations'' (metrics_max_explanations s) 1]"

definition validate_part4 :: "coordination_settings \<Rightarrow> settings_violation list" where
  "validate_part4 s = concat
     [at_least ''metrics_max_label_chars'' (metrics_max_label_chars s) 8,
      not_greater ''no_progress_repeat_threshold'' (no_progress_repeat_threshold s) ''no_progress_window_turns'' (no_progress_window_turns s),
      not_greater ''no_progress_unchanged_turns'' (no_progress_unchanged_turns s) ''no_progress_window_turns'' (no_progress_window_turns s),
      at_least ''code_mode_timeout_ms'' (code_mode_timeout_ms s) 1000,
      at_least ''code_mode_max_host_calls'' (code_mode_max_host_calls s) 1,
      at_least ''code_mode_max_intermediate_bytes'' (code_mode_max_intermediate_bytes s) 1024,
      at_least ''lease_ttl_ms'' (lease_ttl_ms s) 1,
      at_least ''lease_renew_interval_ms'' (lease_renew_interval_ms s) 1,
      not_greater ''lease_renew_interval_ms'' (lease_renew_interval_ms s) ''lease_ttl_ms'' (lease_ttl_ms s),
      at_least ''merge_lease_wait_ms'' (merge_lease_wait_ms s) 1,
      at_least ''merge_lease_poll_interval_ms'' (merge_lease_poll_interval_ms s) 1,
      not_greater ''merge_lease_poll_interval_ms'' (merge_lease_poll_interval_ms s) ''merge_lease_wait_ms'' (merge_lease_wait_ms s),
      at_least ''subagent_max_steps'' (subagent_max_steps s) 1,
      at_least ''subagent_default_steps'' (subagent_default_steps s) 1,
      not_greater ''subagent_default_steps'' (subagent_default_steps s) ''subagent_max_steps'' (subagent_max_steps s),
      at_least ''max_pending_approvals'' (max_pending_approvals s) 1,
      at_least ''max_pending_questions'' (max_pending_questions s) 1,
      at_least ''question_default_expiry_secs'' (question_default_expiry_secs s) 1,
      at_least ''question_max_expiry_secs'' (question_max_expiry_secs s) 1,
      not_greater ''question_default_expiry_secs'' (question_default_expiry_secs s) ''question_max_expiry_secs'' (question_max_expiry_secs s),
      not_greater ''question_max_expiry_secs'' (question_max_expiry_secs s) ''question_absolute_max_expiry_secs'' 31536000,
      at_least ''attention_max_outstanding_questions'' (attention_max_outstanding_questions s) 1,
      at_least ''attention_default_timeout_secs'' (attention_default_timeout_secs s) 1,
      not_greater ''attention_default_timeout_secs'' (attention_default_timeout_secs s) ''question_max_expiry_secs'' (question_max_expiry_secs s),
      at_least ''lock_poll_interval_ms'' (lock_poll_interval_ms s) 1]"

definition validate_part5 :: "coordination_settings \<Rightarrow> settings_violation list" where
  "validate_part5 s = concat
     [at_least ''deadlock_scan_interval_ms'' (deadlock_scan_interval_ms s) 1,
      concat (map (\<lambda>(field, value). at_least field value 1)
        [(''deadlock_max_nodes'', deadlock_max_nodes s),
         (''deadlock_max_edges'', deadlock_max_edges s),
         (''deadlock_detection_attempts'', deadlock_detection_attempts s)]),
      not_greater ''max_active_project'' (max_active_project s) ''max_active_engine'' (max_active_engine s),
      not_greater ''max_active_root'' (max_active_root s) ''max_active_engine'' (max_active_engine s),
      not_greater ''max_pending'' (max_pending s) ''max_outstanding'' (max_outstanding s),
      not_greater ''overview_default_rows'' (overview_default_rows s) ''overview_max_rows'' (overview_max_rows s),
      not_greater ''debounce_secs'' (debounce_secs s) ''min_interval_secs'' (min_interval_secs s),
      not_greater ''lock_poll_interval_ms'' (lock_poll_interval_ms s) ''lock_timeout_secs_in_millis'' (sat_mul64 (lock_timeout_secs s) 1000),
      not_greater ''delivery_default_ttl_secs'' (delivery_default_ttl_secs s) ''delivery_max_ttl_secs'' (delivery_max_ttl_secs s),
      not_greater ''agent_wait_default_ms'' (agent_wait_default_ms s) ''agent_wait_max_ms'' (agent_wait_max_ms s),
      not_greater ''peer_grant_default_ttl_secs'' (peer_grant_default_ttl_secs s) ''peer_grant_max_ttl_secs'' (peer_grant_max_ttl_secs s),
      not_greater ''mailbox_default_rows'' (mailbox_default_rows s) ''mailbox_max_rows'' (mailbox_max_rows s),
      concat (map (\<lambda>(field, value). at_least field value 1)
        [(''provider_max_concurrency'', provider_max_concurrency s),
         (''provider_min_concurrency'', provider_min_concurrency s),
         (''provider_initial_concurrency'', provider_initial_concurrency s),
         (''provider_aimd_increase_after_successes'', provider_aimd_increase_after_successes s),
         (''provider_retry_max_attempts'', provider_retry_max_attempts s),
         (''provider_retry_base_backoff_ms'', provider_retry_base_backoff_ms s),
         (''provider_retry_max_backoff_ms'', provider_retry_max_backoff_ms s),
         (''provider_breaker_failure_threshold'', provider_breaker_failure_threshold s),
         (''provider_breaker_cooldown_ms'', provider_breaker_cooldown_ms s),
         (''provider_max_retry_after_ms'', provider_max_retry_after_ms s),
         (''provider_pressure_max_buckets'', provider_pressure_max_buckets s)]),
      not_greater ''provider_min_concurrency'' (provider_min_concurrency s) ''provider_initial_concurrency'' (provider_initial_concurrency s),
      not_greater ''provider_initial_concurrency'' (provider_initial_concurrency s) ''provider_max_concurrency'' (provider_max_concurrency s)]"

definition validate_part6 :: "coordination_settings \<Rightarrow> settings_violation list" where
  "validate_part6 s = concat
     [not_greater ''provider_interactive_reserved_slots'' (provider_interactive_reserved_slots s) ''provider_max_concurrency_minus_one'' (sat_sub (provider_max_concurrency s) 1),
      not_greater ''provider_retry_base_backoff_ms'' (provider_retry_base_backoff_ms s) ''provider_retry_max_backoff_ms'' (provider_retry_max_backoff_ms s),
      not_greater ''provider_retry_jitter_per_mille'' (provider_retry_jitter_per_mille s) ''provider_retry_jitter_per_mille_max'' 1000]"

definition validate_violations :: "coordination_settings \<Rightarrow> settings_violation list" where
  "validate_violations s =
     validate_part1 s @ validate_part2 s @ validate_part3 s @ validate_part4 s @ validate_part5 s @ validate_part6 s"

definition validate :: "coordination_settings \<Rightarrow> settings_error + unit" where
  "validate s = (if validate_violations s = [] then Inr () else Inl (validate_violations s))"

definition validated :: "coordination_settings \<Rightarrow> settings_error + coordination_settings" where
  "validated s = (case validate s of Inl e \<Rightarrow> Inl e | Inr _ \<Rightarrow> Inr s)"

section \<open>Derived limits and the process-wide slot\<close>

text \<open>\<open>usize::clamp\<close> panics when its bounds are inverted; here the bounds are \<open>1 \<le> max 1 _\<close>.\<close>

definition overview_rows :: "coordination_settings \<Rightarrow> nat option \<Rightarrow> nat" where
  "overview_rows s requested =
     (let rows = get_or (overview_default_rows s) requested
      in max 1 (min rows (max (overview_max_rows s) 1)))"

definition root_quantum :: "coordination_settings \<Rightarrow> string \<Rightarrow> nat" where
  "root_quantum s root_id =
     sat_mul64 (root_fairness_quantum s) (get_or 1 (map_of (root_weights s) root_id))"

text \<open>\<open>std::time::Duration\<close> values as milliseconds.\<close>

definition lock_timeout :: "coordination_settings \<Rightarrow> nat" where
  "lock_timeout s = lock_timeout_secs s * 1000"

definition lock_poll_interval :: "coordination_settings \<Rightarrow> nat" where
  "lock_poll_interval s = lock_poll_interval_ms s"

definition recent_window :: "coordination_settings \<Rightarrow> nat" where
  "recent_window s = recent_window_secs s * 1000"

definition attention_batch_window :: "coordination_settings \<Rightarrow> nat" where
  "attention_batch_window s = attention_batch_window_ms s"

definition global_slot_init :: coordination_settings where
  "global_slot_init = default_settings"

text \<open>The slot's contents are threaded explicitly: the new contents and the result.\<close>

definition install_coordination_settings ::
  "coordination_settings \<Rightarrow> coordination_settings \<Rightarrow>
   coordination_settings \<times> (settings_error + coordination_settings)" where
  "install_coordination_settings slot settings =
     (case validate settings of
        Inl e \<Rightarrow> (slot, Inl e)
      | Inr _ \<Rightarrow> (settings, Inr settings))"

section \<open>What validation guarantees\<close>

lemma at_least_Nil [simp]: "at_least f v m = [] \<longleftrightarrow> m \<le> v"
  by (auto simp: at_least_def)

lemma not_greater_Nil [simp]: "not_greater f v g w = [] \<longleftrightarrow> v \<le> w"
  by (auto simp: not_greater_def)

lemma validate_Inr_iff: "validate s = Inr () \<longleftrightarrow> validate_violations s = []"
  by (simp add: validate_def)

lemma validate_Inl_iff:
  "validate s = Inl e \<longleftrightarrow> e = validate_violations s \<and> e \<noteq> []"
  by (auto simp: validate_def)

lemmas validate_parts_defs =
  validate_part1_def validate_part2_def validate_part3_def validate_part4_def
  validate_part5_def validate_part6_def

lemma default_validate_violations: "validate_violations default_settings = []"
proof -
  have "validate_part1 default_settings = []"
    by (simp add: validate_part1_def default_settings_def)
  moreover have "validate_part2 default_settings = []"
    by (simp add: validate_part2_def default_settings_def btree_iter_def)
  moreover have "validate_part3 default_settings = []"
    by (simp add: validate_part3_def default_settings_def confidence_certain_per_mille_def)
  moreover have "validate_part4 default_settings = []"
    by (simp add: validate_part4_def default_settings_def)
  moreover have "validate_part5 default_settings = []"
    by (simp add: validate_part5_def default_settings_def sat_mul64_def u64_max_def sat_sub_def)
  moreover have "validate_part6 default_settings = []"
    by (simp add: validate_part6_def default_settings_def sat_sub_def)
  ultimately show ?thesis by (simp add: validate_violations_def)
qed

lemma root_weight_violations_Nil:
  "root_weight_violations root weight = [] \<Longrightarrow> 1 \<le> weight"
  by (auto simp: root_weight_violations_def split: if_splits)

lemma validate_Inr_parts:
  assumes "validate s = Inr ()"
  shows "validate_part1 s = []" "validate_part2 s = []" "validate_part3 s = []"
    "validate_part4 s = []" "validate_part5 s = []" "validate_part6 s = []"
  using assms by (simp_all add: validate_Inr_iff validate_violations_def)

text \<open>The facts about admission, waiting and approvals that validation establishes, by part.\<close>

lemma validate_part1_caps:
  "validate_part1 s = [] \<Longrightarrow>
   1 \<le> max_active_engine s \<and> 1 \<le> max_active_project s \<and> 1 \<le> max_active_root s \<and>
   1 \<le> root_fairness_quantum s \<and> 1 \<le> max_resume_burst s \<and> 1 \<le> max_priority_burst s"
  by (simp add: validate_part1_def)

lemma validate_part2_admission:
  "validate_part2 s = [] \<Longrightarrow>
   1 \<le> max_pending s \<and> 1 \<le> max_outstanding s \<and> 1 \<le> max_parked_residency s \<and>
   max_parked_residency s \<le> max_outstanding s \<and> 1 \<le> max_subchat_depth s"
  by (simp add: validate_part2_def)

lemma validate_part2_weights:
  "validate_part2 s = [] \<Longrightarrow> (root, weight) \<in> set (root_weights s) \<Longrightarrow> 1 \<le> weight"
  by (auto simp: validate_part2_def dest!: root_weight_violations_Nil)

lemma validate_part5_order:
  "validate_part5 s = [] \<Longrightarrow>
   max_active_project s \<le> max_active_engine s \<and> max_active_root s \<le> max_active_engine s \<and>
   max_pending s \<le> max_outstanding s \<and> overview_default_rows s \<le> overview_max_rows s"
  by (simp add: validate_part5_def)

lemma validate_part4_order:
  "validate_part4 s = [] \<Longrightarrow>
   lease_renew_interval_ms s \<le> lease_ttl_ms s \<and>
   merge_lease_poll_interval_ms s \<le> merge_lease_wait_ms s \<and>
   subagent_default_steps s \<le> subagent_max_steps s \<and>
   1 \<le> max_pending_approvals s"
  by (simp add: validate_part4_def)

lemma root_quantum_pos:
  assumes "validate s = Inr ()"
  shows "0 < root_quantum s r"
proof -
  have "1 \<le> get_or 1 (map_of (root_weights s) r)"
    using validate_part2_weights [OF validate_Inr_parts(2) [OF assms]]
    by (cases "map_of (root_weights s) r") (auto dest: map_of_SomeD)
  moreover have "1 \<le> root_fairness_quantum s"
    using validate_part1_caps [OF validate_Inr_parts(1) [OF assms]] by simp
  ultimately show ?thesis
    unfolding root_quantum_def by (intro sat_mul64_pos) auto
qed

text \<open>
  Accepted settings are usable by the admission scheduler: every cap, burst and queue
  bound is positive; a project's and a root's share fit in the engine's; the pending and
  parked bounds fit in the outstanding bound; and every root, weighted or not, gets at
  least one admission per turn, with the product of quantum and weight saturating at
  \<open>u64::MAX\<close>.
\<close>

lemma validated_settings_coherent:
  assumes "validate s = Inr ()"
  shows "1 \<le> max_active_project s \<and> max_active_project s \<le> max_active_engine s \<and>
    1 \<le> max_active_root s \<and> max_active_root s \<le> max_active_engine s \<and>
    1 \<le> max_pending s \<and> max_pending s \<le> max_outstanding s \<and>
    1 \<le> max_parked_residency s \<and> max_parked_residency s \<le> max_outstanding s \<and>
    1 \<le> max_resume_burst s \<and> 1 \<le> max_priority_burst s \<and>
    1 \<le> root_quantum s r \<and> root_quantum s r \<le> u64_max"
  using validate_part1_caps [OF validate_Inr_parts(1) [OF assms]]
    validate_part2_admission [OF validate_Inr_parts(2) [OF assms]]
    validate_part5_order [OF validate_Inr_parts(5) [OF assms]]
    root_quantum_pos [OF assms, of r]
  by (simp add: root_quantum_def)

lemma validated_settings_coherent_example:
  "1 \<le> root_quantum default_settings ''chat-1'' \<and>
   max_active_project default_settings \<le> max_active_engine default_settings"
  using validated_settings_coherent [of default_settings "''chat-1''"] default_validate_violations
  by (simp add: validate_def)

text \<open>
  The process-wide slot starts valid and stays valid whatever is installed: a rejected
  installation reports its violations, all of them, and leaves the slot as it was; an
  accepted one is what later reads return.
\<close>

lemma install_keeps_slot_valid:
  "validate global_slot_init = Inr () \<and>
   (validate slot = Inr () \<longrightarrow> validate (fst (install_coordination_settings slot new)) = Inr ()) \<and>
   (case install_coordination_settings slot new of
      (slot', Inl e) \<Rightarrow> slot' = slot \<and> e = validate_violations new \<and> e \<noteq> []
    | (slot', Inr s) \<Rightarrow> slot' = new \<and> s = new)"
  by (auto simp: global_slot_init_def validate_def default_validate_violations
      install_coordination_settings_def split: sum.splits if_splits)

lemma install_keeps_slot_valid_example:
  "validate (fst (install_coordination_settings default_settings default_settings)) = Inr ()"
  using install_keeps_slot_valid [of default_settings default_settings] by (simp add: global_slot_init_def)

lemma overview_rows_bounds:
  "1 \<le> overview_rows s r \<and> overview_rows s r \<le> max (overview_max_rows s) 1"
  by (simp add: overview_rows_def Let_def)

lemma overview_rows_default:
  assumes "validate s = Inr ()"
  shows "overview_rows s None = max 1 (overview_default_rows s)"
  using validate_part5_order [OF validate_Inr_parts(5) [OF assms]]
  by (auto simp: overview_rows_def max_def min_def)

end
