(* ===== verification/Scheduler.thy ===== *)
theory Scheduler
  imports Settings
begin

text \<open>
  The admission scheduler (\<open>refact-work-core/src/scheduler.rs\<close>): every run reserves a
  ticket, waits for a permit under engine, project and root caps, may park and resume,
  and releases. This theory holds the state and every operation, in the order of the
  source; \<open>Scheduler_Invariant\<close> and \<open>Scheduler_Properties\<close> hold what is proved of them.

  The mutex-protected \<open>State\<close> is the record \<open>sched\<close>, and each method that locks it is one
  function from state to state (and result): the lock makes the methods atomic, so an
  execution is a sequence of them. A \<open>oneshot\<close> channel is named by the sequence number
  drawn in the \<open>begin_wait\<close> that creates it; \<open>e_waiter\<close> is the sender an entry holds and
  \<open>sent\<close> is the log of messages delivered on channels. Dropping a sender without sending
  closes its channel: the channel is then held by no entry and absent from the log.
  Indexing a map at a missing key would panic; the model reads through \<open>option\<close> and the
  invariant theory shows that the keys are there. Ticket ids and sequence numbers are
  drawn one per operation from \<open>u64\<close> counters and are modelled by \<open>nat\<close>.
\<close>

section \<open>Requests, errors and ticket states\<close>

type_synonym ticket_id = nat
type_synonym channel = nat

definition ticket_id_display :: "ticket_id \<Rightarrow> string" where
  "ticket_id_display t = ''ticket-'' @ show_nat t"

record admission_request =
  req_run :: run_key
  req_scope :: work_scope
  req_depth :: nat
  req_priority :: "work_priority option"

definition admission_request_new :: "run_key \<Rightarrow> work_scope \<Rightarrow> admission_request" where
  "admission_request_new run scope =
     \<lparr>req_run = run, req_scope = scope, req_depth = 0, req_priority = None\<rparr>"

definition with_depth :: "nat \<Rightarrow> admission_request \<Rightarrow> admission_request" where
  "with_depth d r = r\<lparr>req_depth := d\<rparr>"

definition with_priority :: "work_priority \<Rightarrow> admission_request \<Rightarrow> admission_request" where
  "with_priority p r = r\<lparr>req_priority := Some p\<rparr>"

datatype admission_error =
    Disabled
  | Duplicate run_key
  | QueueFull nat nat
  | OutstandingFull nat nat
  | DepthExceeded nat nat
  | AdmissionCancelled
  | Gone

primrec admission_error_display :: "admission_error \<Rightarrow> string" where
  "admission_error_display Disabled = ''coordination scheduler is disabled''"
| "admission_error_display (Duplicate run) =
     ''run '' @ run_key_display run @ '' is already admitted''"
| "admission_error_display (QueueFull pending cap) =
     ''admission queue is full ('' @ show_nat pending @ ''/'' @ show_nat cap @ '')''"
| "admission_error_display (OutstandingFull outstanding cap) =
     ''too many outstanding runs ('' @ show_nat outstanding @ ''/'' @ show_nat cap @ '')''"
| "admission_error_display (DepthExceeded depth cap) =
     ''depth '' @ show_nat depth @ '' exceeds limit '' @ show_nat cap"
| "admission_error_display AdmissionCancelled = ''admission was cancelled''"
| "admission_error_display Gone = ''admission ticket no longer exists''"

datatype ticket_state = Reserved | Pending | Active | Parked | Evicted

record entry =
  e_run :: run_key
  e_scope :: work_scope
  e_depth :: nat
  e_seq :: nat
  e_ready_seq :: nat
  e_parked_seq :: nat
  e_state :: ticket_state
  e_priority :: work_priority
  e_park_count :: nat
  e_evict_count :: nat
  e_cancel_requested :: bool
  e_waiter :: "channel option"

abbreviation e_project :: "entry \<Rightarrow> project_key" where
  "e_project e \<equiv> scope_project (e_scope e)"

abbreviation e_root :: "entry \<Rightarrow> checkout_key" where
  "e_root e \<equiv> scope_root (e_scope e)"

record sched =
  settings :: coordination_settings
  next_id :: nat
  next_seq :: nat
  entries :: "(ticket_id, entry) amap"
  by_run :: "(run_key, ticket_id) amap"
  queue :: "(nat \<times> ticket_id) list"
  active_total :: nat
  active_by_project :: "(project_key, nat) amap"
  active_by_root :: "(checkout_key, nat) amap"
  last_root :: "checkout_key option"
  roots :: "checkout_key list"
  root_credit :: nat
  resume_burst :: "(checkout_key, nat) amap"
  priority_burst :: nat
  sent :: "(channel \<times> (admission_error + unit)) list"

section \<open>State operations\<close>

definition in_state :: "ticket_state \<Rightarrow> entry \<Rightarrow> bool" where
  "in_state st e \<longleftrightarrow> e_state e = st"

definition counts :: "sched \<Rightarrow> nat \<times> nat \<times> nat \<times> nat" where
  "counts s =
     (amap_count (in_state Pending) (entries s), amap_count (in_state Reserved) (entries s),
      amap_count (in_state Parked) (entries s), amap_count (in_state Evicted) (entries s))"

definition evict_entry :: "entry \<Rightarrow> entry" where
  "evict_entry e = e\<lparr>e_state := Evicted, e_evict_count := sat_add32 (e_evict_count e) 1\<rparr>"

definition parked_slots :: "sched \<Rightarrow> (nat \<times> ticket_id) list" where
  "parked_slots s =
     map (\<lambda>(i, e). (e_parked_seq e, i)) (filter (\<lambda>(i, e). e_state e = Parked) (entries s))"

definition evict_parked_over_residency :: "sched \<Rightarrow> sched" where
  "evict_parked_over_residency s =
     (let parked = parked_slots s;
          over = sat_sub (length parked) (max_parked_residency (settings s))
      in if over = 0 then s
         else s\<lparr>entries := foldl (\<lambda>m (_, i). amap_modify i evict_entry m) (entries s)
                            (take over (sort parked))\<rparr>)"

definition fits :: "sched \<Rightarrow> entry \<Rightarrow> bool" where
  "fits s e =
     (if active_total s \<ge> max_active_engine (settings s) then False
      else if get_or 0 (map_of (active_by_project s) (e_project e)) \<ge> max_active_project (settings s)
      then False
      else get_or 0 (map_of (active_by_root s) (e_root e)) < max_active_root (settings s))"

text \<open>\<open>*map.entry(k).or_insert(0) += 1\<close> and its inverse, which drops a zero count.\<close>

definition counter_inc :: "'k \<Rightarrow> ('k, nat) amap \<Rightarrow> ('k, nat) amap" where
  "counter_inc k m = AList.update k (get_or 0 (map_of m k) + 1) m"

text \<open>A count that is already zero wraps around, as the subtraction of the release build does.\<close>

definition counter_dec :: "'k \<Rightarrow> ('k, nat) amap \<Rightarrow> ('k, nat) amap" where
  "counter_dec k m =
     (case map_of m k of
        None \<Rightarrow> m
      | Some c \<Rightarrow>
          let c' = (if c = 0 then u64_max else c - 1)
          in if c' = 0 then AList.delete k m else AList.update k c' m)"

definition charge :: "work_scope \<Rightarrow> sched \<Rightarrow> sched" where
  "charge scope s =
     s\<lparr>active_total := active_total s + 1,
       active_by_project := counter_inc (scope_project scope) (active_by_project s),
       active_by_root := counter_inc (scope_root scope) (active_by_root s)\<rparr>"

definition discharge :: "work_scope \<Rightarrow> sched \<Rightarrow> sched" where
  "discharge scope s =
     s\<lparr>active_total := sat_sub (active_total s) 1,
       active_by_project := counter_dec (scope_project scope) (active_by_project s),
       active_by_root := counter_dec (scope_root scope) (active_by_root s)\<rparr>"

section \<open>The pump\<close>

text \<open>
  One turn of \<open>State::pump\<close>: build one lane per root from the eligible waiters, rotate to
  the first root with a lane, pick the turn fairness would serve (\<open>natural_slot\<close>), let a
  more urgent class take it within its burst bound (\<open>preemption\<close>), account for the turn
  and admit the slot.
\<close>

definition eligible :: "sched \<Rightarrow> ticket_id \<Rightarrow> bool" where
  "eligible s i =
     (case map_of (entries s) i of None \<Rightarrow> False | Some e \<Rightarrow> e_state e = Pending \<and> fits s e)"

definition push_lane ::
  "sched \<Rightarrow> (checkout_key, (nat \<times> ticket_id) list) amap \<Rightarrow> nat \<times> ticket_id
   \<Rightarrow> (checkout_key, (nat \<times> ticket_id) list) amap" where
  "push_lane s ls slot =
     (case map_of (entries s) (snd slot) of
        None \<Rightarrow> ls
      | Some e \<Rightarrow>
          if eligible s (snd slot)
          then AList.update (e_root e) (get_or [] (map_of ls (e_root e)) @ [slot]) ls
          else ls)"

definition lanes :: "sched \<Rightarrow> (checkout_key, (nat \<times> ticket_id) list) amap" where
  "lanes s = foldl (push_lane s) [] (queue s)"

fun rotate_to_lane ::
  "nat \<Rightarrow> checkout_key list \<Rightarrow> checkout_key list \<Rightarrow> nat
   \<Rightarrow> checkout_key option \<times> checkout_key list \<times> nat" where
  "rotate_to_lane 0 ks rs credit = (None, rs, credit)"
| "rotate_to_lane (Suc n) ks [] credit = (None, [], credit)"
| "rotate_to_lane (Suc n) ks (r # rs) credit =
     (if r \<in> set ks then (Some r, r # rs, credit) else rotate_to_lane n ks (rs @ [r]) 0)"

definition fairness_turn :: "sched \<Rightarrow> checkout_key \<Rightarrow> bool" where
  "fairness_turn s turn_root \<longleftrightarrow>
     get_or 0 (map_of (resume_burst s) turn_root) \<ge> max_resume_burst (settings s)"

definition natural_slot ::
  "sched \<Rightarrow> (checkout_key, (nat \<times> ticket_id) list) amap \<Rightarrow> checkout_key
   \<Rightarrow> (nat \<times> ticket_id) option" where
  "natural_slot s ls turn_root =
     (case map_of ls turn_root of
        None \<Rightarrow> None
      | Some lane \<Rightarrow>
          if fairness_turn s turn_root
          then min_by_key (\<lambda>(_, i). map_option e_ready_seq (map_of (entries s) i)) lane
          else (case lane of [] \<Rightarrow> None | slot # _ \<Rightarrow> Some slot))"

definition priority_of :: "sched \<Rightarrow> ticket_id \<Rightarrow> work_priority option" where
  "priority_of s i = map_option e_priority (map_of (entries s) i)"

definition preemption ::
  "sched \<Rightarrow> (checkout_key, (nat \<times> ticket_id) list) amap \<Rightarrow> checkout_key \<Rightarrow> nat \<times> ticket_id
   \<Rightarrow> (checkout_key \<times> nat \<times> ticket_id) option" where
  "preemption s ls turn_root natural =
     (if fairness_turn s turn_root \<or> priority_burst s \<ge> max_priority_burst (settings s) then None
      else case min_by_key (\<lambda>(_, seq, i). (priority_of s i, seq))
                  (concat (map (\<lambda>(r, lane). map (Pair r) lane) (btree_iter ls))) of
             None \<Rightarrow> None
           | Some (r, slot) \<Rightarrow>
               if priority_of s (snd slot) < priority_of s (snd natural) then Some (r, slot) else None)"

text \<open>The accounting of a turn: priority burst, resume burst and, unless preempted, the rotation.\<close>

definition account_turn :: "bool \<Rightarrow> bool \<Rightarrow> checkout_key \<Rightarrow> ticket_id \<Rightarrow> sched \<Rightarrow> sched" where
  "account_turn preempting fair r i s =
     (let burst = get_or 0 (map_of (resume_burst s) r);
          resumed = (case map_of (entries s) i of None \<Rightarrow> False | Some e \<Rightarrow> e_park_count e > 0);
          s1 = s\<lparr>priority_burst := if preempting then sat_add64 (priority_burst s) 1 else 0,
                 resume_burst := if \<not> fair \<and> resumed
                                 then AList.update r (sat_add64 burst 1) (resume_burst s)
                                 else AList.delete r (resume_burst s)\<rparr>
      in if preempting then s1
         else let granted = (if last_root s \<noteq> Some r \<or> root_credit s = 0
                             then root_quantum (settings s) (checkout_key_as_str r)
                             else root_credit s);
                  left = sat_sub granted 1
              in s1\<lparr>last_root := Some r, root_credit := left,
                    roots := if left = 0 then rotate1 (roots s) else roots s\<rparr>)"

definition admit_entry :: "entry \<Rightarrow> entry" where
  "admit_entry e = e\<lparr>e_state := Active, e_waiter := None\<rparr>"

definition admit_slot :: "nat \<times> ticket_id \<Rightarrow> sched \<Rightarrow> sched" where
  "admit_slot slot s =
     (case map_of (entries s) (snd slot) of
        None \<Rightarrow> s
      | Some e \<Rightarrow>
          (charge (e_scope e) s)\<lparr>queue := bset_remove slot (queue s),
             entries := amap_modify (snd slot) admit_entry (entries s),
             sent := sent s @ (case e_waiter e of None \<Rightarrow> [] | Some c \<Rightarrow> [(c, Inr ())])\<rparr>)"

definition pump_turn :: "sched \<Rightarrow> sched \<times> bool" where
  "pump_turn s =
     (let ls = lanes s in
      case rotate_to_lane (length (roots s)) (amap_keys ls) (roots s) (root_credit s) of
        (None, rs, credit) \<Rightarrow> (s\<lparr>roots := rs, root_credit := credit\<rparr>, False)
      | (Some turn_root, rs, credit) \<Rightarrow>
          let s1 = s\<lparr>roots := rs, root_credit := credit\<rparr> in
          (case natural_slot s1 ls turn_root of
             None \<Rightarrow> (s1, False)
           | Some natural \<Rightarrow>
               (case preemption s1 ls turn_root natural of
                  Some (r, slot) \<Rightarrow>
                    (admit_slot slot (account_turn True (fairness_turn s1 turn_root) r (snd slot) s1), True)
                | None \<Rightarrow>
                    (admit_slot natural
                       (account_turn False (fairness_turn s1 turn_root) turn_root (snd natural) s1), True))))"

text \<open>
  The lanes are exactly the eligible waiters of each root, in queue order; in
  particular whatever a turn selects comes from the queue, so the pump's loop ends.
\<close>

definition in_lane :: "sched \<Rightarrow> checkout_key \<Rightarrow> nat \<times> ticket_id \<Rightarrow> bool" where
  "in_lane s r slot \<longleftrightarrow>
     eligible s (snd slot) \<and> map_option e_root (map_of (entries s) (snd slot)) = Some r"

lemma amap_wf_push_lane: "amap_wf ls \<Longrightarrow> amap_wf (push_lane s ls slot)"
  by (simp add: push_lane_def split: option.split)

lemma map_of_push_lane:
  "map_of (push_lane s ls slot) r =
     (if in_lane s r slot then Some (get_or [] (map_of ls r) @ [slot]) else map_of ls r)"
  by (auto simp: push_lane_def in_lane_def eligible_def alist_simps split: option.splits)

lemma amap_wf_foldl_push_lane: "amap_wf ls \<Longrightarrow> amap_wf (foldl (push_lane s) ls q)"
  by (induction q arbitrary: ls) (auto simp: amap_wf_push_lane)

lemma map_of_foldl_push_lane:
  "map_of (foldl (push_lane s) ls q) r =
     (if filter (in_lane s r) q = [] then map_of ls r
      else Some (get_or [] (map_of ls r) @ filter (in_lane s r) q))"
  by (induction q arbitrary: ls) (auto simp: map_of_push_lane)

lemma amap_wf_lanes: "amap_wf (lanes s)"
  by (simp add: lanes_def amap_wf_foldl_push_lane)

lemma map_of_lanes:
  "map_of (lanes s) r =
     (if filter (in_lane s r) (queue s) = [] then None else Some (filter (in_lane s r) (queue s)))"
  by (simp add: lanes_def map_of_foldl_push_lane)

lemma lanes_mem:
  "(r, lane) \<in> set (lanes s) \<Longrightarrow> lane = filter (in_lane s r) (queue s) \<and> lane \<noteq> []"
  by (metis amap_mem_iff [OF amap_wf_lanes] map_of_lanes option.distinct(1) option.inject)

lemma lane_slots:
  assumes "(r, slot) \<in> set (concat (map (\<lambda>(r, lane). map (Pair r) lane) (btree_iter (lanes s))))"
  shows "slot \<in> set (queue s) \<and> in_lane s r slot"
  using assms by (auto dest!: lanes_mem)

lemma natural_slot_mem:
  assumes "natural_slot s' (lanes s) r = Some slot"
  shows "slot \<in> set (queue s) \<and> in_lane s r slot"
proof -
  obtain lane where lane: "map_of (lanes s) r = Some lane" "slot \<in> set lane"
    using assms by (auto simp: natural_slot_def dest: min_by_key_mem split: option.splits if_splits list.splits)
  then have "slot \<in> set (filter (in_lane s r) (queue s))"
    by (auto simp: map_of_lanes split: if_splits)
  then show ?thesis by simp
qed

lemma preemption_mem:
  assumes "preemption s' (lanes s) turn_root natural = Some (r, slot)"
  shows "slot \<in> set (queue s) \<and> in_lane s r slot"
proof -
  from assms have "(r, slot) \<in> set (concat (map (\<lambda>(r, lane). map (Pair r) lane) (btree_iter (lanes s))))"
    by (auto simp: preemption_def split: if_splits option.splits dest!: min_by_key_mem)
  then show ?thesis by (rule lane_slots)
qed

text \<open>
  What a turn that continues the loop does: it admits one eligible slot of the queue
  after accounting for it.
\<close>

lemma account_turn_frame [simp]:
  "settings (account_turn p f r i s) = settings s"
  "next_id (account_turn p f r i s) = next_id s"
  "next_seq (account_turn p f r i s) = next_seq s"
  "entries (account_turn p f r i s) = entries s"
  "by_run (account_turn p f r i s) = by_run s"
  "queue (account_turn p f r i s) = queue s"
  "active_total (account_turn p f r i s) = active_total s"
  "active_by_project (account_turn p f r i s) = active_by_project s"
  "active_by_root (account_turn p f r i s) = active_by_root s"
  "set (roots (account_turn p f r i s)) = set (roots s)"
  "distinct (roots (account_turn p f r i s)) = distinct (roots s)"
  "sent (account_turn p f r i s) = sent s"
  by (simp_all add: account_turn_def Let_def)

lemma rotate_to_lane_set:
  "rotate_to_lane n ks rs c = (x, rs', c') \<Longrightarrow> set rs' = set rs \<and> distinct rs' = distinct rs"
  by (induction n ks rs c rule: rotate_to_lane.induct) (auto split: if_splits)

lemma pump_turn_cases:
  obtains (stop) rs credit where "pump_turn s = (s\<lparr>roots := rs, root_credit := credit\<rparr>, False)"
      "set rs = set (roots s)" "distinct rs = distinct (roots s)"
  | (admit) rs credit slot r p f where
      "pump_turn s = (admit_slot slot (account_turn p f r (snd slot) (s\<lparr>roots := rs, root_credit := credit\<rparr>)), True)"
      "set rs = set (roots s)" "distinct rs = distinct (roots s)"
      "slot \<in> set (queue s)" "in_lane s r slot"
proof -
  obtain x rs credit where
    rot: "rotate_to_lane (length (roots s)) (amap_keys (lanes s)) (roots s) (root_credit s) = (x, rs, credit)"
    by (metis prod_cases3)
  note rs = rotate_to_lane_set [OF rot]
  let ?s1 = "s\<lparr>roots := rs, root_credit := credit\<rparr>"
  show thesis
  proof (cases x)
    case None
    with rot rs show thesis by (intro stop [of credit rs]) (simp_all add: pump_turn_def Let_def)
  next
    case (Some turn_root)
    show thesis
    proof (cases "natural_slot ?s1 (lanes s) turn_root")
      case None
      with rot rs Some show thesis by (intro stop [of credit rs]) (simp_all add: pump_turn_def Let_def)
    next
      case nat: (Some natural)
      note nat_mem = natural_slot_mem [OF nat]
      show thesis
      proof (cases "preemption ?s1 (lanes s) turn_root natural")
        case None
        then show thesis
          using rot rs Some nat nat_mem
          by (intro admit [of natural False "fairness_turn ?s1 turn_root" turn_root credit rs])
            (auto simp: pump_turn_def Let_def)
      next
        case (Some rslot)
        then obtain r slot where pre: "preemption ?s1 (lanes s) turn_root natural = Some (r, slot)"
          by (cases rslot) auto
        then show thesis
          using rot rs \<open>x = Some turn_root\<close> nat preemption_mem [OF pre]
          by (intro admit [of slot True "fairness_turn ?s1 turn_root" r credit rs])
            (auto simp: pump_turn_def Let_def)
      qed
    qed
  qed
qed

lemma admit_slot_queue_shrinks:
  assumes "slot \<in> set (queue s)" "map_of (entries s) (snd slot) \<noteq> None"
  shows "length (queue (admit_slot slot s)) < length (queue s)"
  using assms by (auto simp: admit_slot_def charge_def length_bset_remove_less)

lemma pump_turn_shrinks: "pump_turn s = (s', True) \<Longrightarrow> length (queue s') < length (queue s)"
  by (rule pump_turn_cases [of s])
    (auto simp: in_lane_def intro!: admit_slot_queue_shrinks [THEN order.strict_trans2])

function pump :: "sched \<Rightarrow> sched" where
  "pump s =
     (if active_total s < max_active_engine (settings s)
      then (case pump_turn s of (s', continues) \<Rightarrow> if continues then pump s' else s')
      else s)"
  by pat_completeness auto
termination
  by (relation "measure (\<lambda>s. length (queue s))") (auto dest: pump_turn_shrinks [OF sym])

declare pump.simps [simp del]

section \<open>Entry life cycle\<close>

definition remove_entry :: "ticket_id \<Rightarrow> sched \<Rightarrow> sched \<times> entry option" where
  "remove_entry i s =
     (case map_of (entries s) i of
        None \<Rightarrow> (s, None)
      | Some e \<Rightarrow>
          (let s1 = s\<lparr>entries := AList.delete i (entries s),
                      by_run := AList.delete (e_run e) (by_run s),
                      queue := bset_remove (e_seq e, i) (queue s)\<rparr>;
               s2 = (if e_state e = Active then discharge (e_scope e) s1 else s1);
               s3 = (if \<exists>other \<in> set (amap_values (entries s2)). e_root other = e_root e then s2
                     else s2\<lparr>resume_burst := AList.delete (e_root e) (resume_burst s2),
                             roots := filter (\<lambda>r. r \<noteq> e_root e) (roots s2)\<rparr>)
           in (s3, Some e)))"

text \<open>\<open>Inner::begin_wait\<close>: the result is the receiving end, named by its channel.\<close>

definition wait_entry :: "nat \<Rightarrow> channel \<Rightarrow> entry \<Rightarrow> entry" where
  "wait_entry ready c e = e\<lparr>e_state := Pending, e_ready_seq := ready, e_waiter := Some c\<rparr>"

definition begin_wait :: "ticket_id \<Rightarrow> sched \<Rightarrow> sched \<times> (admission_error + channel)" where
  "begin_wait i s =
     (let ready_seq = next_seq s;
          c = next_seq s;
          s1 = s\<lparr>next_seq := next_seq s + 1\<rparr>
      in case map_of (entries s1) i of
           None \<Rightarrow> (s1, Inl Gone)
         | Some e \<Rightarrow>
             (case e_state e of
                Active \<Rightarrow> (s1\<lparr>sent := sent s1 @ [(c, Inr ())]\<rparr>, Inr c)
              | Pending \<Rightarrow> (s1, Inl Gone)
              | _ \<Rightarrow>
                  (pump (s1\<lparr>entries := amap_modify i (wait_entry ready_seq c) (entries s1),
                            queue := bset_insert (e_seq e, i) (queue s1)\<rparr>),
                   Inr c)))"

definition abandon :: "ticket_id \<Rightarrow> sched \<Rightarrow> sched" where
  "abandon i s = (case remove_entry i s of (s1, None) \<Rightarrow> s1 | (s1, Some _) \<Rightarrow> pump s1)"

definition release :: "ticket_id \<Rightarrow> sched \<Rightarrow> sched" where
  "release i s = abandon i s"

definition park_entry :: "nat \<Rightarrow> entry \<Rightarrow> entry" where
  "park_entry sq e =
     e\<lparr>e_state := Parked, e_park_count := wrapping_add32 (e_park_count e) 1, e_parked_seq := sq\<rparr>"

definition park :: "ticket_id \<Rightarrow> sched \<Rightarrow> sched \<times> (admission_error + unit)" where
  "park i s =
     (let parked_seq = next_seq s;
          s1 = s\<lparr>next_seq := next_seq s + 1\<rparr>
      in case map_of (entries s1) i of
           None \<Rightarrow> (s1, Inl Gone)
         | Some e \<Rightarrow>
             if e_state e \<noteq> Active then (s1, Inl Gone)
             else if e_cancel_requested e then (s1, Inl AdmissionCancelled)
             else (pump (evict_parked_over_residency
                     (discharge (e_scope e)
                        (s1\<lparr>entries := amap_modify i (park_entry parked_seq) (entries s1)\<rparr>))),
                   Inr ()))"

definition cancel_ticket :: "ticket_id \<Rightarrow> sched \<Rightarrow> sched \<times> bool" where
  "cancel_ticket i s =
     (let removal =
        (case remove_entry i s of
           (s1, None) \<Rightarrow> (s1, False)
         | (s1, Some e) \<Rightarrow>
             (pump (s1\<lparr>sent := sent s1 @ (case e_waiter e of None \<Rightarrow> []
                                            | Some c \<Rightarrow> [(c, Inl AdmissionCancelled)])\<rparr>), True))
      in case map_of (entries s) i of
           Some e \<Rightarrow>
             if e_state e = Active
             then if e_cancel_requested e then (s, False)
                  else (s\<lparr>entries := amap_modify i (\<lambda>e. e\<lparr>e_cancel_requested := True\<rparr>) (entries s)\<rparr>, True)
             else removal
         | None \<Rightarrow> removal)"

section \<open>The scheduler's interface\<close>

definition scheduler_new :: "coordination_settings \<Rightarrow> sched" where
  "scheduler_new cfg =
     \<lparr>settings = cfg, next_id = 1, next_seq = 1, entries = [], by_run = [], queue = [],
      active_total = 0, active_by_project = [], active_by_root = [], last_root = None,
      roots = [], root_credit = 0, resume_burst = [], priority_burst = 0, sent = []\<rparr>"

definition scheduler_default :: sched where
  "scheduler_default = scheduler_new default_settings"

definition configure :: "coordination_settings \<Rightarrow> sched \<Rightarrow> sched \<times> (settings_error + unit)" where
  "configure cfg s =
     (case validate cfg of
        Inl e \<Rightarrow> (s, Inl e)
      | Inr _ \<Rightarrow>
          (let s1 = s\<lparr>settings := cfg\<rparr>;
               quantum = (case last_root s1 of None \<Rightarrow> 0
                          | Some r \<Rightarrow> root_quantum (settings s1) (checkout_key_as_str r));
               s2 = s1\<lparr>root_credit := min (root_credit s1) quantum\<rparr>
           in (pump (evict_parked_over_residency s2), Inr ())))"

record ticket =
  t_id :: ticket_id
  t_run :: run_key
  t_scope :: work_scope
  t_seq :: nat
  t_armed :: bool

definition new_entry :: "sched \<Rightarrow> admission_request \<Rightarrow> entry" where
  "new_entry s request =
     \<lparr>e_run = req_run request, e_scope = req_scope request, e_depth = req_depth request,
      e_seq = next_seq s, e_ready_seq = next_seq s, e_parked_seq = 0, e_state = Reserved,
      e_priority = get_or (default_priority (settings s)) (req_priority request),
      e_park_count = 0, e_evict_count = 0, e_cancel_requested = False, e_waiter = None\<rparr>"

definition insert_reservation :: "admission_request \<Rightarrow> sched \<Rightarrow> sched" where
  "insert_reservation request s =
     s\<lparr>next_id := next_id s + 1, next_seq := next_seq s + 1,
       entries := AList.update (next_id s) (new_entry s request) (entries s),
       roots := if scope_root (req_scope request) \<in> set (roots s) then roots s
                else roots s @ [scope_root (req_scope request)],
       by_run := AList.update (req_run request) (next_id s) (by_run s)\<rparr>"

definition reserve :: "admission_request \<Rightarrow> sched \<Rightarrow> sched \<times> (admission_error + ticket)" where
  "reserve request s =
     (if \<not> enabled (settings s) then (s, Inl Disabled)
      else if req_depth request > max_subchat_depth (settings s)
      then (s, Inl (DepthExceeded (req_depth request) (max_subchat_depth (settings s))))
      else if map_of (by_run s) (req_run request) \<noteq> None
      then (s, Inl (Duplicate (req_run request)))
      else if length (entries s) \<ge> max_outstanding (settings s)
      then (s, Inl (OutstandingFull (length (entries s)) (max_outstanding (settings s))))
      else case counts s of
        (pending, reserved, _, _) \<Rightarrow>
          if pending + reserved \<ge> max_pending (settings s)
          then (s, Inl (QueueFull (pending + reserved) (max_pending (settings s))))
          else
            (insert_reservation request s,
             Inr \<lparr>t_id = next_id s, t_run = req_run request, t_scope = req_scope request,
                  t_seq = next_seq s, t_armed = True\<rparr>))"

definition cancel_run :: "run_key \<Rightarrow> sched \<Rightarrow> sched \<times> bool" where
  "cancel_run run s =
     (case map_of (by_run s) run of Some i \<Rightarrow> cancel_ticket i s | None \<Rightarrow> (s, False))"

definition is_tracked :: "run_key \<Rightarrow> sched \<Rightarrow> bool" where
  "is_tracked run s \<longleftrightarrow> map_of (by_run s) run \<noteq> None"

definition active_count :: "sched \<Rightarrow> nat" where
  "active_count s = active_total s"

record ticket_snapshot =
  ts_id :: ticket_id
  ts_run :: run_key
  ts_scope :: work_scope
  ts_depth :: nat
  ts_seq :: nat
  ts_state :: ticket_state
  ts_priority :: work_priority
  ts_park_count :: nat
  ts_evict_count :: nat

record scheduler_snapshot =
  snap_settings :: coordination_settings
  snap_active :: nat
  snap_pending :: nat
  snap_reserved :: nat
  snap_parked :: nat
  snap_evicted :: nat
  snap_outstanding :: nat
  snap_by_project :: "(project_key \<times> nat) list"
  snap_by_root :: "(checkout_key \<times> nat) list"
  snap_by_runtime :: "(runtime_kind \<times> nat) list"
  snap_tickets :: "ticket_snapshot list"

definition ticket_snapshot_of :: "ticket_id \<times> entry \<Rightarrow> ticket_snapshot" where
  "ticket_snapshot_of ie =
     (case ie of (i, e) \<Rightarrow>
        \<lparr>ts_id = i, ts_run = e_run e, ts_scope = e_scope e, ts_depth = e_depth e, ts_seq = e_seq e,
         ts_state = e_state e, ts_priority = e_priority e, ts_park_count = e_park_count e,
         ts_evict_count = e_evict_count e\<rparr>)"

definition snapshot :: "sched \<Rightarrow> scheduler_snapshot" where
  "snapshot s =
     (case counts s of
        (pending, reserved, parked, evicted) \<Rightarrow>
          \<lparr>snap_settings = settings s, snap_active = active_total s, snap_pending = pending,
           snap_reserved = reserved, snap_parked = parked, snap_evicted = evicted,
           snap_outstanding = length (entries s),
           snap_by_project = btree_iter (active_by_project s),
           snap_by_root = btree_iter (active_by_root s),
           snap_by_runtime =
             btree_iter (foldl (\<lambda>m e. if e_state e = Active then counter_inc (run_key_runtime (e_run e)) m else m)
                [] (amap_values (entries s))),
           snap_tickets = sort_key ts_seq (map ticket_snapshot_of (entries s))\<rparr>)"

section \<open>Tickets and permits\<close>

definition ticket_state_of :: "ticket \<Rightarrow> sched \<Rightarrow> ticket_state option" where
  "ticket_state_of t s = map_option e_state (map_of (entries s) (t_id t))"

definition ticket_cancel :: "ticket \<Rightarrow> sched \<Rightarrow> sched" where
  "ticket_cancel t s = fst (cancel_ticket (t_id t) s)"

definition ticket_drop :: "ticket \<Rightarrow> sched \<Rightarrow> sched" where
  "ticket_drop t s = (if t_armed t then abandon (t_id t) s else s)"

text \<open>What the receiving end of a channel sees: a message, a dropped sender, or nothing yet.\<close>

datatype received = Message "admission_error + unit" | Closed | Blocked

definition receive :: "channel \<Rightarrow> sched \<Rightarrow> received" where
  "receive c s =
     (case map_of (sent s) c of
        Some m \<Rightarrow> Message m
      | None \<Rightarrow> if \<exists>e \<in> set (amap_values (entries s)). e_waiter e = Some c then Blocked else Closed)"

record permit =
  p_id :: ticket_id
  p_run :: run_key
  p_scope :: work_scope
  p_seq :: nat
  p_armed :: bool

text \<open>
  \<open>Ticket::acquire\<close> is two atomic steps with the await between them: \<open>acquire_begin\<close>
  registers the waiter, \<open>acquire_resume\<close> is what runs once the channel has answered. The
  future being dropped while it waits runs the guard, \<open>acquire_abandoned\<close>. A cancelled
  permit is not handed out: the guard is still armed there and abandons the ticket.
\<close>

definition acquire_begin :: "ticket \<Rightarrow> sched \<Rightarrow> sched \<times> (admission_error + channel)" where
  "acquire_begin t s = begin_wait (t_id t) s"

definition acquire_resume ::
  "ticket \<Rightarrow> channel \<Rightarrow> sched \<Rightarrow> sched \<times> (admission_error + permit) option" where
  "acquire_resume t c s =
     (case receive c s of
        Blocked \<Rightarrow> (s, None)
      | Message (Inl e) \<Rightarrow> (s, Some (Inl e))
      | Closed \<Rightarrow> (s, Some (Inl AdmissionCancelled))
      | Message (Inr _) \<Rightarrow>
          if (case map_of (entries s) (t_id t) of None \<Rightarrow> True | Some e \<Rightarrow> e_cancel_requested e)
          then (abandon (t_id t) s, Some (Inl AdmissionCancelled))
          else (s, Some (Inr \<lparr>p_id = t_id t, p_run = t_run t, p_scope = t_scope t, p_seq = t_seq t,
                             p_armed = True\<rparr>)))"

definition acquire_abandoned :: "ticket \<Rightarrow> sched \<Rightarrow> sched" where
  "acquire_abandoned t s = abandon (t_id t) s"

definition permit_release :: "permit \<Rightarrow> sched \<Rightarrow> sched" where
  "permit_release p s = (if p_armed p then release (p_id p) s else s)"

text \<open>A refused park returns the error and drops the permit, which is still armed.\<close>

definition permit_park :: "permit \<Rightarrow> sched \<Rightarrow> sched \<times> (admission_error + ticket)" where
  "permit_park p s =
     (if \<not> p_armed p then (s, Inl Gone)
      else case park (p_id p) s of
        (s1, Inl e) \<Rightarrow> (permit_release p s1, Inl e)
      | (s1, Inr _) \<Rightarrow>
          (s1, Inr \<lparr>t_id = p_id p, t_run = p_run p, t_scope = p_scope p, t_seq = p_seq p, t_armed = True\<rparr>))"

section \<open>Executions\<close>

text \<open>Every method that locks the state is built from these atomic operations.\<close>

datatype sched_op =
    OpConfigure coordination_settings
  | OpReserve admission_request
  | OpBeginWait ticket_id
  | OpAbandon ticket_id
  | OpPark ticket_id
  | OpCancel ticket_id
  | OpCancelRun run_key

primrec sched_step :: "sched \<Rightarrow> sched_op \<Rightarrow> sched" where
  "sched_step s (OpConfigure cfg) = fst (configure cfg s)"
| "sched_step s (OpReserve request) = fst (reserve request s)"
| "sched_step s (OpBeginWait i) = fst (begin_wait i s)"
| "sched_step s (OpAbandon i) = abandon i s"
| "sched_step s (OpPark i) = fst (park i s)"
| "sched_step s (OpCancel i) = fst (cancel_ticket i s)"
| "sched_step s (OpCancelRun run) = fst (cancel_run run s)"

definition sched_run :: "sched \<Rightarrow> sched_op list \<Rightarrow> sched" where
  "sched_run s ops = foldl sched_step s ops"

end
