(* ===== verification/Scheduler_Invariant.thy ===== *)
theory Scheduler_Invariant
  imports Scheduler
begin

text \<open>
  The invariant of the admission scheduler and its preservation by every operation of
  \<open>Scheduler\<close>: the run index, the queue, the active counters, the root rotation and the
  waiters all agree with the ticket entries. One lemma per state change (admitting a
  slot, starting to wait, parking, evicting, removing, reserving), then one per
  operation.
\<close>

section \<open>Counters\<close>

text \<open>
  The tally the scheduler keeps per project and per root: a table \<open>represents\<close> a count
  for every key, reads return it, and increments and decrements track it.
\<close>

locale tally =
  fixes inc :: "'k \<Rightarrow> 'm \<Rightarrow> 'm" and dec :: "'k \<Rightarrow> 'm \<Rightarrow> 'm" and reads :: "'m \<Rightarrow> 'k \<Rightarrow> nat"
    and represents :: "'m \<Rightarrow> ('k \<Rightarrow> nat) \<Rightarrow> bool"
  assumes represents_inc: "represents m g \<Longrightarrow> represents (inc k m) (g(k := Suc (g k)))"
    and represents_dec: "represents m g \<Longrightarrow> 0 < g k \<Longrightarrow> represents (dec k m) (g(k := g k - 1))"
    and represents_reads: "represents m g \<Longrightarrow> reads m k = g k"
begin

lemma dec_inc: "represents m g \<Longrightarrow> represents (dec k (inc k m)) g"
  using represents_dec [OF represents_inc, of m g k k] by simp

lemma reads_inc: "represents m g \<Longrightarrow> reads (inc k m) k' = (if k' = k then Suc (g k) else g k')"
  by (simp add: represents_reads [OF represents_inc])

end

definition counter_ok :: "('k, nat) amap \<Rightarrow> ('k \<Rightarrow> nat) \<Rightarrow> bool" where
  "counter_ok m g \<longleftrightarrow> amap_wf m \<and> (\<forall>k. map_of m k = (if g k = 0 then None else Some (g k)))"

interpretation counter: tally counter_inc counter_dec "\<lambda>m k. get_or 0 (map_of m k)" counter_ok
proof
  fix m :: "('k, nat) amap" and g k
  assume ok: "counter_ok m g"
  then show "counter_ok (counter_inc k m) (g(k := Suc (g k)))"
    by (auto simp: counter_ok_def counter_inc_def alist_simps)
  show "get_or 0 (map_of m k) = g k"
    using ok by (auto simp: counter_ok_def)
  assume "0 < g k"
  with ok show "counter_ok (counter_dec k m) (g(k := g k - 1))"
    by (auto simp: counter_ok_def counter_dec_def alist_simps)
qed

section \<open>The invariant\<close>

definition active_in :: "(entry \<Rightarrow> 'k) \<Rightarrow> (ticket_id, entry) amap \<Rightarrow> 'k \<Rightarrow> nat" where
  "active_in f m k = amap_count (\<lambda>e. e_state e = Active \<and> f e = k) m"

definition entries_ok :: "sched \<Rightarrow> bool" where
  "entries_ok s \<longleftrightarrow>
     amap_wf (entries s) \<and>
     (\<forall>i e. map_of (entries s) i = Some e \<longrightarrow>
        i < next_id s \<and> e_seq e < next_seq s \<and> (e_waiter e \<noteq> None \<longleftrightarrow> e_state e = Pending)) \<and>
     (\<forall>i j e f. map_of (entries s) i = Some e \<longrightarrow> map_of (entries s) j = Some f \<longrightarrow>
        e_seq e = e_seq f \<longrightarrow> i = j)"

definition run_index_ok :: "sched \<Rightarrow> bool" where
  "run_index_ok s \<longleftrightarrow>
     amap_wf (by_run s) \<and>
     (\<forall>r i. map_of (by_run s) r = Some i \<longleftrightarrow> (\<exists>e. map_of (entries s) i = Some e \<and> e_run e = r))"

definition queue_ok :: "sched \<Rightarrow> bool" where
  "queue_ok s \<longleftrightarrow>
     sorted (queue s) \<and> distinct (queue s) \<and>
     (\<forall>sq i. (sq, i) \<in> set (queue s) \<longleftrightarrow>
        (\<exists>e. map_of (entries s) i = Some e \<and> e_state e = Pending \<and> e_seq e = sq))"

definition active_ok :: "sched \<Rightarrow> bool" where
  "active_ok s \<longleftrightarrow>
     active_total s = amap_count (in_state Active) (entries s) \<and>
     counter_ok (active_by_project s) (active_in e_project (entries s)) \<and>
     counter_ok (active_by_root s) (active_in e_root (entries s))"

definition roots_ok :: "sched \<Rightarrow> bool" where
  "roots_ok s \<longleftrightarrow>
     distinct (roots s) \<and>
     (\<forall>r. r \<in> set (roots s) \<longleftrightarrow> (\<exists>i e. map_of (entries s) i = Some e \<and> e_root e = r))"

definition sched_inv :: "sched \<Rightarrow> bool" where
  "sched_inv s \<longleftrightarrow>
     entries_ok s \<and> run_index_ok s \<and> queue_ok s \<and> active_ok s \<and> roots_ok s"

lemmas inv_part_defs = entries_ok_def run_index_ok_def queue_ok_def active_ok_def roots_ok_def

lemma sched_inv_wf: "sched_inv s \<Longrightarrow> amap_wf (entries s)"
  by (simp add: sched_inv_def entries_ok_def)

lemma sched_inv_seq_inj:
  "sched_inv s \<Longrightarrow> map_of (entries s) i = Some e \<Longrightarrow> map_of (entries s) j = Some f \<Longrightarrow>
   e_seq e = e_seq f \<Longrightarrow> i = j"
  by (simp add: sched_inv_def entries_ok_def)

lemma sched_inv_waiter:
  "sched_inv s \<Longrightarrow> map_of (entries s) i = Some e \<Longrightarrow> e_waiter e \<noteq> None \<longleftrightarrow> e_state e = Pending"
  unfolding sched_inv_def entries_ok_def by blast

lemma sched_inv_queue:
  "sched_inv s \<Longrightarrow> (sq, i) \<in> set (queue s) \<longleftrightarrow>
     (\<exists>e. map_of (entries s) i = Some e \<and> e_state e = Pending \<and> e_seq e = sq)"
  by (simp add: sched_inv_def queue_ok_def)

text \<open>Fields outside the invariant, and reorderings of the rotation, do not matter to it.\<close>

lemma sched_inv_cong:
  assumes "sched_inv s"
    and "entries s' = entries s" "by_run s' = by_run s" "queue s' = queue s"
    and "active_total s' = active_total s" "active_by_project s' = active_by_project s"
    and "active_by_root s' = active_by_root s" "next_id s \<le> next_id s'" "next_seq s \<le> next_seq s'"
    and "set (roots s') = set (roots s)" "distinct (roots s') = distinct (roots s)"
  shows "sched_inv s'"
proof -
  have "entries_ok s'"
    using assms(1,2,8,9) unfolding sched_inv_def entries_ok_def by simp (meson order.strict_trans2)
  moreover have "run_index_ok s'" "queue_ok s'" "active_ok s'" "roots_ok s'"
    using assms
    by (simp_all add: sched_inv_def run_index_ok_def queue_ok_def active_ok_def roots_ok_def)
  ultimately show ?thesis by (simp add: sched_inv_def)
qed

lemma sched_inv_new: "sched_inv (scheduler_new cfg)"
  by (simp add: sched_inv_def inv_part_defs scheduler_new_def active_in_def counter_ok_def)

section \<open>Changing one entry\<close>

text \<open>\<open>keeps f e\<close>: the change \<open>f\<close> leaves what identifies the entry alone.\<close>

definition keeps :: "(entry \<Rightarrow> entry) \<Rightarrow> entry \<Rightarrow> bool" where
  "keeps f e \<longleftrightarrow> e_run (f e) = e_run e \<and> e_seq (f e) = e_seq e \<and> e_scope (f e) = e_scope e"

lemma map_of_modify_cases:
  assumes "map_of (entries s) i = Some e"
  shows "map_of (amap_modify i f (entries s)) j = Some e' \<longleftrightarrow>
    (if j = i then e' = f e else map_of (entries s) j = Some e')"
  using assms by (auto simp: alist_simps)

lemma entries_ok_modify:
  assumes "entries_ok s" "map_of (entries s) i = Some e" "keeps f e"
    and "e_waiter (f e) \<noteq> None \<longleftrightarrow> e_state (f e) = Pending"
    and "entries s' = amap_modify i f (entries s)" "next_id s' = next_id s" "next_seq s \<le> next_seq s'"
  shows "entries_ok s'"
proof -
  have *: "j < next_id s' \<and> e_seq e' < next_seq s' \<and> (e_waiter e' \<noteq> None \<longleftrightarrow> e_state e' = Pending)"
    if "map_of (entries s') j = Some e'" for j e'
  proof (cases "j = i")
    case True
    with that assms show ?thesis
      by (fastforce simp: map_of_modify_cases entries_ok_def keeps_def)
  next
    case False
    with that assms have "map_of (entries s) j = Some e'" by (simp add: map_of_modify_cases)
    with assms(1,6,7) show ?thesis unfolding entries_ok_def by fastforce
  qed
  have seq: "\<exists>e0. map_of (entries s) j = Some e0 \<and> e_seq e' = e_seq e0"
    if "map_of (entries s') j = Some e'" for j e'
    using that assms by (auto simp: map_of_modify_cases keeps_def split: if_splits)
  have "j = k" if "map_of (entries s') j = Some a" "map_of (entries s') k = Some b" "e_seq a = e_seq b"
    for j k a b
    using seq [OF that(1)] seq [OF that(2)] that(3) assms(1) unfolding entries_ok_def by metis
  with * assms show ?thesis by (auto simp: entries_ok_def)
qed

lemma run_index_ok_modify:
  assumes "run_index_ok s" "map_of (entries s) i = Some e" "keeps f e"
    and "entries s' = amap_modify i f (entries s)" "by_run s' = by_run s"
  shows "run_index_ok s'"
proof -
  have "(\<exists>e'. map_of (entries s') j = Some e' \<and> e_run e' = r) \<longleftrightarrow>
      (\<exists>e'. map_of (entries s) j = Some e' \<and> e_run e' = r)" for j r
    using assms(2-4) by (cases "j = i") (auto simp: map_of_modify_cases keeps_def)
  with assms(1,5) show ?thesis by (simp add: run_index_ok_def)
qed

lemma roots_ok_modify:
  assumes "roots_ok s" "map_of (entries s) i = Some e" "keeps f e"
    and "entries s' = amap_modify i f (entries s)"
    and "set (roots s') = set (roots s)" "distinct (roots s') = distinct (roots s)"
  shows "roots_ok s'"
proof -
  have "(\<exists>j e'. map_of (entries s') j = Some e' \<and> e_root e' = r) \<longleftrightarrow>
      (\<exists>j e'. map_of (entries s) j = Some e' \<and> e_root e' = r)" for r
  proof
    assume "\<exists>j e'. map_of (entries s') j = Some e' \<and> e_root e' = r"
    then obtain j e' where "map_of (entries s') j = Some e'" "e_root e' = r" by blast
    with assms(2-4) show "\<exists>j e'. map_of (entries s) j = Some e' \<and> e_root e' = r"
      by (cases "j = i") (auto simp: map_of_modify_cases keeps_def)
  next
    assume "\<exists>j e'. map_of (entries s) j = Some e' \<and> e_root e' = r"
    then obtain j e' where "map_of (entries s) j = Some e'" "e_root e' = r" by blast
    with assms(2-4) have "map_of (entries s') j = Some (if j = i then f e else e') \<and>
        e_root (if j = i then f e else e') = r"
      by (cases "j = i") (simp_all add: map_of_modify_cases keeps_def)
    then show "\<exists>j e'. map_of (entries s') j = Some e' \<and> e_root e' = r" by blast
  qed
  with assms show ?thesis by (simp add: roots_ok_def)
qed

text \<open>How the active tallies move when an entry changes between active and not active.\<close>

lemma tally_shift:
  fixes A a :: nat
  assumes "A + (if p then 1 else 0) = a + (if p' then 1 else 0)"
  shows "A = (if p \<and> \<not> p' then a - 1 else if \<not> p \<and> p' then Suc a else a)"
  using assms by (cases p; cases p') simp_all

lemma active_in_modify:
  assumes wf: "amap_wf m" and i: "map_of m i = Some e" and k: "k (f e) = k e"
  shows "active_in k (amap_modify i f m) =
    (if e_state e = Active \<and> e_state (f e) \<noteq> Active then (active_in k m)(k e := active_in k m (k e) - 1)
     else if e_state e \<noteq> Active \<and> e_state (f e) = Active then (active_in k m)(k e := Suc (active_in k m (k e)))
     else active_in k m)"
proof
  fix x
  have shift: "active_in k (amap_modify i f m) x + (if e_state e = Active \<and> k e = x then 1 else 0) =
      active_in k m x + (if e_state (f e) = Active \<and> k e = x then 1 else 0)"
    using amap_count_modify [OF wf i, of "\<lambda>e. e_state e = Active \<and> k e = x" f] k
    by (simp only: active_in_def)
  show "active_in k (amap_modify i f m) x =
    (if e_state e = Active \<and> e_state (f e) \<noteq> Active then (active_in k m)(k e := active_in k m (k e) - 1)
     else if e_state e \<noteq> Active \<and> e_state (f e) = Active then (active_in k m)(k e := Suc (active_in k m (k e)))
     else active_in k m) x"
  proof (cases "k e = x")
    case True
    then show ?thesis by (simp add: tally_shift [OF shift])
  next
    case False
    then show ?thesis using shift by simp
  qed
qed

lemma active_in_pos: "map_of m i = Some e \<Longrightarrow> e_state e = Active \<Longrightarrow> 0 < active_in k m (k e)"
  unfolding active_in_def by (rule amap_count_pos [OF map_of_SomeD]) simp_all

lemma count_active_modify:
  assumes "amap_wf m" "map_of m i = Some e"
  shows "amap_count (in_state Active) (amap_modify i f m) + (if e_state e = Active then 1 else 0) =
    amap_count (in_state Active) m + (if e_state (f e) = Active then 1 else 0)"
  using amap_count_modify [OF assms, of "in_state Active" f] by (simp add: in_state_def)

lemma active_ok_modify_same:
  assumes "active_ok s" "amap_wf (entries s)" "map_of (entries s) i = Some e" "keeps f e"
    and "e_state (f e) = Active \<longleftrightarrow> e_state e = Active"
    and "entries s' = amap_modify i f (entries s)" "active_total s' = active_total s"
    and "active_by_project s' = active_by_project s" "active_by_root s' = active_by_root s"
  shows "active_ok s'"
proof -
  have "active_in e_project (entries s') = active_in e_project (entries s)"
    "active_in e_root (entries s') = active_in e_root (entries s)"
    using assms by (simp_all add: active_in_modify keeps_def)
  moreover have "amap_count (in_state Active) (entries s') = amap_count (in_state Active) (entries s)"
    using count_active_modify [OF assms(2,3), of f] assms by (simp split: if_splits)
  ultimately show ?thesis using assms by (simp add: active_ok_def)
qed

lemma active_ok_charge:
  assumes "active_ok s" "amap_wf (entries s)" "map_of (entries s) i = Some e" "keeps f e"
    and "e_state e \<noteq> Active" "e_state (f e) = Active"
  shows "active_ok ((charge (e_scope e) s)\<lparr>entries := amap_modify i f (entries s)\<rparr>)"
proof -
  have "amap_count (in_state Active) (amap_modify i f (entries s))
      = amap_count (in_state Active) (entries s) + 1"
    using count_active_modify [OF assms(2,3), of f] assms by simp
  moreover have "active_in e_project (amap_modify i f (entries s)) =
      (active_in e_project (entries s))(e_project e := Suc (active_in e_project (entries s) (e_project e)))"
    "active_in e_root (amap_modify i f (entries s)) =
      (active_in e_root (entries s))(e_root e := Suc (active_in e_root (entries s) (e_root e)))"
    using assms by (simp_all add: active_in_modify keeps_def)
  ultimately show ?thesis
    using assms(1) by (simp add: active_ok_def charge_def counter.represents_inc)
qed

lemma active_ok_discharge:
  assumes "active_ok s" "amap_wf (entries s)" "map_of (entries s) i = Some e" "keeps f e"
    and "e_state e = Active" "e_state (f e) \<noteq> Active"
  shows "active_ok (discharge (e_scope e) (s\<lparr>entries := amap_modify i f (entries s)\<rparr>))"
proof -
  have "amap_count (in_state Active) (amap_modify i f (entries s)) + 1
      = amap_count (in_state Active) (entries s)"
    using count_active_modify [OF assms(2,3), of f] assms by simp
  moreover have "active_in e_project (amap_modify i f (entries s)) =
      (active_in e_project (entries s))(e_project e := active_in e_project (entries s) (e_project e) - 1)"
    "active_in e_root (amap_modify i f (entries s)) =
      (active_in e_root (entries s))(e_root e := active_in e_root (entries s) (e_root e) - 1)"
    using assms by (simp_all add: active_in_modify keeps_def)
  moreover note active_in_pos [OF assms(3,5), of e_project] active_in_pos [OF assms(3,5), of e_root]
  ultimately show ?thesis
    using assms(1)
    by (auto simp: active_ok_def discharge_def sat_sub_def intro!: counter.represents_dec [simplified])
qed

lemma pending_modify:
  assumes "map_of (entries s) i = Some e" "keeps f e"
  shows "(\<exists>e'. map_of (amap_modify i f (entries s)) j = Some e' \<and> e_state e' = Pending \<and> e_seq e' = sq) \<longleftrightarrow>
    (if j = i then e_state (f e) = Pending \<and> e_seq e = sq
     else \<exists>e'. map_of (entries s) j = Some e' \<and> e_state e' = Pending \<and> e_seq e' = sq)"
  using assms by (auto simp: map_of_modify_cases keeps_def)

lemma queue_ok_modify_same:
  assumes "queue_ok s" "map_of (entries s) i = Some e" "keeps f e"
    and "e_state (f e) = Pending \<longleftrightarrow> e_state e = Pending"
    and "entries s' = amap_modify i f (entries s)" "queue s' = queue s"
  shows "queue_ok s'"
  using assms by (auto simp: queue_ok_def pending_modify)

lemma sched_inv_modify_quiet:
  assumes inv: "sched_inv s" and i: "map_of (entries s) i = Some e" and k: "keeps f e"
    and w: "e_waiter (f e) = e_waiter e"
    and st: "e_state (f e) = Active \<longleftrightarrow> e_state e = Active" "e_state (f e) = Pending \<longleftrightarrow> e_state e = Pending"
  shows "sched_inv (s\<lparr>entries := amap_modify i f (entries s)\<rparr>)" (is "sched_inv ?s'")
proof -
  have we: "e_waiter (f e) \<noteq> None \<longleftrightarrow> e_state (f e) = Pending"
    using sched_inv_waiter [OF inv i] w st(2) by simp
  have "entries_ok ?s'"
    using inv i k we by - (rule entries_ok_modify [of s i e f], simp_all add: sched_inv_def)
  moreover have "run_index_ok ?s'"
    using inv i k by - (rule run_index_ok_modify [of s i e f], simp_all add: sched_inv_def)
  moreover have "queue_ok ?s'"
    using inv i k st by - (rule queue_ok_modify_same [of s i e f], simp_all add: sched_inv_def)
  moreover have "active_ok ?s'"
    using inv i k st
    by - (rule active_ok_modify_same [of s i e f], simp_all add: sched_inv_def sched_inv_wf)
  moreover have "roots_ok ?s'"
    using inv i k by - (rule roots_ok_modify [of s i e f], simp_all add: sched_inv_def)
  ultimately show ?thesis by (simp add: sched_inv_def)
qed

section \<open>The state changes of the operations\<close>

lemma sched_inv_admit_slot:
  assumes inv: "sched_inv s" and slot: "slot \<in> set (queue s)"
  shows "sched_inv (admit_slot slot s)"
proof -
  obtain sq i where slot_eq: "slot = (sq, i)" by (cases slot)
  then obtain e where i: "map_of (entries s) i = Some e" and st: "e_state e = Pending" and sq: "e_seq e = sq"
    using inv slot by (auto simp: sched_inv_queue)
  have k: "keeps admit_entry e" by (simp add: keeps_def admit_entry_def)
  have act: "e_state (admit_entry e) = Active" "e_waiter (admit_entry e) = None"
    by (simp_all add: admit_entry_def)
  let ?s' = "admit_slot slot s"
  have s': "entries ?s' = amap_modify i admit_entry (entries s)" "by_run ?s' = by_run s"
    "queue ?s' = bset_remove slot (queue s)" "next_id ?s' = next_id s" "next_seq ?s' = next_seq s"
    "roots ?s' = roots s"
    using i by (simp_all add: admit_slot_def slot_eq charge_def)
  have "entries_ok ?s'"
    using inv i k act s' by - (rule entries_ok_modify [of s i e admit_entry], simp_all add: sched_inv_def)
  moreover have "run_index_ok ?s'"
    using inv i k s' by - (rule run_index_ok_modify [of s i e admit_entry], simp_all add: sched_inv_def)
  moreover have "roots_ok ?s'"
    using inv i k s' by - (rule roots_ok_modify [of s i e admit_entry], simp_all add: sched_inv_def)
  moreover have "active_ok ?s'"
    using active_ok_charge [OF _ sched_inv_wf [OF inv] i k] inv i st act
    by (simp add: sched_inv_def admit_slot_def slot_eq active_ok_def charge_def)
  moreover have "queue_ok ?s'"
    using inv i k st sq act s'(1,3) slot_eq
    by (auto simp: sched_inv_def queue_ok_def pending_modify)
  ultimately show ?thesis by (simp add: sched_inv_def)
qed

lemma sched_inv_account_turn [simp]: "sched_inv (account_turn p f r i s) \<longleftrightarrow> sched_inv s"
  using sched_inv_cong [of s "account_turn p f r i s"] sched_inv_cong [of "account_turn p f r i s" s]
  by auto

lemma sched_inv_rotation:
  "sched_inv s \<Longrightarrow> set rs = set (roots s) \<Longrightarrow> distinct rs = distinct (roots s) \<Longrightarrow>
   sched_inv (s\<lparr>roots := rs, root_credit := c\<rparr>)"
  by (rule sched_inv_cong [of s]) simp_all

lemma sched_inv_pump_turn:
  assumes "sched_inv s" "pump_turn s = (s', b)"
  shows "sched_inv s'"
proof (rule pump_turn_cases [of s])
  fix rs credit
  assume "pump_turn s = (s\<lparr>roots := rs, root_credit := credit\<rparr>, False)"
    "set rs = set (roots s)" "distinct rs = distinct (roots s)"
  with assms show ?thesis by (metis prod.inject sched_inv_rotation)
next
  fix rs credit slot r p f
  assume "pump_turn s =
      (admit_slot slot (account_turn p f r (snd slot) (s\<lparr>roots := rs, root_credit := credit\<rparr>)), True)"
    and "set rs = set (roots s)" "distinct rs = distinct (roots s)" "slot \<in> set (queue s)"
  with assms show ?thesis by (auto intro!: sched_inv_admit_slot sched_inv_rotation)
qed

lemma sched_inv_pump: "sched_inv s \<Longrightarrow> sched_inv (pump s)"
proof (induction s rule: pump.induct)
  case (1 s)
  obtain s' b where turn: "pump_turn s = (s', b)" by (cases "pump_turn s")
  with 1 show ?case
    by (subst pump.simps) (auto intro: sched_inv_pump_turn)
qed

lemma sched_inv_next_seq: "sched_inv s \<Longrightarrow> sched_inv (s\<lparr>next_seq := next_seq s + 1\<rparr>)"
  by (rule sched_inv_cong [of s]) simp_all

lemma sched_inv_start_wait:
  assumes inv: "sched_inv s" and i: "map_of (entries s) i = Some e"
    and st: "e_state e \<noteq> Active" "e_state e \<noteq> Pending"
  shows "sched_inv (s\<lparr>entries := amap_modify i (wait_entry q c) (entries s),
                      queue := bset_insert (e_seq e, i) (queue s)\<rparr>)" (is "sched_inv ?s'")
proof -
  let ?f = "wait_entry q c"
  have k: "keeps ?f e" by (simp add: keeps_def wait_entry_def)
  have pend: "e_state (?f e) = Pending" "e_waiter (?f e) \<noteq> None"
    by (simp_all add: wait_entry_def)
  have "entries_ok ?s'"
    using inv i k pend by - (rule entries_ok_modify [of s i e ?f], simp_all add: sched_inv_def)
  moreover have "run_index_ok ?s'"
    using inv i k by - (rule run_index_ok_modify [of s i e ?f], simp_all add: sched_inv_def)
  moreover have "roots_ok ?s'"
    using inv i k by - (rule roots_ok_modify [of s i e ?f], simp_all add: sched_inv_def)
  moreover have "active_ok ?s'"
    using inv i k st pend
    by - (rule active_ok_modify_same [of s i e ?f], simp_all add: sched_inv_def sched_inv_wf)
  moreover have "queue_ok ?s'"
    using inv i k st pend by (auto simp: sched_inv_def queue_ok_def pending_modify)
  ultimately show ?thesis by (simp add: sched_inv_def)
qed

lemma sched_inv_park_entry:
  assumes inv: "sched_inv s" and i: "map_of (entries s) i = Some e" and st: "e_state e = Active"
  shows "sched_inv (discharge (e_scope e) (s\<lparr>entries := amap_modify i (park_entry q) (entries s)\<rparr>))"
    (is "sched_inv ?s'")
proof -
  let ?f = "park_entry q"
  have k: "keeps ?f e" by (simp add: keeps_def park_entry_def)
  have w: "e_waiter e = None" using sched_inv_waiter [OF inv i] st by simp
  then have pk: "e_state (?f e) = Parked" "e_waiter (?f e) = None"
    by (simp_all add: park_entry_def)
  have "entries_ok ?s'"
    using inv i k pk
    by - (rule entries_ok_modify [of s i e ?f], simp_all add: sched_inv_def discharge_def)
  moreover have "run_index_ok ?s'"
    using inv i k by - (rule run_index_ok_modify [of s i e ?f], simp_all add: sched_inv_def discharge_def)
  moreover have "roots_ok ?s'"
    using inv i k by - (rule roots_ok_modify [of s i e ?f], simp_all add: sched_inv_def discharge_def)
  moreover have "active_ok ?s'"
    using active_ok_discharge [OF _ sched_inv_wf [OF inv] i k] inv i st pk by (simp add: sched_inv_def)
  moreover have "queue_ok ?s'"
    using inv i k st pk
    by - (rule queue_ok_modify_same [of s i e ?f], simp_all add: sched_inv_def discharge_def)
  ultimately show ?thesis by (simp add: sched_inv_def)
qed

lemma parked_slots_mem:
  assumes "amap_wf (entries s)"
  shows "(q, i) \<in> set (parked_slots s) \<longleftrightarrow>
    (\<exists>e. map_of (entries s) i = Some e \<and> e_state e = Parked \<and> e_parked_seq e = q)"
  using amap_mem_iff [OF assms] by (force simp: parked_slots_def)

lemma sched_inv_evict_fold:
  "sched_inv s \<Longrightarrow>
   \<forall>(q, i) \<in> set xs. \<exists>e. map_of (entries s) i = Some e \<and> e_state e \<in> {Parked, Evicted} \<Longrightarrow>
   sched_inv (s\<lparr>entries := foldl (\<lambda>m (_, i). amap_modify i evict_entry m) (entries s) xs\<rparr>)"
proof (induction xs arbitrary: s)
  case Nil
  then show ?case by simp
next
  case (Cons x xs)
  obtain q i where x: "x = (q, i)" by (cases x)
  with Cons.prems obtain e where e: "map_of (entries s) i = Some e" "e_state e \<in> {Parked, Evicted}"
    by auto
  let ?s1 = "s\<lparr>entries := amap_modify i evict_entry (entries s)\<rparr>"
  have "sched_inv ?s1"
    using e by (intro sched_inv_modify_quiet [OF Cons.prems(1) e(1)]) (auto simp: keeps_def evict_entry_def)
  moreover have "\<forall>(q, j) \<in> set xs. \<exists>e. map_of (entries ?s1) j = Some e \<and> e_state e \<in> {Parked, Evicted}"
    using Cons.prems(2) by (fastforce simp: alist_simps evict_entry_def)
  ultimately have "sched_inv (?s1\<lparr>entries := foldl (\<lambda>m (_, i). amap_modify i evict_entry m) (entries ?s1) xs\<rparr>)"
    by (rule Cons.IH)
  then show ?case by (simp add: x)
qed

lemma sched_inv_evict: "sched_inv s \<Longrightarrow> sched_inv (evict_parked_over_residency s)"
  unfolding evict_parked_over_residency_def Let_def
  by (auto intro!: sched_inv_evict_fold dest!: in_set_takeD
      simp: parked_slots_mem [OF sched_inv_wf])

lemma active_in_delete:
  assumes "amap_wf m" "map_of m i = Some e"
  shows "active_in k (AList.delete i m) =
    (if e_state e = Active then (active_in k m)(k e := active_in k m (k e) - 1) else active_in k m)"
proof
  fix x
  have "active_in k m x = active_in k (AList.delete i m) x + (if e_state e = Active \<and> k e = x then 1 else 0)"
    using amap_count_delete [OF assms, of "\<lambda>e. e_state e = Active \<and> k e = x"] by (simp only: active_in_def)
  then show "active_in k (AList.delete i m) x =
    (if e_state e = Active then (active_in k m)(k e := active_in k m (k e) - 1) else active_in k m) x"
    by (cases "k e = x") simp_all
qed

lemma active_ok_delete:
  assumes "active_ok s" "amap_wf (entries s)" and i: "map_of (entries s) i = Some e"
    and s1: "entries s1 = AList.delete i (entries s)" "active_total s1 = active_total s"
      "active_by_project s1 = active_by_project s" "active_by_root s1 = active_by_root s"
  shows "active_ok (if e_state e = Active then discharge (e_scope e) s1 else s1)"
proof -
  have cnt: "amap_count (in_state Active) (entries s) =
      amap_count (in_state Active) (AList.delete i (entries s)) + (if e_state e = Active then 1 else 0)"
    using amap_count_delete [OF assms(2) i, of "in_state Active"] by (simp add: in_state_def)
  show ?thesis
  proof (cases "e_state e = Active")
    case True
    with assms cnt active_in_pos [OF i True, of e_project] active_in_pos [OF i True, of e_root]
    show ?thesis
      by (auto simp: active_ok_def discharge_def sat_sub_def active_in_delete
          intro!: counter.represents_dec [simplified])
  next
    case False
    with assms cnt show ?thesis by (simp add: active_ok_def active_in_delete)
  qed
qed

lemma entries_ok_delete:
  assumes "entries_ok s" "entries s' = AList.delete i (entries s)" "next_id s' = next_id s" "next_seq s' = next_seq s"
  shows "entries_ok s'"
proof -
  have "map_of (entries s) j = Some a" if "map_of (entries s') j = Some a" for j a
    using that assms(2) by (simp add: alist_simps split: if_splits)
  with assms show ?thesis unfolding entries_ok_def by (metis amap_wf_delete)
qed

lemma run_index_ok_delete:
  assumes ok: "run_index_ok s" and i: "map_of (entries s) i = Some e"
    and s': "entries s' = AList.delete i (entries s)" "by_run s' = AList.delete (e_run e) (by_run s)"
  shows "run_index_ok s'"
proof -
  from ok i have r: "map_of (by_run s) (e_run e) = Some i" by (auto simp: run_index_ok_def)
  have "map_of (by_run s') r = Some j \<longleftrightarrow> (\<exists>a. map_of (entries s') j = Some a \<and> e_run a = r)" for r j
  proof (cases "r = e_run e")
    case True
    have "j = i" if "map_of (entries s) j = Some a" "e_run a = r" for a
      using that True r ok unfolding run_index_ok_def by (metis option.inject)
    with True s' show ?thesis by (auto simp: alist_simps)
  next
    case False
    with ok i s' show ?thesis by (auto simp: run_index_ok_def alist_simps)
  qed
  with ok s' show ?thesis by (simp add: run_index_ok_def)
qed

lemma queue_ok_delete:
  assumes "queue_ok s" and i: "map_of (entries s) i = Some e"
    and "entries s' = AList.delete i (entries s)" "queue s' = bset_remove (e_seq e, i) (queue s)"
  shows "queue_ok s'"
  using assms by (auto simp: queue_ok_def alist_simps)

lemma roots_ok_delete:
  assumes ok: "roots_ok s" and i: "map_of (entries s) i = Some e"
    and s': "entries s' = AList.delete i (entries s)"
    and r': "roots s' = (if \<exists>j a. map_of (entries s') j = Some a \<and> e_root a = e_root e then roots s
                        else filter (\<lambda>r. r \<noteq> e_root e) (roots s))"
  shows "roots_ok s'"
proof -
  have "(\<exists>j a. map_of (entries s') j = Some a \<and> e_root a = r) \<longleftrightarrow>
      (\<exists>j a. map_of (entries s) j = Some a \<and> e_root a = r)" if "r \<noteq> e_root e" for r
  proof -
    have "j \<noteq> i" if "map_of (entries s) j = Some a" "e_root a = r" for j a
      using that i \<open>r \<noteq> e_root e\<close> by auto
    with s' show ?thesis by (auto simp: alist_simps)
  qed
  moreover have "e_root e \<in> set (roots s)"
    using ok i by (auto simp: roots_ok_def)
  ultimately have "r \<in> set (roots s') \<longleftrightarrow> (\<exists>j a. map_of (entries s') j = Some a \<and> e_root a = r)" for r
    using ok r' by (cases "r = e_root e") (simp_all add: roots_ok_def)
  moreover have "distinct (roots s')"
    using ok r' by (simp add: roots_ok_def)
  ultimately show ?thesis by (simp add: roots_ok_def)
qed

lemma remove_entry_Some:
  assumes inv: "sched_inv s" and i: "map_of (entries s) i = Some e"
  obtains s' where "remove_entry i s = (s', Some e)" "sched_inv s'"
    "entries s' = AList.delete i (entries s)" "settings s' = settings s" "sent s' = sent s"
    "next_seq s' = next_seq s" "priority_burst s' = priority_burst s"
proof -
  define s1 where "s1 = s\<lparr>entries := AList.delete i (entries s), by_run := AList.delete (e_run e) (by_run s),
      queue := bset_remove (e_seq e, i) (queue s)\<rparr>"
  define s2 where "s2 = (if e_state e = Active then discharge (e_scope e) s1 else s1)"
  define others where "others \<longleftrightarrow> (\<exists>other \<in> set (amap_values (entries s2)). e_root other = e_root e)"
  define s3 where "s3 = (if others then s2
     else s2\<lparr>resume_burst := AList.delete (e_root e) (resume_burst s2),
             roots := filter (\<lambda>r. r \<noteq> e_root e) (roots s2)\<rparr>)"
  have s2: "entries s2 = AList.delete i (entries s)" "by_run s2 = AList.delete (e_run e) (by_run s)"
    "queue s2 = bset_remove (e_seq e, i) (queue s)" "next_id s2 = next_id s" "next_seq s2 = next_seq s"
    "settings s2 = settings s" "sent s2 = sent s" "priority_burst s2 = priority_burst s" "roots s2 = roots s"
    by (simp_all add: s2_def s1_def discharge_def)
  have s3: "entries s3 = AList.delete i (entries s)" "by_run s3 = AList.delete (e_run e) (by_run s)"
    "queue s3 = bset_remove (e_seq e, i) (queue s)" "next_id s3 = next_id s" "next_seq s3 = next_seq s"
    "settings s3 = settings s" "sent s3 = sent s" "priority_burst s3 = priority_burst s"
    "active_ok s3 = active_ok s2"
    "roots s3 = (if others then roots s else filter (\<lambda>r. r \<noteq> e_root e) (roots s))"
    by (simp_all add: s3_def s2 active_ok_def)
  have "others \<longleftrightarrow> (\<exists>j a. map_of (entries s3) j = Some a \<and> e_root a = e_root e)"
    using amap_values_ex [OF amap_wf_delete [OF sched_inv_wf [OF inv]], of i "\<lambda>a. e_root a = e_root e"]
    by (simp add: others_def s2 s3)
  then have "roots_ok s3"
    using inv i s3(1,10) by - (rule roots_ok_delete [of s i e], simp_all add: sched_inv_def)
  moreover have "entries_ok s3"
    using inv s3(1,4,5) by - (rule entries_ok_delete [of s _ i], simp_all add: sched_inv_def)
  moreover have "run_index_ok s3"
    using inv i s3(1,2) by - (rule run_index_ok_delete [of s i e], simp_all add: sched_inv_def)
  moreover have "queue_ok s3"
    using inv i s3(1,3) by - (rule queue_ok_delete [of s i e], simp_all add: sched_inv_def)
  moreover have "active_ok s3"
    unfolding s3(9) s2_def
    by (rule active_ok_delete [of s i e]) (use inv i in \<open>simp_all add: sched_inv_def sched_inv_wf s1_def\<close>)
  ultimately have "sched_inv s3" by (simp add: sched_inv_def)
  moreover have "remove_entry i s = (s3, Some e)"
    by (simp only: remove_entry_def i option.case Let_def s3_def others_def s2_def s1_def)
  ultimately show thesis using s3(1,5,6,7,8) by - (rule that)
qed

lemma remove_entry_None: "map_of (entries s) i = None \<Longrightarrow> remove_entry i s = (s, None)"
  by (simp add: remove_entry_def)

section \<open>Every operation keeps the invariant\<close>

lemma sched_inv_sent: "sched_inv s \<Longrightarrow> sched_inv (s\<lparr>sent := x\<rparr>)"
  by (rule sched_inv_cong [of s]) simp_all

lemma sched_inv_begin_wait:
  assumes inv: "sched_inv s"
  shows "sched_inv (fst (begin_wait i s))"
proof -
  let ?s1 = "s\<lparr>next_seq := next_seq s + 1\<rparr>"
  have inv1: "sched_inv ?s1" using inv by (rule sched_inv_next_seq)
  show ?thesis
  proof (cases "map_of (entries s) i")
    case None
    with inv1 show ?thesis by (simp add: begin_wait_def)
  next
    case (Some e)
    show ?thesis
    proof (cases "e_state e = Active \<or> e_state e = Pending")
      case True
      with inv1 Some show ?thesis by (auto simp: begin_wait_def Let_def intro: sched_inv_sent)
    next
      case False
      then have "sched_inv (?s1\<lparr>entries := amap_modify i (wait_entry (next_seq s) (next_seq s)) (entries ?s1),
          queue := bset_insert (e_seq e, i) (queue ?s1)\<rparr>)"
        using Some by (intro sched_inv_start_wait [OF inv1]) simp_all
      with False Some show ?thesis
        by (cases "e_state e") (simp_all add: begin_wait_def Let_def sched_inv_pump)
    qed
  qed
qed

lemma sched_inv_abandon: "sched_inv s \<Longrightarrow> sched_inv (abandon i s)"
proof (cases "map_of (entries s) i")
  case None
  assume "sched_inv s"
  with None show ?thesis by (simp add: abandon_def remove_entry_None)
next
  case (Some e)
  assume "sched_inv s"
  then obtain s' where "remove_entry i s = (s', Some e)" "sched_inv s'"
    using Some by (rule remove_entry_Some)
  then show ?thesis by (simp add: abandon_def sched_inv_pump)
qed

lemma sched_inv_park:
  assumes inv: "sched_inv s"
  shows "sched_inv (fst (park i s))"
proof (cases "map_of (entries s) i")
  case None
  with sched_inv_next_seq [OF inv] show ?thesis by (simp add: park_def)
next
  case (Some e)
  let ?s1 = "s\<lparr>next_seq := next_seq s + 1\<rparr>"
  show ?thesis
  proof (cases "e_state e = Active \<and> \<not> e_cancel_requested e")
    case True
    then have "sched_inv (discharge (e_scope e)
        (?s1\<lparr>entries := amap_modify i (park_entry (next_seq s)) (entries ?s1)\<rparr>))"
      using Some by (intro sched_inv_park_entry [OF sched_inv_next_seq [OF inv]]) simp_all
    with True Some show ?thesis
      by (simp add: park_def Let_def sched_inv_pump sched_inv_evict)
  next
    case False
    with Some sched_inv_next_seq [OF inv] show ?thesis by (auto simp: park_def Let_def)
  qed
qed

lemma sched_inv_cancel_flag:
  assumes "sched_inv s" "map_of (entries s) i = Some e"
  shows "sched_inv (s\<lparr>entries := amap_modify i (\<lambda>e. e\<lparr>e_cancel_requested := True\<rparr>) (entries s)\<rparr>)"
  by (rule sched_inv_modify_quiet [OF assms]) (simp_all add: keeps_def)

lemma sched_inv_cancel_ticket:
  assumes inv: "sched_inv s"
  shows "sched_inv (fst (cancel_ticket i s))"
proof (cases "map_of (entries s) i")
  case None
  with inv show ?thesis by (simp add: cancel_ticket_def remove_entry_None)
next
  case (Some e)
  show ?thesis
  proof (cases "e_state e = Active")
    case True
    with inv Some show ?thesis by (simp add: cancel_ticket_def sched_inv_cancel_flag)
  next
    case False
    obtain s' where "remove_entry i s = (s', Some e)" "sched_inv s'"
      using inv Some by (rule remove_entry_Some)
    with False Some show ?thesis
      by (simp add: cancel_ticket_def sched_inv_pump sched_inv_sent)
  qed
qed

lemma sched_inv_configure: "sched_inv s \<Longrightarrow> sched_inv (fst (configure cfg s))"
proof (cases "validate cfg")
  case (Inr u)
  assume "sched_inv s"
  then have "sched_inv (s\<lparr>settings := cfg, root_credit := c\<rparr>)" for c
    by (rule sched_inv_cong) simp_all
  with Inr show ?thesis
    by (simp add: configure_def Let_def sched_inv_pump sched_inv_evict)
qed (simp add: configure_def)

lemma sched_inv_fresh:
  "sched_inv s \<Longrightarrow> map_of (entries s) (next_id s) = None"
  unfolding sched_inv_def entries_ok_def by (metis nat_neq_iff not_None_eq)

lemma entries_ok_insert:
  assumes "entries_ok s" "entries s' = AList.update (next_id s) e (entries s)"
    and "next_id s' = next_id s + 1" "next_seq s' = next_seq s + 1"
    and "e_seq e = next_seq s" "e_waiter e = None" "e_state e \<noteq> Pending"
  shows "entries_ok s'"
proof -
  have old: "i < next_id s \<and> e_seq a < next_seq s \<and> (e_waiter a \<noteq> None \<longleftrightarrow> e_state a = Pending)"
    if "map_of (entries s) i = Some a" for i a
    using assms(1) that unfolding entries_ok_def by blast
  have case_new: "(i = next_id s \<and> a = e) \<or> (i \<noteq> next_id s \<and> map_of (entries s) i = Some a)"
    if "map_of (entries s') i = Some a" for i a
    using that assms(2) by (auto simp: alist_simps split: if_splits)
  have "i = j" if "map_of (entries s') i = Some a" "map_of (entries s') j = Some b" "e_seq a = e_seq b" for i j a b
    using case_new [OF that(1)] case_new [OF that(2)] that(3) old assms(1,5)
    unfolding entries_ok_def by (metis order.irrefl)
  moreover have "i < next_id s' \<and> e_seq a < next_seq s' \<and> (e_waiter a \<noteq> None \<longleftrightarrow> e_state a = Pending)"
    if "map_of (entries s') i = Some a" for i a
    using case_new [OF that] old [of i a] assms(3-7) by auto
  moreover have "amap_wf (entries s')" using assms(1,2) by (simp add: entries_ok_def)
  ultimately show ?thesis unfolding entries_ok_def by blast
qed

lemma active_in_insert:
  assumes "map_of m i = None" "e_state e \<noteq> Active"
  shows "active_in k (AList.update i e m) = active_in k m"
  using assms by (auto simp: active_in_def amap_count_update_new)

lemma sched_inv_insert:
  assumes inv: "sched_inv s" and run: "map_of (by_run s) (req_run q) = None"
  shows "sched_inv (insert_reservation q s)" (is "sched_inv ?s'")
proof -
  note fresh = sched_inv_fresh [OF inv]
  have no_run: "e_run a \<noteq> req_run q" if "map_of (entries s) i = Some a" for i a
    using inv run that unfolding sched_inv_def run_index_ok_def by (metis option.distinct(1))
  have new: "e_run (new_entry s q) = req_run q" "e_scope (new_entry s q) = req_scope q"
    "e_state (new_entry s q) = Reserved" "e_seq (new_entry s q) = next_seq s" "e_waiter (new_entry s q) = None"
    by (simp_all add: new_entry_def)
  have "entries_ok ?s'"
    by (rule entries_ok_insert [of s _ "new_entry s q"])
      (use inv new in \<open>simp_all add: sched_inv_def insert_reservation_def\<close>)
  moreover have "run_index_ok ?s'"
    using inv new no_run fresh
    by (auto simp: sched_inv_def run_index_ok_def alist_simps insert_reservation_def)
  moreover have "queue_ok ?s'"
    using inv new fresh by (auto simp: sched_inv_def queue_ok_def alist_simps insert_reservation_def)
  moreover have "active_ok ?s'"
    using inv new fresh
    by (simp add: sched_inv_def active_ok_def active_in_insert amap_count_update_new in_state_def
        insert_reservation_def)
  moreover have "roots_ok ?s'"
  proof -
    have "map_of (entries ?s') j = Some a \<longleftrightarrow>
        (if j = next_id s then a = new_entry s q else map_of (entries s) j = Some a)" for j a
      by (auto simp: alist_simps insert_reservation_def)
    moreover have "j \<noteq> next_id s" if "map_of (entries s) j = Some a" for j a
      using that fresh by auto
    ultimately have "(\<exists>j a. map_of (entries ?s') j = Some a \<and> e_root a = r) \<longleftrightarrow>
        r = scope_root (req_scope q) \<or> (\<exists>j a. map_of (entries s) j = Some a \<and> e_root a = r)" for r
      using new(2) by metis
    with inv show ?thesis by (auto simp: sched_inv_def roots_ok_def insert_reservation_def)
  qed
  ultimately show ?thesis by (simp add: sched_inv_def)
qed

lemma sched_inv_reserve: "sched_inv s \<Longrightarrow> sched_inv (fst (reserve q s))"
  by (auto simp: reserve_def counts_def intro: sched_inv_insert)

lemma sched_inv_step: "sched_inv s \<Longrightarrow> sched_inv (sched_step s op)"
  by (cases op)
    (simp_all add: sched_inv_configure sched_inv_reserve sched_inv_begin_wait sched_inv_abandon
      sched_inv_park sched_inv_cancel_ticket cancel_run_def split: option.split)

interpretation scheduler: machine "scheduler_new cfg" sched_step sched_inv for cfg
  by unfold_locales (auto simp: sched_inv_new sched_inv_step)

lemma untracked_after_delete:
  assumes inv: "sched_inv s" "sched_inv s1" and i: "map_of (entries s) i = Some e"
    and s1: "entries s1 = AList.delete i (entries s)"
  shows "map_of (by_run s1) (e_run e) = None"
proof (rule ccontr)
  have idx: "map_of (by_run t) r = Some j \<longleftrightarrow> (\<exists>e. map_of (entries t) j = Some e \<and> e_run e = r)"
    if "sched_inv t" for t r j using that by (simp add: sched_inv_def run_index_ok_def)
  assume "map_of (by_run s1) (e_run e) \<noteq> None"
  then obtain j d where "map_of (entries s1) j = Some d" "e_run d = e_run e" using idx [OF inv(2)] by auto
  then have "j \<noteq> i" "map_of (by_run s) (e_run e) = Some j" using s1 idx [OF inv(1)] by (auto simp: alist_simps split: if_splits)
  moreover have "map_of (by_run s) (e_run e) = Some i" using i idx [OF inv(1)] by blast
  ultimately show False by simp
qed

end
