(* ===== verification/Scheduler_Properties.thy ===== *)
theory Scheduler_Properties
  imports Scheduler_Invariant
begin

text \<open>
  The pump as a relation on states: what it leaves alone, what it does to one entry, and
  the discipline of the \<open>oneshot\<close> channels that every operation keeps.
\<close>

section \<open>What a pump does to one entry\<close>

lemma admit_slot_entries:
  "slot \<in> set (queue s) \<Longrightarrow> sched_inv s \<Longrightarrow>
   entries (admit_slot slot s) = amap_modify (snd slot) admit_entry (entries s)"
  by (cases slot) (auto simp: sched_inv_queue admit_slot_def charge_def)

lemma admit_slot_frame [simp]:
  "settings (admit_slot slot s) = settings s" "next_id (admit_slot slot s) = next_id s"
  "next_seq (admit_slot slot s) = next_seq s" "roots (admit_slot slot s) = roots s"
  "by_run (admit_slot slot s) = by_run s"
  "priority_burst (admit_slot slot s) = priority_burst s"
  "root_credit (admit_slot slot s) = root_credit s" "last_root (admit_slot slot s) = last_root s"
  "resume_burst (admit_slot slot s) = resume_burst s"
  by (simp_all add: admit_slot_def charge_def split: option.split)

text \<open>
  Relations that every turn satisfies and that compose hold of the whole pump.
\<close>

lemma pump_unfold:
  "pump s = (if active_total s < max_active_engine (settings s)
     then let t = pump_turn s in if snd t then pump (fst t) else fst t else s)"
  by (subst pump.simps) (simp add: split_def)

lemma pump_rel:
  assumes "I s"
    and keep: "\<And>s s' b. I s \<Longrightarrow> pump_turn s = (s', b) \<Longrightarrow> I s'"
    and refl: "\<And>s. R s s"
    and turn: "\<And>s s' b. I s \<Longrightarrow> pump_turn s = (s', b) \<Longrightarrow> R s s'"
    and trans: "\<And>s s' s''. R s s' \<Longrightarrow> R s' s'' \<Longrightarrow> R s s''"
  shows "R s (pump s)"
  using \<open>I s\<close>
proof (induction s rule: pump.induct)
  case (1 s)
  obtain s' b where t: "pump_turn s = (s', b)" by (cases "pump_turn s")
  have "R s s'" by (rule turn [OF "1.prems" t])
  moreover have "R s' (pump s')" if "active_total s < max_active_engine (settings s)" b
    using "1.IH" that t keep [OF "1.prems" t] by simp
  ultimately show ?case using t refl trans by (auto simp: pump_unfold [of s] Let_def)
qed

lemma pump_frame [simp]:
  "settings (pump s) = settings s" "next_id (pump s) = next_id s" "next_seq (pump s) = next_seq s"
  "by_run (pump s) = by_run s" "map fst (entries (pump s)) = map fst (entries s)"
proof -
  define R where "R = (\<lambda>(s :: sched) (s' :: sched). settings s' = settings s \<and> next_id s' = next_id s \<and>
    next_seq s' = next_seq s \<and> by_run s' = by_run s \<and> map fst (entries s') = map fst (entries s))"
  have "R s (pump s)"
  proof (rule pump_rel [of "\<lambda>_. True"])
    fix s s' b
    assume "pump_turn s = (s', b)"
    then show "R s s'"
      by (rule_tac pump_turn_cases [of s])
        (auto simp: R_def admit_slot_def charge_def split: option.split)
  qed (auto simp: R_def)
  then show "settings (pump s) = settings s" "next_id (pump s) = next_id s"
    "next_seq (pump s) = next_seq s" "by_run (pump s) = by_run s"
    "map fst (entries (pump s)) = map fst (entries s)" by (auto simp: R_def)
qed

text \<open>
  A turn, and hence the pump, leaves an entry alone or admits it from the queue and
  answers its waiter; it adds and removes no entry.
\<close>

lemma pump_turn_entry:
  assumes inv: "sched_inv s" and turn: "pump_turn s = (s', b)" and j: "map_of (entries s) j = Some e"
  shows "map_of (entries s') j = Some e \<or>
    e_state e = Pending \<and> map_of (entries s') j = Some (admit_entry e) \<and>
    (\<forall>c. e_waiter e = Some c \<longrightarrow> (c, Inr ()) \<in> set (sent s'))"
proof (rule pump_turn_cases [of s])
  fix rs credit
  assume "pump_turn s = (s\<lparr>roots := rs, root_credit := credit\<rparr>, False)"
  with turn j show ?thesis by auto
next
  fix rs credit slot r p f
  let ?s1 = "account_turn p f r (snd (slot :: nat \<times> nat)) (s\<lparr>roots := rs, root_credit := credit\<rparr>)"
  assume adm: "pump_turn s = (admit_slot slot ?s1, True)"
    and slot: "slot \<in> set (queue s)" and rs: "set rs = set (roots s)" "distinct rs = distinct (roots s)"
  obtain sq i where si: "slot = (sq, i)" by (cases slot)
  with slot inv obtain d where d: "map_of (entries s) i = Some d" "e_state d = Pending"
    by (auto simp: sched_inv_queue)
  have s': "s' = admit_slot slot ?s1" using adm turn by simp
  show ?thesis
  proof (cases "j = i")
    case True
    then show ?thesis
      using j d si s' by (auto simp: admit_slot_def charge_def alist_simps)
  next
    case False
    then show ?thesis
      using j d si s' by (auto simp: admit_slot_def charge_def alist_simps)
  qed
qed

lemma length_entries_pump [simp]: "length (entries (pump s)) = length (entries s)"
  using pump_frame(5) [of s] by (metis length_map)

lemma pump_entry_None [simp]: "map_of (entries (pump s)) j = None \<longleftrightarrow> map_of (entries s) j = None"
  by (simp add: map_of_None_keys)

lemma pump_sent_mono: "set (sent s) \<subseteq> set (sent (pump s))"
proof (rule pump_rel [of "\<lambda>_. True"])
  fix s s' b
  assume "pump_turn s = (s', b)"
  then show "set (sent s) \<subseteq> set (sent s')"
    by (rule_tac pump_turn_cases [of s]) (auto simp: admit_slot_def charge_def split: option.splits)
qed auto

lemma pump_entry:
  "sched_inv s \<Longrightarrow> map_of (entries s) j = Some e \<Longrightarrow>
   map_of (entries (pump s)) j = Some e \<or>
   e_state e = Pending \<and> map_of (entries (pump s)) j = Some (admit_entry e) \<and>
   (\<forall>c. e_waiter e = Some c \<longrightarrow> (c, Inr ()) \<in> set (sent (pump s)))"
proof (induction s arbitrary: e rule: pump.induct)
  case (1 s)
  obtain s' b where turn: "pump_turn s = (s', b)" by (cases "pump_turn s")
  note step = pump_turn_entry [OF "1.prems"(1) turn "1.prems"(2)]
  show ?case
  proof (cases "active_total s < max_active_engine (settings s) \<and> b")
    case True
    then have eq: "pump s = pump s'" using turn by (simp add: pump_unfold [of s])
    have IH: "map_of (entries s') j = Some d \<Longrightarrow>
        map_of (entries (pump s')) j = Some d \<or>
        e_state d = Pending \<and> map_of (entries (pump s')) j = Some (admit_entry d) \<and>
        (\<forall>c. e_waiter d = Some c \<longrightarrow> (c, Inr ()) \<in> set (sent (pump s')))" for d
      using "1.IH" True turn sched_inv_pump_turn [OF "1.prems"(1) turn] by simp
    from step show ?thesis
    proof
      assume "map_of (entries s') j = Some e"
      from IH [OF this] eq show ?thesis by simp
    next
      assume adm: "e_state e = Pending \<and> map_of (entries s') j = Some (admit_entry e) \<and>
        (\<forall>c. e_waiter e = Some c \<longrightarrow> (c, Inr ()) \<in> set (sent s'))"
      then have "map_of (entries (pump s')) j = Some (admit_entry e)"
        using IH [of "admit_entry e"] by (auto simp: admit_entry_def)
      with adm eq pump_sent_mono [of s'] show ?thesis by auto
    qed
  next
    case False
    then have "pump s = s' \<or> pump s = s" using turn by (auto simp: pump_unfold [of s])
    with step "1.prems" show ?thesis by auto
  qed
qed

section \<open>Channels\<close>

text \<open>
  A channel carries at most one message, belongs to at most one waiting entry, and an
  entry waits on a channel that has carried none.
\<close>

definition chan_ok :: "sched \<Rightarrow> bool" where
  "chan_ok s \<longleftrightarrow>
     distinct (map fst (sent s)) \<and>
     (\<forall>c \<in> fst ` set (sent s). c < next_seq s) \<and>
     (\<forall>i e c. map_of (entries s) i = Some e \<longrightarrow> e_waiter e = Some c \<longrightarrow>
        c < next_seq s \<and> c \<notin> fst ` set (sent s)) \<and>
     (\<forall>i j e f c. map_of (entries s) i = Some e \<longrightarrow> map_of (entries s) j = Some f \<longrightarrow>
        e_waiter e = Some c \<longrightarrow> e_waiter f = Some c \<longrightarrow> i = j)"

lemma chan_ok_cong:
  assumes "chan_ok s" "sent s' = sent s" "next_seq s \<le> next_seq s'"
    and "\<And>i e c. map_of (entries s') i = Some e \<Longrightarrow> e_waiter e = Some c \<Longrightarrow>
      \<exists>e0. map_of (entries s) i = Some e0 \<and> e_waiter e0 = Some c"
  shows "chan_ok s'"
proof -
  have "c < next_seq s' \<and> c \<notin> fst ` set (sent s')"
    if "map_of (entries s') i = Some e" "e_waiter e = Some c" for i e c
    using assms(4) [OF that] assms(1-3) unfolding chan_ok_def by (metis order.strict_trans2)
  moreover have "i = j" if "map_of (entries s') i = Some e" "map_of (entries s') j = Some f"
    "e_waiter e = Some c" "e_waiter f = Some c" for i j e f c
    using assms(4) [OF that(1,3)] assms(4) [OF that(2,4)] assms(1) unfolding chan_ok_def by metis
  moreover have "\<forall>c \<in> fst ` set (sent s'). c < next_seq s'" "distinct (map fst (sent s'))"
    using assms(1-3) unfolding chan_ok_def by (auto dest: order.strict_trans2)
  ultimately show ?thesis unfolding chan_ok_def by blast
qed

lemma chan_ok_send:
  assumes "chan_ok s" "sent s' = sent s @ [(c, m)]" "next_seq s \<le> next_seq s'" "c < next_seq s'"
    and c: "c \<notin> fst ` set (sent s)"
    and "\<And>i e d. map_of (entries s') i = Some e \<Longrightarrow> e_waiter e = Some d \<Longrightarrow>
      d \<noteq> c \<and> (\<exists>e0. map_of (entries s) i = Some e0 \<and> e_waiter e0 = Some d)"
  shows "chan_ok s'"
proof -
  have "chan_ok (s'\<lparr>sent := sent s\<rparr>)"
    by (rule chan_ok_cong [OF assms(1)]) (use assms(3,6) in simp_all)
  then show ?thesis
    using assms(2,4,6) c unfolding chan_ok_def by auto
qed

text \<open>The turn of the pump that admits a slot delivers on the channel of that slot's entry.\<close>

lemma chan_ok_admit_slot:
  assumes inv: "sched_inv s" and ok: "chan_ok s" and slot: "slot \<in> set (queue s)"
  shows "chan_ok (admit_slot slot s)"
proof -
  obtain sq i where si: "slot = (sq, i)" by (cases slot)
  with slot inv obtain e where e: "map_of (entries s) i = Some e" "e_state e = Pending"
    by (auto simp: sched_inv_queue)
  with sched_inv_waiter [OF inv e(1)] obtain c where c: "e_waiter e = Some c" by auto
  have ent: "map_of (entries (admit_slot slot s)) j = Some a \<Longrightarrow> e_waiter a = Some d \<Longrightarrow>
      j \<noteq> i \<and> map_of (entries s) j = Some a" for j a d
    using e(1) si by (auto simp: admit_slot_def charge_def alist_simps admit_entry_def split: if_splits)
  show ?thesis
  proof (rule chan_ok_send [OF ok])
    show "sent (admit_slot slot s) = sent s @ [(c, Inr ())]"
      using e c si by (simp add: admit_slot_def)
    show "c < next_seq (admit_slot slot s)" "c \<notin> fst ` set (sent s)"
      using ok e(1) c unfolding chan_ok_def by auto
    fix j a d
    assume "map_of (entries (admit_slot slot s)) j = Some a" "e_waiter a = Some d"
    note ja = ent [OF this] this(2)
    moreover have "d \<noteq> c"
      using ja e(1) c ok unfolding chan_ok_def by metis
    ultimately show "d \<noteq> c \<and> (\<exists>e0. map_of (entries s) j = Some e0 \<and> e_waiter e0 = Some d)" by blast
  qed simp
qed

lemma chan_ok_pump_turn:
  assumes inv: "sched_inv s" and ok: "chan_ok s" and turn: "pump_turn s = (s', b)"
  shows "chan_ok s'"
proof (rule pump_turn_cases [of s])
  fix rs credit
  assume "pump_turn s = (s\<lparr>roots := rs, root_credit := credit\<rparr>, False)"
  moreover have "chan_ok (s\<lparr>roots := rs, root_credit := credit\<rparr>)"
    by (rule chan_ok_cong [OF ok]) simp_all
  ultimately show ?thesis using turn by simp
next
  fix rs credit slot r p f
  let ?s1 = "account_turn p f r (snd (slot :: nat \<times> nat)) (s\<lparr>roots := rs, root_credit := credit\<rparr>)"
  assume adm: "pump_turn s = (admit_slot slot ?s1, True)"
    and slot: "slot \<in> set (queue s)" and rs: "set rs = set (roots s)" "distinct rs = distinct (roots s)"
  have "sched_inv ?s1" using inv rs by (simp add: sched_inv_rotation)
  moreover have "chan_ok ?s1" using ok by (simp add: chan_ok_def)
  ultimately have "chan_ok (admit_slot slot ?s1)" using slot by (intro chan_ok_admit_slot) simp_all
  with adm turn show ?thesis by simp
qed

lemma chan_ok_pump: "sched_inv s \<Longrightarrow> chan_ok s \<Longrightarrow> chan_ok (pump s)"
proof (induction s rule: pump.induct)
  case (1 s)
  obtain s' b where t: "pump_turn s = (s', b)" by (cases "pump_turn s")
  with 1 show ?case
    by (subst pump.simps) (auto intro: chan_ok_pump_turn sched_inv_pump_turn)
qed

lemma chan_ok_modify_quiet:
  assumes "chan_ok s" "\<And>e. e_waiter (f e) = e_waiter e" "sent s' = sent s" "next_seq s \<le> next_seq s'"
    and "entries s' = amap_modify i f (entries s)"
  shows "chan_ok s'"
  by (rule chan_ok_cong [OF assms(1)]) (use assms(2-) in \<open>auto simp: alist_simps split: if_splits\<close>)

lemma evict_waiter: "e_waiter (evict_entry e) = e_waiter e"
  by (simp add: evict_entry_def)

lemma chan_ok_evict_fold:
  "chan_ok s \<Longrightarrow>
   chan_ok (s\<lparr>entries := foldl (\<lambda>m (_, i). amap_modify i evict_entry m) (entries s) xs\<rparr>)"
proof (induction xs arbitrary: s)
  case Nil
  then show ?case by simp
next
  case (Cons x xs)
  obtain q i where x: "x = (q, i)" by (cases x)
  let ?s1 = "s\<lparr>entries := amap_modify i evict_entry (entries s)\<rparr>"
  have "chan_ok ?s1"
    by (rule chan_ok_modify_quiet [OF Cons.prems evict_waiter]) simp_all
  from Cons.IH [OF this] show ?case by (simp add: x)
qed

lemma chan_ok_evict: "chan_ok s \<Longrightarrow> chan_ok (evict_parked_over_residency s)"
  by (simp add: evict_parked_over_residency_def Let_def chan_ok_evict_fold)

lemma chan_ok_begin_wait:
  assumes inv: "sched_inv s" and ok: "chan_ok s"
  shows "chan_ok (fst (begin_wait i s))"
proof -
  let ?s1 = "s\<lparr>next_seq := next_seq s + 1\<rparr>"
  have ok1: "chan_ok ?s1" by (rule chan_ok_cong [OF ok]) simp_all
  have fresh: "next_seq s \<notin> fst ` set (sent s)" using ok unfolding chan_ok_def by auto
  have free: "d < next_seq s \<and> d \<notin> fst ` set (sent s)" if "map_of (entries s) j = Some a" "e_waiter a = Some d" for j a d
    using ok that unfolding chan_ok_def by blast
  show ?thesis
  proof (cases "map_of (entries s) i")
    case None
    with ok1 show ?thesis by (simp add: begin_wait_def)
  next
    case (Some e)
    have "chan_ok (?s1\<lparr>sent := sent s @ [(next_seq s, Inr ())]\<rparr>)"
      by (rule chan_ok_send [OF ok]) (use fresh free in \<open>auto dest: free\<close>)
    moreover have "chan_ok (?s1\<lparr>entries := amap_modify i (wait_entry (next_seq s) (next_seq s)) (entries s),
        queue := q\<rparr>)" (is "chan_ok ?s2") for q
    proof -
      have ent: "map_of (entries ?s2) j = Some a \<Longrightarrow> e_waiter a = Some d \<Longrightarrow>
          (j = i \<and> d = next_seq s) \<or> (j \<noteq> i \<and> map_of (entries s) j = Some a)" for j a d
        by (auto simp: alist_simps wait_entry_def split: if_splits)
      have "d < next_seq ?s2 \<and> d \<notin> fst ` set (sent ?s2)"
        if "map_of (entries ?s2) j = Some a" "e_waiter a = Some d" for j a d
        using ent [OF that] free [OF _ that(2), of j] fresh by auto
      moreover have "j = k" if "map_of (entries ?s2) j = Some a" "map_of (entries ?s2) k = Some b"
        "e_waiter a = Some d" "e_waiter b = Some d" for j k a b d
      proof -
        have old: "j = k" if "map_of (entries s) j = Some a" "map_of (entries s) k = Some b"
          using ok that \<open>e_waiter a = Some d\<close> \<open>e_waiter b = Some d\<close> unfolding chan_ok_def by blast
        have "d < next_seq s" if "map_of (entries s) j = Some a \<or> map_of (entries s) k = Some b"
          using that free \<open>e_waiter a = Some d\<close> \<open>e_waiter b = Some d\<close> by blast
        with old ent [OF that(1,3)] ent [OF that(2,4)] show ?thesis by auto
      qed
      moreover have "distinct (map fst (sent ?s2))" "\<forall>d \<in> fst ` set (sent ?s2). d < next_seq ?s2"
        using ok unfolding chan_ok_def by auto
      ultimately show ?thesis unfolding chan_ok_def by blast
    qed
    moreover have "sched_inv (?s1\<lparr>entries := amap_modify i (wait_entry (next_seq s) (next_seq s)) (entries s),
        queue := bset_insert (e_seq e, i) (queue s)\<rparr>)" if "e_state e \<noteq> Active" "e_state e \<noteq> Pending"
      using sched_inv_start_wait [OF sched_inv_next_seq [OF inv], of i e] Some that by simp
    ultimately show ?thesis
      using Some ok1 by (cases "e_state e") (simp_all add: begin_wait_def Let_def chan_ok_pump)
  qed
qed

lemma chan_ok_removed:
  assumes "chan_ok s" "entries s' = AList.delete i (entries s)" "sent s' = sent s" "next_seq s' = next_seq s"
  shows "chan_ok s'"
  by (rule chan_ok_cong [OF assms(1)]) (use assms(2-) in \<open>auto simp: alist_simps split: if_splits\<close>)

lemma chan_ok_abandon:
  assumes inv: "sched_inv s" and ok: "chan_ok s"
  shows "chan_ok (abandon i s)"
proof (cases "map_of (entries s) i")
  case None
  with ok show ?thesis by (simp add: abandon_def remove_entry_None)
next
  case (Some e)
  with inv obtain s' where s': "remove_entry i s = (s', Some e)" "sched_inv s'"
    "entries s' = AList.delete i (entries s)" "sent s' = sent s" "next_seq s' = next_seq s"
    by (rule remove_entry_Some)
  then show ?thesis using chan_ok_removed [OF ok] by (simp add: abandon_def chan_ok_pump)
qed

lemma chan_ok_cancel_ticket:
  assumes inv: "sched_inv s" and ok: "chan_ok s"
  shows "chan_ok (fst (cancel_ticket i s))"
proof (cases "map_of (entries s) i")
  case None
  with ok show ?thesis by (simp add: cancel_ticket_def remove_entry_None)
next
  case (Some e)
  with inv obtain s' where s': "remove_entry i s = (s', Some e)" "sched_inv s'"
    "entries s' = AList.delete i (entries s)" "sent s' = sent s" "next_seq s' = next_seq s"
    by (rule remove_entry_Some)
  have flag: "chan_ok (s\<lparr>entries := amap_modify i (\<lambda>e. e\<lparr>e_cancel_requested := True\<rparr>) (entries s)\<rparr>)"
    by (rule chan_ok_modify_quiet [OF ok]) simp_all
  have none: "chan_ok (s'\<lparr>sent := sent s'\<rparr>)" using chan_ok_removed [OF ok s'(3-5)] by simp
  have some: "chan_ok (s'\<lparr>sent := sent s' @ [(c, m)]\<rparr>)" if "e_waiter e = Some c" for c m
  proof (rule chan_ok_send [OF ok])
    show "c < next_seq (s'\<lparr>sent := sent s' @ [(c, m)]\<rparr>)" "c \<notin> fst ` set (sent s)"
      using ok Some that s'(5) unfolding chan_ok_def by auto
    fix j a d
    assume "map_of (entries (s'\<lparr>sent := sent s' @ [(c, m)]\<rparr>)) j = Some a" "e_waiter a = Some d"
    then have "j \<noteq> i" "map_of (entries s) j = Some a" "e_waiter a = Some d"
      using s'(3) by (auto simp: alist_simps split: if_splits)
    with ok Some that show "d \<noteq> c \<and> (\<exists>e0. map_of (entries s) j = Some e0 \<and> e_waiter e0 = Some d)"
      unfolding chan_ok_def by metis
  qed (simp_all add: s'(4,5))
  have "chan_ok (pump (s'\<lparr>sent := sent s' @ (case e_waiter e of None \<Rightarrow> []
      | Some c \<Rightarrow> [(c, Inl AdmissionCancelled)])\<rparr>))"
    using none some s'(2) by (cases "e_waiter e") (simp_all add: chan_ok_pump sched_inv_sent)
  with Some s'(1) flag ok show ?thesis by (simp add: cancel_ticket_def)
qed

lemma chan_ok_step:
  assumes inv: "sched_inv s" and ok: "chan_ok s"
  shows "chan_ok (sched_step s op)"
proof (cases op)
  case (OpConfigure cfg)
  have "chan_ok (s\<lparr>settings := cfg, root_credit := c\<rparr>)" "sched_inv (s\<lparr>settings := cfg, root_credit := c\<rparr>)" for c
    by (rule chan_ok_cong [OF ok] sched_inv_cong [OF inv]; simp)+
  with OpConfigure ok show ?thesis
    by (simp add: configure_def Let_def chan_ok_pump chan_ok_evict sched_inv_evict split: sum.split)
next
  case (OpReserve q)
  have "chan_ok (insert_reservation q s)"
    by (rule chan_ok_cong [OF ok])
      (auto simp: insert_reservation_def alist_simps new_entry_def split: if_splits)
  with OpReserve ok show ?thesis by (auto simp: reserve_def counts_def)
next
  case (OpPark i)
  let ?s1 = "s\<lparr>next_seq := next_seq s + 1\<rparr>"
  have ok1: "chan_ok ?s1" by (rule chan_ok_cong [OF ok]) simp_all
  show ?thesis
  proof (cases "map_of (entries s) i")
    case None
    with OpPark ok1 show ?thesis by (simp add: park_def)
  next
    case (Some e)
    have "chan_ok (discharge (e_scope e)
        (?s1\<lparr>entries := amap_modify i (park_entry (next_seq s)) (entries ?s1)\<rparr>))" (is "chan_ok ?s2")
      by (rule chan_ok_modify_quiet [OF ok, of "park_entry (next_seq s)" _ i])
        (simp_all add: park_entry_def discharge_def)
    moreover have "sched_inv ?s2" if "e_state e = Active"
      using Some that by (intro sched_inv_park_entry [OF sched_inv_next_seq [OF inv]]) simp_all
    ultimately show ?thesis
      using OpPark Some ok1 by (simp add: park_def Let_def chan_ok_pump chan_ok_evict sched_inv_evict)
  qed
qed (use assms in \<open>simp_all add: chan_ok_begin_wait chan_ok_abandon chan_ok_cancel_ticket cancel_run_def
      split: option.split\<close>)

lemma chan_ok_new: "chan_ok (scheduler_new cfg)"
  by (simp add: chan_ok_def scheduler_new_def)

interpretation channels: machine "scheduler_new cfg" sched_step "\<lambda>s. sched_inv s \<and> chan_ok s" for cfg
  by unfold_locales (simp_all add: sched_inv_new chan_ok_new sched_inv_step chan_ok_step)

end
