(* ===== verification/Scheduler_Steps.thy ===== *)
theory Scheduler_Steps
  imports Scheduler_Properties
begin

text \<open>
  How one operation changes the scheduler. Every operation is a preparation, which moves
  tickets along their life cycle but admits nothing, followed or not by the pump; from
  that decomposition come the lemmas on caps, parking and settings. The theory also
  shows that the pump leaves no admissible waiter behind.
\<close>

text \<open>The state a fresh scheduler with settings \<open>cfg\<close> is in after the operations \<open>ops\<close>.\<close>

abbreviation reached :: "coordination_settings \<Rightarrow> sched_op list \<Rightarrow> sched" where
  "reached cfg ops \<equiv> sched_run (scheduler_new cfg) ops"

lemma sched_inv_reached: "sched_inv (reached cfg ops)"
  unfolding sched_run_def by (rule scheduler.reachable_inv)

lemma chan_ok_reached: "chan_ok (reached cfg ops)"
  using channels.reachable_inv [of cfg ops] unfolding sched_run_def by simp

section \<open>Work conservation\<close>

lemma rotate_to_lane_None:
  "fst (rotate_to_lane n ks rs c) = None \<Longrightarrow> k \<in> set (take n rs) \<Longrightarrow> n \<le> length rs \<Longrightarrow> k \<notin> set ks"
  by (induction n ks rs c rule: rotate_to_lane.induct) (auto split: if_splits)

lemma rotate_to_lane_Some: "fst (rotate_to_lane n ks rs c) = Some k \<Longrightarrow> k \<in> set ks"
  by (induction n ks rs c rule: rotate_to_lane.induct) (auto split: if_splits)

lemma fits_iff:
  "fits s e \<longleftrightarrow> active_total s < max_active_engine (settings s) \<and>
     get_or 0 (map_of (active_by_project s) (e_project e)) < max_active_project (settings s) \<and>
     get_or 0 (map_of (active_by_root s) (e_root e)) < max_active_root (settings s)"
  by (auto simp: fits_def)

definition settled :: "sched \<Rightarrow> bool" where
  "settled s \<longleftrightarrow> (\<forall>i. \<not> eligible s i)"

lemma settledD:
  "settled s \<Longrightarrow> map_of (entries s) i = Some e \<Longrightarrow> e_state e = Pending \<Longrightarrow> \<not> fits s e"
  unfolding settled_def eligible_def by (erule allE [of _ i]) simp

lemma settled_cong:
  assumes "settled s" "settings s' = settings s" "active_total s' = active_total s"
    and "active_by_project s' = active_by_project s" "active_by_root s' = active_by_root s"
    and "\<And>i e'. map_of (entries s') i = Some e' \<Longrightarrow> e_state e' = Pending \<Longrightarrow>
      \<exists>e. map_of (entries s) i = Some e \<and> e_state e = Pending \<and> e_scope e = e_scope e'"
  shows "settled s'"
proof -
  have "\<not> eligible s' i" for i
  proof
    assume "eligible s' i"
    then obtain e' where e': "map_of (entries s') i = Some e'" "e_state e' = Pending" "fits s' e'"
      by (auto simp: eligible_def split: option.splits)
    from assms(6) [OF e'(1,2)] obtain e where "map_of (entries s) i = Some e" "e_state e = Pending"
      "e_scope e = e_scope e'" by blast
    with e'(3) assms(2-5) have "eligible s i" by (simp add: eligible_def fits_iff)
    with assms(1) show False by (simp add: settled_def)
  qed
  then show ?thesis by (simp add: settled_def)
qed

lemma natural_slot_nonempty: "map_of ls r = Some l \<Longrightarrow> l \<noteq> [] \<Longrightarrow> natural_slot t ls r \<noteq> None"
  by (cases "fairness_turn t r"; cases l)
    (simp_all add: natural_slot_def del: min_by_key.simps not_None_eq)

lemma pump_turn_stop:
  assumes inv: "sched_inv s" and turn: "pump_turn s = (s', False)"
  shows "settled s"
proof -
  have "\<not> eligible s i" for i
  proof
    assume el: "eligible s i"
    then obtain e where e: "map_of (entries s) i = Some e" "e_state e = Pending"
      by (auto simp: eligible_def split: option.splits)
    let ?r = "e_root e"
    have "(e_seq e, i) \<in> set (queue s)" using e inv by (auto simp: sched_inv_queue)
    then have "(e_seq e, i) \<in> set (filter (in_lane s ?r) (queue s))"
      using e el by (simp add: in_lane_def)
    then have "map_of (lanes s) ?r \<noteq> None" by (auto simp: map_of_lanes filter_empty_conv)
    then have lane: "?r \<in> set (amap_keys (lanes s))" by (simp add: map_of_None_keys)
    have root: "?r \<in> set (roots s)" using inv e unfolding sched_inv_def roots_ok_def by blast
    obtain x rs c where rot:
      "rotate_to_lane (length (roots s)) (amap_keys (lanes s)) (roots s) (root_credit s) = (x, rs, c)"
      by (metis prod_cases3)
    with lane root rotate_to_lane_None [of "length (roots s)" "amap_keys (lanes s)" "roots s" "root_credit s" ?r]
    obtain r where x: "x = Some r" by (cases x) auto
    with rot rotate_to_lane_Some [of "length (roots s)" "amap_keys (lanes s)" "roots s" "root_credit s" r]
    have "r \<in> set (amap_keys (lanes s))" by simp
    then obtain l where l: "map_of (lanes s) r = Some l" by (metis map_of_None_keys option.exhaust)
    then have "l \<noteq> []" by (auto simp: map_of_lanes split: if_splits)
    then have "natural_slot (s\<lparr>roots := rs, root_credit := c\<rparr>) (lanes s) r \<noteq> None"
      using l by (intro natural_slot_nonempty)
    with turn rot x show False by (auto simp: pump_turn_def Let_def split: option.splits prod.splits)
  qed
  then show ?thesis by (simp add: settled_def)
qed

lemma settled_pump: "sched_inv s \<Longrightarrow> settled (pump s)"
proof (induction s rule: pump.induct)
  case (1 s)
  obtain s' b where t: "pump_turn s = (s', b)" by (cases "pump_turn s")
  show ?case
  proof (cases "active_total s < max_active_engine (settings s)")
    case False
    then show ?thesis by (auto simp: pump_unfold [of s] settled_def eligible_def fits_def split: option.splits)
  next
    case True
    show ?thesis
    proof (cases b)
      case True
      with 1 t \<open>active_total s < _\<close> show ?thesis
        by (simp add: pump_unfold [of s] sched_inv_pump_turn)
    next
      case False
      then have "settled s" using pump_turn_stop [OF 1(2)] t by simp
      moreover have "settled s'"
        by (rule settled_cong [OF \<open>settled s\<close>]; rule pump_turn_cases [of s]) (use t False in auto)
      ultimately show ?thesis using t False True by (simp add: pump_unfold [of s])
    qed
  qed
qed

text \<open>Operations that do not pump change neither the waiting entries nor what is in use.\<close>

lemma settled_remove_None: "remove_entry i s = (s', None) \<Longrightarrow> s' = s"
  by (auto simp: remove_entry_def Let_def split: option.splits)

lemma remove_entry_inv: "sched_inv s \<Longrightarrow> remove_entry i s = (s', Some e) \<Longrightarrow> sched_inv s'"
  by (cases "map_of (entries s) i") (auto simp: remove_entry_None elim: remove_entry_Some)

lemma settled_abandon: "sched_inv s \<Longrightarrow> settled s \<Longrightarrow> settled (abandon i s)"
  by (auto simp: abandon_def settled_pump remove_entry_inv dest: settled_remove_None split: prod.splits option.splits)

lemma settled_cancel_ticket:
  assumes inv: "sched_inv s" and st: "settled s"
  shows "settled (fst (cancel_ticket i s))"
proof -
  have "settled (s\<lparr>entries := amap_modify i (\<lambda>e. e\<lparr>e_cancel_requested := True\<rparr>) (entries s)\<rparr>)"
    by (rule settled_cong [OF st]) (auto simp: alist_simps split: if_splits)
  moreover have "settled (fst (case remove_entry i s of
      (s1, None) \<Rightarrow> (s1, False)
    | (s1, Some e) \<Rightarrow> (pump (s1\<lparr>sent := sent s1 @ x e\<rparr>), True)))" for x
    using st inv by (auto simp: settled_pump sched_inv_sent remove_entry_inv
        dest: settled_remove_None split: prod.split option.split)
  ultimately show ?thesis using st by (simp add: cancel_ticket_def Let_def split: option.split)
qed

lemma settled_begin_wait:
  assumes inv: "sched_inv s" and st: "settled s"
  shows "settled (fst (begin_wait i s))"
proof (cases "map_of (entries s) i")
  case None
  have "settled (s\<lparr>next_seq := next_seq s + 1\<rparr>)" by (rule settled_cong [OF st]) auto
  with None show ?thesis by (simp add: begin_wait_def)
next
  case (Some e)
  have "settled (s\<lparr>next_seq := Suc (next_seq s)\<rparr>)" "settled (s\<lparr>next_seq := Suc (next_seq s), sent := x\<rparr>)" for x
    by (rule settled_cong [OF st]; auto)+
  with Some show ?thesis
    using sched_inv_start_wait [OF sched_inv_next_seq [OF inv], of i e]
    by (cases "e_state e") (simp_all add: begin_wait_def Let_def settled_pump)
qed

lemma settled_park:
  assumes inv: "sched_inv s" and st: "settled s"
  shows "settled (fst (park i s))"
proof (cases "map_of (entries s) i")
  case None
  have "settled (s\<lparr>next_seq := next_seq s + 1\<rparr>)" by (rule settled_cong [OF st]) auto
  with None show ?thesis by (simp add: park_def)
next
  case (Some e)
  have "settled (s\<lparr>next_seq := Suc (next_seq s)\<rparr>)" by (rule settled_cong [OF st]; auto)
  with Some show ?thesis
    using sched_inv_park_entry [OF sched_inv_next_seq [OF inv], of i e]
    by (simp add: park_def Let_def settled_pump sched_inv_evict)
qed

lemma settled_step:
  assumes inv: "sched_inv s" and st: "settled s"
  shows "settled (sched_step s op)"
proof (cases op)
  case (OpConfigure cfg)
  have "sched_inv (s\<lparr>settings := cfg, root_credit := c\<rparr>)" for c
    by (rule sched_inv_cong [OF inv]; simp)
  with OpConfigure st show ?thesis
    by (simp add: configure_def Let_def settled_pump sched_inv_evict split: sum.split)
next
  case (OpReserve q)
  have "settled (insert_reservation q s)"
    by (rule settled_cong [OF st])
      (auto simp: insert_reservation_def alist_simps new_entry_def split: if_splits)
  with OpReserve st show ?thesis by (auto simp: reserve_def counts_def)
qed (use assms in \<open>simp_all add: settled_begin_wait settled_abandon settled_cancel_ticket settled_park cancel_run_def
      split: option.split\<close>)

lemma settled_new: "settled (scheduler_new cfg)"
  by (simp add: settled_def eligible_def scheduler_new_def)

interpretation work_conserving: machine "scheduler_new cfg" sched_step "\<lambda>s. sched_inv s \<and> settled s" for cfg
  by unfold_locales (simp_all add: sched_inv_new settled_new sched_inv_step settled_step)

lemma settled_reached: "settled (reached cfg ops)"
  using work_conserving.reachable_inv [of cfg ops] unfolding sched_run_def by simp

section \<open>Caps\<close>

text \<open>What is in use: the engine total, a project's share, a root's share.\<close>

datatype cap_key = EngineCap | ProjectCap project_key | RootCap checkout_key

fun in_use :: "sched \<Rightarrow> cap_key \<Rightarrow> nat" where
  "in_use s EngineCap = active_total s"
| "in_use s (ProjectCap p) = get_or 0 (map_of (active_by_project s) p)"
| "in_use s (RootCap r) = get_or 0 (map_of (active_by_root s) r)"

fun cap_of :: "coordination_settings \<Rightarrow> cap_key \<Rightarrow> nat" where
  "cap_of cfg EngineCap = max_active_engine cfg"
| "cap_of cfg (ProjectCap p) = max_active_project cfg"
| "cap_of cfg (RootCap r) = max_active_root cfg"

fun covers :: "cap_key \<Rightarrow> entry \<Rightarrow> bool" where
  "covers EngineCap e \<longleftrightarrow> True"
| "covers (ProjectCap p) e \<longleftrightarrow> e_project e = p"
| "covers (RootCap r) e \<longleftrightarrow> e_root e = r"

lemma in_use_count:
  "sched_inv s \<Longrightarrow> in_use s k = amap_count (\<lambda>e. e_state e = Active \<and> covers k e) (entries s)"
  using counter.represents_reads [of "active_by_project s" "active_in e_project (entries s)"]
    counter.represents_reads [of "active_by_root s" "active_in e_root (entries s)"]
  by (cases k) (simp_all add: sched_inv_def active_ok_def active_in_def in_state_def [abs_def])

lemma fits_in_use: "fits s e \<Longrightarrow> covers k e \<Longrightarrow> in_use s k < cap_of (settings s) k"
  by (cases k) (auto simp: fits_iff)

lemma in_use_admit:
  assumes "map_of (entries s) (snd slot) = Some e"
  shows "in_use (admit_slot slot s) k = in_use s k + (if covers k e then 1 else 0)"
  using assms by (cases k) (auto simp: admit_slot_def charge_def counter_inc_def alist_simps)

lemma in_use_pump_turn:
  assumes "pump_turn s = (s', b)"
  shows "in_use s' k \<le> max (in_use s k) (cap_of (settings s) k)"
  using assms
proof (rule_tac pump_turn_cases [of s])
  fix rs credit slot r p f
  let ?s1 = "account_turn p f r (snd (slot :: nat \<times> nat)) (s\<lparr>roots := rs, root_credit := credit\<rparr>)"
  assume "pump_turn s = (s', b)" "pump_turn s = (admit_slot slot ?s1, True)" "in_lane s r slot"
  moreover from this(3) obtain e where e: "map_of (entries s) (snd slot) = Some e" "fits s e"
    by (auto simp: in_lane_def eligible_def split: option.splits)
  moreover have "in_use ?s1 k = in_use s k" by (cases k) simp_all
  moreover have "in_use (admit_slot slot ?s1) k = in_use ?s1 k + (if covers k e then 1 else 0)"
    by (rule in_use_admit) (simp add: e)
  ultimately show ?thesis using fits_in_use [OF e(2), of k] by auto
qed (cases k; auto)

lemma in_use_pump: "in_use (pump s) k \<le> max (in_use s k) (cap_of (settings s) k)"
proof -
  let ?R = "\<lambda>s s'. settings s' = settings s \<and> in_use s' k \<le> max (in_use s k) (cap_of (settings s) k)"
  have "?R s (pump s)"
  proof (rule pump_rel [of "\<lambda>_. True"])
    fix s s' b
    assume t: "pump_turn s = (s', b)"
    then have "settings s' = settings s" by (rule_tac pump_turn_cases [of s]) auto
    with in_use_pump_turn [OF t] show "?R s s'" by simp
  qed auto
  then show ?thesis by simp
qed

section \<open>Eviction\<close>

lemma map_of_evict_fold:
  "distinct (map snd xs) \<Longrightarrow>
   map_of (foldl (\<lambda>m (_, i). amap_modify i evict_entry m) m xs) j =
     (if j \<in> snd ` set xs then map_option evict_entry (map_of m j) else map_of m j)"
proof (induction xs arbitrary: m)
  case Nil
  then show ?case by simp
next
  case (Cons x xs)
  obtain q i where x: "x = (q, i)" by (cases x)
  show ?case
    using Cons.IH [of "amap_modify i evict_entry m"] Cons.prems by (auto simp: x alist_simps)
qed

lemma parked_count_evict_fold:
  "amap_wf m \<Longrightarrow> distinct (map snd xs) \<Longrightarrow>
   \<forall>(q, i) \<in> set xs. \<exists>e. map_of m i = Some e \<and> e_state e = Parked \<Longrightarrow>
   amap_count (in_state Parked) (foldl (\<lambda>m (_, i). amap_modify i evict_entry m) m xs) + length xs =
     amap_count (in_state Parked) m"
proof (induction xs arbitrary: m)
  case Nil
  then show ?case by simp
next
  case (Cons x xs)
  obtain q i where x: "x = (q, i)" by (cases x)
  with Cons.prems obtain e where e: "map_of m i = Some e" "e_state e = Parked" by auto
  let ?m = "amap_modify i evict_entry m"
  have rest: "\<exists>e. map_of ?m j = Some e \<and> e_state e = Parked" if "(q', j) \<in> set xs" for q' j
  proof -
    have "j \<noteq> i" using Cons.prems(2) that by (auto simp: x rev_image_eqI)
    with Cons.prems(3) that show ?thesis by (auto simp: alist_simps)
  qed
  have "amap_count (in_state Parked) (foldl (\<lambda>m (_, i). amap_modify i evict_entry m) ?m xs) + length xs =
      amap_count (in_state Parked) ?m"
    by (rule Cons.IH) (use Cons.prems rest in \<open>auto simp: x\<close>)
  moreover have "Suc (amap_count (in_state Parked) ?m) = amap_count (in_state Parked) m"
    using amap_count_modify [OF Cons.prems(1) e(1), of "in_state Parked" evict_entry] e(2)
    by (simp add: in_state_def evict_entry_def)
  ultimately show ?case by (simp add: x)
qed

text \<open>The parked entries that are evicted: the first ones in order of parking.\<close>

definition evicted_slots :: "sched \<Rightarrow> (nat \<times> ticket_id) list" where
  "evicted_slots s = take (length (parked_slots s) - max_parked_residency (settings s)) (sort (parked_slots s))"

lemma evict_entries:
  "entries (evict_parked_over_residency s) =
     foldl (\<lambda>m (_, i). amap_modify i evict_entry m) (entries s) (evicted_slots s)"
  by (simp add: evict_parked_over_residency_def evicted_slots_def Let_def sat_sub_def)

lemma evict_frame [simp]:
  "settings (evict_parked_over_residency s) = settings s"
  "next_id (evict_parked_over_residency s) = next_id s"
  "next_seq (evict_parked_over_residency s) = next_seq s"
  "active_total (evict_parked_over_residency s) = active_total s"
  "active_by_project (evict_parked_over_residency s) = active_by_project s"
  "active_by_root (evict_parked_over_residency s) = active_by_root s"
  "priority_burst (evict_parked_over_residency s) = priority_burst s"
  "sent (evict_parked_over_residency s) = sent s"
  by (simp_all add: evict_parked_over_residency_def Let_def)

lemma evict_fold_keys:
  "map fst (foldl (\<lambda>m (_, i). amap_modify i evict_entry m) m xs) = map fst m"
  by (induction xs arbitrary: m) auto

lemma evict_keys:
  "map fst (entries (evict_parked_over_residency s)) = map fst (entries s)"
  "length (entries (evict_parked_over_residency s)) = length (entries s)"
  using evict_fold_keys [of "entries s" "evicted_slots s"]
  by (simp_all add: evict_entries) (metis length_map)

lemma evict_none:
  "map_of (entries (evict_parked_over_residency s)) j = None \<longleftrightarrow> map_of (entries s) j = None"
  by (simp add: map_of_None_keys evict_keys)

lemma distinct_parked_slots: "amap_wf (entries s) \<Longrightarrow> distinct (map snd (parked_slots s))"
  by (auto simp: parked_slots_def distinct_map comp_def split_def intro: distinct_filter inj_on_subset)

lemma distinct_evicted_slots:
  assumes "amap_wf (entries s)" shows "distinct (map snd (evicted_slots s))"
proof -
  have "mset (map snd (sort (parked_slots s))) = mset (map snd (parked_slots s))" by simp
  then have "distinct (map snd (sort (parked_slots s)))"
    using distinct_parked_slots [OF assms] by (metis mset_eq_imp_distinct_iff)
  then show ?thesis by (simp add: evicted_slots_def take_map [symmetric])
qed

lemma evicted_slots_parked: "set (evicted_slots s) \<subseteq> set (parked_slots s)"
  using set_take_subset by (fastforce simp: evicted_slots_def)

lemma evicted_slots_mem:
  assumes "amap_wf (entries s)" "j \<in> snd ` set (evicted_slots s)"
  obtains e where "map_of (entries s) j = Some e" "e_state e = Parked"
  using assms evicted_slots_parked [of s] parked_slots_mem [OF assms(1)] by fastforce

lemma map_of_evict:
  "amap_wf (entries s) \<Longrightarrow>
   map_of (entries (evict_parked_over_residency s)) j =
     (if j \<in> snd ` set (evicted_slots s) then map_option evict_entry (map_of (entries s) j)
      else map_of (entries s) j)"
  by (simp add: evict_entries map_of_evict_fold distinct_evicted_slots)

lemma length_parked_slots: "length (parked_slots s) = amap_count (in_state Parked) (entries s)"
  by (simp add: parked_slots_def amap_count_def amap_values_def filter_map comp_def split_def in_state_def)

lemma parked_count_evict:
  assumes "amap_wf (entries s)"
  shows "amap_count (in_state Parked) (entries (evict_parked_over_residency s)) =
    min (amap_count (in_state Parked) (entries s)) (max_parked_residency (settings s))"
proof -
  have "\<forall>(q, i) \<in> set (evicted_slots s). \<exists>e. map_of (entries s) i = Some e \<and> e_state e = Parked"
    using evicted_slots_parked [of s] parked_slots_mem [OF assms] by fastforce
  from parked_count_evict_fold [OF assms distinct_evicted_slots [OF assms] this]
  show ?thesis by (simp add: evict_entries evicted_slots_def length_parked_slots)
qed

section \<open>What an operation does to one ticket\<close>

text \<open>
  The moves of one ticket before the pump runs. Together with \<open>admit_entry\<close>, which only
  the pump applies, they are the ticket's life cycle.
\<close>

inductive entry_move :: "nat \<Rightarrow> entry option \<Rightarrow> entry option \<Rightarrow> bool" for q where
  same: "entry_move q x x"
| reserved: "e_state e = Reserved \<Longrightarrow> e_waiter e = None \<Longrightarrow> entry_move q None (Some e)"
| removed: "entry_move q (Some e) None"
| flagged: "e_state e = Active \<Longrightarrow> entry_move q (Some e) (Some (e\<lparr>e_cancel_requested := True\<rparr>))"
| waiting: "e_state e \<notin> {Active, Pending} \<Longrightarrow> entry_move q (Some e) (Some (wait_entry q q e))"
| parked: "e_state e = Active \<Longrightarrow> entry_move q (Some e) (Some (park_entry q e))"
| parked_out: "e_state e = Active \<Longrightarrow> entry_move q (Some e) (Some (evict_entry (park_entry q e)))"
| evicted: "e_state e = Parked \<Longrightarrow> entry_move q (Some e) (Some (evict_entry e))"

definition moves :: "sched \<Rightarrow> sched \<Rightarrow> bool" where
  "moves s s' \<longleftrightarrow> (\<forall>j. entry_move (next_seq s) (map_of (entries s) j) (map_of (entries s') j))"

lemma moves_same: "entries s' = entries s \<Longrightarrow> moves s s'"
  by (simp add: moves_def same)

lemma moves_modify:
  assumes "map_of (entries s) i = Some e" "entry_move (next_seq s) (Some e) (Some (f e))"
    and "entries s' = amap_modify i f (entries s)"
  shows "moves s s'"
  using assms by (auto simp: moves_def alist_simps same)

lemma moves_delete: "entries s' = AList.delete i (entries s) \<Longrightarrow> moves s s'"
  by (auto simp: moves_def alist_simps same removed entry_move.simps split: option.split)

lemma moves_evict: "sched_inv s \<Longrightarrow> moves s (evict_parked_over_residency s)"
  by (auto simp: moves_def map_of_evict sched_inv_wf same intro: evicted elim!: evicted_slots_mem [OF sched_inv_wf])

lemma moves_park_evict:
  assumes inv: "sched_inv s1" and i: "map_of (entries s) i = Some e" "e_state e = Active"
    and s1: "entries s1 = amap_modify i (park_entry (next_seq s)) (entries s)"
  shows "moves s (evict_parked_over_residency s1)"
proof -
  have "entry_move (next_seq s) (map_of (entries s) j) (map_of (entries (evict_parked_over_residency s1)) j)" for j
  proof (cases "j \<in> snd ` set (evicted_slots s1)")
    case True
    then obtain d where "map_of (entries s1) j = Some d" "e_state d = Parked"
      by (rule evicted_slots_mem [OF sched_inv_wf [OF inv]])
    with True i s1 show ?thesis
      by (auto simp: map_of_evict [OF sched_inv_wf [OF inv]] alist_simps intro: parked_out evicted split: if_splits)
  next
    case False
    with i s1 show ?thesis
      by (auto simp: map_of_evict [OF sched_inv_wf [OF inv]] alist_simps intro: parked same split: if_splits)
  qed
  then show ?thesis by (simp add: moves_def)
qed

text \<open>
  Every operation is a preparation, which moves tickets as above and admits nothing,
  followed or not by the pump.
\<close>

definition is_configure :: "sched_op \<Rightarrow> bool" where
  "is_configure op = (case op of OpConfigure _ \<Rightarrow> True | _ \<Rightarrow> False)"

definition prepared :: "sched_op \<Rightarrow> sched \<Rightarrow> sched \<Rightarrow> bool" where
  "prepared op s s1 \<longleftrightarrow> sched_inv s1 \<and> moves s s1 \<and> priority_burst s1 = priority_burst s \<and>
     (settings s1 = settings s \<or> is_configure op) \<and>
     (\<forall>j < next_id s. map_of (entries s) j = None \<longrightarrow> map_of (entries s1) j = None) \<and>
     (length (entries s1) \<le> length (entries s) \<or> length (entries s1) \<le> max_outstanding (settings s1)) \<and>
     (amap_count (in_state Parked) (entries s) \<le> max_parked_residency (settings s) \<longrightarrow>
        amap_count (in_state Parked) (entries s1) \<le> max_parked_residency (settings s1)) \<and>
     (\<exists>xs. sent s1 = sent s @ xs \<and> (\<forall>(c, m) \<in> set xs. m = Inl AdmissionCancelled \<or> c = next_seq s))"

lemma prepared_quiet:
  assumes "sched_inv s1" "entries s1 = entries s" "settings s1 = settings s" "priority_burst s1 = priority_burst s"
    and "sent s1 = sent s @ xs" "\<forall>(c, m) \<in> set xs. m = Inl AdmissionCancelled \<or> c = next_seq s"
  shows "prepared op s s1"
  using assms by (auto simp: prepared_def moves_same)

text \<open>A change of one entry that parks nothing.\<close>

lemma prepared_modify:
  assumes "sched_inv s" "sched_inv s1" "map_of (entries s) i = Some e" "entry_move (next_seq s) (Some e) (Some (f e))"
    and "entries s1 = amap_modify i f (entries s)" "e_state (f e) \<noteq> Parked"
    and "settings s1 = settings s" "priority_burst s1 = priority_burst s" "sent s1 = sent s"
  shows "prepared op s s1"
proof -
  have "amap_count (in_state Parked) (entries s1) \<le> amap_count (in_state Parked) (entries s)"
    using amap_count_modify [OF sched_inv_wf [OF assms(1)] assms(3), of "in_state Parked" f] assms(5,6)
    by (simp add: in_state_def)
  then show ?thesis
    using assms moves_modify [OF assms(3-5)] by (auto simp: prepared_def alist_simps)
qed

lemma prepared_delete:
  assumes "sched_inv s" "sched_inv s1" "map_of (entries s) i = Some e"
    and "entries s1 = AList.delete i (entries s)"
    and "settings s1 = settings s" "priority_burst s1 = priority_burst s"
    and "sent s1 = sent s @ xs" "\<forall>(c, m) \<in> set xs. m = Inl AdmissionCancelled \<or> c = next_seq s"
  shows "prepared op s s1"
  using assms amap_count_delete [OF sched_inv_wf [OF assms(1)] assms(3), of "in_state Parked"]
    length_delete_Some [OF sched_inv_wf [OF assms(1)] assms(3)]
  by (auto simp: prepared_def alist_simps moves_delete)

lemma prepared_begin_wait:
  assumes inv: "sched_inv s"
  obtains s1 where "prepared op s s1" "fst (begin_wait i s) = s1 \<or> fst (begin_wait i s) = pump s1"
proof -
  let ?n = "s\<lparr>next_seq := next_seq s + 1\<rparr>"
  have inv1: "sched_inv ?n" by (rule sched_inv_next_seq [OF inv])
  have quiet: "prepared op s (?n\<lparr>sent := sent s @ xs\<rparr>)" if "\<forall>(c, m) \<in> set xs. c = next_seq s" for xs
    using that by (intro prepared_quiet [where xs = xs] sched_inv_sent inv1) auto
  have quiet0: "prepared op s ?n" by (rule prepared_quiet [OF inv1, where xs = "[]"]) simp_all
  show thesis
  proof (cases "map_of (entries s) i")
    case None
    then show thesis by (intro that [of ?n] quiet0) (simp add: begin_wait_def)
  next
    case (Some e)
    let ?w = "?n\<lparr>entries := amap_modify i (wait_entry (next_seq s) (next_seq s)) (entries s),
      queue := bset_insert (e_seq e, i) (queue s)\<rparr>"
    consider "e_state e = Active" | "e_state e = Pending" | "e_state e \<notin> {Active, Pending}" by blast
    then show thesis
    proof cases
      case 1
      then show thesis using Some
        by (intro that [of "?n\<lparr>sent := sent s @ [(next_seq s, Inr ())]\<rparr>"] quiet) (simp_all add: begin_wait_def Let_def)
    next
      case 2
      then show thesis using Some by (intro that [of ?n] quiet0) (simp add: begin_wait_def)
    next
      case 3
      then have "sched_inv ?w" using sched_inv_start_wait [OF inv1, of i e] Some by simp
      then have "prepared op s ?w"
        using 3 Some by (intro prepared_modify [OF inv _ Some, where f = "wait_entry (next_seq s) (next_seq s)"] waiting)
          (simp_all add: wait_entry_def)
      then show thesis using 3 Some by (intro that [of ?w]) (cases "e_state e"; simp add: begin_wait_def Let_def)+
    qed
  qed
qed

lemma prepared_abandon:
  assumes inv: "sched_inv s"
  obtains s1 where "prepared op s s1" "abandon i s = s1 \<or> abandon i s = pump s1"
proof (cases "map_of (entries s) i")
  case None
  then show thesis
    by (intro that [of s] prepared_quiet [OF inv, where xs = "[]"]) (simp_all add: abandon_def remove_entry_None)
next
  case (Some e)
  with inv obtain s' where s': "remove_entry i s = (s', Some e)" "sched_inv s'" "settings s' = settings s"
    "entries s' = AList.delete i (entries s)" "sent s' = sent s" "priority_burst s' = priority_burst s"
    by (rule remove_entry_Some)
  then show thesis
    by (intro that [of s'] prepared_delete [OF inv s'(2) Some, where xs = "[]"]) (simp_all add: abandon_def)
qed

lemma prepared_cancel_ticket:
  assumes inv: "sched_inv s"
  obtains s1 where "prepared op s s1" "fst (cancel_ticket i s) = s1 \<or> fst (cancel_ticket i s) = pump s1"
proof (cases "map_of (entries s) i")
  case None
  then show thesis
    by (intro that [of s] prepared_quiet [OF inv, where xs = "[]"]) (simp_all add: cancel_ticket_def remove_entry_None)
next
  case (Some e)
  with inv obtain s' where s': "remove_entry i s = (s', Some e)" "sched_inv s'" "settings s' = settings s"
    "entries s' = AList.delete i (entries s)" "sent s' = sent s" "priority_burst s' = priority_burst s"
    by (rule remove_entry_Some)
  let ?f = "s\<lparr>entries := amap_modify i (\<lambda>e. e\<lparr>e_cancel_requested := True\<rparr>) (entries s)\<rparr>"
  define xs where "xs = (case e_waiter e of None \<Rightarrow> [] | Some c \<Rightarrow> [(c, Inl AdmissionCancelled :: admission_error + unit)])"
  consider "e_state e = Active" "e_cancel_requested e" | "e_state e = Active" "\<not> e_cancel_requested e"
    | "e_state e \<noteq> Active" by blast
  then show thesis
  proof cases
    case 1
    with Some show thesis
      by (intro that [of s] prepared_quiet [OF inv, where xs = "[]"]) (simp_all add: cancel_ticket_def)
  next
    case 2
    have "sched_inv ?f" by (rule sched_inv_cancel_flag [OF inv Some])
    with 2 Some show thesis
      by (intro that [of ?f] prepared_modify [OF inv _ Some, where f = "\<lambda>e. e\<lparr>e_cancel_requested := True\<rparr>"] flagged) (simp_all add: cancel_ticket_def)
  next
    case 3
    with Some s' show thesis
      by (intro that [of "s'\<lparr>sent := sent s' @ xs\<rparr>"] prepared_delete [OF inv _ Some, where xs = xs])
        (auto simp: cancel_ticket_def xs_def sched_inv_sent split: option.splits)
  qed
qed

lemma prepared_park:
  assumes inv: "sched_inv s"
  obtains s1 where "prepared op s s1" "fst (park i s) = s1 \<or> fst (park i s) = pump s1"
proof -
  let ?n = "s\<lparr>next_seq := next_seq s + 1\<rparr>"
  have inv1: "sched_inv ?n" by (rule sched_inv_next_seq [OF inv])
  have quiet: "prepared op s ?n" by (rule prepared_quiet [OF inv1, where xs = "[]"]) simp_all
  show thesis
  proof (cases "map_of (entries s) i")
    case None
    then show thesis by (intro that [of ?n] quiet) (simp add: park_def)
  next
    case (Some e)
    let ?p = "discharge (e_scope e) (?n\<lparr>entries := amap_modify i (park_entry (next_seq s)) (entries s)\<rparr>)"
    let ?s1 = "evict_parked_over_residency ?p"
    show thesis
    proof (cases "e_state e = Active \<and> \<not> e_cancel_requested e")
      case False
      with Some show thesis by (intro that [of ?n] quiet) (auto simp: park_def Let_def)
    next
      case True
      have p: "sched_inv ?p" using sched_inv_park_entry [OF inv1, of i e] Some True by simp
      have "moves s ?s1" by (rule moves_park_evict [OF p Some]) (use True in \<open>simp_all add: discharge_def\<close>)
      moreover have "length (entries ?s1) = length (entries s)"
        "\<forall>j < next_id s. map_of (entries s) j = None \<longrightarrow> map_of (entries ?s1) j = None"
        by (simp_all add: evict_keys(2) evict_none discharge_def alist_simps)
      moreover have "amap_count (in_state Parked) (entries ?s1) \<le> max_parked_residency (settings ?s1)"
        using parked_count_evict [OF sched_inv_wf [OF p]] by simp
      moreover have "sched_inv ?s1" by (rule sched_inv_evict [OF p])
      ultimately have "prepared op s ?s1" by (simp add: prepared_def discharge_def)
      with Some True show thesis by (intro that [of ?s1]) (simp_all add: park_def Let_def)
    qed
  qed
qed

lemma sched_step_prepared:
  assumes inv: "sched_inv s"
  obtains s1 where "prepared op s s1" "sched_step s op = s1 \<or> sched_step s op = pump s1"
proof (cases op)
  case (OpConfigure cfg)
  define c where "c = min (root_credit s) (case last_root s of None \<Rightarrow> 0
    | Some r \<Rightarrow> root_quantum cfg (checkout_key_as_str r))"
  let ?p = "s\<lparr>settings := cfg, root_credit := c\<rparr>"
  have p: "sched_inv ?p" by (rule sched_inv_cong [OF inv]) simp_all
  let ?s1 = "evict_parked_over_residency ?p"
  show thesis
  proof (cases "validate cfg")
    case (Inl x)
    then show thesis using OpConfigure
      by (intro that [of s] prepared_quiet [OF inv, where xs = "[]"]) (simp_all add: configure_def)
  next
    case (Inr x)
    have "moves s ?s1" using moves_evict [OF p] by (simp add: moves_def)
    moreover have "amap_count (in_state Parked) (entries ?s1) \<le> max_parked_residency (settings ?s1)"
      by (simp add: parked_count_evict sched_inv_wf [OF inv])
    ultimately have "prepared op s ?s1"
      using OpConfigure by (simp add: prepared_def sched_inv_evict p evict_keys(2) evict_none is_configure_def)
    moreover have "sched_step s op = pump ?s1"
      using OpConfigure Inr by (cases "last_root s") (simp_all add: configure_def Let_def c_def)
    ultimately show thesis by (intro that [of ?s1]) simp_all
  qed
next
  case (OpReserve q)
  show thesis
  proof (cases "fst (reserve q s) = s")
    case True
    with OpReserve show thesis by (intro that [of s] prepared_quiet [OF inv, where xs = "[]"]) simp_all
  next
    case False
    let ?s1 = "insert_reservation q s"
    from False have eq: "fst (reserve q s) = ?s1" and len: "length (entries s) < max_outstanding (settings s)"
      by (auto simp: reserve_def counts_def split: if_splits)
    have inv1: "sched_inv ?s1" using sched_inv_reserve [OF inv, of q] eq by simp
    have new: "map_of (entries s) (next_id s) = None" using sched_inv_fresh [OF inv] by simp
    have "moves s ?s1"
      using new by (auto simp: moves_def insert_reservation_def alist_simps same intro!: reserved)
        (simp_all add: new_entry_def)
    moreover have "amap_count (in_state Parked) (entries ?s1) = amap_count (in_state Parked) (entries s)"
      "length (entries ?s1) = Suc (length (entries s))"
      using new by (simp_all add: insert_reservation_def amap_count_update_new in_state_def new_entry_def
        update_new_append map_of_None_keys)
    ultimately have "prepared op s ?s1"
      using len inv1 by (auto simp: prepared_def insert_reservation_def alist_simps)
    with eq OpReserve show thesis by (intro that [of ?s1]) simp_all
  qed
next
  case (OpBeginWait i)
  with prepared_begin_wait [OF inv, of op i] that show thesis by auto
next
  case (OpAbandon i)
  with prepared_abandon [OF inv, of op i] that show thesis by auto
next
  case (OpPark i)
  with prepared_park [OF inv, of op i] that show thesis by auto
next
  case (OpCancel i)
  with prepared_cancel_ticket [OF inv, of op i] that show thesis by auto
next
  case (OpCancelRun r)
  show thesis
  proof (cases "map_of (by_run s) r")
    case None
    with OpCancelRun show thesis
      by (intro that [of s] prepared_quiet [OF inv, where xs = "[]"]) (simp_all add: cancel_run_def)
  next
    case (Some i)
    with OpCancelRun prepared_cancel_ticket [OF inv, of op i] that show thesis by (auto simp: cancel_run_def)
  qed
qed

section \<open>From tickets to counts\<close>

lemma covers_scope: "e_scope e' = e_scope e \<Longrightarrow> covers k e' = covers k e"
  by (cases k) simp_all

lemmas entry_changes = wait_entry_def park_entry_def evict_entry_def admit_entry_def

lemma entry_move_active:
  assumes "entry_move q x (Some e')" "e_state e' = Active"
  obtains e where "x = Some e" "e_state e = Active" "e_scope e = e_scope e'"
  using assms by (cases rule: entry_move.cases) (auto simp: entry_changes)

lemma moves_active:
  assumes "moves s s1" "map_of (entries s1) j = Some e'" "e_state e' = Active"
  obtains e where "map_of (entries s) j = Some e" "e_state e = Active" "e_scope e = e_scope e'"
proof -
  have "entry_move (next_seq s) (map_of (entries s) j) (Some e')" using assms(1,2) unfolding moves_def by metis
  then show thesis using assms(3) by (rule entry_move_active) (rule that)
qed

lemma in_use_moves:
  assumes inv: "sched_inv s" "sched_inv s1" and mv: "moves s s1"
  shows "in_use s1 k \<le> in_use s k"
  unfolding in_use_count [OF inv(1)] in_use_count [OF inv(2)]
proof (rule amap_count_mono)
  fix j e'
  assume j: "map_of (entries s1) j = Some e'" and e': "e_state e' = Active \<and> covers k e'"
  from mv j obtain e where "map_of (entries s) j = Some e" "e_state e = Active" "e_scope e = e_scope e'"
    by (rule moves_active) (use e' in auto)
  with e' show "\<exists>e. map_of (entries s) j = Some e \<and> e_state e = Active \<and> covers k e"
    by (metis covers_scope)
qed (use inv in \<open>simp_all add: sched_inv_wf\<close>)

lemma in_use_step:
  assumes inv: "sched_inv s"
  shows "in_use (sched_step s op) k \<le> max (in_use s k) (cap_of (settings (sched_step s op)) k)"
proof -
  obtain s1 where s1: "prepared op s s1" "sched_step s op = s1 \<or> sched_step s op = pump s1"
    by (rule sched_step_prepared [OF inv])
  then have "in_use s1 k \<le> in_use s k" using in_use_moves [OF inv] by (auto simp: prepared_def)
  with s1(2) in_use_pump [of s1 k] show ?thesis by auto
qed

lemma settings_step: "sched_inv s \<Longrightarrow> \<not> is_configure op \<Longrightarrow> settings (sched_step s op) = settings s"
  by (rule sched_step_prepared [of s op]) (auto simp: prepared_def)

lemma length_entries_step:
  "sched_inv s \<Longrightarrow> length (entries (sched_step s op)) \<le> max (length (entries s)) (max_outstanding (settings (sched_step s op)))"
  by (rule sched_step_prepared [of s op]) (auto simp: prepared_def)

definition parked_bounded :: "sched \<Rightarrow> bool" where
  "parked_bounded s \<longleftrightarrow> amap_count (in_state Parked) (entries s) \<le> max_parked_residency (settings s)"

lemma parked_count_pump:
  assumes inv: "sched_inv s"
  shows "amap_count (in_state Parked) (entries (pump s)) \<le> amap_count (in_state Parked) (entries s)"
proof (rule amap_count_mono)
  fix j e'
  assume j: "map_of (entries (pump s)) j = Some e'" and e': "in_state Parked e'"
  then obtain e where e: "map_of (entries s) j = Some e" by (metis pump_entry_None not_Some_eq)
  from pump_entry [OF inv e] j e' e show "\<exists>e. map_of (entries s) j = Some e \<and> in_state Parked e"
    by (auto simp: in_state_def admit_entry_def)
qed (use inv in \<open>simp_all add: sched_inv_wf sched_inv_pump\<close>)

lemma parked_bounded_step:
  assumes inv: "sched_inv s" and pb: "parked_bounded s"
  shows "parked_bounded (sched_step s op)"
proof -
  obtain s1 where s1: "prepared op s s1" "sched_step s op = s1 \<or> sched_step s op = pump s1"
    by (rule sched_step_prepared [OF inv])
  then have "parked_bounded s1" "sched_inv s1" using pb by (auto simp: prepared_def parked_bounded_def)
  with s1(2) parked_count_pump [of s1] show ?thesis by (auto simp: parked_bounded_def)
qed

interpretation bounded_parking: machine "scheduler_new cfg" sched_step "\<lambda>s. sched_inv s \<and> parked_bounded s" for cfg
proof unfold_locales
  show "sched_inv (scheduler_new cfg) \<and> parked_bounded (scheduler_new cfg)"
    using sched_inv_new [of cfg] by (simp add: parked_bounded_def) (simp add: scheduler_new_def)
qed (simp add: sched_inv_step parked_bounded_step)

section \<open>Channels across an operation\<close>

lemma receive_blocked:
  assumes "chan_ok s" "map_of (entries s) i = Some e" "e_waiter e = Some c"
  shows "receive c s = Blocked"
proof -
  have "c \<notin> fst ` set (sent s)" using assms unfolding chan_ok_def by blast
  then have "map_of (sent s) c = None" by (simp add: map_of_None_keys)
  moreover have "e \<in> set (amap_values (entries s))"
    using map_of_SomeD [OF assms(2)] by (force simp: amap_values_def)
  ultimately show ?thesis using assms(3) by (auto simp: receive_def)
qed

lemma receive_message: "chan_ok s \<Longrightarrow> (c, m) \<in> set (sent s) \<Longrightarrow> receive c s = Message m"
  by (simp add: receive_def chan_ok_def)

lemma receive_sent: "receive c s = Message m \<Longrightarrow> (c, m) \<in> set (sent s)"
  by (auto simp: receive_def dest: map_of_SomeD split: option.splits if_splits)

lemma receive_blocked_waiter:
  assumes "receive c s = Blocked" "amap_wf (entries s)"
  obtains i e where "map_of (entries s) i = Some e" "e_waiter e = Some c"
  using assms amap_values_ex [OF assms(2), of "\<lambda>e. e_waiter e = Some c"]
  by (auto simp: receive_def split: option.splits if_splits)

definition waits_on :: "sched \<Rightarrow> channel \<Rightarrow> bool" where
  "waits_on s c \<longleftrightarrow> (\<exists>i e. map_of (entries s) i = Some e \<and> e_waiter e = Some c)"

lemma waits_onI: "map_of (entries s) i = Some e \<Longrightarrow> e_waiter e = Some c \<Longrightarrow> waits_on s c"
  by (auto simp: waits_on_def)

lemma pump_turn_sent:
  assumes "pump_turn s = (s', b)"
  shows "\<exists>xs. sent s' = sent s @ xs \<and> (\<forall>(c, m) \<in> set xs. m = Inr () \<and> waits_on s c)"
  using assms
  by (rule_tac pump_turn_cases [of s])
    (auto simp: admit_slot_def charge_def intro: waits_onI split: option.splits)

lemma waits_on_pump_turn:
  assumes turn: "pump_turn s = (s', b)" and w: "waits_on s' c"
  shows "waits_on s c"
proof -
  obtain i e where "map_of (entries s') i = Some e" "e_waiter e = Some c"
    using w by (auto simp: waits_on_def)
  then show ?thesis using turn
    by (rule_tac pump_turn_cases [of s])
      (auto simp: admit_slot_def charge_def alist_simps admit_entry_def intro: waits_onI
        split: option.splits if_splits)
qed

lemma pump_sent:
  obtains xs where "sent (pump s) = sent s @ xs" "\<forall>(c, m) \<in> set xs. m = Inr () \<and> waits_on s c"
    "\<forall>c. waits_on (pump s) c \<longrightarrow> waits_on s c"
proof -
  let ?R = "\<lambda>s s'. (\<forall>c. waits_on s' c \<longrightarrow> waits_on s c) \<and>
    (\<exists>xs. sent s' = sent s @ xs \<and> (\<forall>(c, m) \<in> set xs. m = Inr () \<and> waits_on s c))"
  have "?R s (pump s)"
  proof (rule pump_rel [of "\<lambda>_. True"])
    fix s s' b
    assume "pump_turn s = (s', b)"
    then show "?R s s'" using pump_turn_sent waits_on_pump_turn by blast
  next
    fix s s' s''
    assume 1: "?R s s'" and 2: "?R s' s''"
    then obtain xs ys where "sent s' = sent s @ xs" "\<forall>(c, m) \<in> set xs. m = Inr () \<and> waits_on s c"
      "sent s'' = sent s' @ ys" "\<forall>(c, m) \<in> set ys. m = Inr () \<and> waits_on s' c" by blast
    then have "sent s'' = sent s @ (xs @ ys)" "\<forall>(c, m) \<in> set (xs @ ys). m = Inr () \<and> waits_on s c"
      using 1 by auto
    with 1 2 show "?R s s''" by blast
  qed auto
  then show thesis using that by blast
qed

text \<open>A waiting ticket after a preparation: untouched, or removed with its channel unanswered.\<close>

lemma moves_pending:
  assumes "moves s s1" "map_of (entries s) i = Some e" "e_state e = Pending"
  shows "map_of (entries s1) i = Some e \<or> map_of (entries s1) i = None"
proof -
  have "entry_move (next_seq s) (Some e) (map_of (entries s1) i)" using assms(1,2) unfolding moves_def by metis
  then show ?thesis using assms(3) by (cases rule: entry_move.cases) auto
qed

lemma moves_waits_on:
  assumes inv: "sched_inv s" and mv: "moves s s1" and e': "map_of (entries s1) j = Some e'" "e_waiter e' = Some c"
  shows "c = next_seq s \<or> (\<exists>e. map_of (entries s) j = Some e \<and> e_waiter e = Some c)"
proof -
  have "entry_move (next_seq s) (map_of (entries s) j) (Some e')" using mv e'(1) unfolding moves_def by metis
  then show ?thesis using e'(2)
    by (cases rule: entry_move.cases) (auto simp: entry_changes)
qed

lemma gone_unanswered:
  assumes inv: "sched_inv s" and ok: "chan_ok s" and prep: "prepared op s s1"
    and i: "map_of (entries s) i = Some e" "e_waiter e = Some c" and gone: "map_of (entries s1) i = None"
  shows "\<not> waits_on s1 c" "(c, m) \<in> set (sent s1) \<Longrightarrow> m = Inl AdmissionCancelled"
proof -
  have c: "c < next_seq s" "c \<notin> fst ` set (sent s)" using ok i unfolding chan_ok_def by blast+
  have "moves s s1" using prep by (simp add: prepared_def)
  moreover have "j = i" if "map_of (entries s) j = Some d" "e_waiter d = Some c" for j d
    using ok i that unfolding chan_ok_def by metis
  ultimately show "\<not> waits_on s1 c"
    using moves_waits_on [OF inv] c gone unfolding waits_on_def by (metis less_irrefl option.distinct(1))
  assume "(c, m) \<in> set (sent s1)"
  moreover from prep obtain xs where "sent s1 = sent s @ xs"
    "\<forall>(c, m) \<in> set xs. m = Inl AdmissionCancelled \<or> c = next_seq s" unfolding prepared_def by blast
  moreover have "(c, m) \<notin> set (sent s)" using c(2) by force
  ultimately show "m = Inl AdmissionCancelled" using c(1) by auto
qed

lemma waiter_step:
  assumes inv: "sched_inv s" and ok: "chan_ok s"
    and i: "map_of (entries s) i = Some e" "e_waiter e = Some c"
    and s'_def: "s' = sched_step s op"
  shows "map_of (entries s') i = Some e \<and> receive c s' = Blocked \<or>
    map_of (entries s') i = Some (admit_entry e) \<and> receive c s' = Message (Inr ()) \<or>
    map_of (entries s') i = None \<and> receive c s' \<in> {Closed, Message (Inl AdmissionCancelled)}"
proof -
  obtain s1 where s1: "prepared op s s1" "s' = s1 \<or> s' = pump s1"
    unfolding s'_def by (rule sched_step_prepared [OF inv])
  have ok': "chan_ok s'" "sched_inv s'" unfolding s'_def by (rule chan_ok_step [OF inv ok] sched_inv_step [OF inv])+
  have pend: "e_state e = Pending" using sched_inv_waiter [OF inv i(1)] i(2) by simp
  from s1(1) have inv1: "sched_inv s1" and mv: "moves s s1" by (simp_all add: prepared_def)
  from moves_pending [OF mv i(1) pend] show ?thesis
  proof
    assume same: "map_of (entries s1) i = Some e"
    then have "map_of (entries s') i = Some e \<or>
        map_of (entries s') i = Some (admit_entry e) \<and> (c, Inr ()) \<in> set (sent s')"
      using s1(2) pump_entry [OF inv1 same] i(2) by auto
    then show ?thesis using receive_blocked [OF ok'(1)] receive_message [OF ok'(1)] i(2) by blast
  next
    assume none: "map_of (entries s1) i = None"
    note un = gone_unanswered [OF inv ok s1(1) i none]
    obtain xs where xs: "sent (pump s1) = sent s1 @ xs" "\<forall>(c, m) \<in> set xs. m = Inr () \<and> waits_on s1 c"
      "\<forall>c. waits_on (pump s1) c \<longrightarrow> waits_on s1 c" by (rule pump_sent [of s1])
    have nw: "\<not> waits_on s' c" using s1(2) un(1) xs(3) by auto
    have m: "m = Inl AdmissionCancelled" if "(c, m) \<in> set (sent s')" for m
      using s1(2) that un xs(1,2) by auto
    have "receive c s' \<noteq> Blocked"
      using nw receive_blocked_waiter [of c s'] sched_inv_wf [OF ok'(2)] unfolding waits_on_def by blast
    moreover have "receive c s' = Message m \<Longrightarrow> m = Inl AdmissionCancelled" for m
      using receive_sent m by blast
    moreover have "map_of (entries s') i = None" using s1(2) none by auto
    ultimately show ?thesis by (cases "receive c s'") auto
  qed
qed

text \<open>What a channel answered stays answered.\<close>

lemma sent_step:
  assumes inv: "sched_inv s" shows "\<exists>xs. sent (sched_step s op) = sent s @ xs"
proof -
  obtain s1 where s1: "prepared op s s1" "sched_step s op = s1 \<or> sched_step s op = pump s1"
    by (rule sched_step_prepared [OF inv])
  moreover obtain xs where "sent (pump s1) = sent s1 @ xs" by (rule pump_sent [of s1])
  ultimately show ?thesis by (auto simp: prepared_def)
qed

lemma sent_run: "sched_inv s \<Longrightarrow> \<exists>xs. sent (sched_run s ops) = sent s @ xs"
proof (induction ops arbitrary: s)
  case Nil
  then show ?case by (simp add: sched_run_def)
next
  case (Cons op ops)
  with sent_step [of s op] sched_inv_step [of s op] show ?case by (fastforce simp: sched_run_def)
qed

end
