(* ===== verification/Scheduler_Examples.thy ===== *)
theory Scheduler_Examples
  imports Scheduler_Steps
begin

text \<open>
  Small runs of the scheduler, evaluated by the simplifier: default settings with
  other caps, and two requests of one project and root. The witnesses of the scheduler's
  properties are taken at the states these runs reach.
\<close>

definition tiny_settings :: "nat \<Rightarrow> coordination_settings" where
  "tiny_settings cap = default_settings\<lparr>max_active_engine := cap, max_active_project := cap, max_active_root := cap\<rparr>"

lemma tiny_settings_fields [simp]:
  "enabled (tiny_settings n)" "max_active_engine (tiny_settings n) = n"
  "max_active_project (tiny_settings n) = n" "max_active_root (tiny_settings n) = n"
  "max_subchat_depth (tiny_settings n) = 5" "max_outstanding (tiny_settings n) = 4096"
  "max_pending (tiny_settings n) = 1024" "max_parked_residency (tiny_settings n) = 256"
  "max_priority_burst (tiny_settings n) = 4" "max_resume_burst (tiny_settings n) = 4"
  "root_quantum (tiny_settings n) r = 1"
  by (simp_all add: tiny_settings_def default_settings_def root_quantum_def rust_arith u64_max_def)

lemma validate_tiny_settings: "validate (tiny_settings 1) = Inr ()"
proof -
  have "validate_part1 (tiny_settings 1) = []"
    by (simp add: validate_part1_def tiny_settings_def default_settings_def)
  moreover have "validate_part2 (tiny_settings 1) = []"
    by (simp add: validate_part2_def tiny_settings_def default_settings_def btree_iter_def)
  moreover have "validate_part3 (tiny_settings 1) = []"
    by (simp add: validate_part3_def tiny_settings_def default_settings_def confidence_certain_per_mille_def)
  moreover have "validate_part4 (tiny_settings 1) = []"
    by (simp add: validate_part4_def tiny_settings_def default_settings_def)
  moreover have "validate_part5 (tiny_settings 1) = []"
    by (simp add: validate_part5_def tiny_settings_def default_settings_def sat_mul64_def u64_max_def sat_sub_def)
  moreover have "validate_part6 (tiny_settings 1) = []"
    by (simp add: validate_part6_def tiny_settings_def default_settings_def sat_sub_def)
  ultimately show ?thesis by (simp add: validate_Inr_iff validate_violations_def)
qed

definition tiny_request :: "string \<Rightarrow> work_priority \<Rightarrow> admission_request" where
  "tiny_request name p =
     with_priority p (admission_request_new (RunKey (WorkKey Trajectory name) 1)
       \<lparr>scope_project = ProjectKey ''p'', scope_root = CheckoutKey ''/r''\<rparr>)"

definition tiny_ops :: "sched_op list" where
  "tiny_ops = [OpReserve (tiny_request ''a'' Normal), OpReserve (tiny_request ''b'' UserBlocking),
     OpBeginWait 1, OpBeginWait 2]"

definition tiny_run :: "nat \<Rightarrow> sched" where
  "tiny_run cap = sched_run (scheduler_new (tiny_settings cap)) tiny_ops"

lemmas sched_eval = sched_run_def scheduler_new_def reserve_def insert_reservation_def new_entry_def
  counts_def begin_wait_def Let_def amap_count_def amap_values_def in_state_def amap_modify_def
  wait_entry_def pump.simps bset_insert_def tiny_run_def tiny_ops_def tiny_request_def with_priority_def
  admission_request_new_def

lemmas pump_eval = pump_turn_def lanes_def push_lane_def eligible_def fits_def natural_slot_def
  preemption_def account_turn_def admit_slot_def admit_entry_def charge_def counter_inc_def
  fairness_turn_def priority_of_def btree_iter_def bset_remove_def sat_sub_def sat_add64_def u64_max_def

definition tiny_entry :: "nat \<Rightarrow> ticket_state \<Rightarrow> entry" where
  "tiny_entry n st =
     \<lparr>e_run = RunKey (WorkKey Trajectory (if n = 1 then ''a'' else ''b'')) 1,
      e_scope = \<lparr>scope_project = ProjectKey ''p'', scope_root = CheckoutKey ''/r''\<rparr>,
      e_depth = 0, e_seq = n, e_ready_seq = n + 2, e_parked_seq = 0, e_state = st,
      e_priority = (if n = 1 then Normal else UserBlocking), e_park_count = 0, e_evict_count = 0,
      e_cancel_requested = False, e_waiter = (if st = Pending then Some (n + 2) else None)\<rparr>"

text \<open>With no slot at all both tickets wait; with one slot the first runs and the second waits.\<close>

lemma tiny_run_closed:
  "entries (tiny_run 0) = [(1, tiny_entry 1 Pending), (2, tiny_entry 2 Pending)]"
  "settings (tiny_run 0) = tiny_settings 0" "sent (tiny_run 0) = []" "priority_burst (tiny_run 0) = 0"
  "queue (tiny_run 0) = [(1, 1), (2, 2)]" "roots (tiny_run 0) = [CheckoutKey ''/r'']"
  by (simp_all add: sched_eval tiny_entry_def)

lemma tiny_run_busy:
  "entries (tiny_run 1) = [(1, tiny_entry 1 Active), (2, tiny_entry 2 Pending)]"
  "settings (tiny_run 1) = tiny_settings 1" "sent (tiny_run 1) = [(3, Inr ())]"
  "active_total (tiny_run 1) = 1"
  by (simp_all add: sched_eval pump_eval tiny_entry_def)

lemma sched_inv_tiny_run: "sched_inv (tiny_run cap)"
  unfolding tiny_run_def sched_run_def by (rule scheduler.reachable_inv)

end
