(* ===== verification/Scheduler_Fairness.thy ===== *)
theory Scheduler_Fairness
  imports Scheduler_Examples
begin

text \<open>
  Which waiter a turn of the pump admits: the root whose turn it is serves its oldest
  waiter (on a fairness turn the one ready for longest), and a more urgent class may
  take the turn at most \<open>max_priority_burst\<close> times in a row, in which case it is the most
  urgent and then oldest waiter of all that is admitted.
\<close>

lemma eligible_entry:
  assumes "eligible s i" obtains e where "map_of (entries s) i = Some e" "e_state e = Pending" "fits s e"
  using assms by (auto simp: eligible_def split: option.splits)

lemma eligible_in_lane:
  assumes inv: "sched_inv s" and j: "eligible s j" "map_of (entries s) j = Some d"
  shows "(e_seq d, j) \<in> set (filter (in_lane s (e_root d)) (queue s))"
  using assms by (auto simp: sched_inv_queue in_lane_def eligible_def)

lemma map_of_lane:
  assumes inv: "sched_inv s" and j: "eligible s j" "map_of (entries s) j = Some d"
  shows "map_of (lanes s) (e_root d) = Some (filter (in_lane s (e_root d)) (queue s))"
  using eligible_in_lane [OF assms] by (auto simp: map_of_lanes filter_empty_conv)

lemma lane_slotsI:
  "(r, lane) \<in> set m \<Longrightarrow> x \<in> set lane \<Longrightarrow>
   (r, x) \<in> set (concat (map (\<lambda>(r, lane). map (Pair r) lane) (btree_iter m)))"
  by force

lemma eligible_in_lanes:
  assumes inv: "sched_inv s" and j: "eligible s j" "map_of (entries s) j = Some d"
  shows "(e_root d, e_seq d, j) \<in> set (concat (map (\<lambda>(r, lane). map (Pair r) lane) (btree_iter (lanes s))))"
  by (rule lane_slotsI [OF map_of_SomeD [OF map_of_lane [OF assms]] eligible_in_lane [OF assms]])

lemma queue_seq:
  "sched_inv s \<Longrightarrow> slot \<in> set (queue s) \<Longrightarrow> map_of (entries s) (snd slot) = Some e \<Longrightarrow> fst slot = e_seq e"
  by (cases slot) (simp add: sched_inv_queue)

text \<open>The order of urgency: class first, then age.\<close>

definition at_least_as_urgent :: "entry \<Rightarrow> entry \<Rightarrow> bool" where
  "at_least_as_urgent e d \<longleftrightarrow>
     e_priority e < e_priority d \<or> e_priority e = e_priority d \<and> e_seq e \<le> e_seq d"

lemma preemption_choice:
  assumes inv: "sched_inv s"
    and pre: "preemption s1 (lanes s) r natural = Some (r', slot)"
    and s1: "entries s1 = entries s"
    and i: "map_of (entries s) (snd slot) = Some e" and j: "eligible s j" "map_of (entries s) j = Some d"
  shows "at_least_as_urgent e d" "priority_burst s1 < max_priority_burst (settings s1)"
    "\<not> fairness_turn s1 r" "priority_of s (snd slot) < priority_of s (snd natural)"
proof -
  let ?all = "concat (map (\<lambda>(r, lane). map (Pair r) lane) (btree_iter (lanes s)))"
  let ?key = "\<lambda>(_ :: checkout_key, seq :: nat, i). (priority_of s i, seq)"
  have pri: "priority_of s1 = priority_of s" by (simp add: priority_of_def [abs_def] s1)
  from pre have m: "min_by_key ?key ?all = Some (r', slot)"
    and g: "priority_burst s1 < max_priority_burst (settings s1)" "\<not> fairness_turn s1 r"
      "priority_of s (snd slot) < priority_of s (snd natural)"
    by (auto simp: preemption_def pri split: if_splits option.splits)
  from g show "priority_burst s1 < max_priority_burst (settings s1)" "\<not> fairness_turn s1 r"
    "priority_of s (snd slot) < priority_of s (snd natural)" by simp_all
  have "slot \<in> set (queue s)" using preemption_mem [OF pre] by simp
  then have "fst slot = e_seq e" by (rule queue_seq [OF inv _ i])
  moreover have "?key (r', slot) \<le> ?key (e_root d, e_seq d, j)"
    by (rule min_by_key_le [OF m eligible_in_lanes [OF inv j]])
  ultimately show "at_least_as_urgent e d"
    using i j by (cases slot) (auto simp: priority_of_def at_least_as_urgent_def)
qed

lemma natural_choice:
  assumes inv: "sched_inv s"
    and nat: "natural_slot s1 (lanes s) r = Some slot" and s1: "entries s1 = entries s"
    and i: "map_of (entries s) (snd slot) = Some e" and j: "eligible s j" "map_of (entries s) j = Some d"
    and root: "e_root d = r"
  shows "if fairness_turn s1 r then e_ready_seq e \<le> e_ready_seq d else e_seq e \<le> e_seq d"
proof -
  let ?lane = "filter (in_lane s r) (queue s)"
  have lane: "map_of (lanes s) r = Some ?lane" "(e_seq d, j) \<in> set ?lane"
    using map_of_lane [OF inv j] eligible_in_lane [OF inv j] root by simp_all
  show ?thesis
  proof (cases "fairness_turn s1 r")
    case True
    then have "min_by_key (\<lambda>(_, i). map_option e_ready_seq (map_of (entries s) i)) ?lane = Some slot"
      using nat lane s1 by (simp add: natural_slot_def)
    from min_by_key_le [OF this lane(2)] show ?thesis
      using True i j by (cases slot) simp
  next
    case False
    then obtain rest where rest: "?lane = slot # rest"
      using nat lane by (auto simp: natural_slot_def split: list.splits)
    have "sorted ?lane" using inv by (simp add: sched_inv_def queue_ok_def sorted_wrt_filter)
    with rest lane(2) have "slot \<le> (e_seq d, j)" by auto
    moreover have "fst slot = e_seq e"
      using natural_slot_mem [OF nat] by (intro queue_seq [OF inv _ i]) simp
    ultimately show ?thesis using False by (cases slot) auto
  qed
qed

text \<open>The accounting a turn leaves behind.\<close>

lemma account_turn_burst:
  "priority_burst (account_turn p f r i s) = (if p then sat_add64 (priority_burst s) 1 else 0)"
  by (simp add: account_turn_def Let_def)

lemma priority_burst_pump_turn:
  assumes turn: "pump_turn s = (s', b)"
  shows "priority_burst s' \<le> max (priority_burst s) (max_priority_burst (settings s))"
proof -
  obtain x rs credit where
    rot: "rotate_to_lane (length (roots s)) (amap_keys (lanes s)) (roots s) (root_credit s) = (x, rs, credit)"
    by (metis prod_cases3)
  let ?s1 = "s\<lparr>roots := rs, root_credit := credit\<rparr>"
  have "sat_add64 (priority_burst s) 1 \<le> max_priority_burst (settings s)"
    if "preemption ?s1 (lanes s) r n = Some y" for r n y
    using that by (intro sat_add64_cong_less) (auto simp: preemption_def split: if_splits)
  then show ?thesis
    using turn rot
    by (fastforce simp: pump_turn_def Let_def account_turn_burst split: option.splits prod.splits)
qed

lemma priority_burst_pump: "priority_burst (pump s) \<le> max (priority_burst s) (max_priority_burst (settings s))"
proof -
  let ?R = "\<lambda>s s'. settings s' = settings s \<and> priority_burst s' \<le> max (priority_burst s) (max_priority_burst (settings s))"
  have "?R s (pump s)"
  proof (rule pump_rel [of "\<lambda>_. True"])
    fix s s' b
    assume t: "pump_turn s = (s', b)"
    then have "settings s' = settings s" by (rule_tac pump_turn_cases [of s]) auto
    with priority_burst_pump_turn [OF t] show "?R s s'" by simp
  qed auto
  then show ?thesis by simp
qed

lemma priority_burst_step:
  assumes inv: "sched_inv s"
  shows "priority_burst (sched_step s op) \<le> max (priority_burst s) (max_priority_burst (settings (sched_step s op)))"
proof -
  obtain s1 where s1: "prepared op s s1" "sched_step s op = s1 \<or> sched_step s op = pump s1"
    by (rule sched_step_prepared [OF inv])
  then have "priority_burst s1 = priority_burst s" by (simp add: prepared_def)
  with s1(2) priority_burst_pump [of s1] show ?thesis by auto
qed

text \<open>
  C5: what a turn of the pump admits. If it admits at all, it is one eligible waiter, and
  either urgency took the turn -- then its burst was not used up, the burst grows by one, and the
  waiter is the most urgent and then oldest of all eligible ones -- or it is the turn of
  the waiter's own root: the burst is reset and the waiter is the oldest of that root's
  eligible waiters, or on a fairness turn the one ready for longest.
\<close>

theorem pump_turn_choice:
  assumes inv: "sched_inv s" and turn: "pump_turn s = (s', True)"
  shows "\<exists>i e. eligible s i \<and> map_of (entries s) i = Some e \<and>
    map_of (entries s') i = Some (admit_entry e) \<and>
    (priority_burst s < max_priority_burst (settings s) \<and>
       priority_burst s' = sat_add64 (priority_burst s) 1 \<and>
       (\<forall>j d. eligible s j \<and> map_of (entries s) j = Some d \<longrightarrow> at_least_as_urgent e d)
     \<or> priority_burst s' = 0 \<and>
       (\<forall>j d. eligible s j \<and> map_of (entries s) j = Some d \<and> e_root d = e_root e \<longrightarrow>
          (if fairness_turn s (e_root e) then e_ready_seq e \<le> e_ready_seq d else e_seq e \<le> e_seq d)))"
proof -
  obtain x rs credit where
    rot: "rotate_to_lane (length (roots s)) (amap_keys (lanes s)) (roots s) (root_credit s) = (x, rs, credit)"
    by (metis prod_cases3)
  let ?s1 = "s\<lparr>roots := rs, root_credit := credit\<rparr>"
  from turn rot obtain r natural where r: "x = Some r" "natural_slot ?s1 (lanes s) r = Some natural"
    by (auto simp: pump_turn_def Let_def split: option.splits)
  have fair: "fairness_turn ?s1 = fairness_turn s" by (simp add: fairness_turn_def [abs_def])
  have adm: "\<exists>e. eligible s i \<and> map_of (entries s) i = Some e \<and> e_root e = r' \<and>
      map_of (entries (admit_slot (q, i) (account_turn p f r' i ?s1))) i = Some (admit_entry e)"
    if "in_lane s r' (q, i)" for q i p f r'
    using that by (auto simp: in_lane_def eligible_def admit_slot_def charge_def alist_simps split: option.splits)
  show ?thesis
  proof (cases "preemption ?s1 (lanes s) r natural")
    case None
    obtain q i where qi: "natural = (q, i)" by (cases natural)
    have s': "s' = admit_slot (q, i) (account_turn False (fairness_turn ?s1 r) r i ?s1)"
      using turn rot r None qi by (simp add: pump_turn_def Let_def)
    from adm natural_slot_mem [OF r(2)] qi s' obtain e where e: "eligible s i" "map_of (entries s) i = Some e"
      "e_root e = r" "map_of (entries s') i = Some (admit_entry e)" by blast
    have "priority_burst s' = 0" using s' by (simp add: account_turn_burst)
    with e natural_choice [OF inv r(2)] qi fair show ?thesis by fastforce
  next
    case (Some y)
    obtain r' q i where y: "y = (r', q, i)" by (cases y)
    have s': "s' = admit_slot (q, i) (account_turn True (fairness_turn ?s1 r) r' i ?s1)"
      using turn rot r Some y by (simp add: pump_turn_def Let_def)
    from adm preemption_mem [OF Some [unfolded y]] s' obtain e where e: "eligible s i"
      "map_of (entries s) i = Some e" "map_of (entries s') i = Some (admit_entry e)" by blast
    note choice = preemption_choice [OF inv Some [unfolded y]]
    have "priority_burst s' = sat_add64 (priority_burst s) 1" using s' by (simp add: account_turn_burst)
    moreover have "priority_burst s < max_priority_burst (settings s)" using choice(2) e by simp
    moreover have "at_least_as_urgent e d" if "eligible s j \<and> map_of (entries s) j = Some d" for j d
      using choice(1) [of e j d] e that by simp
    ultimately show ?thesis using e by blast
  qed
qed

theorem pump_turn_choice_witness:
  "\<exists>s. sched_inv s \<and> snd (pump_turn s) \<and> map_of (entries (fst (pump_turn s))) 2 = Some (tiny_entry 2 Active) \<and>
     (\<exists>i e. eligible s i \<and> map_of (entries s) i = Some e \<and>
        map_of (entries (fst (pump_turn s))) i = Some (admit_entry e))"
proof (rule exI [of _ "(tiny_run 0)\<lparr>settings := tiny_settings 1\<rparr>"], intro conjI)
  let ?s = "(tiny_run 0)\<lparr>settings := tiny_settings 1\<rparr>"
  show inv: "sched_inv ?s" by (rule sched_inv_cong [OF sched_inv_tiny_run [of 0]]) simp_all
  show turn: "snd (pump_turn ?s)" "map_of (entries (fst (pump_turn ?s))) 2 = Some (tiny_entry 2 Active)"
    by (simp_all add: sched_eval pump_eval tiny_entry_def less_work_priority_def)
  from turn have "pump_turn ?s = (fst (pump_turn ?s), True)" by (simp add: prod_eq_iff)
  from pump_turn_choice [OF inv this]
  show "\<exists>i e. eligible ?s i \<and> map_of (entries ?s) i = Some e \<and>
      map_of (entries (fst (pump_turn ?s))) i = Some (admit_entry e)" by blast
qed

end
