(* ===== verification/Scheduler_Ledger.thy ===== *)
theory Scheduler_Ledger
  imports Scheduler_Steps
begin

text \<open>
  The abstract contract of admission: a ledger of held permits, from which a permit may
  be returned at any time and to which one may be granted only below the three caps. The
  scheduler, with its queue, rotation, bursts, parking and cancellation, implements it:
  every operation is a sequence of ledger steps.
\<close>

type_synonym held_permit = "ticket_id \<times> project_key \<times> checkout_key"

fun counted :: "cap_key \<Rightarrow> held_permit \<Rightarrow> bool" where
  "counted EngineCap x \<longleftrightarrow> True"
| "counted (ProjectCap p) (i, q, r) \<longleftrightarrow> q = p"
| "counted (RootCap r) (i, q, t) \<longleftrightarrow> t = r"

definition ledger_use :: "held_permit set \<Rightarrow> cap_key \<Rightarrow> nat" where
  "ledger_use L k = card {x \<in> L. counted k x}"

inductive ledger_step :: "coordination_settings \<Rightarrow> held_permit set \<Rightarrow> held_permit set \<Rightarrow> bool" for cfg where
  grant: "i \<notin> fst ` L \<Longrightarrow> (\<And>k. counted k (i, p, r) \<Longrightarrow> ledger_use L k < cap_of cfg k) \<Longrightarrow>
    ledger_step cfg L (insert (i, p, r) L)"
| give_back: "x \<in> L \<Longrightarrow> ledger_step cfg L (L - {x})"

text \<open>The ledger keeps every count within its cap or below what it was.\<close>

lemma ledger_step_use:
  "ledger_step cfg L L' \<Longrightarrow> finite L \<Longrightarrow> finite L' \<and> ledger_use L' k \<le> max (ledger_use L k) (cap_of cfg k)"
proof (induction rule: ledger_step.induct)
  case (grant i L p r)
  have "{x \<in> insert (i, p, r) L. counted k x} =
      (if counted k (i, p, r) then insert (i, p, r) {x \<in> L. counted k x} else {x \<in> L. counted k x})"
    by auto
  moreover have "card (insert (i, p, r) {x \<in> L. counted k x}) \<le> Suc (card {x \<in> L. counted k x})"
    by (rule card_insert_le_m1) simp_all
  ultimately show ?case using grant.hyps(2) [of k] grant.prems by (auto simp: ledger_use_def)
next
  case (give_back x L)
  then have "card {y \<in> L - {x}. counted k y} \<le> card {y \<in> L. counted k y}" by (intro card_mono) auto
  with give_back show ?case by (simp add: ledger_use_def)
qed

lemma ledger_run_use:
  assumes "(ledger_step cfg)\<^sup>*\<^sup>* L L'" "finite L"
  shows "finite L' \<and> ledger_use L' k \<le> max (ledger_use L k) (cap_of cfg k)"
  using assms
proof (induction rule: rtranclp_induct)
  case (step y z)
  then show ?case using ledger_step_use [of cfg y z k] by auto
qed auto

lemma ledger_shrink:
  assumes "finite L" "L' \<subseteq> L" shows "(ledger_step cfg)\<^sup>*\<^sup>* L L'"
proof -
  have "(ledger_step cfg)\<^sup>*\<^sup>* L (L - D)" if "finite D" "D \<subseteq> L" for D
    using that
  proof (induction D rule: finite_induct)
    case (insert x D)
    then have "ledger_step cfg (L - D) (L - D - {x})" by (intro give_back) auto
    with insert show ?case by (simp add: Diff_insert [symmetric] rtranclp.rtrancl_into_rtrancl)
  qed simp
  from this [of "L - L'"] assms show ?thesis by (simp add: double_diff)
qed

section \<open>The scheduler's ledger\<close>

definition held :: "sched \<Rightarrow> held_permit set" where
  "held s = {(i, e_project e, e_root e) | i e. map_of (entries s) i = Some e \<and> e_state e = Active}"

lemma held_mem:
  "(i, p, r) \<in> held s \<longleftrightarrow>
     (\<exists>e. map_of (entries s) i = Some e \<and> e_state e = Active \<and> e_project e = p \<and> e_root e = r)"
  by (auto simp: held_def)

lemma counted_covers: "counted k (i, e_project e, e_root e) \<longleftrightarrow> covers k e"
  by (cases k) simp_all

lemma inj_on_held: "inj_on fst (held s)"
  by (auto simp: inj_on_def held_def)

lemma held_use:
  assumes inv: "sched_inv s" shows "ledger_use (held s) k = in_use s k"
proof -
  have "fst ` {x \<in> held s. counted k x} =
      {i. \<exists>e. map_of (entries s) i = Some e \<and> e_state e = Active \<and> covers k e}"
    by (force simp: held_def counted_covers image_iff)
  moreover have "card (fst ` {x \<in> held s. counted k x}) = card {x \<in> held s. counted k x}"
    by (rule card_image) (rule inj_on_subset [OF inj_on_held], auto)
  ultimately show ?thesis
    by (simp add: in_use_count [OF inv] amap_count_card [OF sched_inv_wf [OF inv]] ledger_use_def)
qed

lemma finite_held: "finite (held s)"
proof (rule finite_imageD [OF _ inj_on_held])
  have "fst ` held s \<subseteq> dom (map_of (entries s))" by (auto simp: held_def)
  then show "finite (fst ` held s)" by (rule finite_subset) (rule finite_dom_map_of)
qed

lemma held_moves: "moves s s1 \<Longrightarrow> held s1 \<subseteq> held s"
  by (auto simp: held_def elim!: moves_active)

lemma held_admit:
  assumes e: "map_of (entries s) (snd slot) = Some e"
  shows "held (admit_slot slot s) = insert (snd slot, e_project e, e_root e) (held s)"
  using e by (auto simp: held_def admit_slot_def charge_def alist_simps admit_entry_def split: if_splits)

lemma held_pump_turn:
  assumes inv: "sched_inv s" and turn: "pump_turn s = (s', b)"
  shows "(ledger_step (settings s))\<^sup>*\<^sup>* (held s) (held s')"
  using turn
proof (rule_tac pump_turn_cases [of s])
  fix rs credit slot r p f
  let ?s1 = "account_turn p f r (snd (slot :: nat \<times> nat)) (s\<lparr>roots := rs, root_credit := credit\<rparr>)"
  assume "pump_turn s = (s', b)" "pump_turn s = (admit_slot slot ?s1, True)" and lane: "in_lane s r slot"
  then have s': "s' = admit_slot slot ?s1" by simp
  from lane obtain e where e: "map_of (entries s) (snd slot) = Some e" "e_state e = Pending" "fits s e"
    by (auto simp: in_lane_def eligible_def split: option.splits)
  have "held ?s1 = held s" by (simp add: held_def)
  then have "held s' = insert (snd slot, e_project e, e_root e) (held s)"
    unfolding s' using held_admit [of ?s1 slot e] e by simp
  moreover have "ledger_step (settings s) (held s) (insert (snd slot, e_project e, e_root e) (held s))"
  proof (rule grant)
    show "snd slot \<notin> fst ` held s" using e by (auto simp: held_def)
    fix k
    assume "counted k (snd slot, e_project e, e_root e)"
    then show "ledger_use (held s) k < cap_of (settings s) k"
      using fits_in_use [OF e(3)] by (simp add: counted_covers held_use [OF inv])
  qed
  ultimately show ?thesis by simp
qed (auto simp: held_def)

lemma held_pump:
  assumes inv: "sched_inv s" shows "(ledger_step (settings s))\<^sup>*\<^sup>* (held s) (held (pump s))"
proof -
  let ?R = "\<lambda>s s'. settings s' = settings s \<and> (ledger_step (settings s))\<^sup>*\<^sup>* (held s) (held s')"
  have "?R s (pump s)"
  proof (rule pump_rel [of sched_inv])
    fix s s' b
    assume t: "sched_inv s" "pump_turn s = (s', b)"
    from t(2) have "settings s' = settings s" by (rule_tac pump_turn_cases [of s]) auto
    with held_pump_turn [OF t] show "?R s s'" by simp
  qed (use inv in \<open>auto intro: sched_inv_pump_turn\<close>)
  then show ?thesis by simp
qed

lemma held_step:
  assumes inv: "sched_inv s"
  shows "(ledger_step (settings (sched_step s op)))\<^sup>*\<^sup>* (held s) (held (sched_step s op))"
proof -
  obtain s1 where s1: "prepared op s s1" "sched_step s op = s1 \<or> sched_step s op = pump s1"
    by (rule sched_step_prepared [OF inv])
  then have inv1: "sched_inv s1" and sub: "held s1 \<subseteq> held s" by (simp_all add: prepared_def held_moves)
  have "(ledger_step cfg)\<^sup>*\<^sup>* (held s) (held s1)" for cfg by (rule ledger_shrink [OF finite_held sub])
  from this [of "settings s1"] s1(2) held_pump [OF inv1] show ?thesis by auto
qed

text \<open>
  C2: the scheduler implements the permit ledger. Whatever the operation, what it does to
  the set of held permits is a sequence of ledger steps under the settings in force
  after it: permits are given back, and granted only below the engine, project and root
  caps. (The caps the code enforces when it admits are therefore never overshot.)
\<close>

theorem scheduler_refines_ledger:
  "(ledger_step (settings (sched_step (reached cfg ops) op)))\<^sup>*\<^sup>*
     (held (reached cfg ops))
     (held (sched_step (reached cfg ops) op))"
  by (rule held_step [OF sched_inv_reached])

end
