(* ===== verification/Scheduler_Guarantees.thy ===== *)
theory Scheduler_Guarantees
  imports Scheduler_Fairness Scheduler_Ledger
begin

text \<open>
  The guarantees of the admission scheduler, for every state reached from a fresh
  scheduler by any sequence of its operations: consistent indexes, caps, work
  conservation, answered waiters, the tickets' life cycle, bounded urgency and parking,
  cancellation and release. The lemmas are those of \<open>Scheduler_Invariant\<close>,
  \<open>Scheduler_Properties\<close> and \<open>Scheduler_Steps\<close>.
\<close>

section \<open>Consistency, caps and work conservation\<close>

text \<open>
  The indexes of a reachable state agree with its tickets. The run index finds
  exactly the ticket of each run (so a run has at most one); the queue is ordered and
  holds exactly the waiting tickets under their sequence numbers; the engine, project
  and root counters count the active tickets.
\<close>

lemma scheduler_indexes_consistent:
  "let s = reached cfg ops in
    (map_of (by_run s) run = Some i \<longleftrightarrow> (\<exists>e. map_of (entries s) i = Some e \<and> e_run e = run)) \<and>
    sorted (queue s) \<and> distinct (queue s) \<and>
    ((sq, i) \<in> set (queue s) \<longleftrightarrow> (\<exists>e. map_of (entries s) i = Some e \<and> e_state e = Pending \<and> e_seq e = sq)) \<and>
    active_count s = length (filter (\<lambda>(_, e). e_state e = Active) (entries s)) \<and>
    get_or 0 (map_of (active_by_project s) p) =
      length (filter (\<lambda>(_, e). e_state e = Active \<and> e_project e = p) (entries s)) \<and>
    get_or 0 (map_of (active_by_root s) r) =
      length (filter (\<lambda>(_, e). e_state e = Active \<and> e_root e = r) (entries s))"
proof -
  define s where "s = reached cfg ops"
  have inv: "sched_inv s" by (simp add: s_def sched_inv_reached)
  have count: "amap_count P (entries s) = length (filter (\<lambda>(_, e). P e) (entries s))" for P
    by (simp add: amap_count_def amap_values_def filter_map comp_def split_def)
  from inv show ?thesis
    using in_use_count [OF inv, of EngineCap] in_use_count [OF inv, of "ProjectCap p"]
      in_use_count [OF inv, of "RootCap r"]
    by (simp add: s_def [symmetric] sched_inv_def run_index_ok_def queue_ok_def active_count_def count)
qed

lemma run_induct_fixed [consumes 1]:
  assumes "\<forall>op \<in> set ops. \<not> is_configure op"
    and "P (scheduler_new cfg)"
    and "\<And>s op. sched_inv s \<Longrightarrow> settings s = cfg \<Longrightarrow> settings (sched_step s op) = cfg \<Longrightarrow> P s \<Longrightarrow> P (sched_step s op)"
  shows "P (reached cfg ops) \<and> settings (reached cfg ops) = cfg"
  using assms(1)
proof (induction ops rule: rev_induct)
  case Nil
  with assms(2) show ?case by (simp add: sched_run_def scheduler_new_def)
next
  case (snoc op ops)
  let ?s = "reached cfg ops"
  have "sched_inv ?s" by (rule sched_inv_reached)
  with snoc assms(3) [of ?s op] settings_step [of ?s op] show ?case by (simp add: sched_run_def)
qed

text \<open>
  C22: while the settings are not replaced, no limit is exceeded: active runs stay within
  the engine, project and root caps, live tickets within \<open>max_outstanding\<close>, and
  consecutive urgent turns within \<open>max_priority_burst\<close>.
\<close>

theorem limits_respected:
  assumes "\<forall>op \<in> set ops. \<not> is_configure op"
  shows "active_count (reached cfg ops) \<le> max_active_engine cfg \<and>
    get_or 0 (map_of (active_by_project (reached cfg ops)) p) \<le> max_active_project cfg \<and>
    get_or 0 (map_of (active_by_root (reached cfg ops)) r) \<le> max_active_root cfg \<and>
    length (entries (reached cfg ops)) \<le> max_outstanding cfg \<and>
    priority_burst (reached cfg ops) \<le> max_priority_burst cfg"
proof -
  define P where "P = (\<lambda>s. (\<forall>k. in_use s k \<le> cap_of cfg k) \<and> length (entries s) \<le> max_outstanding cfg \<and>
    priority_burst s \<le> max_priority_burst cfg)"
  have "in_use (scheduler_new cfg) k = 0" for k by (cases k) (simp_all add: scheduler_new_def)
  then have "P (scheduler_new cfg)" by (simp add: P_def) (simp add: scheduler_new_def)
  moreover have "P (sched_step s op)"
    if "sched_inv s" "settings s = cfg" "settings (sched_step s op) = cfg" "P s" for s op
  proof -
    have "in_use (sched_step s op) k \<le> cap_of cfg k" for k
      using in_use_step [OF that(1), of op k] that(3,4) by (auto simp: P_def intro: order.trans)
    then show ?thesis
      using length_entries_step [OF that(1), of op] priority_burst_step [OF that(1), of op] that(3,4)
      by (auto simp: P_def)
  qed
  ultimately have P: "P (reached cfg ops)" using run_induct_fixed [OF assms, of P cfg] by blast
  then have "in_use (reached cfg ops) k \<le> cap_of cfg k" for k by (simp add: P_def)
  from this [of EngineCap] this [of "ProjectCap p"] this [of "RootCap r"] P
  show ?thesis by (simp add: P_def active_count_def)
qed

theorem limits_respected_witness:
  "active_count (tiny_run 1) = 1 \<and> active_count (tiny_run 1) \<le> max_active_engine (tiny_settings 1)"
  using limits_respected [of tiny_ops "tiny_settings 1"] tiny_run_busy(4)
  by (simp add: tiny_run_def tiny_ops_def is_configure_def active_count_def)

text \<open>
  C1: the scheduler conserves work. In a reachable state no waiting ticket could be
  admitted: for each of them the engine, its project or its root is at its cap. Nothing
  has to be woken up later for a free slot to be used.
\<close>

theorem no_admissible_waiter_left:
  "\<not> (\<exists>i e. map_of (entries (reached cfg ops)) i = Some e \<and> e_state e = Pending \<and>
        fits (reached cfg ops) e)"
  using settledD [OF settled_reached] by blast

lemma valid_settings_step:
  assumes "sched_inv s" "validate (settings s) = Inr ()"
  shows "validate (settings (sched_step s op)) = Inr ()"
proof (cases "is_configure op")
  case True
  then obtain new where "op = OpConfigure new" by (auto simp: is_configure_def split: sched_op.splits)
  with assms show ?thesis by (auto simp: configure_def Let_def split: sum.splits)
next
  case False
  with assms show ?thesis by (simp add: settings_step)
qed

lemma valid_settings_reached: "validate cfg = Inr () \<Longrightarrow> validate (settings (reached cfg ops)) = Inr ()"
proof (induction ops rule: rev_induct)
  case Nil
  then show ?case by (simp add: sched_run_def scheduler_new_def)
next
  case (snoc op ops)
  with valid_settings_step [OF sched_inv_reached [of cfg ops], of op] show ?case by (simp add: sched_run_def)
qed

text \<open>
  With settings that pass validation, a run that waits always has an active run to
  wait for: a scheduler with no active run has no waiting ticket, so admission cannot
  stall by itself.
\<close>

lemma waiting_needs_active:
  assumes "validate cfg = Inr ()" "map_of (entries (reached cfg ops)) i = Some e" "e_state e = Pending"
  shows "0 < active_count (reached cfg ops)"
proof (rule ccontr)
  let ?s = "reached cfg ops"
  assume "\<not> 0 < active_count ?s"
  then have zero: "in_use ?s EngineCap = 0" by (simp add: active_count_def)
  have "in_use ?s k \<le> in_use ?s EngineCap" for k
    unfolding in_use_count [OF sched_inv_reached] by (rule amap_count_mono) (auto simp: sched_inv_wf sched_inv_reached)
  then have none: "in_use ?s k = 0" for k using zero by (metis le_zero_eq)
  have "fits ?s e"
    using none [of EngineCap] none [of "ProjectCap (e_project e)"] none [of "RootCap (e_root e)"]
      validate_part1_caps [OF validate_Inr_parts(1) [OF valid_settings_reached [OF assms(1), of ops]]]
    by (simp add: fits_iff)
  with settledD [OF settled_reached assms(2,3)] show False by blast
qed

lemma waiting_needs_active_example:
  "e_state (tiny_entry 2 Pending) = Pending \<and> 0 < active_count (tiny_run 1)"
  using waiting_needs_active [OF validate_tiny_settings, of tiny_ops 2 "tiny_entry 2 Pending"] tiny_run_busy(1)
  by (simp add: tiny_run_def) (simp add: tiny_entry_def)

section \<open>Waiters\<close>

text \<open>
  C4: no waiter is forgotten and none is answered wrongly. A ticket that waits on a
  channel sees nothing on it; after one more operation it still waits so, or it is
  active and the channel carries the grant, or it is gone and the channel carries the
  cancellation or is closed (which \<open>acquire\<close> reports as cancelled too).
\<close>

theorem waiter_answered:
  assumes "map_of (entries (reached cfg ops)) i = Some e" "e_waiter e = Some c"
  shows "receive c (reached cfg ops) = Blocked \<and>
    (let s' = sched_step (reached cfg ops) op in
       map_of (entries s') i = Some e \<and> receive c s' = Blocked \<or>
       map_of (entries s') i = Some (admit_entry e) \<and> receive c s' = Message (Inr ()) \<or>
       map_of (entries s') i = None \<and> receive c s' \<in> {Closed, Message (Inl AdmissionCancelled)})"
  using receive_blocked [OF chan_ok_reached assms]
    waiter_step [OF sched_inv_reached chan_ok_reached assms refl, of op]
  by (simp add: Let_def)

theorem waiter_answered_witness:
  "receive 4 (tiny_run 1) = Blocked \<and>
   receive 4 (sched_step (tiny_run 1) (OpAbandon 1)) \<noteq> Message (Inl Gone)"
proof -
  have "e_waiter (tiny_entry 2 Pending) = Some 4" by (simp add: tiny_entry_def)
  with waiter_answered [of "tiny_settings 1" tiny_ops 2 "tiny_entry 2 Pending" 4 "OpAbandon 1"] tiny_run_busy(1)
  show ?thesis by (auto simp: tiny_run_def Let_def)
qed

text \<open>
  An answer is final: once a channel has carried a message, every later state delivers
  the same message on it.
\<close>

lemma answer_is_final:
  assumes "receive c (reached cfg ops) = Message m"
  shows "receive c (reached cfg (ops @ later)) = Message m"
proof -
  let ?s = "reached cfg ops"
  have run: "reached cfg (ops @ later) = sched_run ?s later" by (simp add: sched_run_def)
  obtain xs where "sent (sched_run ?s later) = sent ?s @ xs" using sent_run [OF sched_inv_reached] by blast
  with receive_sent [OF assms] have "(c, m) \<in> set (sent (reached cfg (ops @ later)))" by (simp add: run)
  then show ?thesis by (rule receive_message [OF chan_ok_reached])
qed

lemma answer_is_final_example: "receive 3 (reached (tiny_settings 1) (tiny_ops @ [OpAbandon 1])) = Message (Inr ())"
proof -
  have "receive 3 (reached (tiny_settings 1) tiny_ops) = Message (Inr ())"
    using tiny_run_busy(3) by (simp add: receive_def tiny_run_def)
  then show ?thesis by (rule answer_is_final)
qed

section \<open>Life cycle of a ticket\<close>

inductive ticket_move :: "ticket_state option \<Rightarrow> ticket_state option \<Rightarrow> bool" where
  reserve: "ticket_move None (Some Reserved)"
| first_wait: "ticket_move (Some Reserved) (Some Pending)"
| admit: "ticket_move (Some Pending) (Some Active)"
| park: "ticket_move (Some Active) (Some Parked)"
| evict: "ticket_move (Some Parked) (Some Evicted)"
| resume: "ticket_move (Some Parked) (Some Pending)"
| resume_evicted: "ticket_move (Some Evicted) (Some Pending)"
| leave: "ticket_move (Some st) None"

text \<open>What identifies a ticket for its whole life.\<close>

definition ticket_identity :: "entry \<Rightarrow> run_key \<times> work_scope \<times> nat \<times> nat \<times> work_priority" where
  "ticket_identity e = (e_run e, e_scope e, e_depth e, e_seq e, e_priority e)"

lemma entry_move_ticket:
  assumes "entry_move q x y"
  shows "ticket_move\<^sup>*\<^sup>* (map_option e_state x) (map_option e_state y)"
  using assms
proof cases
  case (waiting e)
  then show ?thesis by (cases "e_state e") (auto simp: entry_changes intro: ticket_move.intros)
next
  case (parked_out e)
  have "ticket_move\<^sup>*\<^sup>* (Some Active) (Some Evicted)"
    by (rule converse_rtranclp_into_rtranclp [OF ticket_move.park r_into_rtranclp [of ticket_move, OF ticket_move.evict]])
  with parked_out show ?thesis by (simp add: entry_changes)
qed (auto simp: entry_changes intro: ticket_move.intros)

lemma entry_move_identity: "entry_move q (Some e) (Some e') \<Longrightarrow> ticket_identity e' = ticket_identity e"
  by (cases rule: entry_move.cases) (auto simp: entry_changes ticket_identity_def)

lemma pump_ticket:
  assumes inv: "sched_inv s"
  shows "ticket_move\<^sup>*\<^sup>* (map_option e_state (map_of (entries s) i)) (map_option e_state (map_of (entries (pump s)) i))"
    "map_of (entries s) i = Some e \<Longrightarrow> \<exists>e'. map_of (entries (pump s)) i = Some e' \<and> ticket_identity e' = ticket_identity e"
proof -
  have adm: "ticket_identity (admit_entry e) = ticket_identity e" "e_state (admit_entry e) = Active" for e
    by (simp_all add: admit_entry_def ticket_identity_def)
  show "ticket_move\<^sup>*\<^sup>* (map_option e_state (map_of (entries s) i)) (map_option e_state (map_of (entries (pump s)) i))"
  proof (cases "map_of (entries s) i")
    case None
    then have "map_of (entries (pump s)) i = None" by simp
    then show ?thesis unfolding None by (simp only: option.map rtranclp.rtrancl_refl)
  next
    case (Some e)
    with pump_entry [OF inv Some] adm(2) ticket_move.admit show ?thesis by (elim disjE) (simp_all add: r_into_rtranclp)
  qed
  show "\<exists>e'. map_of (entries (pump s)) i = Some e' \<and> ticket_identity e' = ticket_identity e"
    if "map_of (entries s) i = Some e"
    using pump_entry [OF inv that] adm(1) by blast
qed

text \<open>
  Tickets follow their life cycle. Whatever the operation, the state of every ticket
  changes along the edges reserved, waiting, active, parked, evicted, waiting again (or
  leaves from any of them); a ticket keeps its run, scope, depth, age and priority; and
  the id of a ticket that has left is not used again.
\<close>

lemma ticket_lifecycle:
  "let s = reached cfg ops; s' = sched_step s op in
    ticket_move\<^sup>*\<^sup>* (map_option e_state (map_of (entries s) i)) (map_option e_state (map_of (entries s') i)) \<and>
    (case (map_of (entries s) i, map_of (entries s') i) of
       (Some e, Some e') \<Rightarrow> ticket_identity e' = ticket_identity e
     | (None, Some e') \<Rightarrow> next_id s \<le> i
     | _ \<Rightarrow> True)"
proof -
  define s where "s = reached cfg ops"
  define s' where "s' = sched_step s op"
  have inv: "sched_inv s" by (simp add: s_def sched_inv_reached)
  obtain s1 where s1: "prepared op s s1" "s' = s1 \<or> s' = pump s1"
    unfolding s'_def by (rule sched_step_prepared [OF inv])
  then have inv1: "sched_inv s1" and mv: "entry_move (next_seq s) (map_of (entries s) i) (map_of (entries s1) i)"
    and "i < next_id s \<Longrightarrow> map_of (entries s) i = None \<Longrightarrow> map_of (entries s1) i = None"
    by (simp_all add: prepared_def moves_def)
  then have new: "next_id s \<le> i" if "map_of (entries s) i = None" "map_of (entries s1) i = Some e'" for e'
    using that by (metis not_le option.distinct(1))
  note p = pump_ticket [OF inv1, of i]
  have life: "ticket_move\<^sup>*\<^sup>* (map_option e_state (map_of (entries s) i)) (map_option e_state (map_of (entries s') i))"
    using entry_move_ticket [OF mv] p(1) s1(2) by (auto intro: rtranclp_trans)
  have ident: "case (map_of (entries s) i, map_of (entries s1) i) of
       (Some e, Some e') \<Rightarrow> ticket_identity e' = ticket_identity e
     | (None, Some e') \<Rightarrow> next_id s \<le> i | _ \<Rightarrow> True"
    using mv new entry_move_identity by (auto split: option.split)
  have "case (map_of (entries s) i, map_of (entries s') i) of
       (Some e, Some e') \<Rightarrow> ticket_identity e' = ticket_identity e
     | (None, Some e') \<Rightarrow> next_id s \<le> i | _ \<Rightarrow> True"
  proof (cases "map_of (entries s1) i")
    case None
    then have "map_of (entries s') i = None" using s1(2) pump_entry_None by metis
    then show ?thesis by (cases "map_of (entries s) i") (simp_all only: option.case prod.case)
  next
    case (Some d)
    with p(2) [OF Some] s1(2) obtain e' where "map_of (entries s') i = Some e'" "ticket_identity e' = ticket_identity d"
      by auto
    with Some ident show ?thesis by (cases "map_of (entries s) i") simp_all
  qed
  with life show ?thesis
    unfolding Let_def s_def [symmetric] unfolding s'_def [symmetric] by (rule conjI)
qed

section \<open>Parking\<close>

text \<open>
  In every reachable state, also across reconfigurations, at most
  \<open>max_parked_residency\<close> tickets are parked.
\<close>

lemma parked_residency_bounded:
  "snap_parked (snapshot (reached cfg ops)) \<le> max_parked_residency (settings (reached cfg ops))"
  using bounded_parking.reachable_inv [of cfg ops]
  by (simp add: snapshot_def counts_def parked_bounded_def sched_run_def)

lemma sorted_take_le:
  "sorted xs \<Longrightarrow> x \<in> set (take n xs) \<Longrightarrow> y \<in> set xs \<Longrightarrow> y \<notin> set (take n xs) \<Longrightarrow> x \<le> y"
  by (metis append_take_drop_id sorted_append Un_iff set_append)

lemma evicted_slot_of:
  assumes "amap_wf (entries s)" "map_of (entries s) i = Some e" "e_state e = Parked"
  shows "i \<in> snd ` set (evicted_slots s) \<longleftrightarrow> (e_parked_seq e, i) \<in> set (evicted_slots s)"
proof
  assume "i \<in> snd ` set (evicted_slots s)"
  then obtain q where q: "(q, i) \<in> set (evicted_slots s)" by force
  with evicted_slots_parked [of s] have "(q, i) \<in> set (parked_slots s)" by blast
  with q assms show "(e_parked_seq e, i) \<in> set (evicted_slots s)" by (auto simp: parked_slots_mem)
qed force

lemma evicted_before:
  assumes wf: "amap_wf (entries s)"
    and i: "map_of (entries s) i = Some e" "e_state e = Parked" "i \<in> snd ` set (evicted_slots s)"
    and j: "map_of (entries s) j = Some d" "e_state d = Parked" "j \<notin> snd ` set (evicted_slots s)"
  shows "e_parked_seq e \<le> e_parked_seq d"
proof -
  have "(e_parked_seq e, i) \<le> (e_parked_seq d, j)"
    using i j evicted_slot_of [OF wf i(1,2)] evicted_slot_of [OF wf j(1,2)] parked_slots_mem [OF wf, of "e_parked_seq d" j]
    by (intro sorted_take_le [of "sort (parked_slots s)"]) (auto simp: evicted_slots_def)
  then show ?thesis by auto
qed

text \<open>
  Eviction loses nothing and takes the oldest. It keeps every ticket; it changes
  only parked ones, into evicted ones; it leaves exactly the residency limit (or all that
  were parked, if fewer); and an evicted ticket was parked no later than any that stays.
\<close>

lemma eviction_oldest_first:
  assumes inv: "sched_inv s"
  shows "let s' = evict_parked_over_residency s in
    amap_keys (entries s') = amap_keys (entries s) \<and>
    amap_count (in_state Parked) (entries s') =
      min (amap_count (in_state Parked) (entries s)) (max_parked_residency (settings s)) \<and>
    (\<forall>i e. map_of (entries s) i = Some e \<longrightarrow>
       map_of (entries s') i = Some e \<or>
       e_state e = Parked \<and> map_of (entries s') i = Some (evict_entry e) \<and>
       (\<forall>j d. map_of (entries s) j = Some d \<and> e_state d = Parked \<and> map_of (entries s') j = Some d \<longrightarrow>
          e_parked_seq e \<le> e_parked_seq d))"
proof -
  note wf = sched_inv_wf [OF inv]
  have stay: "j \<notin> snd ` set (evicted_slots s)"
    if "map_of (entries s) j = Some d" "e_state d = Parked"
      "map_of (entries (evict_parked_over_residency s)) j = Some d" for j d
    using that by (auto simp: map_of_evict [OF wf] evict_entry_def split: if_splits dest: arg_cong [of _ _ e_state])
  have "map_of (entries (evict_parked_over_residency s)) i = Some e \<or>
       e_state e = Parked \<and> map_of (entries (evict_parked_over_residency s)) i = Some (evict_entry e) \<and>
       (\<forall>j d. map_of (entries s) j = Some d \<and> e_state d = Parked \<and>
          map_of (entries (evict_parked_over_residency s)) j = Some d \<longrightarrow> e_parked_seq e \<le> e_parked_seq d)"
    if e: "map_of (entries s) i = Some e" for i e
  proof (cases "i \<in> snd ` set (evicted_slots s)")
    case True
    then have "e_state e = Parked" using e by (elim evicted_slots_mem [OF wf]) simp
    moreover have "e_parked_seq e \<le> e_parked_seq d" if "map_of (entries s) j = Some d \<and> e_state d = Parked \<and>
        map_of (entries (evict_parked_over_residency s)) j = Some d" for j d
      using that stay [of j d] by (intro evicted_before [OF wf e calculation True]) blast+
    moreover have "map_of (entries (evict_parked_over_residency s)) i = Some (evict_entry e)"
      using True e by (simp add: map_of_evict [OF wf])
    ultimately show ?thesis by blast
  qed (simp add: map_of_evict [OF wf] e)
  then show ?thesis by (simp add: Let_def evict_keys parked_count_evict [OF wf])
qed

lemma eviction_oldest_first_example:
  "let s = (reached (tiny_settings 2) (tiny_ops @ [OpPark 1]))\<lparr>settings := (tiny_settings 2)\<lparr>max_parked_residency := 0\<rparr>\<rparr> in
     amap_count (in_state Parked) (entries s) = 1 \<and>
     amap_count (in_state Parked) (entries (evict_parked_over_residency s)) = 0"
proof -
  let ?s = "(reached (tiny_settings 2) (tiny_ops @ [OpPark 1]))\<lparr>settings := (tiny_settings 2)\<lparr>max_parked_residency := 0\<rparr>\<rparr>"
  have "sched_inv ?s" by (rule sched_inv_cong [OF sched_inv_reached]) simp_all
  moreover have "amap_count (in_state Parked) (entries ?s) = 1"
    by (simp add: sched_eval pump_eval park_def discharge_def counter_dec_def park_entry_def
        evict_parked_over_residency_def parked_slots_def)
  ultimately show ?thesis using eviction_oldest_first [of ?s] by (simp add: Let_def)
qed

section \<open>Leaving and coming back\<close>

text \<open>
  A ticket that is reserved, parked or evicted can always resume: \<open>acquire\<close> registers
  a waiter and the ticket is then active with its grant on the channel, or waiting.
\<close>

lemma resume_always_registers:
  assumes "ticket_state_of t (reached cfg ops) \<in> {Some Reserved, Some Parked, Some Evicted}"
  shows "\<exists>c s'. acquire_begin t (reached cfg ops) = (s', Inr c) \<and>
    (ticket_state_of t s' = Some Pending \<and> receive c s' = Blocked \<or>
     ticket_state_of t s' = Some Active \<and> receive c s' = Message (Inr ()))"
proof -
  let ?s = "reached cfg ops" and ?i = "t_id t"
  obtain e where e: "map_of (entries ?s) ?i = Some e" "e_state e \<notin> {Active, Pending}"
    using assms by (auto simp: ticket_state_of_def)
  define n where "n = next_seq ?s"
  define w where "w = ?s\<lparr>next_seq := next_seq ?s + 1, entries := amap_modify ?i (wait_entry n n) (entries ?s),
    queue := bset_insert (e_seq e, ?i) (queue ?s)\<rparr>"
  have eq: "begin_wait ?i ?s = (pump w, Inr n)"
    using e by (cases "e_state e") (simp_all add: begin_wait_def Let_def w_def n_def)
  have ok: "chan_ok (pump w)" and inv: "sched_inv w"
    using chan_ok_begin_wait [OF sched_inv_reached [of cfg ops] chan_ok_reached, of ?i] eq
      sched_inv_start_wait [OF sched_inv_next_seq [OF sched_inv_reached [of cfg ops]], of ?i e] e
    by (simp_all add: w_def n_def)
  let ?e = "wait_entry n n e"
  have "map_of (entries w) ?i = Some ?e" using e by (simp add: w_def alist_simps)
  from pump_entry [OF inv this] have "map_of (entries (pump w)) ?i = Some ?e \<or>
      map_of (entries (pump w)) ?i = Some (admit_entry ?e) \<and> (n, Inr ()) \<in> set (sent (pump w))"
    by (auto simp: wait_entry_def)
  then show ?thesis
    using eq receive_blocked [OF ok] receive_message [OF ok]
    by (auto simp: acquire_begin_def ticket_state_of_def entry_changes)
qed

lemma resume_always_registers_example:
  "\<exists>c s'. acquire_begin \<lparr>t_id = 1, t_run = RunKey (WorkKey Trajectory ''a'') 1,
      t_scope = e_scope (tiny_entry 1 Reserved), t_seq = 1, t_armed = True\<rparr>
      (reached (tiny_settings 1) (take 2 tiny_ops)) = (s', Inr c)"
proof -
  have "map_option e_state (map_of (entries (reached (tiny_settings 1) (take 2 tiny_ops))) 1) = Some Reserved"
    by (simp add: sched_eval)
  with resume_always_registers [of "\<lparr>t_id = 1, t_run = RunKey (WorkKey Trajectory ''a'') 1,
      t_scope = e_scope (tiny_entry 1 Reserved), t_seq = 1, t_armed = True\<rparr>" "tiny_settings 1" "take 2 tiny_ops"]
  show ?thesis by (auto simp: ticket_state_of_def)
qed

text \<open>
  Cancelling a ticket. An unknown ticket is refused. An active one is only marked --
  it keeps its permit and its place in the counters until it releases -- and reports
  success once. Any other is removed at once, its run is no longer tracked, and a waiter
  it had gets the cancellation.
\<close>

lemma cancel_ticket_behaviour:
  "let s = reached cfg ops; s' = fst (cancel_ticket i s); ok = snd (cancel_ticket i s) in
    case map_of (entries s) i of
      None \<Rightarrow> s' = s \<and> \<not> ok
    | Some e \<Rightarrow>
        if e_state e = Active
        then (ok \<longleftrightarrow> \<not> e_cancel_requested e) \<and> active_count s' = active_count s \<and>
             map_of (entries s') i = Some (e\<lparr>e_cancel_requested := True\<rparr>)
        else ok \<and> map_of (entries s') i = None \<and> \<not> is_tracked (e_run e) s' \<and>
             (case e_waiter e of None \<Rightarrow> True | Some c \<Rightarrow> receive c s' = Message (Inl AdmissionCancelled))"
proof -
  define s where "s = reached cfg ops"
  have inv: "sched_inv s" and chan: "chan_ok s" by (simp_all add: s_def sched_inv_reached chan_ok_reached)
  show ?thesis
  proof (cases "map_of (entries s) i")
    case None
    then show ?thesis by (simp add: s_def [symmetric] cancel_ticket_def remove_entry_None)
  next
    case (Some e)
    show ?thesis
    proof (cases "e_state e = Active")
      case True
      with Some show ?thesis
        by (cases "e_cancel_requested e")
          (simp_all add: s_def [symmetric] cancel_ticket_def alist_simps active_count_def)
    next
      case False
      from inv Some obtain s1 where s1: "remove_entry i s = (s1, Some e)" "sched_inv s1"
        "entries s1 = AList.delete i (entries s)" "sent s1 = sent s" by (rule remove_entry_Some)
      define xs where "xs = (case e_waiter e of None \<Rightarrow> [] | Some c \<Rightarrow> [(c, Inl AdmissionCancelled :: admission_error + unit)])"
      define s' where "s' = pump (s1\<lparr>sent := sent s1 @ xs\<rparr>)"
      have eq: "cancel_ticket i s = (s', True)"
        using Some False s1(1) by (simp add: cancel_ticket_def s'_def xs_def)
      have inv': "sched_inv s'" using sched_inv_cancel_ticket [OF inv, of i] eq by simp
      have chan': "chan_ok s'" using chan_ok_cancel_ticket [OF inv chan, of i] eq by simp
      have none: "map_of (entries s') i = None" using s1(3) by (simp add: s'_def alist_simps)
      moreover have "\<not> is_tracked (e_run e) s'"
        using untracked_after_delete [OF inv s1(2) Some s1(3)] by (simp add: is_tracked_def s'_def)
      moreover have "receive c s' = Message (Inl AdmissionCancelled)" if "e_waiter e = Some c" for c
        using that pump_sent_mono [of "s1\<lparr>sent := sent s1 @ xs\<rparr>"]
        by (intro receive_message [OF chan']) (auto simp: s'_def xs_def)
      ultimately show ?thesis
        using Some False eq by (simp add: s_def [symmetric] split: option.split)
    qed
  qed
qed

text \<open>Pumping a state in which nobody can be admitted only turns the rotation.\<close>

lemma pump_settled:
  assumes "settled s" obtains rs credit where "pump s = s\<lparr>roots := rs, root_credit := credit\<rparr>"
proof (cases "active_total s < max_active_engine (settings s)")
  case False
  then have "pump s = s\<lparr>roots := roots s, root_credit := root_credit s\<rparr>" by (simp add: pump_unfold [of s])
  then show thesis by (rule that)
next
  case True
  show thesis
  proof (rule pump_turn_cases [of s])
    fix rs credit
    assume "pump_turn s = (s\<lparr>roots := rs, root_credit := credit\<rparr>, False)"
    with True show thesis by (intro that [of credit rs]) (simp add: pump_unfold [of s])
  next
    fix slot r
    assume "in_lane s r slot"
    with assms show thesis by (simp add: settled_def in_lane_def)
  qed
qed

lemma delete_update_new: "map_of m k = None \<Longrightarrow> AList.delete k (AList.update k v m) = m"
  by (simp add: map_of_None_keys update_new_append AList.delete_eq filter_id_conv) force

text \<open>
  Reserving and dropping the ticket again is undone completely: the tickets, the
  run index, the queue, the counters and the messages are what they were.
\<close>

lemma reserve_drop_roundtrip:
  assumes "reserve q (reached cfg ops) = (s1, Inr t)"
  shows "ticket_state_of t s1 = Some Reserved \<and> is_tracked (req_run q) s1 \<and>
    (let s = reached cfg ops; s2 = ticket_drop t s1 in
       entries s2 = entries s \<and> by_run s2 = by_run s \<and> queue s2 = queue s \<and>
       active_total s2 = active_total s \<and> active_by_project s2 = active_by_project s \<and>
       active_by_root s2 = active_by_root s \<and> sent s2 = sent s)"
proof -
  define s where "s = reached cfg ops"
  have inv: "sched_inv s" and st: "settled s" by (simp_all add: s_def sched_inv_reached settled_reached)
  from assms have s1: "s1 = insert_reservation q s" and t: "t_id t = next_id s" "t_armed t"
    and run: "map_of (by_run s) (req_run q) = None"
    by (auto simp: s_def [symmetric] reserve_def counts_def split: if_splits)
  let ?i = "next_id s" and ?e = "new_entry s q"
  have fresh: "map_of (entries s) ?i = None" using sched_inv_fresh [OF inv] by simp
  have e: "map_of (entries s1) ?i = Some ?e" by (simp add: s1 insert_reservation_def alist_simps)
  have run': "e_run ?e = req_run q" "e_state ?e = Reserved" by (simp_all add: new_entry_def)
  have notq: "(e_seq ?e, ?i) \<notin> set (queue s)" using fresh inv by (simp add: sched_inv_queue)
  obtain s2 where s2: "remove_entry ?i s1 = (s2, Some ?e)" "entries s2 = entries s" "by_run s2 = by_run s"
    "queue s2 = queue s" "active_total s2 = active_total s" "active_by_project s2 = active_by_project s"
    "active_by_root s2 = active_by_root s" "sent s2 = sent s" "settings s2 = settings s"
  proof -
    obtain s2 where r: "remove_entry ?i s1 = (s2, Some ?e)" using e by (auto simp: remove_entry_def Let_def)
    with e run' notq show thesis
      by (intro that [of s2])
        (auto simp: remove_entry_def Let_def s1 insert_reservation_def delete_update_new fresh run
          bset_remove_def filter_id_conv split: if_splits)
  qed
  have "settled s2" by (rule settled_cong [OF st]) (simp_all add: s2)
  then obtain rs c where "pump s2 = s2\<lparr>roots := rs, root_credit := c\<rparr>" by (rule pump_settled)
  moreover have "ticket_drop t s1 = pump s2" using t s2(1) by (simp add: ticket_drop_def abandon_def)
  moreover have "ticket_state_of t s1 = Some Reserved" using e t run' by (simp add: ticket_state_of_def)
  moreover have "is_tracked (req_run q) s1"
    by (simp add: is_tracked_def s1 insert_reservation_def alist_simps)
  ultimately show ?thesis using s2 by (simp add: s_def [symmetric])
qed

lemma reserve_drop_roundtrip_example:
  "\<exists>s1 t. reserve (tiny_request ''c'' Normal) (tiny_run 1) = (s1, Inr t) \<and>
     entries (ticket_drop t s1) = entries (tiny_run 1)"
proof -
  have "\<exists>s1 t. reserve (tiny_request ''c'' Normal) (tiny_run 1) = (s1, Inr t)"
    by (simp add: sched_eval pump_eval)
  then obtain s1 t where r: "reserve (tiny_request ''c'' Normal) (tiny_run 1) = (s1, Inr t)" by blast
  from reserve_drop_roundtrip [OF this [unfolded tiny_run_def]]
  have "entries (ticket_drop t s1) = entries (tiny_run 1)" by (simp add: Let_def tiny_run_def)
  with r show ?thesis by blast
qed

text \<open>
  A cancelled permit cannot be parked to escape: parking it fails with the
  cancellation and gives the permit back -- the ticket is gone, its run untracked and its
  share of the caps is free for the waiters.
\<close>

lemma park_cancelled_releases:
  assumes "p_armed p" "map_of (entries (reached cfg ops)) (p_id p) = Some e" "e_state e = Active"
    and "e_cancel_requested e"
  shows "snd (permit_park p (reached cfg ops)) = Inl AdmissionCancelled \<and>
    map_of (entries (fst (permit_park p (reached cfg ops)))) (p_id p) = None \<and>
    \<not> is_tracked (e_run e) (fst (permit_park p (reached cfg ops)))"
proof -
  let ?s = "reached cfg ops" and ?n = "(reached cfg ops)\<lparr>next_seq := next_seq (reached cfg ops) + 1\<rparr>"
  have inv: "sched_inv ?n" by (rule sched_inv_next_seq [OF sched_inv_reached])
  have i: "map_of (entries ?n) (p_id p) = Some e" using assms(2) by simp
  obtain s1 where s1: "remove_entry (p_id p) ?n = (s1, Some e)" "sched_inv s1"
    "entries s1 = AList.delete (p_id p) (entries ?n)" by (rule remove_entry_Some [OF inv i])
  have "permit_park p ?s = (pump s1, Inl AdmissionCancelled)"
    using assms s1(1) by (simp add: permit_park_def park_def permit_release_def release_def abandon_def)
  moreover have "\<not> is_tracked (e_run e) (pump s1)"
    using untracked_after_delete [OF inv s1(2) i s1(3)] by (simp add: is_tracked_def)
  ultimately show ?thesis using s1(3) by (simp add: alist_simps)
qed

lemma park_cancelled_releases_example:
  "snd (permit_park \<lparr>p_id = 1, p_run = e_run (tiny_entry 1 Active), p_scope = e_scope (tiny_entry 1 Active),
      p_seq = 1, p_armed = True\<rparr> (reached (tiny_settings 1) (tiny_ops @ [OpCancel 1]))) = Inl AdmissionCancelled"
proof -
  have "map_of (entries (reached (tiny_settings 1) (tiny_ops @ [OpCancel 1]))) 1 =
      Some ((tiny_entry 1 Active)\<lparr>e_cancel_requested := True\<rparr>)"
    using tiny_run_busy(1) by (simp add: sched_run_def tiny_run_def cancel_ticket_def alist_simps)
      (simp add: tiny_entry_def)
  with park_cancelled_releases [of "\<lparr>p_id = 1, p_run = e_run (tiny_entry 1 Active),
      p_scope = e_scope (tiny_entry 1 Active), p_seq = 1, p_armed = True\<rparr>" "tiny_settings 1" "tiny_ops @ [OpCancel 1]"]
  show ?thesis by (simp add: tiny_entry_def)
qed

end
