(* ===== verification/Waitgraph.thy ===== *)
theory Waitgraph
  imports Settings
begin

text \<open>
  The wait-for graph and its cycle detector (\<open>refact-work-core/src/waitgraph.rs\<close>): what
  a wait is, how a captured set of runs and waits becomes a graph (\<open>build\<close>), the
  iterative depth-first search (\<open>detect\<close>), detection confirmed by a second capture
  (\<open>detect_stable\<close>), and the registry of live waits.

  A \<open>BTreeMap\<close> is an association list read in key order; the \<open>HashMap\<close>s of the search
  are maps. The search's stack is a list with its top at the head, so the source's
  \<open>stack[position..]\<close> is a suffix of the reversed list. Versions and edge counts are
  counters drawn one per operation and are modelled by \<open>nat\<close>; the group counter wraps at
  64 bits as written.
\<close>

section \<open>Waits\<close>

definition deadlock_code :: string where
  "deadlock_code = ''deadlock_detected''"

datatype wait_kind = Child | AgentWait | Question | Approval | Capacity

primrec wait_kind_as_str :: "wait_kind \<Rightarrow> string" where
  "wait_kind_as_str Child = ''child''"
| "wait_kind_as_str AgentWait = ''agent_wait''"
| "wait_kind_as_str Question = ''question''"
| "wait_kind_as_str Approval = ''approval''"
| "wait_kind_as_str Capacity = ''capacity''"

definition is_advisory :: "wait_kind \<Rightarrow> bool" where
  "is_advisory k \<longleftrightarrow> k = Capacity"

datatype wait_target = Run run_key | User | Process string | Timer

primrec target_run :: "wait_target \<Rightarrow> run_key option" where
  "target_run (Run run) = Some run"
| "target_run User = None"
| "target_run (Process pid) = None"
| "target_run Timer = None"

definition is_external :: "wait_target \<Rightarrow> bool" where
  "is_external t = (case t of Run _ \<Rightarrow> False | _ \<Rightarrow> True)"

primrec wait_target_display :: "wait_target \<Rightarrow> string" where
  "wait_target_display (Run run) = run_key_display run"
| "wait_target_display User = ''user''"
| "wait_target_display (Process pid) = ''process:'' @ pid"
| "wait_target_display Timer = ''timer''"

record wait_edge =
  we_from :: run_key
  we_to :: wait_target
  we_kind :: wait_kind
  we_group :: "nat option"
  we_detail :: string

definition wait_edge_new :: "run_key \<Rightarrow> wait_target \<Rightarrow> wait_kind \<Rightarrow> string \<Rightarrow> wait_edge" where
  "wait_edge_new from to kind detail =
     \<lparr>we_from = from, we_to = to, we_kind = kind, we_group = None, we_detail = detail\<rparr>"

definition with_group :: "nat \<Rightarrow> wait_edge \<Rightarrow> wait_edge" where
  "with_group gid e = e\<lparr>we_group := Some gid\<rparr>"

definition describe :: "wait_edge \<Rightarrow> string" where
  "describe e =
     run_key_display (we_from e) @ '' -> '' @ wait_target_display (we_to e) @ '' ('' @
       wait_kind_as_str (we_kind e) @ '')''"

record wait_graph_bounds =
  max_nodes :: nat
  max_edges :: nat
  bound_attempts :: nat

definition default_bounds :: wait_graph_bounds where
  "default_bounds = \<lparr>max_nodes = 4096, max_edges = 16384, bound_attempts = 3\<rparr>"

text \<open>\<open>from_settings\<close> reads the process-wide slot, which is an argument here.\<close>

definition bounds_from_settings :: "coordination_settings \<Rightarrow> wait_graph_bounds" where
  "bounds_from_settings slot =
     \<lparr>max_nodes = deadlock_max_nodes slot, max_edges = deadlock_max_edges slot,
      bound_attempts = deadlock_detection_attempts slot\<rparr>"

section \<open>Building the graph\<close>

record run_facts =
  parked :: bool
  waiting_for_capacity :: bool
  facts_version :: nat

record wait_node =
  wn_run :: run_key
  wn_blocked :: bool
  wn_external :: bool
  wn_version :: nat

record wait_graph =
  wg_nodes :: "(run_key, wait_node) amap"
  wg_edges :: "wait_edge list"
  wg_raw_edges :: nat
  wg_incomplete :: "string option"

definition node_of :: "run_key \<Rightarrow> run_facts \<Rightarrow> wait_node" where
  "node_of run facts =
     \<lparr>wn_run = run, wn_blocked = parked facts \<or> waiting_for_capacity facts, wn_external = False,
      wn_version = facts_version facts\<rparr>"

definition collect_nodes :: "(run_key \<times> run_facts) list \<Rightarrow> (run_key, wait_node) amap" where
  "collect_nodes runs = foldl (\<lambda>m (run, facts). AList.update run (node_of run facts) m) [] runs"

definition size_check :: "(run_key, wait_node) amap \<Rightarrow> nat \<Rightarrow> wait_graph_bounds \<Rightarrow> string option" where
  "size_check ns raw_edges bounds =
     (if length ns > max_nodes bounds
      then Some (''graph too large: '' @ show_nat (length ns) @ '' runs exceed the configured bound of '' @
                 show_nat (max_nodes bounds) @ '', deadlock detection incomplete'')
      else if raw_edges > max_edges bounds
      then Some (''graph too large: '' @ show_nat raw_edges @ '' wait edges exceed the configured bound of '' @
                 show_nat (max_edges bounds) @ '', deadlock detection incomplete'')
      else None)"

definition mark_edge :: "(run_key, wait_node) amap \<Rightarrow> wait_edge \<Rightarrow> (run_key, wait_node) amap" where
  "mark_edge ns e =
     (case we_to e of
        Run target \<Rightarrow>
          if \<not> is_advisory (we_kind e) \<and> map_of ns target \<noteq> None
          then amap_modify (we_from e) (\<lambda>n. n\<lparr>wn_blocked := True\<rparr>) ns
          else ns
      | _ \<Rightarrow> amap_modify (we_from e) (\<lambda>n. n\<lparr>wn_external := True\<rparr>) ns)"

definition unblock_external :: "(run_key, wait_node) amap \<Rightarrow> (run_key, wait_node) amap" where
  "unblock_external ns = map (\<lambda>(k, n). (k, if wn_external n then n\<lparr>wn_blocked := False\<rparr> else n)) ns"

definition marked_nodes :: "(run_key \<times> run_facts) list \<Rightarrow> wait_edge list \<Rightarrow> (run_key, wait_node) amap" where
  "marked_nodes runs raw = unblock_external (foldl mark_edge (collect_nodes runs) raw)"

definition progressable :: "(run_key, wait_node) amap \<Rightarrow> wait_edge \<Rightarrow> bool" where
  "progressable ns e =
     (case Option.bind (target_run (we_to e)) (map_of ns) of None \<Rightarrow> False | Some t \<Rightarrow> wn_blocked t)"

definition viable_groups :: "(run_key, wait_node) amap \<Rightarrow> wait_edge list \<Rightarrow> (nat, bool) amap" where
  "viable_groups ns raw =
     foldl (\<lambda>m e. case we_group e of
                    None \<Rightarrow> m
                  | Some g \<Rightarrow> AList.update g (get_or True (map_of m g) \<and> progressable ns e) m) [] raw"

definition keep_edge :: "(run_key, wait_node) amap \<Rightarrow> (nat, bool) amap \<Rightarrow> wait_edge \<Rightarrow> bool" where
  "keep_edge ns viable e =
     (if (case map_of ns (we_from e) of None \<Rightarrow> True | Some from \<Rightarrow> wn_external from) then False
      else case Option.bind (target_run (we_to e)) (map_of ns) of
        None \<Rightarrow> False
      | Some target \<Rightarrow>
          if is_advisory (we_kind e) \<and> \<not> wn_blocked target then False
          else (case we_group e of None \<Rightarrow> True | Some g \<Rightarrow> get_or False (map_of viable g)))"

definition build ::
  "(run_key \<times> run_facts) list \<Rightarrow> wait_edge list \<Rightarrow> wait_graph_bounds \<Rightarrow> wait_graph" where
  "build runs raw bounds =
     (let ns = marked_nodes runs raw in
      \<lparr>wg_nodes = ns,
       wg_edges = filter (keep_edge ns (viable_groups ns raw)) raw,
       wg_raw_edges = length raw,
       wg_incomplete = size_check (collect_nodes runs) (length raw) bounds\<rparr>)"

definition adjacency :: "wait_graph \<Rightarrow> (run_key, nat list) amap" where
  "adjacency g =
     foldl (\<lambda>m (index, e). AList.update (we_from e) (get_or [] (map_of m (we_from e)) @ [index]) m) []
       (List.enumerate 0 (wg_edges g))"

section \<open>Detection\<close>

record deadlock_report =
  participants :: "run_key list"
  cycle :: "wait_edge list"
  closing_edge :: wait_edge
  report_attempts :: nat

definition report_code :: "deadlock_report \<Rightarrow> string" where
  "report_code r = deadlock_code"

definition involves :: "run_key \<Rightarrow> deadlock_report \<Rightarrow> bool" where
  "involves run r \<longleftrightarrow> run \<in> set (participants r)"

definition deadlock_report_display :: "deadlock_report \<Rightarrow> string" where
  "deadlock_report_display r =
     deadlock_code @ '': '' @ show_nat (length (participants r)) @ '' runs wait on each other: '' @
     join_strings '' -> '' (map run_key_display (participants r)) @ ''; the closing edge is '' @
     describe (closing_edge r)"

datatype detection =
    NoDeadlock
  | Deadlock deadlock_report
  | Incomplete string
  | Inconsistent nat

primrec detection_report :: "detection \<Rightarrow> deadlock_report option" where
  "detection_report NoDeadlock = None"
| "detection_report (Deadlock r) = Some r"
| "detection_report (Incomplete s) = None"
| "detection_report (Inconsistent n) = None"

datatype color = Gray | Black

record frame =
  fr_node :: run_key
  fr_next :: nat
  fr_incoming :: "nat option"

type_synonym colors = "run_key \<rightharpoonup> color"
type_synonym depths = "run_key \<rightharpoonup> nat"

definition outgoing :: "wait_graph \<Rightarrow> run_key \<Rightarrow> nat list" where
  "outgoing g n = get_or [] (map_of (adjacency g) n)"

definition cycle_report :: "wait_graph \<Rightarrow> nat \<Rightarrow> frame list \<Rightarrow> nat \<Rightarrow> deadlock_report" where
  "cycle_report g position stack edge_index =
     (let closing = wg_edges g ! edge_index;
          path = map (\<lambda>index. wg_edges g ! index) (List.map_filter fr_incoming (drop (position + 1) (rev stack)))
      in \<lparr>participants = map fr_node (drop position (rev stack)), cycle = path @ [closing],
          closing_edge = closing, report_attempts = 1\<rparr>)"

text \<open>
  The inner loop of \<open>detect\<close>, from one start node: a report, or the colours once the stack
  is empty. An edge that leads to a new node moves that node from the uncoloured targets
  to the stack; every other step moves the top frame forward or removes it.
\<close>

definition run_targets :: "wait_graph \<Rightarrow> run_key list" where
  "run_targets g = List.map_filter (\<lambda>e. target_run (we_to e)) (wg_edges g)"

definition uncolored :: "wait_graph \<Rightarrow> colors \<Rightarrow> nat" where
  "uncolored g color = card {t \<in> set (run_targets g). color t = None}"

definition stack_work :: "wait_graph \<Rightarrow> frame list \<Rightarrow> nat" where
  "stack_work g stack = sum_list (map (\<lambda>fr. Suc (length (outgoing g (fr_node fr)) - fr_next fr)) stack)"

lemma uncolored_mono: "(\<And>t. color t \<noteq> None \<Longrightarrow> color' t \<noteq> None) \<Longrightarrow> uncolored g color' \<le> uncolored g color"
  unfolding uncolored_def by (intro card_mono) (auto, metis not_Some_eq)

lemma uncolored_push:
  assumes "t \<in> set (run_targets g)" "color t = None"
  shows "uncolored g (color(t \<mapsto> c)) < uncolored g color"
  unfolding uncolored_def using assms by (intro psubset_card_mono) auto

text \<open>The adjacency lists hold exactly the indices of the edges that leave a node, in order.\<close>

lemma adjacency_fold:
  "get_or [] (map_of (foldl (\<lambda>m (index, e).
       AList.update (we_from e) (get_or [] (map_of m (we_from e)) @ [index]) m) m xs) n) =
   get_or [] (map_of m n) @ map fst (filter (\<lambda>(index, e). we_from e = n) xs)"
  by (induction xs arbitrary: m) (auto simp: alist_simps)

lemma outgoing_mem: "i \<in> set (outgoing g n) \<longleftrightarrow> i < length (wg_edges g) \<and> we_from (wg_edges g ! i) = n"
  by (auto simp: outgoing_def adjacency_def adjacency_fold in_set_enumerate_eq image_iff)

lemma outgoing_nth:
  assumes "j < length (outgoing g n)"
  shows "outgoing g n ! j < length (wg_edges g)" "we_from (wg_edges g ! (outgoing g n ! j)) = n"
  using nth_mem [OF assms] by (simp_all add: outgoing_mem)

lemma run_targets_nth:
  "i < length (wg_edges g) \<Longrightarrow> target_run (we_to (wg_edges g ! i)) = Some t \<Longrightarrow> t \<in> set (run_targets g)"
  by (force simp: run_targets_def map_filter_def in_set_conv_nth)

function detect_loop ::
  "wait_graph \<Rightarrow> colors \<Rightarrow> depths \<Rightarrow> frame list \<Rightarrow> deadlock_report + colors" where
  "detect_loop g color depth [] = Inr color"
| "detect_loop g color depth (fr # rest) =
     (let node = fr_node fr; out = outgoing g node in
      if fr_next fr \<ge> length out
      then detect_loop g (color(node \<mapsto> Black)) (depth(node := None)) rest
      else
        let edge_index = out ! fr_next fr;
            stack = fr\<lparr>fr_next := fr_next fr + 1\<rparr> # rest
        in case target_run (we_to (wg_edges g ! edge_index)) of
             None \<Rightarrow> detect_loop g color depth stack
           | Some target \<Rightarrow>
               (case color target of
                  Some Black \<Rightarrow> detect_loop g color depth stack
                | Some Gray \<Rightarrow> Inl (cycle_report g (get_or 0 (depth target)) stack edge_index)
                | None \<Rightarrow>
                    detect_loop g (color(target \<mapsto> Gray)) (depth(target \<mapsto> length stack))
                      (\<lparr>fr_node = target, fr_next = 0, fr_incoming = Some edge_index\<rparr> # stack)))"
  by pat_completeness auto
termination
proof (relation "measures [\<lambda>(g, color, depth, stack). uncolored g color, \<lambda>(g, color, depth, stack). stack_work g stack]",
    goal_cases)
  case (2 g color depth fr rest x xa)
  have "uncolored g (color(x \<mapsto> Black)) \<le> uncolored g color" by (rule uncolored_mono) simp
  then show ?case by (auto simp: stack_work_def)
next
  case (4 g color depth fr rest x xa xb xc x2)
  then have "x2 \<in> set (run_targets g)" using outgoing_nth by (intro run_targets_nth) auto
  with 4 show ?case by (auto simp: uncolored_push)
qed (auto simp: stack_work_def)

declare detect_loop.simps(2) [simp del]

fun detect_starts :: "wait_graph \<Rightarrow> colors \<Rightarrow> run_key list \<Rightarrow> detection" where
  "detect_starts g color [] = NoDeadlock"
| "detect_starts g color (start # rest) =
     (if color start \<noteq> None then detect_starts g color rest
      else case detect_loop g (color(start \<mapsto> Gray)) [start \<mapsto> 0]
                  [\<lparr>fr_node = start, fr_next = 0, fr_incoming = None\<rparr>] of
             Inl report \<Rightarrow> Deadlock report
           | Inr color' \<Rightarrow> detect_starts g color' rest)"

definition detect :: "wait_graph \<Rightarrow> detection" where
  "detect g =
     (case wg_incomplete g of
        Some reason \<Rightarrow> Incomplete reason
      | None \<Rightarrow> detect_starts g Map.empty (map fst (btree_iter (wg_nodes g))))"

text \<open>
  \<open>detect_stable\<close>: the \<open>FnMut\<close> capture is a function on its own state. The loop over
  \<open>1..=attempts\<close> recurses on the attempts that are left.
\<close>

definition stable :: "deadlock_report \<Rightarrow> wait_graph \<Rightarrow> wait_graph \<Rightarrow> bool" where
  "stable report g verify \<longleftrightarrow>
     (\<forall>run \<in> set (participants report).
        case (map_of (wg_nodes g) run, map_of (wg_nodes verify) run) of
          (Some before, Some after) \<Rightarrow>
            wn_version before = wn_version after \<and> wn_blocked before = wn_blocked after
        | _ \<Rightarrow> False)"

fun stable_attempts ::
  "('s \<Rightarrow> wait_graph \<times> 's) \<Rightarrow> nat \<Rightarrow> nat \<Rightarrow> detection \<Rightarrow> 's \<Rightarrow> detection \<times> 's" where
  "stable_attempts capture attempt 0 outcome s = (outcome, s)"
| "stable_attempts capture attempt (Suc left) outcome s =
     (let (g, s1) = capture s in
      case detect g of
        Deadlock report \<Rightarrow>
          (let (verify, s2) = capture s1 in
           if stable report g verify
           then (Deadlock (report\<lparr>report_attempts := attempt\<rparr>), s2)
           else stable_attempts capture (attempt + 1) left (Inconsistent attempt) s2)
      | other \<Rightarrow> (other, s1))"

definition detect_stable :: "('s \<Rightarrow> wait_graph \<times> 's) \<Rightarrow> nat \<Rightarrow> 's \<Rightarrow> detection \<times> 's" where
  "detect_stable capture attempts s = stable_attempts capture 1 (max attempts 1) (Inconsistent 0) s"

section \<open>The registry of live waits\<close>

record live_wait =
  lw_from :: run_key
  lw_targets :: "wait_target list"
  lw_kind :: wait_kind
  lw_detail :: string
  lw_refusal :: "deadlock_report option"

record registry =
  next_group :: nat
  waits :: "(nat, live_wait) amap"
  versions :: "(run_key, nat) amap"
  latest :: "deadlock_report option"

definition registry_empty :: registry where
  "registry_empty = \<lparr>next_group = 0, waits = [], versions = [], latest = None\<rparr>"

definition wait_runs :: "live_wait \<Rightarrow> run_key list" where
  "wait_runs w = lw_from w # List.map_filter target_run (lw_targets w)"

definition bump_run :: "(run_key, nat) amap \<Rightarrow> run_key \<Rightarrow> (run_key, nat) amap" where
  "bump_run m run = AList.update run (get_or 0 (map_of m run) + 1) m"

definition bump :: "live_wait \<Rightarrow> registry \<Rightarrow> registry" where
  "bump w reg = reg\<lparr>versions := foldl bump_run (versions reg) (wait_runs w)\<rparr>"

text \<open>
  A handle is its group, if the wait is tracked. The state lock makes \<open>declare\<close>, \<open>refuse\<close>
  and the handle's drop atomic; \<open>slot\<close> is the process-wide settings the bounds are read
  from. The notification they end with wakes pollers of \<open>refused\<close>, which re-read the state.
\<close>

type_synonym handle = "nat option"

definition live_edges :: "registry \<Rightarrow> nat" where
  "live_edges reg = sum_list (map (length \<circ> lw_targets) (amap_values (waits reg)))"

definition retain_live :: "registry \<Rightarrow> registry" where
  "retain_live reg =
     (let live = concat (map wait_runs (amap_values (waits reg)))
      in reg\<lparr>versions := filter (\<lambda>(run, _). run \<in> set live) (versions reg)\<rparr>)"

definition declare_wait ::
  "coordination_settings \<Rightarrow> run_key \<Rightarrow> wait_kind \<Rightarrow> wait_target list \<Rightarrow> string \<Rightarrow> registry
   \<Rightarrow> registry \<times> handle" where
  "declare_wait slot from kind targets detail reg =
     (let bounds = bounds_from_settings slot in
      if targets = [] \<or> sat_add64 (live_edges reg) (length targets) > max_edges bounds
      then (reg, None)
      else
        let gid = wrapping_add64 (next_group reg) 1;
            reg1 = reg\<lparr>next_group := gid\<rparr>;
            w = \<lparr>lw_from = from, lw_targets = targets, lw_kind = kind, lw_detail = detail,
                 lw_refusal = None\<rparr>;
            reg2 = bump w reg1;
            reg3 = (if length (versions reg2) > sat_mul64 (max_edges bounds) 4 then retain_live reg2 else reg2)
        in (reg3\<lparr>waits := AList.update gid w (waits reg3)\<rparr>, Some gid))"

definition registry_edges :: "registry \<Rightarrow> wait_edge list" where
  "registry_edges reg =
     concat (map (\<lambda>(gid, w). map (\<lambda>target.
         with_group gid (wait_edge_new (lw_from w) target (lw_kind w) (lw_detail w))) (lw_targets w))
       (btree_iter (waits reg)))"

definition version_of :: "run_key \<Rightarrow> registry \<Rightarrow> nat" where
  "version_of run reg = get_or 0 (map_of (versions reg) run)"

definition live_waits :: "registry \<Rightarrow> nat" where
  "live_waits reg = length (waits reg)"

definition matching_wait :: "registry \<Rightarrow> wait_edge \<Rightarrow> (nat \<times> run_key) option" where
  "matching_wait reg e =
     Option.bind (we_group e) (\<lambda>gid.
       case map_of (waits reg) gid of
         None \<Rightarrow> None
       | Some w \<Rightarrow> if lw_from w = we_from e then Some (gid, lw_from w) else None)"

definition refuse :: "deadlock_report \<Rightarrow> registry \<Rightarrow> registry \<times> run_key option" where
  "refuse report reg =
     (let reg1 = reg\<lparr>latest := Some report\<rparr>;
          selected = (case matching_wait reg1 (closing_edge report) of
                        Some x \<Rightarrow> Some x
                      | None \<Rightarrow> find_map (matching_wait reg1) (cycle report))
      in case selected of
           None \<Rightarrow> (reg1, None)
         | Some (gid, waiter) \<Rightarrow>
             (reg1\<lparr>waits := amap_modify gid (\<lambda>w. w\<lparr>lw_refusal := Some report\<rparr>) (waits reg1)\<rparr>, Some waiter))"

definition latest_report :: "registry \<Rightarrow> deadlock_report option" where
  "latest_report reg = latest reg"

definition handle_is_tracked :: "handle \<Rightarrow> bool" where
  "handle_is_tracked h \<longleftrightarrow> h \<noteq> None"

definition handle_refusal :: "handle \<Rightarrow> registry \<Rightarrow> deadlock_report option" where
  "handle_refusal h reg =
     Option.bind h (\<lambda>gid. Option.bind (map_of (waits reg) gid) lw_refusal)"

definition handle_drop :: "handle \<Rightarrow> registry \<Rightarrow> registry" where
  "handle_drop h reg =
     (case h of
        None \<Rightarrow> reg
      | Some gid \<Rightarrow>
          (case map_of (waits reg) gid of
             None \<Rightarrow> reg
           | Some w \<Rightarrow> bump w (reg\<lparr>waits := AList.delete gid (waits reg)\<rparr>)))"

end
