(* ===== verification/Waitgraph_Build.thy ===== *)
theory Waitgraph_Build
  imports Waitgraph
begin

text \<open>
  What \<open>WaitGraph::build\<close> computes with its passes over the raw waits, against a
  declarative reading: which runs count as blocked, and which waits become edges.
\<close>

section \<open>The declarative reading\<close>

definition facts_of :: "(run_key \<times> run_facts) list \<Rightarrow> run_key \<Rightarrow> run_facts option" where
  "facts_of runs r = map_of (rev runs) r"

definition known :: "(run_key \<times> run_facts) list \<Rightarrow> run_key \<Rightarrow> bool" where
  "known runs r \<longleftrightarrow> r \<in> fst ` set runs"

definition waits_outside :: "wait_edge list \<Rightarrow> run_key \<Rightarrow> bool" where
  "waits_outside raw r \<longleftrightarrow> (\<exists>e \<in> set raw. we_from e = r \<and> is_external (we_to e))"

definition waits_for_run :: "(run_key \<times> run_facts) list \<Rightarrow> wait_edge list \<Rightarrow> run_key \<Rightarrow> bool" where
  "waits_for_run runs raw r \<longleftrightarrow>
     (\<exists>e \<in> set raw. we_from e = r \<and> \<not> is_advisory (we_kind e) \<and> (\<exists>t. we_to e = Run t \<and> known runs t))"

text \<open>A run is blocked if the scheduler says so or it waits for a known run, unless something outside can wake it.\<close>

definition run_blocked :: "(run_key \<times> run_facts) list \<Rightarrow> wait_edge list \<Rightarrow> run_key \<Rightarrow> bool" where
  "run_blocked runs raw r \<longleftrightarrow>
     (\<exists>f. facts_of runs r = Some f \<and> (parked f \<or> waiting_for_capacity f \<or> waits_for_run runs raw r)) \<and>
     \<not> waits_outside raw r"

definition waits_on_blocked :: "(run_key \<times> run_facts) list \<Rightarrow> wait_edge list \<Rightarrow> wait_edge \<Rightarrow> bool" where
  "waits_on_blocked runs raw e \<longleftrightarrow> (\<exists>t. we_to e = Run t \<and> run_blocked runs raw t)"

definition is_wait_for :: "(run_key \<times> run_facts) list \<Rightarrow> wait_edge list \<Rightarrow> wait_edge \<Rightarrow> bool" where
  "is_wait_for runs raw e \<longleftrightarrow>
     known runs (we_from e) \<and> \<not> waits_outside raw (we_from e) \<and>
     (\<exists>t. we_to e = Run t \<and> known runs t) \<and>
     (is_advisory (we_kind e) \<longrightarrow> waits_on_blocked runs raw e) \<and>
     (\<forall>gid. we_group e = Some gid \<longrightarrow>
        (\<forall>e' \<in> set raw. we_group e' = Some gid \<longrightarrow> waits_on_blocked runs raw e'))"

section \<open>The passes\<close>

lemma collect_fold:
  "map_of (foldl (\<lambda>m (run, facts). AList.update run (node_of run facts) m) m runs) r =
     (case map_of (rev runs) r of None \<Rightarrow> map_of m r | Some f \<Rightarrow> Some (node_of r f))"
  by (induction runs arbitrary: m) (auto simp: alist_simps map_of_append split: option.splits)

lemma map_of_collect_nodes: "map_of (collect_nodes runs) r = map_option (node_of r) (facts_of runs r)"
  by (simp add: collect_nodes_def collect_fold facts_of_def split: option.split)

lemma amap_wf_collect: "amap_wf (collect_nodes runs)"
proof -
  have "amap_wf m \<Longrightarrow> amap_wf (foldl (\<lambda>m (run, facts). AList.update run (node_of run facts) m) m runs)" for m
    by (induction runs arbitrary: m) auto
  then show ?thesis by (simp add: collect_nodes_def)
qed

lemma known_facts: "known runs r \<longleftrightarrow> facts_of runs r \<noteq> None"
  by (simp add: known_def facts_of_def map_of_None_keys)

lemma mark_edge_keys [simp]: "map fst (mark_edge ns e) = map fst ns"
  by (simp add: mark_edge_def split: wait_target.split)

lemma mark_fold_keys [simp]: "map fst (foldl mark_edge ns raw) = map fst ns"
  by (induction raw arbitrary: ns) simp_all

definition mark_node :: "run_key set \<Rightarrow> wait_edge list \<Rightarrow> run_key \<Rightarrow> wait_node \<Rightarrow> wait_node" where
  "mark_node K raw r n =
     n\<lparr>wn_blocked := wn_blocked n \<or> (\<exists>e \<in> set raw. we_from e = r \<and> \<not> is_advisory (we_kind e) \<and>
           (\<exists>t. we_to e = Run t \<and> t \<in> K)),
       wn_external := wn_external n \<or> waits_outside raw r\<rparr>"

lemma mark_edge_node:
  "map_of (mark_edge ns e) r = map_option (mark_node (set (amap_keys ns)) [e] r) (map_of ns r)"
proof (cases "map_of ns r")
  case None
  then have "map_of (mark_edge ns e) r = None" by (metis mark_edge_keys map_of_None_keys)
  with None show ?thesis by simp
next
  case (Some n)
  have "map_of ns t \<noteq> None \<longleftrightarrow> t \<in> set (amap_keys ns)" for t by (simp add: map_of_None_keys)
  with Some show ?thesis
    by (cases "we_to e") (auto simp: mark_edge_def mark_node_def waits_outside_def is_external_def alist_simps)
qed

lemma mark_node_append: "mark_node K (xs @ ys) r n = mark_node K ys r (mark_node K xs r n)"
  by (simp add: mark_node_def waits_outside_def bex_Un disj_assoc)

lemma mark_fold_node:
  "map_of (foldl mark_edge ns raw) r = map_option (mark_node (set (amap_keys ns)) raw r) (map_of ns r)"
proof (induction raw arbitrary: ns)
  case Nil
  then show ?case by (simp add: mark_node_def waits_outside_def option.map_ident)
next
  case (Cons e raw)
  have "map_of (foldl mark_edge ns (e # raw)) r =
      map_option (mark_node (set (amap_keys ns)) raw r) (map_of (mark_edge ns e) r)"
    using Cons.IH [of "mark_edge ns e"] by simp
  then show ?case
    using mark_node_append [of _ "[e]" raw] by (simp add: mark_edge_node option.map_comp comp_def)
qed

lemma map_of_unblock:
  "map_of (unblock_external ns) r = map_option (\<lambda>n. if wn_external n then n\<lparr>wn_blocked := False\<rparr> else n) (map_of ns r)"
  by (induction ns) (auto simp: unblock_external_def)

lemma collect_keys: "r \<in> set (amap_keys (collect_nodes runs)) \<longleftrightarrow> known runs r"
  by (metis known_facts map_of_None_keys map_of_collect_nodes option.map_disc_iff)

lemma length_collect_nodes: "length (collect_nodes runs) = card (fst ` set runs)"
proof -
  have "fst ` set (collect_nodes runs) = {t. known runs t}" using collect_keys [of _ runs] by auto
  then have "fst ` set (collect_nodes runs) = fst ` set runs" by (simp add: known_def)
  then show ?thesis using distinct_card [of "map fst (collect_nodes runs)"] amap_wf_collect [of runs] by simp
qed

lemma marked_node_iff: "map_of (marked_nodes runs raw) r \<noteq> None \<longleftrightarrow> known runs r"
  by (simp add: marked_nodes_def map_of_unblock mark_fold_node map_of_collect_nodes known_facts)

lemma marked_node:
  assumes "map_of (marked_nodes runs raw) r = Some n"
  shows "wn_external n \<longleftrightarrow> waits_outside raw r" "wn_blocked n \<longleftrightarrow> run_blocked runs raw r"
    "wn_run n = r" "\<exists>f. facts_of runs r = Some f \<and> wn_version n = facts_version f"
proof -
  have K: "fst ` set (collect_nodes runs) = {t. known runs t}" using collect_keys [of _ runs] by auto
  obtain f where f: "facts_of runs r = Some f"
    "n = (let m = mark_node {t. known runs t} raw r (node_of r f)
          in if wn_external m then m\<lparr>wn_blocked := False\<rparr> else m)"
    using assms by (auto simp: marked_nodes_def map_of_unblock mark_fold_node map_of_collect_nodes Let_def K)
  then show "wn_external n \<longleftrightarrow> waits_outside raw r" "wn_blocked n \<longleftrightarrow> run_blocked runs raw r" "wn_run n = r"
    "\<exists>f. facts_of runs r = Some f \<and> wn_version n = facts_version f"
    by (auto simp: Let_def mark_node_def node_of_def run_blocked_def waits_for_run_def)
qed

lemma bind_node:
  "Option.bind (target_run (we_to e)) (map_of (marked_nodes runs raw)) = Some n \<Longrightarrow>
   \<exists>t. we_to e = Run t \<and> map_of (marked_nodes runs raw) t = Some n"
  by (cases "we_to e") auto

lemma progressable_iff: "progressable (marked_nodes runs raw) e \<longleftrightarrow> waits_on_blocked runs raw e"
proof -
  have "map_of (marked_nodes runs raw) t = None \<Longrightarrow> \<not> run_blocked runs raw t" for t
    using marked_node_iff [of runs raw t] by (auto simp: run_blocked_def known_facts)
  then show ?thesis
    by (cases "we_to e") (auto simp: progressable_def waits_on_blocked_def marked_node(2) split: option.splits)
qed

lemma viable_fold:
  "get_or True (map_of (foldl (\<lambda>m e. case we_group e of
                    None \<Rightarrow> m
                  | Some g \<Rightarrow> AList.update g (get_or True (map_of m g) \<and> progressable ns e) m) m raw) gid) \<longleftrightarrow>
   get_or True (map_of m gid) \<and> (\<forall>e \<in> set raw. we_group e = Some gid \<longrightarrow> progressable ns e)"
  by (induction raw arbitrary: m) (auto simp: alist_simps split: option.split)

lemma viable_dom:
  "map_of (foldl (\<lambda>m e. case we_group e of
                    None \<Rightarrow> m
                  | Some g \<Rightarrow> AList.update g (get_or True (map_of m g) \<and> progressable ns e) m) m raw) gid = None \<longleftrightarrow>
   map_of m gid = None \<and> (\<forall>e \<in> set raw. we_group e \<noteq> Some gid)"
  by (induction raw arbitrary: m) (auto simp: alist_simps split: option.split)

lemma viable_iff:
  assumes "e \<in> set raw" "we_group e = Some gid"
  shows "get_or False (map_of (viable_groups ns raw) gid) \<longleftrightarrow>
    (\<forall>e' \<in> set raw. we_group e' = Some gid \<longrightarrow> progressable ns e')"
proof -
  have "map_of (viable_groups ns raw) gid \<noteq> None"
    using assms by (auto simp: viable_groups_def viable_dom)
  then obtain b where "map_of (viable_groups ns raw) gid = Some b" by blast
  moreover have "get_or True (map_of (viable_groups ns raw) gid) \<longleftrightarrow>
      (\<forall>e' \<in> set raw. we_group e' = Some gid \<longrightarrow> progressable ns e')"
    by (simp add: viable_groups_def viable_fold)
  ultimately show ?thesis by simp
qed

lemma keep_edge_iff:
  assumes e: "e \<in> set raw"
  shows "keep_edge (marked_nodes runs raw) (viable_groups (marked_nodes runs raw) raw) e \<longleftrightarrow> is_wait_for runs raw e"
proof -
  let ?ns = "marked_nodes runs raw"
  have waiter: "(case map_of ?ns (we_from e) of None \<Rightarrow> True | Some from \<Rightarrow> wn_external from) \<longleftrightarrow>
      \<not> (known runs (we_from e) \<and> \<not> waits_outside raw (we_from e))"
    using marked_node_iff [of runs raw "we_from e"] marked_node(1) [of runs raw "we_from e"]
    by (auto split: option.split)
  have grp: "(case we_group e of None \<Rightarrow> True | Some g \<Rightarrow> get_or False (map_of (viable_groups ?ns raw) g)) \<longleftrightarrow>
      (\<forall>gid. we_group e = Some gid \<longrightarrow> (\<forall>e' \<in> set raw. we_group e' = Some gid \<longrightarrow> waits_on_blocked runs raw e'))"
    using viable_iff [OF e] by (simp add: progressable_iff split: option.split)
  show ?thesis
  proof (cases "Option.bind (target_run (we_to e)) (map_of ?ns)")
    case None
    then have "\<not> (\<exists>t. we_to e = Run t \<and> known runs t)" using marked_node_iff [of runs raw]
      by (metis Option.bind_lunit target_run.simps(1))
    with None show ?thesis by (simp add: keep_edge_def is_wait_for_def)
  next
    case (Some n)
    then obtain t where t: "we_to e = Run t" "map_of ?ns t = Some n" using bind_node by blast
    then have "wn_blocked n \<longleftrightarrow> waits_on_blocked runs raw e" "known runs t"
      using marked_node(2) [OF t(2)] marked_node_iff [of runs raw t] by (auto simp: waits_on_blocked_def)
    with Some t show ?thesis by (auto simp: keep_edge_def is_wait_for_def waiter grp)
  qed
qed

text \<open>
  C23: \<open>build\<close> captures exactly the waits that can keep a run blocked. The nodes are the
  given runs, with the version of the last facts given for each, and are marked blocked
  as the declarative reading says; and, in the order given, an edge is kept if and only
  if its waiter is a known run that nothing outside can wake, its target is a known run,
  a wait for capacity targets a blocked run, and every branch of its await-any group
  targets a blocked run.
\<close>

theorem build_spec:
  "wg_edges (build runs raw bounds) = filter (is_wait_for runs raw) raw \<and>
   (case map_of (wg_nodes (build runs raw bounds)) r of
      None \<Rightarrow> facts_of runs r = None
    | Some n \<Rightarrow> map_option facts_version (facts_of runs r) = Some (wn_version n) \<and>
        (wn_blocked n \<longleftrightarrow> run_blocked runs raw r) \<and> (wn_external n \<longleftrightarrow> waits_outside raw r))"
proof -
  have "wg_edges (build runs raw bounds) = filter (is_wait_for runs raw) raw"
    using keep_edge_iff by (auto simp: build_def Let_def intro: filter_cong)
  moreover have "wg_nodes (build runs raw bounds) = marked_nodes runs raw" by (simp add: build_def Let_def)
  moreover have "case map_of (marked_nodes runs raw) r of
      None \<Rightarrow> facts_of runs r = None
    | Some n \<Rightarrow> map_option facts_version (facts_of runs r) = Some (wn_version n) \<and>
        (wn_blocked n \<longleftrightarrow> run_blocked runs raw r) \<and> (wn_external n \<longleftrightarrow> waits_outside raw r)"
  proof (cases "map_of (marked_nodes runs raw) r")
    case None
    then show ?thesis using marked_node_iff [of runs raw r] by (simp add: known_facts)
  next
    case (Some n)
    from marked_node [OF this] show ?thesis unfolding Some by auto
  qed
  ultimately show ?thesis by simp
qed

end
