(* ===== verification/Waitgraph_Detection.thy ===== *)
theory Waitgraph_Detection
  imports Waitgraph_Build
begin

text \<open>
  The cycle detector is sound and complete: a report is a real cycle of waits, and when
  it finds none the graph has none. The invariant of the depth-first search: the gray
  nodes are those of the stack, which is a path of edges; every edge a frame has passed
  leads to a finished node or to the frame above; finished nodes lead only to finished
  nodes and lie on no cycle.
\<close>

section \<open>Cycles\<close>

definition wait_rel :: "wait_graph \<Rightarrow> (run_key \<times> run_key) set" where
  "wait_rel g = {(a, b). \<exists>e \<in> set (wg_edges g). we_from e = a \<and> we_to e = Run b}"

definition valid_cycle :: "wait_graph \<Rightarrow> deadlock_report \<Rightarrow> bool" where
  "valid_cycle g r \<longleftrightarrow>
     participants r \<noteq> [] \<and> distinct (participants r) \<and> length (cycle r) = length (participants r) \<and>
     set (cycle r) \<subseteq> set (wg_edges g) \<and> closing_edge r = last (cycle r) \<and>
     (\<forall>k < length (participants r).
        we_from (cycle r ! k) = participants r ! k \<and>
        we_to (cycle r ! k) = Run (participants r ! (Suc k mod length (participants r))))"

lemma target_run_Some [simp]: "target_run t = Some r \<longleftrightarrow> t = Run r"
  by (cases t) auto

text \<open>A valid report is a cycle of the relation, so the graph is not acyclic.\<close>

lemma valid_cycle_path:
  assumes v: "valid_cycle g r" and k: "k < length (participants r)"
  shows "(participants r ! k, participants r ! (Suc k mod length (participants r))) \<in> wait_rel g"
proof -
  have "cycle r ! k \<in> set (wg_edges g)" using v k by (auto simp: valid_cycle_def)
  with v k show ?thesis by (force simp: valid_cycle_def wait_rel_def)
qed

lemma valid_cycle_not_acyclic:
  assumes v: "valid_cycle g r" shows "\<not> acyclic (wait_rel g)"
proof
  let ?ps = "participants r"
  assume ac: "acyclic (wait_rel g)"
  have ne: "?ps \<noteq> []" using v by (simp add: valid_cycle_def)
  have "(?ps ! 0, ?ps ! k) \<in> (wait_rel g)\<^sup>*" if "k < length ?ps" for k
    using that
  proof (induction k)
    case (Suc k)
    then have "(?ps ! k, ?ps ! Suc k) \<in> wait_rel g" using valid_cycle_path [OF v, of k] by simp
    with Suc show ?case by (auto intro: rtrancl_into_rtrancl)
  qed simp
  then have "(?ps ! 0, ?ps ! (length ?ps - 1)) \<in> (wait_rel g)\<^sup>*" using ne by simp
  moreover have "(?ps ! (length ?ps - 1), ?ps ! 0) \<in> wait_rel g"
    using valid_cycle_path [OF v, of "length ?ps - 1"] ne by simp
  ultimately have "(?ps ! 0, ?ps ! 0) \<in> (wait_rel g)\<^sup>+" by (rule rtrancl_into_trancl1)
  with ac show False by (simp add: acyclic_def)
qed

section \<open>The invariant of the search\<close>

fun linked :: "wait_graph \<Rightarrow> frame list \<Rightarrow> bool" where
  "linked g [] \<longleftrightarrow> True"
| "linked g [fr] \<longleftrightarrow> True"
| "linked g (fr # below # rest) \<longleftrightarrow>
     (\<exists>i. fr_incoming fr = Some i \<and> i < length (wg_edges g) \<and> we_from (wg_edges g ! i) = fr_node below \<and>
        we_to (wg_edges g ! i) = Run (fr_node fr)) \<and> linked g (below # rest)"

fun passed :: "wait_graph \<Rightarrow> colors \<Rightarrow> run_key option \<Rightarrow> frame list \<Rightarrow> bool" where
  "passed g color up [] \<longleftrightarrow> True"
| "passed g color up (fr # rest) \<longleftrightarrow>
     (\<forall>j < fr_next fr. \<forall>t. j < length (outgoing g (fr_node fr)) \<longrightarrow>
        we_to (wg_edges g ! (outgoing g (fr_node fr) ! j)) = Run t \<longrightarrow> color t = Some Black \<or> up = Some t) \<and>
     passed g color (Some (fr_node fr)) rest"

definition finished_ok :: "wait_graph \<Rightarrow> colors \<Rightarrow> bool" where
  "finished_ok g color \<longleftrightarrow>
     (\<forall>n t. color n = Some Black \<longrightarrow> (n, t) \<in> wait_rel g \<longrightarrow> color t = Some Black) \<and>
     acyclic {(a, b) \<in> wait_rel g. color a = Some Black}"

fun depths_ok :: "depths \<Rightarrow> frame list \<Rightarrow> bool" where
  "depths_ok depth [] \<longleftrightarrow> True"
| "depths_ok depth (fr # rest) \<longleftrightarrow> depth (fr_node fr) = Some (length rest) \<and> depths_ok depth rest"

definition stack_ok :: "colors \<Rightarrow> depths \<Rightarrow> frame list \<Rightarrow> bool" where
  "stack_ok color depth stack \<longleftrightarrow>
     distinct (map fr_node stack) \<and> (\<forall>n. color n = Some Gray \<longleftrightarrow> n \<in> fr_node ` set stack) \<and>
     depths_ok depth stack"

definition search_inv :: "wait_graph \<Rightarrow> colors \<Rightarrow> depths \<Rightarrow> frame list \<Rightarrow> bool" where
  "search_inv g color depth stack \<longleftrightarrow>
     stack_ok color depth stack \<and> linked g stack \<and> passed g color None stack \<and> finished_ok g color"

lemma depths_ok_upd: "n \<notin> fr_node ` set stack \<Longrightarrow> depths_ok (depth(n := x)) stack = depths_ok depth stack"
  by (induction stack) auto

lemma depths_ok_position:
  "depths_ok depth stack \<Longrightarrow> n \<in> fr_node ` set stack \<Longrightarrow>
   \<exists>k < length stack. depth n = Some k \<and> fr_node (rev stack ! k) = n"
proof (induction stack)
  case (Cons fr rest)
  show ?case
  proof (cases "n = fr_node fr")
    case True
    with Cons.prems show ?thesis by (auto simp: nth_append)
  next
    case False
    with Cons obtain k where "k < length rest" "depth n = Some k" "fr_node (rev rest ! k) = n" by auto
    then show ?thesis by (auto simp: nth_append intro!: exI [of _ k])
  qed
qed simp

lemma linked_tl: "linked g (fr # rest) \<Longrightarrow> linked g rest"
  by (cases rest) auto

lemma linked_next: "linked g (fr # rest) \<Longrightarrow> linked g (fr\<lparr>fr_next := n\<rparr> # rest)"
  by (cases rest) auto

lemma linked_nth:
  "linked g stack \<Longrightarrow> Suc k < length stack \<Longrightarrow>
   \<exists>i. fr_incoming (rev stack ! Suc k) = Some i \<and> i < length (wg_edges g) \<and>
     we_from (wg_edges g ! i) = fr_node (rev stack ! k) \<and> we_to (wg_edges g ! i) = Run (fr_node (rev stack ! Suc k))"
proof (induction g stack rule: linked.induct)
  case (3 g fr below rest)
  show ?case
  proof (cases "Suc k < length (below # rest)")
    case True
    have "rev (fr # below # rest) ! m = rev (below # rest) ! m" if "m < length (below # rest)" for m
      using nth_append [of "rev (below # rest)" "[fr]" m] that by simp
    from this [of k] this [of "Suc k"] True 3 show ?thesis by (simp del: rev.simps)
  next
    case False
    with 3 have "Suc k = length (below # rest)" by simp
    with 3 show ?thesis by (simp add: nth_append)
  qed
qed simp_all

lemma passed_weaken:
  "passed g color up stack \<Longrightarrow> (\<And>t. color t = Some Black \<Longrightarrow> color' t = Some Black) \<Longrightarrow>
   (\<And>t. up = Some t \<Longrightarrow> color' t = Some Black \<or> up' = Some t) \<Longrightarrow> passed g color' up' stack"
proof (induction stack arbitrary: up up')
  case (Cons fr rest)
  have "passed g color' (Some (fr_node fr)) rest"
    by (rule Cons.IH [of "Some (fr_node fr)"]) (use Cons.prems in auto)
  moreover have "color' t = Some Black \<or> up' = Some t"
    if "j < fr_next fr" "j < length (outgoing g (fr_node fr))"
      "we_to (wg_edges g ! (outgoing g (fr_node fr) ! j)) = Run t" for j t
    using Cons.prems that by (meson passed.simps(2))
  ultimately show ?case by simp
qed simp

lemma successor_index:
  assumes "(n, t) \<in> wait_rel g"
  obtains j where "j < length (outgoing g n)" "we_to (wg_edges g ! (outgoing g n ! j)) = Run t"
proof -
  obtain i where "i < length (wg_edges g)" "we_from (wg_edges g ! i) = n" "we_to (wg_edges g ! i) = Run t"
    using assms by (auto simp: wait_rel_def in_set_conv_nth)
  then have "i \<in> set (outgoing g n)" "we_to (wg_edges g ! i) = Run t" by (simp_all add: outgoing_mem)
  then show thesis using that by (auto simp: in_set_conv_nth)
qed

text \<open>Finishing a node all of whose successors are finished keeps the finished part closed and acyclic.\<close>

lemma finished_ok_insert:
  assumes "finished_ok g color" "color n \<noteq> Some Black" "\<And>t. (n, t) \<in> wait_rel g \<Longrightarrow> color t = Some Black"
  shows "finished_ok g (color(n \<mapsto> Black))"
proof -
  have eq: "finished_ok g c \<longleftrightarrow> closed_acyclic (wait_rel g) {a. c a = Some Black}" for c
    by (auto simp: finished_ok_def closed_acyclic_def)
  have "{a. (color(n \<mapsto> Black)) a = Some Black} = insert n {a. color a = Some Black}" by auto
  with assms closed_acyclic_insert [of "wait_rel g" "{a. color a = Some Black}" n] show ?thesis by (simp add: eq)
qed

section \<open>The steps of the search\<close>

lemma inv_pop:
  assumes inv: "search_inv g color depth (fr # rest)" and all: "length (outgoing g (fr_node fr)) \<le> fr_next fr"
  shows "search_inv g (color(fr_node fr \<mapsto> Black)) (depth(fr_node fr := None)) rest"
proof -
  let ?n = "fr_node fr" and ?c = "color(fr_node fr \<mapsto> Black)"
  have st: "stack_ok color depth (fr # rest)" and fin: "finished_ok g color"
    and ps: "passed g color None (fr # rest)" and ln: "linked g (fr # rest)"
    using inv by (simp_all add: search_inv_def)
  have gray: "color ?n = Some Gray" using st by (simp add: stack_ok_def)
  have "color t = Some Black" if "(?n, t) \<in> wait_rel g" for t
  proof -
    obtain j where j: "j < length (outgoing g ?n)" "we_to (wg_edges g ! (outgoing g ?n ! j)) = Run t"
      by (rule successor_index [OF \<open>(?n, t) \<in> wait_rel g\<close>])
    then have "j < fr_next fr" using all by simp
    with ps j show ?thesis by auto
  qed
  then have "finished_ok g ?c" using fin gray by (intro finished_ok_insert) auto
  moreover have "passed g ?c None rest"
    by (rule passed_weaken [of g color "Some ?n"]) (use ps in auto)
  moreover have "stack_ok ?c (depth(?n := None)) rest"
    using st by (auto simp: stack_ok_def depths_ok_upd)
  ultimately show ?thesis using linked_tl [OF ln] by (simp add: search_inv_def)
qed

lemma stack_ok_advance:
  "stack_ok color depth (fr # rest) \<Longrightarrow> stack_ok color depth (fr\<lparr>fr_next := n\<rparr> # rest)"
  by (simp add: stack_ok_def)

text \<open>Passing an edge that leads outside the runs, or to a finished node.\<close>

lemma inv_advance:
  assumes inv: "search_inv g color depth (fr # rest)"
    and edge: "\<And>t. we_to (wg_edges g ! (outgoing g (fr_node fr) ! fr_next fr)) = Run t \<Longrightarrow> color t = Some Black"
  shows "search_inv g color depth (fr\<lparr>fr_next := fr_next fr + 1\<rparr> # rest)"
proof -
  have "passed g color None (fr\<lparr>fr_next := fr_next fr + 1\<rparr> # rest)"
    using inv edge by (auto simp: search_inv_def less_Suc_eq)
  then show ?thesis
    using inv stack_ok_advance linked_next unfolding search_inv_def by blast
qed

text \<open>Entering a new node along an edge.\<close>

lemma inv_push:
  assumes inv: "search_inv g color depth (fr # rest)" and nxt: "fr_next fr < length (outgoing g (fr_node fr))"
    and edge: "we_to (wg_edges g ! (outgoing g (fr_node fr) ! fr_next fr)) = Run t" and new: "color t = None"
  shows "search_inv g (color(t \<mapsto> Gray)) (depth(t \<mapsto> length (fr # rest)))
    (\<lparr>fr_node = t, fr_next = 0, fr_incoming = Some (outgoing g (fr_node fr) ! fr_next fr)\<rparr>
      # fr\<lparr>fr_next := fr_next fr + 1\<rparr> # rest)" (is "search_inv g ?c ?d (?top # ?stack)")
proof -
  have st: "stack_ok color depth ?stack" and fin: "finished_ok g color" and ln: "linked g ?stack"
    using inv by (simp_all add: search_inv_def stack_ok_advance linked_next)
  have "linked g (?top # ?stack)" using ln edge outgoing_nth [OF nxt] by simp
  moreover have "passed g ?c None (?top # ?stack)"
  proof -
    have "passed g color (Some t) ?stack" using inv edge by (auto simp: search_inv_def less_Suc_eq)
    then have "passed g ?c (Some t) ?stack" by (rule passed_weaken) (use new in auto)
    then show ?thesis by simp
  qed
  moreover have "finished_ok g ?c"
  proof -
    have same: "?c n = Some Black \<longleftrightarrow> color n = Some Black" for n using new by auto
    show ?thesis using fin unfolding finished_ok_def same .
  qed
  moreover have "stack_ok ?c ?d (?top # ?stack)"
  proof -
    have t: "t \<notin> fr_node ` set ?stack" using st new unfolding stack_ok_def by (metis option.distinct(1))
    with st show ?thesis by (auto simp: stack_ok_def depths_ok_upd)
  qed
  ultimately show ?thesis by (simp add: search_inv_def)
qed

text \<open>An edge back to a node on the stack closes a cycle, and the report describes it.\<close>

lemma map_filter_all:
  "(\<And>x. x \<in> set xs \<Longrightarrow> \<exists>y. f x = Some y) \<Longrightarrow> List.map_filter f xs = map (\<lambda>x. the (f x)) xs"
  by (induction xs) (force simp: map_filter_simps)+

lemma inv_report:
  assumes inv: "search_inv g color depth (fr # rest)" and nxt: "fr_next fr < length (outgoing g (fr_node fr))"
    and edge: "we_to (wg_edges g ! (outgoing g (fr_node fr) ! fr_next fr)) = Run t" and gray: "color t = Some Gray"
  shows "valid_cycle g (cycle_report g (get_or 0 (depth t)) (fr\<lparr>fr_next := fr_next fr + 1\<rparr> # rest)
    (outgoing g (fr_node fr) ! fr_next fr))" (is "valid_cycle g (cycle_report g _ ?stack ?edge)")
proof -
  let ?path = "rev ?stack" and ?E = "wg_edges g"
  have st: "stack_ok color depth ?stack" and ln: "linked g ?stack"
    using inv by (simp_all add: search_inv_def stack_ok_advance linked_next)
  from st gray have "t \<in> fr_node ` set ?stack" "depths_ok depth ?stack" unfolding stack_ok_def by blast+
  from depths_ok_position [OF this(2,1)] obtain p where
    p: "p < length ?path" "depth t = Some p" "fr_node (?path ! p) = t" by auto
  let ?in = "\<lambda>k. the (fr_incoming (?path ! k))"
  have into: "fr_incoming (?path ! Suc k) = Some (?in (Suc k)) \<and> ?in (Suc k) < length ?E \<and>
      we_from (?E ! ?in (Suc k)) = fr_node (?path ! k) \<and> we_to (?E ! ?in (Suc k)) = Run (fr_node (?path ! Suc k))"
    if "Suc k < length ?path" for k
    using linked_nth [OF ln] that by fastforce
  define ps where "ps = map fr_node (drop p ?path)"
  define cs where "cs = map (\<lambda>fr. ?E ! the (fr_incoming fr)) (drop (Suc p) ?path) @ [?E ! ?edge]"
  have "\<exists>i. fr_incoming x = Some i" if "x \<in> set (drop (Suc p) ?path)" for x
  proof -
    from that obtain k where "x = ?path ! (Suc (p + k))" "Suc (p + k) < length ?path"
      by (auto simp: in_set_conv_nth simp del: rev.simps)
    with into [of "p + k"] show ?thesis by (metis)
  qed
  then have rep: "cycle_report g (get_or 0 (depth t)) ?stack ?edge =
      \<lparr>participants = ps, cycle = cs, closing_edge = ?E ! ?edge, report_attempts = 1\<rparr>"
    by (simp add: cycle_report_def Let_def p(2) map_filter_all ps_def cs_def del: rev.simps)
  have len: "length cs = length ps" "length ps = length ?path - p" "ps \<noteq> []"
    using p(1) by (auto simp: ps_def cs_def simp del: rev.simps)
  have edges: "?edge < length ?E" "we_from (?E ! ?edge) = fr_node fr" using outgoing_nth [OF nxt] by simp_all
  have ps_nth: "ps ! k = fr_node (?path ! (p + k))" if "k < length ps" for k
    using that len by (simp add: ps_def del: rev.simps)
  have cs_nth: "cs ! k = ?E ! ?in (Suc (p + k))" if "Suc k < length ps" for k
    using that len(2) by (simp add: cs_def nth_append del: rev.simps)
  have last: "cs ! (length ps - 1) = ?E ! ?edge" "ps ! (length ps - 1) = fr_node fr" "ps ! 0 = t"
  proof -
    have snoc: "(xs @ [x]) ! (length (xs @ [x]) - 1) = x" for xs and x :: wait_edge by simp
    show "cs ! (length ps - 1) = ?E ! ?edge" unfolding len(1) [symmetric] unfolding cs_def by (rule snoc)
    have "p + (length ps - 1) = length rest" using len(2) p(1) by simp
    then show "ps ! (length ps - 1) = fr_node fr" using ps_nth [of "length ps - 1"] len(3) by (simp add: nth_append)
    show "ps ! 0 = t" using ps_nth [of 0] len(3) p(3) by (simp del: rev.simps)
  qed
  have step: "we_from (cs ! k) = ps ! k \<and> we_to (cs ! k) = Run (ps ! (Suc k mod length ps)) \<and> cs ! k \<in> set ?E"
    if "k < length ps" for k
  proof (cases "Suc k < length ps")
    case True
    then have "Suc (p + k) < length ?path" using len(2) by simp
    from into [OF this] show ?thesis
      using True ps_nth [of k] ps_nth [of "Suc k"] cs_nth [of k] by (simp del: rev.simps)
  next
    case False
    with that have "k = length ps - 1" "Suc k = length ps" by simp_all
    with last edges edge show ?thesis by simp
  qed
  have "distinct (map fr_node ?path)" using st by (simp add: stack_ok_def rev_map [symmetric])
  then have "distinct ps" by (simp add: ps_def drop_map [symmetric] del: rev.simps list.map)
  moreover have "set cs \<subseteq> set ?E" using step len(1) by (auto simp: in_set_conv_nth)
  moreover have "?E ! ?edge = List.last cs" by (simp add: cs_def)
  ultimately show ?thesis unfolding rep valid_cycle_def using len step by simp
qed

section \<open>Correctness of the search\<close>

definition loop_ok :: "wait_graph \<Rightarrow> colors \<Rightarrow> deadlock_report + colors \<Rightarrow> bool" where
  "loop_ok g color result =
     (case result of
        Inl report \<Rightarrow> valid_cycle g report
      | Inr color' \<Rightarrow> finished_ok g color' \<and> (\<forall>n. color' n \<noteq> Some Gray) \<and> (\<forall>n. color n \<noteq> None \<longrightarrow> color' n \<noteq> None))"

lemma loop_ok_upd: "loop_ok g (color(n \<mapsto> c)) result \<Longrightarrow> loop_ok g color result"
  by (cases result) (auto simp: loop_ok_def split: if_splits)

lemma detect_loop_correct: "search_inv g color depth stack \<Longrightarrow> loop_ok g color (detect_loop g color depth stack)"
proof (induction g color depth stack rule: detect_loop.induct)
  case (1 g color depth)
  then show ?case by (simp add: search_inv_def stack_ok_def loop_ok_def)
next
  case (2 g color depth fr rest)
  let ?n = "fr_node fr" and ?e = "outgoing g (fr_node fr) ! fr_next fr"
  note inv = "2.prems" and unfold = detect_loop.simps(2) [of g color depth fr rest]
  show ?case
  proof (cases "length (outgoing g ?n) \<le> fr_next fr")
    case True
    from loop_ok_upd [OF "2.IH"(1) [OF refl refl True inv_pop [OF inv True]]] True
    show ?thesis by (simp add: unfold Let_def fun_upd_def)
  next
    case False
    note nxt = False [unfolded not_le]
    show ?thesis
    proof (cases "target_run (we_to (wg_edges g ! ?e))")
      case None
      have "search_inv g color depth (fr\<lparr>fr_next := fr_next fr + 1\<rparr> # rest)"
        using None by (intro inv_advance [OF inv]) auto
      from "2.IH"(2) [OF refl refl False refl refl None this] False None show ?thesis
        by (simp add: unfold Let_def)
    next
      case (Some t)
      then have edge: "we_to (wg_edges g ! ?e) = Run t" by simp
      consider "color t = None" | "color t = Some Gray" | "color t = Some Black" by (metis color.exhaust not_Some_eq)
      then show ?thesis
      proof cases
        case 1
        have "search_inv g (color(t \<mapsto> Gray)) (depth(t \<mapsto> length (fr\<lparr>fr_next := fr_next fr + 1\<rparr> # rest)))
            (\<lparr>fr_node = t, fr_next = 0, fr_incoming = Some ?e\<rparr> # fr\<lparr>fr_next := fr_next fr + 1\<rparr> # rest)"
          using inv_push [OF inv nxt edge 1] by simp
        from loop_ok_upd [OF "2.IH"(3) [OF refl refl False refl refl Some 1 this]] False edge 1
        show ?thesis by (simp add: unfold Let_def fun_upd_def)
      next
        case 2
        with inv_report [OF inv nxt edge 2] False edge show ?thesis
          by (simp add: unfold Let_def loop_ok_def)
      next
        case 3
        have "search_inv g color depth (fr\<lparr>fr_next := fr_next fr + 1\<rparr> # rest)"
          using edge 3 by (intro inv_advance [OF inv]) auto
        from "2.IH"(4) [OF refl refl False refl refl Some 3 refl this] False edge 3 show ?thesis
          by (simp add: unfold Let_def)
      qed
    qed
  qed
qed

lemma detect_starts_correct:
  assumes "finished_ok g color" "\<forall>n. color n \<noteq> Some Gray"
    and "\<forall>e \<in> set (wg_edges g). we_from e \<in> set starts \<or> color (we_from e) \<noteq> None"
  shows "case detect_starts g color starts of
      NoDeadlock \<Rightarrow> acyclic (wait_rel g)
    | Deadlock report \<Rightarrow> valid_cycle g report
    | _ \<Rightarrow> False"
  using assms
proof (induction g color starts rule: detect_starts.induct)
  case (1 g color)
  then have "color a = Some Black" if "(a, b) \<in> wait_rel g" for a b
  proof -
    from that obtain e where "e \<in> set (wg_edges g)" "we_from e = a" by (auto simp: wait_rel_def)
    with 1 have "color a \<noteq> None" "color a \<noteq> Some Gray" by auto
    then show ?thesis by (metis color.exhaust not_Some_eq)
  qed
  then have "{(a, b) \<in> wait_rel g. color a = Some Black} = wait_rel g" by auto
  with 1 show ?case by (simp add: finished_ok_def)
next
  case (2 g color start rest)
  show ?case
  proof (cases "color start = None")
    case False
    then have "\<forall>e \<in> set (wg_edges g). we_from e \<in> set rest \<or> color (we_from e) \<noteq> None" using "2.prems"(3) by auto
    from "2.IH"(1) [OF False "2.prems"(1,2) this] False show ?thesis by simp
  next
    case True
    let ?c = "color(start \<mapsto> Gray)" and ?st = "[\<lparr>fr_node = start, fr_next = 0, fr_incoming = None\<rparr>]"
    have same: "?c n = Some Black \<longleftrightarrow> color n = Some Black" for n using True by auto
    have "finished_ok g ?c" using "2.prems"(1) unfolding finished_ok_def same .
    then have "search_inv g ?c [start \<mapsto> 0] ?st"
      using "2.prems"(2) by (auto simp: search_inv_def stack_ok_def)
    from detect_loop_correct [OF this] have ok: "loop_ok g ?c (detect_loop g ?c [start \<mapsto> 0] ?st)" .
    show ?thesis
    proof (cases "detect_loop g ?c [start \<mapsto> 0] ?st")
      case (Inl report)
      with ok True show ?thesis by (simp add: loop_ok_def)
    next
      case (Inr color')
      with ok have c': "finished_ok g color'" "\<forall>n. color' n \<noteq> Some Gray" "\<forall>n. ?c n \<noteq> None \<longrightarrow> color' n \<noteq> None"
        by (simp_all add: loop_ok_def)
      have "\<forall>e \<in> set (wg_edges g). we_from e \<in> set rest \<or> color' (we_from e) \<noteq> None"
        using "2.prems"(3) c'(3) by (metis fun_upd_apply option.distinct(1) set_ConsD)
      from "2.IH"(2) [OF _ Inr c'(1,2) this] True Inr show ?thesis by simp
    qed
  qed
qed

lemma build_edges_from:
  assumes "e \<in> set (wg_edges (build runs raw bounds))"
  shows "we_from e \<in> fst ` set (wg_nodes (build runs raw bounds))"
proof -
  have "keep_edge (marked_nodes runs raw) (viable_groups (marked_nodes runs raw) raw) e"
    using assms by (simp add: build_def Let_def)
  moreover have "e \<in> set raw" using assms by (simp add: build_def Let_def)
  ultimately have "map_of (marked_nodes runs raw) (we_from e) \<noteq> None"
    using keep_edge_iff marked_node_iff unfolding is_wait_for_def by blast
  then show ?thesis by (simp add: build_def Let_def map_of_None_keys)
qed

lemma detect_build_result:
  "case detect (build runs raw bounds) of
     NoDeadlock \<Rightarrow> acyclic (wait_rel (build runs raw bounds))
   | Deadlock report \<Rightarrow> valid_cycle (build runs raw bounds) report
   | Incomplete reason \<Rightarrow> size_check (collect_nodes runs) (length raw) bounds = Some reason
   | Inconsistent n \<Rightarrow> False"
proof -
  let ?g = "build runs raw bounds"
  have inc: "wg_incomplete ?g = size_check (collect_nodes runs) (length raw) bounds"
    by (simp add: build_def Let_def)
  have "case detect_starts ?g Map.empty (map fst (btree_iter (wg_nodes ?g))) of
      NoDeadlock \<Rightarrow> acyclic (wait_rel ?g) | Deadlock report \<Rightarrow> valid_cycle ?g report | _ \<Rightarrow> False"
    by (rule detect_starts_correct) (simp_all add: finished_ok_def build_edges_from acyclic_def)
  then show ?thesis
    by (auto simp: detect_def inc split: option.split detection.splits)
qed

text \<open>
  C3: the detector decides. On a captured graph that is within its bounds it returns
  either no deadlock, and then the waits form no cycle, or a report, and then they do and
  the report is one: its participants are distinct, each waits by the cycle's edge for
  the next, the last for the first, all edges are edges of the graph and the closing
  edge is the last. It answers incomplete exactly when there are more runs or more raw
  waits than the bounds allow, with the reason that the size check gives. (The search
  always ends: \<open>detect_loop\<close> is a total function.)
\<close>

theorem detect_correct:
  "if card (fst ` set runs) > max_nodes bounds \<or> length raw > max_edges bounds
   then \<exists>reason. size_check (collect_nodes runs) (length raw) bounds = Some reason \<and>
          detect (build runs raw bounds) = Incomplete reason
   else case detect (build runs raw bounds) of
          NoDeadlock \<Rightarrow> acyclic (wait_rel (build runs raw bounds))
        | Deadlock report \<Rightarrow> valid_cycle (build runs raw bounds) report \<and> \<not> acyclic (wait_rel (build runs raw bounds))
        | _ \<Rightarrow> False"
proof -
  have "size_check (collect_nodes runs) (length raw) bounds \<noteq> None \<longleftrightarrow>
      card (fst ` set runs) > max_nodes bounds \<or> length raw > max_edges bounds"
    by (simp add: size_check_def length_collect_nodes)
  moreover have "wg_incomplete (build runs raw bounds) = size_check (collect_nodes runs) (length raw) bounds"
    by (simp add: build_def Let_def)
  ultimately show ?thesis
    using detect_build_result [of runs raw bounds] valid_cycle_not_acyclic
    by (auto simp: detect_def split: detection.splits)
qed

section \<open>Confirmation by a second capture\<close>

lemma detect_loop_attempts: "detect_loop g color depth stack = Inl report \<Longrightarrow> report_attempts report = 1"
proof (induction g color depth stack rule: detect_loop.induct)
  case (2 g color depth fr rest)
  note unfold = detect_loop.simps(2) [of g color depth fr rest]
  let ?e = "outgoing g (fr_node fr) ! fr_next fr"
  show ?case
  proof (cases "length (outgoing g (fr_node fr)) \<le> fr_next fr")
    case True
    with "2.prems" have "detect_loop g (color(fr_node fr \<mapsto> Black)) (depth(fr_node fr := None)) rest = Inl report"
      by (simp add: unfold Let_def)
    then show ?thesis by (rule "2.IH"(1) [OF refl refl True])
  next
    case False
    show ?thesis
    proof (cases "target_run (we_to (wg_edges g ! ?e))")
      case None
      with "2.prems" False have "detect_loop g color depth (fr\<lparr>fr_next := fr_next fr + 1\<rparr> # rest) = Inl report"
        by (simp add: unfold Let_def)
      then show ?thesis by (rule "2.IH"(2) [OF refl refl False refl refl None])
    next
      case (Some t)
      show ?thesis
      proof (cases "color t")
        case None
        with "2.prems" False Some show ?thesis
          by (intro "2.IH"(3) [OF refl refl False refl refl Some None]) (simp add: unfold Let_def fun_upd_def)
      next
        case (Some x)
        with "2.prems" False \<open>target_run _ = Some t\<close> "2.IH"(4) [OF refl refl False refl refl \<open>target_run _ = Some t\<close> Some]
        show ?thesis by (cases x) (auto simp: unfold Let_def cycle_report_def)
      qed
    qed
  qed
qed simp

lemma detect_starts_result:
  "detect_starts g color starts = NoDeadlock \<or>
   (\<exists>report. detect_starts g color starts = Deadlock report \<and> report_attempts report = 1)"
  by (induction g color starts rule: detect_starts.induct)
    (auto split: sum.split dest: detect_loop_attempts)

lemma detect_result:
  "detect g \<noteq> Inconsistent n" "detect g = Deadlock report \<Longrightarrow> report\<lparr>report_attempts := 1\<rparr> = report"
  using detect_starts_result [of g Map.empty "map fst (btree_iter (wg_nodes g))"]
  by (auto simp: detect_def split: option.splits)

text \<open>The outcome of the attempts that are left, when capture number \<open>2 * k\<close> is the next.\<close>

definition stable_outcome :: "(nat \<Rightarrow> wait_graph) \<Rightarrow> nat \<Rightarrow> nat \<Rightarrow> detection \<Rightarrow> bool" where
  "stable_outcome c k n outcome =
     (case outcome of
        Deadlock report \<Rightarrow>
          (\<exists>j. k \<le> j \<and> j < n \<and> report_attempts report = Suc j \<and>
             detect (c (2 * j)) = Deadlock (report\<lparr>report_attempts := 1\<rparr>) \<and> stable report (c (2 * j)) (c (2 * j + 1)))
      | Inconsistent a \<Rightarrow>
          a = n \<and> (\<forall>j. k \<le> j \<and> j < n \<longrightarrow>
             (\<exists>report. detect (c (2 * j)) = Deadlock report \<and> \<not> stable report (c (2 * j)) (c (2 * j + 1))))
      | other \<Rightarrow> (\<exists>j. k \<le> j \<and> j < n \<and> detect (c (2 * j)) = other))"

lemma stable_outcome_Suc:
  assumes "stable_outcome c (Suc k) n outcome" "detect (c (2 * k)) = Deadlock report"
    "\<not> stable report (c (2 * k)) (c (2 * k + 1))"
  shows "stable_outcome c k n outcome"
proof (cases outcome)
  case (Inconsistent a)
  have "\<exists>report. detect (c (2 * j)) = Deadlock report \<and> \<not> stable report (c (2 * j)) (c (2 * j + 1))"
    if "k \<le> j" "j < n" for j
    using assms that Inconsistent by (cases "j = k") (auto simp: stable_outcome_def)
  with assms(1) Inconsistent show ?thesis by (simp add: stable_outcome_def)
qed (use assms(1) in \<open>auto simp: stable_outcome_def dest: Suc_leD\<close>)

lemma stable_attempts_outcome:
  "stable_outcome c k (k + left) (fst (stable_attempts (\<lambda>n. (c n, Suc n)) (Suc k) left (Inconsistent k) (2 * k)))"
proof (induction left arbitrary: k)
  case 0
  then show ?case by (auto simp: stable_outcome_def)
next
  case (Suc left)
  show ?case
  proof (cases "detect (c (2 * k))")
    case (Deadlock report)
    have attempts: "report\<lparr>report_attempts := Suc 0\<rparr> = report" using detect_result(2) [OF Deadlock] by simp
    show ?thesis
    proof (cases "stable report (c (2 * k)) (c (2 * k + 1))")
      case True
      then have "stable (report\<lparr>report_attempts := m\<rparr>) (c (2 * k)) (c (2 * k + 1))" for m by (simp add: stable_def)
      with True Deadlock attempts show ?thesis
        by (auto simp: stable_outcome_def intro!: exI [of _ k])
    next
      case False
      have "stable_outcome c (Suc k) (Suc k + left)
          (fst (stable_attempts (\<lambda>n. (c n, Suc n)) (Suc (Suc k)) left (Inconsistent (Suc k)) (2 * Suc k)))"
        by (rule Suc.IH)
      from stable_outcome_Suc [OF this Deadlock False] Deadlock False show ?thesis by simp
    qed
  qed (use detect_result(1) in \<open>auto simp: stable_outcome_def\<close>)
qed

text \<open>
  A deadlock is reported only if a second capture confirms it. Number the captures of
  a call from 0: attempt \<open>j + 1\<close> uses captures \<open>2 * j\<close> and \<open>2 * j + 1\<close>. A reported
  deadlock was found in the first of the two captures of the attempt it names, and every
  participant has the same version and is as blocked in the second; an inconsistent
  outcome means that every allowed attempt found a deadlock that its second capture did
  not confirm; any other answer is that of a capture.
\<close>

lemma detect_stable_confirmed:
  "case fst (detect_stable (\<lambda>n. (c n, Suc n)) attempts 0) of
     Deadlock report \<Rightarrow>
       (\<exists>j < max attempts 1. report_attempts report = Suc j \<and>
          detect (c (2 * j)) = Deadlock (report\<lparr>report_attempts := 1\<rparr>) \<and> stable report (c (2 * j)) (c (2 * j + 1)))
   | Inconsistent a \<Rightarrow>
       a = max attempts 1 \<and>
       (\<forall>j < a. \<exists>report. detect (c (2 * j)) = Deadlock report \<and> \<not> stable report (c (2 * j)) (c (2 * j + 1)))
   | NoDeadlock \<Rightarrow> (\<exists>j < max attempts 1. detect (c (2 * j)) = NoDeadlock)
   | Incomplete reason \<Rightarrow> (\<exists>j < max attempts 1. detect (c (2 * j)) = Incomplete reason)"
  using stable_attempts_outcome [of c 0 "max attempts 1"]
  by (auto simp: detect_stable_def stable_outcome_def split: detection.splits)

text \<open>Two runs that wait for each other.\<close>

definition knot_run :: "string \<Rightarrow> run_key" where
  "knot_run name = RunKey (WorkKey Trajectory name) 1"

definition knot :: wait_graph where
  "knot = build [(knot_run ''a'', \<lparr>parked = False, waiting_for_capacity = False, facts_version = 0\<rparr>),
      (knot_run ''b'', \<lparr>parked = False, waiting_for_capacity = False, facts_version = 0\<rparr>)]
     [wait_edge_new (knot_run ''a'') (Run (knot_run ''b'')) Child ''a'',
      wait_edge_new (knot_run ''b'') (Run (knot_run ''a'')) Child ''b''] default_bounds"

lemmas knot_eval = knot_def knot_run_def build_def collect_nodes_def node_of_def marked_nodes_def mark_edge_def
  wait_edge_new_def is_advisory_def amap_modify_def unblock_external_def viable_groups_def keep_edge_def size_check_def
  default_bounds_def detect_def detect_loop.simps outgoing_def adjacency_def cycle_report_def map_filter_simps
  btree_iter_def less_eq_run_key_def

definition knot_report :: deadlock_report where
  "knot_report =
     \<lparr>participants = [knot_run ''a'', knot_run ''b''],
      cycle = [wait_edge_new (knot_run ''a'') (Run (knot_run ''b'')) Child ''a'',
        wait_edge_new (knot_run ''b'') (Run (knot_run ''a'')) Child ''b''],
      closing_edge = wait_edge_new (knot_run ''b'') (Run (knot_run ''a'')) Child ''b'', report_attempts = 1\<rparr>"

lemma knot_detected: "detect knot = Deadlock knot_report"
  by (simp add: knot_eval knot_report_def key_order_defs Let_def)

lemma detect_stable_confirmed_example:
  "fst (detect_stable (\<lambda>n. (knot, Suc n)) 3 0) = Deadlock knot_report \<and>
   (\<exists>j < 3. report_attempts knot_report = Suc j \<and> stable knot_report knot knot)"
proof -
  have "stable knot_report knot knot"
    by (simp add: stable_def knot_report_def knot_eval)
  then have *: "fst (detect_stable (\<lambda>n. (knot, Suc n)) 3 0) = Deadlock knot_report"
    by (simp add: detect_stable_def eval_nat_numeral knot_detected) (simp add: knot_report_def)
  then show ?thesis using detect_stable_confirmed [of 3 "\<lambda>_. knot"] by auto
qed

end
