(* ===== verification/Waitgraph_Registry.thy ===== *)
theory Waitgraph_Registry
  imports Waitgraph_Detection
begin

text \<open>
  The registry of live waits: its size stays within the configured number of edges, a
  declaration lives exactly as long as its handle, versions record every declaration and
  drop (except when a collection of old versions intervenes), and a detected cycle is
  broken by refusing one of its registered waits.
\<close>

section \<open>Operations and invariant\<close>

datatype registry_op =
    OpDeclare run_key wait_kind "wait_target list" string
  | OpDrop handle
  | OpRefuse deadlock_report

primrec registry_step :: "coordination_settings \<Rightarrow> registry \<Rightarrow> registry_op \<Rightarrow> registry" where
  "registry_step slot reg (OpDeclare from kind targets detail) = fst (declare_wait slot from kind targets detail reg)"
| "registry_step slot reg (OpDrop h) = handle_drop h reg"
| "registry_step slot reg (OpRefuse report) = fst (refuse report reg)"

definition registry_inv :: "coordination_settings \<Rightarrow> registry \<Rightarrow> bool" where
  "registry_inv slot reg \<longleftrightarrow> amap_wf (waits reg) \<and> live_edges reg \<le> deadlock_max_edges slot"

definition edge_total :: "(nat, live_wait) amap \<Rightarrow> nat" where
  "edge_total m = sum_list (map (length \<circ> lw_targets) (amap_values m))"

lemma live_edges_total: "live_edges reg = edge_total (waits reg)"
  by (simp add: live_edges_def edge_total_def)

lemma edge_total_simps [simp]:
  "edge_total [] = 0" "edge_total ((k, w) # m) = length (lw_targets w) + edge_total m"
  by (simp_all add: edge_total_def amap_values_def)

lemma edge_total_update: "edge_total (AList.update k w m) \<le> edge_total m + length (lw_targets w)"
  by (induction m) auto

lemma edge_total_delete: "edge_total (AList.delete k m) \<le> edge_total m"
  by (induction m) auto

lemma edge_total_modify:
  "(\<And>w. lw_targets (f w) = lw_targets w) \<Longrightarrow> edge_total (amap_modify k f m) = edge_total m"
  by (induction m) (auto simp: amap_modify_def)

lemma bump_frame [simp]: "waits (bump w reg) = waits reg" "next_group (bump w reg) = next_group reg" "latest (bump w reg) = latest reg"
  by (simp_all add: bump_def)

lemma retain_live_frame [simp]: "waits (retain_live reg) = waits reg" "next_group (retain_live reg) = next_group reg"
  by (simp_all add: retain_live_def Let_def)

lemma declare_waits:
  assumes "declare_wait slot from kind targets detail reg = (reg', Some gid)"
  shows "waits reg' = AList.update gid \<lparr>lw_from = from, lw_targets = targets, lw_kind = kind, lw_detail = detail,
      lw_refusal = None\<rparr> (waits reg)"
    "targets \<noteq> []" "sat_add64 (live_edges reg) (length targets) \<le> deadlock_max_edges slot"
    "gid = wrapping_add64 (next_group reg) 1"
  using assms by (auto simp: declare_wait_def Let_def bounds_from_settings_def split: if_splits)

lemma declare_None: "declare_wait slot from kind targets detail reg = (reg', None) \<Longrightarrow> reg' = reg"
  by (auto simp: declare_wait_def Let_def split: if_splits)

lemma registry_inv_step:
  assumes bound: "deadlock_max_edges slot < u64_max" and inv: "registry_inv slot reg"
  shows "registry_inv slot (registry_step slot reg op)"
proof (cases op)
  case (OpDeclare run kind targets detail)
  obtain reg' h where d: "declare_wait slot run kind targets detail reg = (reg', h)" by (metis surj_pair)
  show ?thesis
  proof (cases h)
    case None
    with d have "reg' = reg" by (intro declare_None) simp
    with d inv OpDeclare show ?thesis by simp
  next
    case (Some gid)
    note w = declare_waits [OF d [unfolded Some]]
    have "live_edges reg + length targets \<le> deadlock_max_edges slot"
      using w(3) bound by (simp add: sat_add64_def split: if_splits)
    then have "live_edges reg' \<le> deadlock_max_edges slot"
      using edge_total_update [of gid _ "waits reg"] w(1) unfolding live_edges_total by (force intro: order.trans)
    with w(1) inv d OpDeclare show ?thesis by (simp add: registry_inv_def)
  qed
next
  case (OpDrop h)
  have "live_edges (handle_drop h reg) \<le> live_edges reg" "amap_wf (waits (handle_drop h reg))"
    using inv edge_total_delete by (auto simp: handle_drop_def registry_inv_def live_edges_total split: option.split)
  with OpDrop inv show ?thesis by (simp add: registry_inv_def)
next
  case (OpRefuse report)
  have "live_edges (fst (refuse report reg)) = live_edges reg" "amap_keys (waits (fst (refuse report reg))) = amap_keys (waits reg)"
    by (auto simp: refuse_def Let_def live_edges_total edge_total_modify split: option.split)
  with OpRefuse inv show ?thesis by (simp add: registry_inv_def)
qed

text \<open>The edges the registry publishes, and their number.\<close>

lemma length_registry_edges: "length (registry_edges reg) = live_edges reg"
proof -
  have "mset (btree_iter (waits reg)) = mset (waits reg)" by (simp add: btree_iter_def)
  then have "sum_list (map (\<lambda>(gid, w). length (lw_targets w)) (btree_iter (waits reg))) =
      sum_list (map (\<lambda>(gid, w). length (lw_targets w)) (waits reg))"
    by (metis (mono_tags, lifting) mset_map sum_mset_sum_list)
  then show ?thesis
    by (simp add: registry_edges_def length_concat comp_def live_edges_def amap_values_def split_def)
qed

lemma registry_edge_iff:
  assumes "amap_wf (waits reg)"
  shows "e \<in> set (registry_edges reg) \<longleftrightarrow>
    (\<exists>gid w. map_of (waits reg) gid = Some w \<and>
       (\<exists>t \<in> set (lw_targets w). e = with_group gid (wait_edge_new (lw_from w) t (lw_kind w) (lw_detail w))))"
  using amap_mem_iff [OF assms] by (fastforce simp: registry_edges_def)

text \<open>The registry as a machine, for settings with a representable bound.\<close>

definition bounded_slot :: "coordination_settings \<Rightarrow> coordination_settings" where
  "bounded_slot slot = slot\<lparr>deadlock_max_edges := min (deadlock_max_edges slot) (u64_max - 1)\<rparr>"

interpretation wait_registry: machine registry_empty "registry_step (bounded_slot slot)" "registry_inv (bounded_slot slot)"
  for slot
proof unfold_locales
  show "registry_inv (bounded_slot slot) registry_empty"
    by (simp add: registry_inv_def registry_empty_def live_edges_def amap_values_def)
  show "registry_inv (bounded_slot slot) (registry_step (bounded_slot slot) reg op)"
    if "registry_inv (bounded_slot slot) reg" for reg op
    by (rule registry_inv_step [OF _ that]) (simp add: bounded_slot_def u64_max_def)
qed

lemma bounded_slot_id: "deadlock_max_edges slot < u64_max \<Longrightarrow> bounded_slot slot = slot"
  by (simp add: bounded_slot_def)

text \<open>
  Whatever is declared, dropped and refused, in whatever order, the registry never
  publishes more waits than the configured bound of edges, so a graph built from its
  waits alone is never refused as too large for its edges.
\<close>

lemma registry_edges_bounded:
  assumes "deadlock_max_edges slot < u64_max"
  shows "length (registry_edges (foldl (registry_step slot) registry_empty ops)) \<le>
    max_edges (bounds_from_settings slot)"
  using wait_registry.reachable_inv [of slot ops] bounded_slot_id [OF assms]
  by (simp add: length_registry_edges registry_inv_def bounds_from_settings_def)

lemma registry_edges_bounded_example:
  "length (registry_edges (foldl (registry_step default_settings) registry_empty
     [OpDeclare (knot_run ''a'') Child [Run (knot_run ''b'')] ''x''])) \<le> 16384"
proof -
  have "deadlock_max_edges default_settings = 16384" by (simp add: default_settings_def)
  with registry_edges_bounded [of default_settings "[OpDeclare (knot_run ''a'') Child [Run (knot_run ''b'')] ''x'']"]
  show ?thesis by (simp add: u64_max_def bounds_from_settings_def)
qed

section \<open>A declaration lives as long as its handle\<close>

lemma declare_wf:
  assumes "declare_wait slot run kind targets detail reg = (reg', Some gid)" "amap_wf (waits reg)"
  shows "amap_wf (waits reg')"
  using declare_waits(1) [OF assms(1)] assms(2) by simp

text \<open>
  A tracked declaration adds exactly its own edges, one per target, all in its group,
  and dropping its handle restores the live waits; an untracked one (no targets, or no
  room) changes nothing. The group must not be in use, which the 64-bit counter ensures
  short of wrapping around to a live one.
\<close>

lemma declare_drop_roundtrip:
  assumes "amap_wf (waits reg)" "wrapping_add64 (next_group reg) 1 \<notin> set (amap_keys (waits reg))"
    and d: "declare_wait slot run kind targets detail reg = (reg', h)"
  shows "waits (handle_drop h reg') = waits reg \<and>
    (case h of
       None \<Rightarrow> reg' = reg
     | Some gid \<Rightarrow> (\<forall>e. e \<in> set (registry_edges reg') \<longleftrightarrow> e \<in> set (registry_edges reg) \<or>
         (\<exists>t \<in> set targets. e = with_group gid (wait_edge_new run t kind detail))))"
proof (cases h)
  case None
  with d have "reg' = reg" by (intro declare_None) simp
  with None show ?thesis by (simp add: handle_drop_def)
next
  case (Some gid)
  note w = declare_waits [OF d [unfolded Some]]
  let ?w = "\<lparr>lw_from = run, lw_targets = targets, lw_kind = kind, lw_detail = detail, lw_refusal = None\<rparr>"
  have fresh: "map_of (waits reg) gid = None" using assms(2) w(4) by (simp add: map_of_None_keys)
  have "waits (handle_drop h reg') = waits reg"
    using fresh w(1) by (simp add: Some handle_drop_def alist_simps AList.delete_update_same map_of_None_keys)
  moreover have "e \<in> set (registry_edges reg') \<longleftrightarrow> e \<in> set (registry_edges reg) \<or>
      (\<exists>t \<in> set targets. e = with_group gid (wait_edge_new run t kind detail))" for e
  proof -
    have "(\<exists>k v. map_of (waits reg') k = Some v \<and> P k v) \<longleftrightarrow>
        (\<exists>k v. map_of (waits reg) k = Some v \<and> P k v) \<or> P gid ?w" for P
      using fresh w(1) by (auto simp: alist_simps) (metis option.distinct(1))
    then show ?thesis
      by (simp add: registry_edge_iff assms(1) declare_wf [OF d [unfolded Some] assms(1)])
  qed
  ultimately show ?thesis using Some by simp
qed

lemma declare_drop_roundtrip_example:
  "waits (handle_drop (snd (declare_wait default_settings (knot_run ''a'') Child [Run (knot_run ''b'')] ''x'' registry_empty))
     (fst (declare_wait default_settings (knot_run ''a'') Child [Run (knot_run ''b'')] ''x'' registry_empty))) = []"
  using declare_drop_roundtrip [of registry_empty default_settings "knot_run ''a''" Child "[Run (knot_run ''b'')]" "''x''",
      OF _ _ prod.collapse [symmetric]]
  by (simp add: registry_empty_def)

section \<open>Versions\<close>

lemma version_fold:
  "get_or 0 (map_of (foldl bump_run m runs) r) = get_or 0 (map_of m r) + count_list runs r"
  by (induction runs arbitrary: m) (auto simp: bump_run_def alist_simps)

lemma version_of_bump: "version_of r (bump w reg) = version_of r reg + count_list (wait_runs w) r"
  by (simp add: version_of_def bump_def version_fold)

lemma length_bump_run: "length (bump_run m r) \<le> Suc (length m)"
  by (induction m) (auto simp: bump_run_def update_conv')

lemma length_bump: "length (foldl bump_run m runs) \<le> length m + length runs"
proof (induction runs arbitrary: m)
  case (Cons r runs)
  from Cons.IH [of "bump_run m r"] length_bump_run [of m r] show ?case by simp
qed simp

lemma length_wait_runs: "length (wait_runs w) \<le> Suc (length (lw_targets w))"
  by (simp add: wait_runs_def map_filter_def)

text \<open>
  While the version table has room, every declaration and every drop moves the
  version of each run of the wait, by as often as the wait names it, and of no other
  run: a change between two captures shows.
\<close>

lemma versions_record_waits:
  assumes d: "declare_wait slot run kind targets detail reg = (reg', Some gid)"
    and room: "length (versions reg) + length targets < sat_mul64 (deadlock_max_edges slot) 4"
  shows "version_of r reg' = version_of r reg + count_list (run # List.map_filter target_run targets) r \<and>
    version_of r (handle_drop (Some gid) reg') =
      version_of r reg + 2 * count_list (run # List.map_filter target_run targets) r"
proof -
  let ?w = "\<lparr>lw_from = run, lw_targets = targets, lw_kind = kind, lw_detail = detail, lw_refusal = None\<rparr>"
  let ?b = "bump ?w (reg\<lparr>next_group := wrapping_add64 (next_group reg) 1\<rparr>)"
  have runs: "wait_runs ?w = run # List.map_filter target_run targets" by (simp add: wait_runs_def)
  have "length (versions ?b) \<le> length (versions reg) + Suc (length targets)"
    using length_bump [of "versions reg" "wait_runs ?w"] length_wait_runs [of ?w] by (simp add: bump_def)
  then have "length (versions ?b) \<le> sat_mul64 (deadlock_max_edges slot) 4" using room by simp
  then have reg': "reg' = ?b\<lparr>waits := AList.update gid ?w (waits reg)\<rparr>"
    using d by (auto simp: declare_wait_def Let_def bounds_from_settings_def split: if_splits)
  have v: "version_of r reg' = version_of r reg + count_list (wait_runs ?w) r"
    using version_of_bump [of r ?w "reg\<lparr>next_group := wrapping_add64 (next_group reg) 1\<rparr>"]
    by (simp add: reg' version_of_def)
  have "map_of (waits reg') gid = Some ?w" by (simp add: reg' alist_simps)
  then have "version_of r (handle_drop (Some gid) reg') = version_of r reg' + count_list (wait_runs ?w) r"
    using version_of_bump [of r ?w "reg'\<lparr>waits := AList.delete gid (waits reg')\<rparr>"]
    by (simp add: handle_drop_def version_of_def)
  with v show ?thesis by (simp add: runs)
qed

lemma versions_record_waits_example:
  "\<exists>reg'. declare_wait default_settings (knot_run ''a'') Child [Run (knot_run ''b'')] ''x'' registry_empty = (reg', Some 1) \<and>
     version_of (knot_run ''b'') reg' = 1"
proof -
  have d: "\<exists>reg'. declare_wait default_settings (knot_run ''a'') Child [Run (knot_run ''b'')] ''x'' registry_empty = (reg', Some 1)"
    by (simp add: declare_wait_def registry_empty_def bounds_from_settings_def default_settings_def live_edges_def
        amap_values_def rust_arith u64_max_def Let_def)
  have "length (versions registry_empty) + length [Run (knot_run ''b'')] < sat_mul64 (deadlock_max_edges default_settings) 4"
    by (simp add: registry_empty_def default_settings_def rust_arith u64_max_def)
  with d versions_record_waits [of default_settings "knot_run ''a''" Child "[Run (knot_run ''b'')]" "''x''" registry_empty
      _ 1 "knot_run ''b''"]
  show ?thesis by (auto simp: version_of_def registry_empty_def knot_run_def map_filter_simps)
qed

text \<open>
  The collection of old versions in \<open>declare\<close> forgets the declaration that triggers
  it. The runs of the new wait are bumped before the table is trimmed to the runs of the
  live waits, and the new wait is added to those only afterwards; so when the table is
  over its limit the version of the new wait's runs is back at 0, unless an older wait
  names them -- for a run that had no version yet the declaration does not show.
\<close>

lemma collection_forgets_new_wait:
  assumes d: "declare_wait slot run kind targets detail reg = (reg', Some gid)"
    and full: "sat_mul64 (deadlock_max_edges slot) 4 < length (foldl bump_run (versions reg) (run # List.map_filter target_run targets))"
    and old: "r \<notin> set (concat (map wait_runs (amap_values (waits reg))))"
  shows "version_of r reg' = 0"
proof -
  let ?w = "\<lparr>lw_from = run, lw_targets = targets, lw_kind = kind, lw_detail = detail, lw_refusal = None\<rparr>"
  let ?b = "bump ?w (reg\<lparr>next_group := wrapping_add64 (next_group reg) 1\<rparr>)"
  have "length (versions ?b) > sat_mul64 (deadlock_max_edges slot) 4"
    using full by (simp add: bump_def wait_runs_def)
  then have "versions reg' = versions (retain_live ?b)"
    using d by (auto simp: declare_wait_def Let_def bounds_from_settings_def split: if_splits)
  moreover have "map_of (filter (\<lambda>(run, _). P run) m) r = None" if "\<not> P r" for P and m :: "(run_key, nat) amap"
    using that by (auto simp: map_of_None_keys)
  ultimately show ?thesis using old by (simp add: version_of_def retain_live_def Let_def)
qed

lemma collection_forgets_new_wait_example:
  "let slot = default_settings\<lparr>deadlock_max_edges := 1\<rparr>;
       reg = foldl (registry_step slot) registry_empty
         [OpDeclare (knot_run ''c'') Child [Run (knot_run ''d'')] ''x'', OpDrop (Some 1),
          OpDeclare (knot_run ''e'') Child [Run (knot_run ''f'')] ''x'', OpDrop (Some 2)]
   in snd (declare_wait slot (knot_run ''a'') Child [Run (knot_run ''b'')] ''x'' reg) = Some 3 \<and>
      version_of (knot_run ''a'') reg = 0 \<and>
      version_of (knot_run ''a'') (fst (declare_wait slot (knot_run ''a'') Child [Run (knot_run ''b'')] ''x'' reg)) = 0"
proof -
  define slot where "slot = default_settings\<lparr>deadlock_max_edges := 1\<rparr>"
  have max: "deadlock_max_edges slot = 1" by (simp add: slot_def)
  define reg where "reg = foldl (registry_step slot) registry_empty
         [OpDeclare (knot_run ''c'') Child [Run (knot_run ''d'')] ''x'', OpDrop (Some 1),
          OpDeclare (knot_run ''e'') Child [Run (knot_run ''f'')] ''x'', OpDrop (Some 2)]"
  note eval = declare_wait_def bounds_from_settings_def max Let_def live_edges_def amap_values_def bump_def
    bump_run_def wait_runs_def map_filter_simps rust_arith u64_max_def handle_drop_def
  have reg: "waits reg = []" "next_group reg = 2"
    "versions reg = [(knot_run ''c'', 2), (knot_run ''d'', 2), (knot_run ''e'', 2), (knot_run ''f'', 2)]"
    by (simp_all add: reg_def registry_empty_def eval knot_run_def)
  obtain reg' where d: "declare_wait slot (knot_run ''a'') Child [Run (knot_run ''b'')] ''x'' reg = (reg', Some 3)"
    by (simp add: eval reg)
  have "version_of (knot_run ''a'') reg' = 0"
    by (rule collection_forgets_new_wait [OF d])
      (simp_all add: reg max bump_run_def map_filter_simps rust_arith u64_max_def knot_run_def amap_values_def)
  moreover have "version_of (knot_run ''a'') reg = 0" by (simp add: version_of_def reg knot_run_def)
  ultimately show ?thesis
    using d unfolding Let_def slot_def [symmetric] unfolding reg_def [symmetric] by simp
qed

section \<open>Refusing a wait\<close>

lemma matching_wait_Some:
  "matching_wait reg e = Some (gid, run) \<longleftrightarrow>
     we_group e = Some gid \<and> run = we_from e \<and> (\<exists>w. map_of (waits reg) gid = Some w \<and> lw_from w = run)"
  by (cases "we_group e") (auto simp: matching_wait_def split: option.splits)

lemma matching_registry_edge:
  assumes "amap_wf (waits reg)" "e \<in> set (registry_edges reg)"
  shows "\<exists>gid. matching_wait reg e = Some (gid, we_from e)"
  using assms by (auto simp: registry_edge_iff matching_wait_Some with_group_def wait_edge_new_def)

text \<open>
  C33: a detected cycle is broken. Let a graph be built from the registry's waits and
  waits of other kinds, which carry no group, and let a deadlock be detected in it. If
  any wait of the cycle is registered, \<open>refuse\<close> refuses exactly one: its waiter is a
  participant, its handle reads the report, and every other live wait is as before. If
  none is, nothing is refused and the live waits are unchanged. Either way the report is
  the latest one.
\<close>

theorem detected_cycle_refused:
  assumes wf: "amap_wf (waits reg)" and extra: "\<forall>e \<in> set extra. we_group e = None"
    and det: "detect (build runs (registry_edges reg @ extra) bounds) = Deadlock report"
  shows "case refuse report reg of
      (reg', Some waiter) \<Rightarrow>
        waiter \<in> set (participants report) \<and> latest_report reg' = Some report \<and>
        (\<exists>gid. handle_refusal (Some gid) reg' = Some report \<and>
           map_option lw_from (map_of (waits reg) gid) = Some waiter \<and>
           (\<forall>other. other \<noteq> gid \<longrightarrow> map_of (waits reg') other = map_of (waits reg) other))
    | (reg', None) \<Rightarrow>
        waits reg' = waits reg \<and> latest_report reg' = Some report \<and>
        (\<forall>e \<in> set (cycle report). we_group e = None)"
proof -
  let ?g = "build runs (registry_edges reg @ extra) bounds" and ?r1 = "reg\<lparr>latest := Some report\<rparr>"
  have v: "valid_cycle ?g report" using detect_build_result [of runs "registry_edges reg @ extra" bounds] det by simp
  have sub: "set (cycle report) \<subseteq> set (registry_edges reg) \<union> set extra"
    using v by (auto simp: valid_cycle_def build_def Let_def)
  have "cycle report \<noteq> []" using v by (auto simp: valid_cycle_def)
  then have closing: "closing_edge report \<in> set (cycle report)" using v by (simp add: valid_cycle_def)
  have part: "we_from e \<in> set (participants report)" if "e \<in> set (cycle report)" for e
    using v that by (auto simp: valid_cycle_def in_set_conv_nth)
  define sel where "sel = (case matching_wait ?r1 (closing_edge report) of
      Some x \<Rightarrow> Some x | None \<Rightarrow> find_map (matching_wait ?r1) (cycle report))"
  have same: "matching_wait ?r1 = matching_wait reg" by (simp add: matching_wait_def [abs_def])
  have ref: "refuse report reg = (case sel of None \<Rightarrow> (?r1, None)
      | Some (gid, waiter) \<Rightarrow> (?r1\<lparr>waits := amap_modify gid (\<lambda>w. w\<lparr>lw_refusal := Some report\<rparr>) (waits ?r1)\<rparr>, Some waiter))"
    by (simp add: refuse_def Let_def sel_def)
  show ?thesis
  proof (cases sel)
    case None
    then have "matching_wait reg e = None" if "e \<in> set (cycle report)" for e
      using that by (auto simp: sel_def same find_map_None split: option.splits)
    then have "e \<notin> set (registry_edges reg)" if "e \<in> set (cycle report)" for e
      using that matching_registry_edge [OF wf, of e] by auto
    then have "\<forall>e \<in> set (cycle report). we_group e = None" using sub extra by blast
    with None show ?thesis by (simp add: ref latest_report_def)
  next
    case (Some x)
    obtain gid waiter where x: "x = (gid, waiter)" by (cases x)
    with Some closing obtain e where e: "e \<in> set (cycle report)" "matching_wait reg e = Some (gid, waiter)"
      by (auto simp: sel_def same split: option.splits dest!: find_map_Some)
    then obtain w where w: "waiter = we_from e" "map_of (waits reg) gid = Some w" "lw_from w = waiter"
      by (auto simp: matching_wait_Some)
    with part [OF e(1)] Some x show ?thesis
      by (auto simp: ref latest_report_def handle_refusal_def alist_simps intro!: exI [of _ gid])
  qed
qed

text \<open>The two runs of the knot, each with a registered wait for the other.\<close>

definition knot_registry :: registry where
  "knot_registry = foldl (registry_step default_settings) registry_empty
     [OpDeclare (knot_run ''a'') Child [Run (knot_run ''b'')] ''a'',
      OpDeclare (knot_run ''b'') Child [Run (knot_run ''a'')] ''b'']"

lemma knot_registry_waits:
  "waits knot_registry =
     [(1, \<lparr>lw_from = knot_run ''a'', lw_targets = [Run (knot_run ''b'')], lw_kind = Child, lw_detail = ''a'', lw_refusal = None\<rparr>),
      (2, \<lparr>lw_from = knot_run ''b'', lw_targets = [Run (knot_run ''a'')], lw_kind = Child, lw_detail = ''b'', lw_refusal = None\<rparr>)]"
proof -
  have max: "deadlock_max_edges default_settings = 16384" by (simp add: default_settings_def)
  show ?thesis
    by (simp add: knot_registry_def registry_empty_def declare_wait_def bounds_from_settings_def max Let_def
        live_edges_def amap_values_def rust_arith u64_max_def bump_def bump_run_def wait_runs_def map_filter_simps)
qed

lemma knot_registry_edges:
  "registry_edges knot_registry =
     [with_group 1 (wait_edge_new (knot_run ''a'') (Run (knot_run ''b'')) Child ''a''),
      with_group 2 (wait_edge_new (knot_run ''b'') (Run (knot_run ''a'')) Child ''b'')]"
  by (simp add: registry_edges_def btree_iter_def knot_registry_waits)

theorem detected_cycle_refused_witness:
  "\<exists>report. detect (build [(knot_run ''a'', \<lparr>parked = False, waiting_for_capacity = False, facts_version = 0\<rparr>),
       (knot_run ''b'', \<lparr>parked = False, waiting_for_capacity = False, facts_version = 0\<rparr>)]
       (registry_edges knot_registry @ []) default_bounds) = Deadlock report \<and>
     snd (refuse report knot_registry) \<noteq> None"
proof -
  let ?e = "with_group 2 (wait_edge_new (knot_run ''b'') (Run (knot_run ''a'')) Child ''b'')"
  let ?r = "\<lparr>participants = [knot_run ''a'', knot_run ''b''],
      cycle = [with_group 1 (wait_edge_new (knot_run ''a'') (Run (knot_run ''b'')) Child ''a''), ?e],
      closing_edge = ?e, report_attempts = 1\<rparr>"
  have det: "detect (build [(knot_run ''a'', \<lparr>parked = False, waiting_for_capacity = False, facts_version = 0\<rparr>),
       (knot_run ''b'', \<lparr>parked = False, waiting_for_capacity = False, facts_version = 0\<rparr>)]
       (registry_edges knot_registry @ []) default_bounds) = Deadlock ?r"
    by (simp add: knot_eval key_order_defs Let_def knot_registry_edges with_group_def progressable_def)
  have "amap_wf (waits knot_registry)" by (simp add: knot_registry_waits)
  from detected_cycle_refused [OF this _ det] have "snd (refuse ?r knot_registry) \<noteq> None"
    by (cases "refuse ?r knot_registry") (auto simp: with_group_def split: option.splits)
  with det show ?thesis by blast
qed

end
