(* ===== verification/Approval.thy ===== *)
theory Approval
  imports Settings
begin

text \<open>
  The approval registry (\<open>refact-work-core/src/approval.rs\<close>): requests of child runs that
  a parent approves, rejects or cancels, that expire, and that a tool call consumes at
  most once. Every method locks the table of entries and is one atomic function here;
  the clock \<open>now\<close> is an argument, as in the source, and need not be monotone.

  The JSON value of a tool call's arguments is only compared for equality: it is the type
  parameter of the records. \<open>slot\<close> is the process-wide settings that \<open>capacity\<close> reads when
  the registry has no bound of its own. Notifications carry no data; \<open>wait\<close> is modelled by
  its atomic parts: the first lookup, one turn of its loop, and the timeout branch.
\<close>

section \<open>Requests and entries\<close>

record execution_approval =
  ea_command :: string
  ea_argv :: "string list"
  ea_cwd :: string
  ea_environment_keys :: "string list"
  ea_fingerprint :: string
  ea_privilege :: string
  ea_reason :: string

record 'v pending_approval =
  pa_id :: string
  pa_child_work_id :: string
  pa_parent_chat_id :: string
  pa_run_generation :: nat
  pa_tool_call_id :: string
  pa_tool_name :: string
  pa_args :: 'v
  pa_digest :: "string option"
  pa_created_at :: nat
  pa_expires_at :: nat
  pa_execution :: "execution_approval option"

datatype approval_decision = Approved | Rejected | DecisionCancelled | DecisionExpired

datatype approval_error =
    ECapacity
  | EDuplicate
  | ENotFound
  | ENotOwner
  | EGenerationMismatch
  | EExpired
  | EAlreadyDecided
  | EBindingMismatch
  | ENotApproved
  | EConsumed

record 'v user_once_grant =
  ug_pending :: "'v pending_approval"
  ug_wrapper :: string
  ug_consumed :: bool

record 'v approval_entry =
  ae_pending :: "'v pending_approval"
  ae_decision :: "approval_decision option"
  ae_denial_reason :: "string option"
  ae_user_once :: "'v user_once_grant option"
  ae_consumed :: bool

type_synonym 'v approval_table = "(string, 'v approval_entry) amap"

record 'v approvals =
  ap_entries :: "'v approval_table"
  ap_max_pending :: "nat option"

definition approvals_new :: "nat \<Rightarrow> 'v approvals" where
  "approvals_new cap = \<lparr>ap_entries = [], ap_max_pending = Some cap\<rparr>"

definition approvals_from_settings :: "'v approvals" where
  "approvals_from_settings = \<lparr>ap_entries = [], ap_max_pending = None\<rparr>"

definition capacity :: "coordination_settings \<Rightarrow> 'v approvals \<Rightarrow> nat" where
  "capacity slot ap = get_or (max_pending_approvals slot) (ap_max_pending ap)"

section \<open>Expiry\<close>

definition expire_entry :: "nat \<Rightarrow> 'v approval_entry \<Rightarrow> 'v approval_entry" where
  "expire_entry now e =
     (if pa_expires_at (ae_pending e) \<le> now
      then e\<lparr>ae_decision := Some DecisionExpired, ae_denial_reason := None, ae_user_once := None\<rparr>
      else e)"

definition mark_expired :: "nat \<Rightarrow> 'v approval_table \<Rightarrow> 'v approval_table" where
  "mark_expired now m = map (\<lambda>(k, e). (k, expire_entry now e)) m"

definition expired_keys :: "'v approval_table \<Rightarrow> (nat \<times> string) list" where
  "expired_keys m =
     map (\<lambda>(k, e). (pa_expires_at (ae_pending e), k))
       (filter (\<lambda>(k, e). ae_decision e = Some DecisionExpired) m)"

definition purge :: "nat \<Rightarrow> 'v approval_table \<Rightarrow> 'v approval_table" where
  "purge cap m =
     (let expired = expired_keys m; purge_count = sat_sub (length expired) cap
      in if purge_count > 0
         then foldl (\<lambda>m (_, k). AList.delete k m) m (take purge_count (sort expired))
         else m)"

definition expire_locked :: "coordination_settings \<Rightarrow> nat \<Rightarrow> 'v approvals \<Rightarrow> 'v approvals" where
  "expire_locked slot now ap =
     ap\<lparr>ap_entries := purge (capacity slot ap) (mark_expired now (ap_entries ap))\<rparr>"

section \<open>Operations\<close>

definition same_call :: "nat \<Rightarrow> 'v pending_approval \<Rightarrow> 'v approval_entry \<Rightarrow> bool" where
  "same_call now p e \<longleftrightarrow>
     pa_parent_chat_id (ae_pending e) = pa_parent_chat_id p \<and>
     pa_child_work_id (ae_pending e) = pa_child_work_id p \<and>
     pa_run_generation (ae_pending e) = pa_run_generation p \<and>
     pa_tool_call_id (ae_pending e) = pa_tool_call_id p \<and>
     pa_expires_at (ae_pending e) > now"

definition fresh_entry :: "'v pending_approval \<Rightarrow> 'v approval_entry" where
  "fresh_entry p =
     \<lparr>ae_pending = p, ae_decision = None, ae_denial_reason = None, ae_user_once = None, ae_consumed = False\<rparr>"

definition register ::
  "coordination_settings \<Rightarrow> 'v pending_approval \<Rightarrow> nat \<Rightarrow> 'v approvals \<Rightarrow> 'v approvals \<times> (approval_error + unit)" where
  "register slot p now ap =
     (let ap1 = expire_locked slot now ap; m = ap_entries ap1 in
      if map_of m (pa_id p) \<noteq> None \<or> (\<exists>e \<in> set (amap_values m). same_call now p e)
      then (ap1, Inl EDuplicate)
      else if pa_expires_at p \<le> now then (ap1, Inl EExpired)
      else if amap_count (\<lambda>e. pa_expires_at (ae_pending e) > now) m \<ge> capacity slot ap1
      then (ap1, Inl ECapacity)
      else (ap1\<lparr>ap_entries := AList.update (pa_id p) (fresh_entry p) m\<rparr>, Inr ()))"

definition check_user_once_entry ::
  "'v approval_entry \<Rightarrow> string \<Rightarrow> nat \<Rightarrow> approval_error + unit" where
  "check_user_once_entry e parent generation =
     (if pa_parent_chat_id (ae_pending e) \<noteq> parent then Inl ENotOwner
      else if pa_run_generation (ae_pending e) \<noteq> generation then Inl EGenerationMismatch
      else case ae_decision e of
             Some DecisionExpired \<Rightarrow> Inl EExpired
           | Some _ \<Rightarrow> Inl EAlreadyDecided
           | None \<Rightarrow> Inr ())"

definition set_entry :: "string \<Rightarrow> ('v approval_entry \<Rightarrow> 'v approval_entry) \<Rightarrow> 'v approvals \<Rightarrow> 'v approvals" where
  "set_entry i f ap = ap\<lparr>ap_entries := amap_modify i f (ap_entries ap)\<rparr>"

definition grant_user_once ::
  "coordination_settings \<Rightarrow> string \<Rightarrow> string \<Rightarrow> nat \<Rightarrow> string \<Rightarrow> nat \<Rightarrow> 'v approvals
   \<Rightarrow> 'v approvals \<times> (approval_error + unit)" where
  "grant_user_once slot parent i generation wrapper now ap =
     (let ap1 = expire_locked slot now ap in
      case map_of (ap_entries ap1) i of
        None \<Rightarrow> (ap1, Inl ENotFound)
      | Some e \<Rightarrow>
          (case check_user_once_entry e parent generation of
             Inl err \<Rightarrow> (ap1, Inl err)
           | Inr _ \<Rightarrow>
               if wrapper = [] then (ap1, Inl EBindingMismatch)
               else case ae_user_once e of
                 Some g \<Rightarrow>
                   if ug_pending g \<noteq> ae_pending e \<or> ug_wrapper g \<noteq> wrapper then (ap1, Inl EBindingMismatch)
                   else (ap1, if ug_consumed g then Inl EConsumed else Inr ())
               | None \<Rightarrow>
                   (set_entry i (\<lambda>e. e\<lparr>ae_user_once := Some \<lparr>ug_pending = ae_pending e,
                       ug_wrapper = wrapper, ug_consumed = False\<rparr>\<rparr>) ap1, Inr ())))"

definition consume_user_once ::
  "coordination_settings \<Rightarrow> string \<Rightarrow> string \<Rightarrow> nat \<Rightarrow> string \<Rightarrow> nat \<Rightarrow> 'v approvals
   \<Rightarrow> 'v approvals \<times> (approval_error + unit)" where
  "consume_user_once slot parent i generation wrapper now ap =
     (let ap1 = expire_locked slot now ap in
      case map_of (ap_entries ap1) i of
        None \<Rightarrow> (ap1, Inl ENotFound)
      | Some e \<Rightarrow>
          (case check_user_once_entry e parent generation of
             Inl err \<Rightarrow> (ap1, Inl err)
           | Inr _ \<Rightarrow>
               (case ae_user_once e of
                  None \<Rightarrow> (ap1, Inl ENotApproved)
                | Some g \<Rightarrow>
                    if ug_pending g \<noteq> ae_pending e \<or> ug_wrapper g \<noteq> wrapper then (ap1, Inl EBindingMismatch)
                    else if ug_consumed g then (ap1, Inl EConsumed)
                    else (set_entry i (\<lambda>e. e\<lparr>ae_user_once := map_option (\<lambda>g. g\<lparr>ug_consumed := True\<rparr>)
                            (ae_user_once e)\<rparr>) ap1, Inr ()))))"

definition denial_reason :: "string \<Rightarrow> 'v approvals \<Rightarrow> string option" where
  "denial_reason i ap = Option.bind (map_of (ap_entries ap) i) ae_denial_reason"

definition decide_with_reason ::
  "coordination_settings \<Rightarrow> string \<Rightarrow> nat \<Rightarrow> string \<Rightarrow> bool \<Rightarrow> string option \<Rightarrow> nat \<Rightarrow> 'v approvals
   \<Rightarrow> 'v approvals \<times> (approval_error + approval_decision)" where
  "decide_with_reason slot caller_parent expected_generation i approve reason now ap =
     (let ap1 = expire_locked slot now ap in
      case map_of (ap_entries ap1) i of
        None \<Rightarrow> (ap1, Inl ENotFound)
      | Some e \<Rightarrow>
          if pa_parent_chat_id (ae_pending e) \<noteq> caller_parent then (ap1, Inl ENotOwner)
          else if pa_run_generation (ae_pending e) \<noteq> expected_generation then (ap1, Inl EGenerationMismatch)
          else if ae_decision e = Some DecisionExpired then (ap1, Inl EExpired)
          else
            let wanted = (if approve then Approved else Rejected) in
            case ae_decision e of
              Some existing \<Rightarrow>
                (if existing = wanted \<and> wanted = Rejected \<and> ae_denial_reason e = None
                 then set_entry i (\<lambda>e. e\<lparr>ae_denial_reason := reason\<rparr>) ap1 else ap1,
                 if existing = wanted then Inr existing else Inl EAlreadyDecided)
            | None \<Rightarrow>
                (set_entry i (\<lambda>e. e\<lparr>ae_decision := Some wanted,
                    ae_denial_reason := if wanted = Rejected then reason else None, ae_user_once := None\<rparr>) ap1,
                 Inr wanted))"

definition decide ::
  "coordination_settings \<Rightarrow> string \<Rightarrow> nat \<Rightarrow> string \<Rightarrow> bool \<Rightarrow> nat \<Rightarrow> 'v approvals
   \<Rightarrow> 'v approvals \<times> (approval_error + approval_decision)" where
  "decide slot caller_parent expected_generation i approve now ap =
     decide_with_reason slot caller_parent expected_generation i approve None now ap"

definition cancel ::
  "coordination_settings \<Rightarrow> string \<Rightarrow> nat \<Rightarrow> string \<Rightarrow> nat \<Rightarrow> 'v approvals
   \<Rightarrow> 'v approvals \<times> (approval_error + unit)" where
  "cancel slot caller_parent expected_generation i now ap =
     (let ap1 = expire_locked slot now ap in
      case map_of (ap_entries ap1) i of
        None \<Rightarrow> (ap1, Inl ENotFound)
      | Some e \<Rightarrow>
          if pa_parent_chat_id (ae_pending e) \<noteq> caller_parent then (ap1, Inl ENotOwner)
          else if pa_run_generation (ae_pending e) \<noteq> expected_generation then (ap1, Inl EGenerationMismatch)
          else if ae_decision e \<noteq> None then (ap1, Inl EAlreadyDecided)
          else (set_entry i (\<lambda>e. e\<lparr>ae_decision := Some DecisionCancelled, ae_user_once := None\<rparr>) ap1, Inr ()))"

text \<open>The parts of \<open>wait\<close>: the request waited for, one turn of the loop at time \<open>current\<close>, the timeout.\<close>

definition wait_begin :: "string \<Rightarrow> 'v approvals \<Rightarrow> approval_error + 'v pending_approval" where
  "wait_begin i ap =
     (case map_of (ap_entries ap) i of None \<Rightarrow> Inl ENotFound | Some e \<Rightarrow> Inr (ae_pending e))"

definition wait_current :: "nat \<Rightarrow> nat \<Rightarrow> nat" where
  "wait_current now elapsed = sat_add64 now (min elapsed u64_max)"

definition wait_turn ::
  "coordination_settings \<Rightarrow> string \<Rightarrow> 'v pending_approval \<Rightarrow> nat \<Rightarrow> 'v approvals
   \<Rightarrow> 'v approvals \<times> approval_decision option" where
  "wait_turn slot i p current ap =
     (let ap1 = expire_locked slot current ap in
      (ap1, case map_of (ap_entries ap1) i of
              Some e \<Rightarrow> if ae_pending e = p then ae_decision e else Some DecisionExpired
            | None \<Rightarrow> Some DecisionExpired))"

definition wait_timeout ::
  "coordination_settings \<Rightarrow> string \<Rightarrow> 'v pending_approval \<Rightarrow> 'v approvals \<Rightarrow> 'v approvals \<times> approval_decision" where
  "wait_timeout slot i p ap =
     (let ap1 = expire_locked slot (pa_expires_at p) ap in
      (ap1, case map_of (ap_entries ap1) i of
              Some e \<Rightarrow> if ae_pending e = p then get_or DecisionExpired (ae_decision e) else DecisionExpired
            | None \<Rightarrow> DecisionExpired))"

definition consume ::
  "coordination_settings \<Rightarrow> string \<Rightarrow> string \<Rightarrow> 'v \<Rightarrow> nat \<Rightarrow> 'v approvals
   \<Rightarrow> 'v approvals \<times> (approval_error + 'v pending_approval)" where
  "consume slot i tool_call_id args now ap =
     (let ap1 = expire_locked slot now ap in
      case map_of (ap_entries ap1) i of
        None \<Rightarrow> (ap1, Inl ENotFound)
      | Some e \<Rightarrow>
          if ae_decision e \<noteq> Some Approved
          then (ap1, Inl (if ae_decision e = Some DecisionExpired then EExpired else ENotApproved))
          else if pa_tool_call_id (ae_pending e) \<noteq> tool_call_id \<or> pa_args (ae_pending e) \<noteq> args
          then (ap1, Inl EBindingMismatch)
          else if ae_consumed e then (ap1, Inl EConsumed)
          else (set_entry i (\<lambda>e. e\<lparr>ae_consumed := True\<rparr>) ap1, Inr (ae_pending e)))"

definition get_approval ::
  "coordination_settings \<Rightarrow> string \<Rightarrow> string \<Rightarrow> nat \<Rightarrow> 'v approvals
   \<Rightarrow> 'v approvals \<times> (approval_error + 'v pending_approval)" where
  "get_approval slot caller_parent i now ap =
     (let ap1 = expire_locked slot now ap in
      (ap1, case map_of (ap_entries ap1) i of
              None \<Rightarrow> Inl ENotFound
            | Some e \<Rightarrow> if pa_parent_chat_id (ae_pending e) \<noteq> caller_parent then Inl ENotOwner
                        else Inr (ae_pending e)))"

definition by_age :: "'v pending_approval list \<Rightarrow> 'v pending_approval list" where
  "by_age ps = sort_key (\<lambda>p. (pa_created_at p, pa_id p)) ps"

definition list_for_parent ::
  "coordination_settings \<Rightarrow> string \<Rightarrow> nat \<Rightarrow> 'v approvals \<Rightarrow> 'v approvals \<times> 'v pending_approval list" where
  "list_for_parent slot caller_parent now ap =
     (let ap1 = expire_locked slot now ap in
      (ap1, by_age (map ae_pending (filter (\<lambda>e. pa_parent_chat_id (ae_pending e) = caller_parent)
              (amap_values (ap_entries ap1))))))"

definition undecided ::
  "coordination_settings \<Rightarrow> nat \<Rightarrow> 'v approvals \<Rightarrow> 'v approvals \<times> 'v pending_approval list" where
  "undecided slot now ap =
     (let ap1 = expire_locked slot now ap in
      (ap1, by_age (map ae_pending (filter (\<lambda>e. ae_decision e = None) (amap_values (ap_entries ap1))))))"

definition expire :: "coordination_settings \<Rightarrow> nat \<Rightarrow> 'v approvals \<Rightarrow> 'v approvals" where
  "expire slot now ap = expire_locked slot now ap"

definition approvals_len :: "'v approvals \<Rightarrow> nat" where
  "approvals_len ap = length (ap_entries ap)"

definition wait_now ::
  "coordination_settings \<Rightarrow> string \<Rightarrow> nat \<Rightarrow> 'v approvals \<Rightarrow> 'v approvals \<times> (approval_error + approval_decision)" where
  "wait_now slot i now ap =
     (let ap1 = expire_locked slot now ap in
      (ap1, case map_of (ap_entries ap1) i of
              None \<Rightarrow> Inl ENotFound
            | Some e \<Rightarrow> (case ae_decision e of None \<Rightarrow> Inl ENotApproved | Some d \<Rightarrow> Inr d)))"

section \<open>Executions\<close>

text \<open>Every method that changes the table; the readers that only expire are \<open>OpExpire\<close>.\<close>

datatype 'v approval_op =
    OpRegister "'v pending_approval" nat
  | OpGrantOnce string string nat string nat
  | OpConsumeOnce string string nat string nat
  | OpDecide string nat string bool "string option" nat
  | OpCancelApproval string nat string nat
  | OpConsume string string 'v nat
  | OpExpire nat

primrec approval_step :: "coordination_settings \<Rightarrow> 'v approvals \<Rightarrow> 'v approval_op \<Rightarrow> 'v approvals" where
  "approval_step slot ap (OpRegister p now) = fst (register slot p now ap)"
| "approval_step slot ap (OpGrantOnce parent i generation wrapper now) =
     fst (grant_user_once slot parent i generation wrapper now ap)"
| "approval_step slot ap (OpConsumeOnce parent i generation wrapper now) =
     fst (consume_user_once slot parent i generation wrapper now ap)"
| "approval_step slot ap (OpDecide parent generation i approve reason now) =
     fst (decide_with_reason slot parent generation i approve reason now ap)"
| "approval_step slot ap (OpCancelApproval parent generation i now) = fst (cancel slot parent generation i now ap)"
| "approval_step slot ap (OpConsume i tool_call_id args now) = fst (consume slot i tool_call_id args now ap)"
| "approval_step slot ap (OpExpire now) = expire slot now ap"

end
