(* ===== verification/Retention.thy ===== *)
theory Retention
  imports Prelude
begin

text \<open>
  Tables that forget: the entries of a kind beyond a limit are removed, the oldest first.
  The approval registry forgets expired requests this way, the question registry settled
  questions. Also the interface of a table whose final entries never change
  (\<open>settling_table\<close>), for sequences of operations.
\<close>

section \<open>Removing the oldest\<close>

definition aged_keys :: "('e \<Rightarrow> bool) \<Rightarrow> ('e \<Rightarrow> 'a) \<Rightarrow> ('k, 'e) amap \<Rightarrow> ('a \<times> 'k) list" where
  "aged_keys P age m = map (\<lambda>(k, e). (age e, k)) (filter (\<lambda>(k, e). P e) m)"

definition oldest_keys ::
  "('e \<Rightarrow> bool) \<Rightarrow> ('e \<Rightarrow> 'a::linorder) \<Rightarrow> nat \<Rightarrow> ('k::linorder, 'e) amap \<Rightarrow> ('a \<times> 'k) list" where
  "oldest_keys P age cap m = take (length (aged_keys P age m) - cap) (sort (aged_keys P age m))"

definition drop_oldest ::
  "('e \<Rightarrow> bool) \<Rightarrow> ('e \<Rightarrow> 'a::linorder) \<Rightarrow> nat \<Rightarrow> ('k::linorder, 'e) amap \<Rightarrow> ('k, 'e) amap" where
  "drop_oldest P age cap m = foldl (\<lambda>m (_, k). AList.delete k m) m (oldest_keys P age cap m)"

lemma map_of_delete_fold:
  "map_of (foldl (\<lambda>m (_, k). AList.delete k m) m xs) k = (if k \<in> snd ` set xs then None else map_of m k)"
  by (induction xs arbitrary: m) (auto simp: alist_simps)

lemma amap_wf_delete_fold: "amap_wf m \<Longrightarrow> amap_wf (foldl (\<lambda>m (_, k). AList.delete k m) m xs)"
  by (induction xs arbitrary: m) auto

lemma amap_wf_drop_oldest [simp]: "amap_wf m \<Longrightarrow> amap_wf (drop_oldest P age cap m)"
  by (simp add: drop_oldest_def amap_wf_delete_fold)

lemma map_of_drop_oldest:
  "map_of (drop_oldest P age cap m) k = (if k \<in> snd ` set (oldest_keys P age cap m) then None else map_of m k)"
  by (simp add: drop_oldest_def map_of_delete_fold)

lemma aged_keys_mem:
  assumes "amap_wf m"
  shows "(t, k) \<in> set (aged_keys P age m) \<longleftrightarrow> (\<exists>e. map_of m k = Some e \<and> P e \<and> age e = t)"
  using amap_mem_iff [OF assms] by (force simp: aged_keys_def)

lemma oldest_keys_mem:
  assumes "amap_wf m" "k \<in> snd ` set (oldest_keys P age cap m)"
  obtains e where "map_of m k = Some e" "P e"
proof -
  from assms(2) obtain t where "(t, k) \<in> set (aged_keys P age m)"
    by (auto simp: oldest_keys_def dest: in_set_takeD)
  with that show thesis by (auto simp: aged_keys_mem [OF assms(1)])
qed

lemma length_aged_keys: "length (aged_keys P age m) = amap_count P m"
  by (simp add: aged_keys_def amap_count_def amap_values_def filter_map comp_def split_def)

lemma distinct_oldest_keys:
  assumes "amap_wf m" shows "distinct (map snd (oldest_keys P age cap m))"
proof -
  have "distinct (map snd (aged_keys P age m))"
    using assms by (auto simp: aged_keys_def distinct_map comp_def split_def intro: distinct_filter inj_on_subset)
  moreover have "mset (map snd (sort (aged_keys P age m))) = mset (map snd (aged_keys P age m))" by simp
  ultimately have "distinct (map snd (sort (aged_keys P age m)))" by (metis mset_eq_imp_distinct_iff)
  then show ?thesis by (simp add: oldest_keys_def take_map [symmetric])
qed

lemma count_delete_fold:
  "amap_wf m \<Longrightarrow> distinct (map snd xs) \<Longrightarrow> \<forall>(t, k) \<in> set xs. \<exists>e. map_of m k = Some e \<and> P e \<Longrightarrow>
   amap_count P (foldl (\<lambda>m (_, k). AList.delete k m) m xs) + length xs = amap_count P m"
proof (induction xs arbitrary: m)
  case Nil
  then show ?case by simp
next
  case (Cons x xs)
  obtain t k where x: "x = (t, k)" by (cases x)
  with Cons.prems obtain e where e: "map_of m k = Some e" "P e" by auto
  let ?m = "AList.delete k m"
  have rest: "\<exists>e. map_of ?m j = Some e \<and> P e" if "(s, j) \<in> set xs" for s j
  proof -
    have "j \<noteq> k" using Cons.prems(2) that by (auto simp: x rev_image_eqI)
    with Cons.prems(3) that show ?thesis by (auto simp: alist_simps)
  qed
  have "amap_count P (foldl (\<lambda>m (_, k). AList.delete k m) ?m xs) + length xs = amap_count P ?m"
    by (rule Cons.IH) (use Cons.prems rest in \<open>auto simp: x\<close>)
  with amap_count_delete [OF Cons.prems(1) e(1), of P] e(2) show ?case by (simp add: x)
qed

lemma drop_oldest_count:
  assumes "amap_wf m" shows "amap_count P (drop_oldest P age cap m) = min (amap_count P m) cap"
proof -
  have "\<forall>(t, k) \<in> set (oldest_keys P age cap m). \<exists>e. map_of m k = Some e \<and> P e"
  proof safe
    fix t k
    assume "(t, k) \<in> set (oldest_keys P age cap m)"
    then have "k \<in> snd ` set (oldest_keys P age cap m)" by force
    then show "\<exists>e. map_of m k = Some e \<and> P e" by (rule oldest_keys_mem [OF assms]) blast
  qed
  from count_delete_fold [OF assms distinct_oldest_keys [OF assms] this]
  show ?thesis by (simp add: drop_oldest_def oldest_keys_def length_aged_keys)
qed

lemma drop_oldest_spares:
  assumes "amap_wf m" "map_of m k = Some e" "\<not> P e"
  shows "map_of (drop_oldest P age cap m) k = Some e"
  using assms oldest_keys_mem [OF assms(1), of k P age cap] by (auto simp: map_of_drop_oldest)

lemma drop_oldest_Some: "map_of (drop_oldest P age cap m) k = Some e \<Longrightarrow> map_of m k = Some e"
  by (simp add: map_of_drop_oldest split: if_splits)

text \<open>What is forgotten is at most as old as what is kept: ages first, then keys.\<close>

lemma drop_oldest_order:
  assumes wf: "amap_wf m" and gone: "map_of m k = Some e" "map_of (drop_oldest P age cap m) k = None"
    and kept: "map_of (drop_oldest P age cap m) k' = Some e'" "P e'"
  shows "(age e, k) < (age e', k')"
proof -
  let ?xs = "sort (aged_keys P age m)" and ?n = "length (aged_keys P age m) - cap"
  from gone have "k \<in> snd ` set (oldest_keys P age cap m)" by (auto simp: map_of_drop_oldest split: if_splits)
  then obtain t where "(t, k) \<in> set (take ?n ?xs)" by (auto simp: oldest_keys_def)
  moreover from this have "t = age e" using gone(1) wf by (auto dest!: in_set_takeD simp: aged_keys_mem)
  ultimately have one: "(age e, k) \<in> set (take ?n ?xs)" by simp
  have k': "map_of m k' = Some e'" "k' \<notin> snd ` set (take ?n ?xs)"
    using kept(1) by (auto simp: map_of_drop_oldest oldest_keys_def split: if_splits)
  then have "(age e', k') \<in> set ?xs" "(age e', k') \<notin> set (take ?n ?xs)"
    using kept(2) wf by (auto simp: aged_keys_mem rev_image_eqI)
  then have two: "(age e', k') \<in> set (drop ?n ?xs)" by (metis Un_iff append_take_drop_id set_append)
  have "sorted (take ?n ?xs @ drop ?n ?xs)" by simp
  with one two have "(age e, k) \<le> (age e', k')" unfolding sorted_append by blast
  moreover have "(age e, k) \<noteq> (age e', k')" using gone(2) kept(1) by auto
  ultimately show ?thesis by (metis order.not_eq_order_implies_strict)
qed

lemma count_split: "amap_count P m + amap_count (\<lambda>e. \<not> P e) m = length m"
  by (induction m) (auto split: prod.splits)

section \<open>Tables with final entries\<close>

text \<open>
  The interface of a table in which a final entry is kept as it is or forgotten, unless an
  operation brings its key anew.
\<close>

locale settling_table =
  fixes get :: "'s \<Rightarrow> 'k \<Rightarrow> 'e option" and step :: "'s \<Rightarrow> 'op \<Rightarrow> 's"
    and ok :: "'s \<Rightarrow> bool" and final :: "'e \<Rightarrow> bool" and renews :: "'op \<Rightarrow> 'k \<Rightarrow> bool"
  assumes ok_step: "ok s \<Longrightarrow> ok (step s op)"
    and final_step: "ok s \<Longrightarrow> get s k = Some e \<Longrightarrow> final e \<Longrightarrow> \<not> renews op k \<Longrightarrow> get (step s op) k \<in> {None, Some e}"
    and absent_step: "ok s \<Longrightarrow> get s k = None \<Longrightarrow> \<not> renews op k \<Longrightarrow> get (step s op) k = None"
begin

lemma run_absent:
  "ok s \<Longrightarrow> get s k = None \<Longrightarrow> (\<And>op. op \<in> set ops \<Longrightarrow> \<not> renews op k) \<Longrightarrow> get (foldl step s ops) k = None"
  by (induction ops arbitrary: s) (auto simp: ok_step absent_step)

lemma run_final:
  "ok s \<Longrightarrow> get s k = Some e \<Longrightarrow> final e \<Longrightarrow> (\<And>op. op \<in> set ops \<Longrightarrow> \<not> renews op k) \<Longrightarrow>
   get (foldl step s ops) k \<in> {None, Some e}"
proof (induction ops arbitrary: s)
  case (Cons op ops)
  have "get (step s op) k \<in> {None, Some e}" by (rule final_step) (use Cons.prems in auto)
  then show ?case
    using Cons.IH [of "step s op"] Cons.prems run_absent [of "step s op" k ops] by (auto simp: ok_step)
qed simp

end

end
