(* ===== verification/Approval_Properties.thy ===== *)
theory Approval_Properties
  imports Approval Retention
begin

text \<open>
  What the approval registry guarantees: its table is bounded, an approval comes only
  from the parent and generation it was asked of, decisions are final, an approved call
  and a one-time grant are used at most once and only for the call they were given for,
  and a wait always ends.
\<close>

section \<open>Expiry and purging\<close>

abbreviation expired :: "'v approval_entry \<Rightarrow> bool" where
  "expired e \<equiv> ae_decision e = Some DecisionExpired"

lemma purge_drop_oldest: "purge cap m = drop_oldest expired (\<lambda>e. pa_expires_at (ae_pending e)) cap m"
  by (simp add: purge_def drop_oldest_def oldest_keys_def aged_keys_def expired_keys_def Let_def sat_sub_def)

lemma map_of_mark_expired: "map_of (mark_expired now m) k = map_option (expire_entry now) (map_of m k)"
  by (induction m) (auto simp: mark_expired_def)

lemma mark_expired_keys [simp]: "map fst (mark_expired now m) = map fst m"
  by (induction m) (auto simp: mark_expired_def)

text \<open>What a table holds under a key after expiry: nothing, or the marked entry.\<close>

lemma expire_locked_cases:
  assumes wf: "amap_wf (ap_entries ap)"
  obtains (none) "map_of (ap_entries (expire_locked slot now ap)) k = None" "map_of (ap_entries ap) k = None"
  | (purged) e where "map_of (ap_entries (expire_locked slot now ap)) k = None"
      "map_of (ap_entries ap) k = Some e" "expired (expire_entry now e)"
  | (kept) e where "map_of (ap_entries (expire_locked slot now ap)) k = Some (expire_entry now e)"
      "map_of (ap_entries ap) k = Some e"
proof -
  let ?m = "mark_expired now (ap_entries ap)"
  let ?m1 = "drop_oldest expired (\<lambda>e. pa_expires_at (ae_pending e)) (capacity slot ap) ?m"
  have m: "ap_entries (expire_locked slot now ap) = ?m1" by (simp add: expire_locked_def purge_drop_oldest)
  have wf': "amap_wf ?m" using wf by simp
  show thesis
  proof (cases "map_of (ap_entries ap) k")
    case None
    with m none drop_oldest_Some [of expired _ _ ?m k] show thesis
      by (metis map_of_mark_expired not_None_eq option.map_disc_iff)
  next
    case (Some e)
    then have e: "map_of ?m k = Some (expire_entry now e)" by (simp add: map_of_mark_expired)
    show thesis
    proof (cases "map_of ?m1 k")
      case None
      then have "expired (expire_entry now e)" using drop_oldest_spares [OF wf' e, of expired "\<lambda>e. pa_expires_at (ae_pending e)" "capacity slot ap"] by auto
      with purged [of e] Some None m show thesis by simp
    next
      case (Some e')
      with drop_oldest_Some [OF this] kept [of e] e m \<open>map_of (ap_entries ap) k = Some e\<close> show thesis by simp
    qed
  qed
qed

lemma expire_locked_frame [simp]:
  "ap_max_pending (expire_locked slot now ap) = ap_max_pending ap"
  "capacity slot (expire_locked slot now ap) = capacity slot ap"
  by (simp_all add: expire_locked_def capacity_def)

lemma expire_locked_wf [simp]: "amap_wf (ap_entries ap) \<Longrightarrow> amap_wf (ap_entries (expire_locked slot now ap))"
  by (simp add: expire_locked_def purge_drop_oldest)

lemma set_entry_frame [simp]:
  "ap_max_pending (set_entry i f ap) = ap_max_pending ap" "capacity slot (set_entry i f ap) = capacity slot ap"
  "map fst (ap_entries (set_entry i f ap)) = map fst (ap_entries ap)"
  "map_of (ap_entries (set_entry i f ap)) k = (if k = i then map_option f (map_of (ap_entries ap) k) else map_of (ap_entries ap) k)"
  by (simp_all add: set_entry_def capacity_def alist_simps)

section \<open>The table stays bounded\<close>

definition approvals_inv :: "coordination_settings \<Rightarrow> nat \<Rightarrow> 'v approvals \<Rightarrow> bool" where
  "approvals_inv slot cap ap \<longleftrightarrow>
     amap_wf (ap_entries ap) \<and> capacity slot ap = cap \<and>
     (\<forall>k e. map_of (ap_entries ap) k = Some e \<longrightarrow> pa_id (ae_pending e) = k) \<and>
     amap_count expired (ap_entries ap) \<le> cap \<and> amap_count (\<lambda>e. \<not> expired e) (ap_entries ap) \<le> cap"

lemma approvals_inv_wf: "approvals_inv slot cap ap \<Longrightarrow> amap_wf (ap_entries ap)"
  by (simp add: approvals_inv_def)

lemma approvals_invI:
  "amap_wf (ap_entries ap) \<Longrightarrow> capacity slot ap = cap \<Longrightarrow>
   (\<And>k e. map_of (ap_entries ap) k = Some e \<Longrightarrow> pa_id (ae_pending e) = k) \<Longrightarrow>
   amap_count expired (ap_entries ap) \<le> cap \<Longrightarrow> amap_count (\<lambda>e. \<not> expired e) (ap_entries ap) \<le> cap \<Longrightarrow>
   approvals_inv slot cap ap"
  unfolding approvals_inv_def by blast

lemma approvals_inv_counts:
  "approvals_inv slot cap ap \<Longrightarrow> capacity slot ap = cap"
  "approvals_inv slot cap ap \<Longrightarrow> amap_count expired (ap_entries ap) \<le> cap"
  "approvals_inv slot cap ap \<Longrightarrow> amap_count (\<lambda>e. \<not> expired e) (ap_entries ap) \<le> cap"
  unfolding approvals_inv_def by blast+

lemma approvals_inv_id: "approvals_inv slot cap ap \<Longrightarrow> map_of (ap_entries ap) k = Some e \<Longrightarrow> pa_id (ae_pending e) = k"
  unfolding approvals_inv_def by blast

lemma expire_entry_pending [simp]: "ae_pending (expire_entry now e) = ae_pending e"
  by (simp add: expire_entry_def)

lemma not_expired_entry: "\<not> expired (expire_entry now e) \<Longrightarrow> expire_entry now e = e \<and> \<not> expired e"
  by (auto simp: expire_entry_def split: if_splits)

lemma inv_expire_locked:
  assumes inv: "approvals_inv slot cap ap"
  shows "approvals_inv slot cap (expire_locked slot now ap)"
proof -
  note wf = approvals_inv_wf [OF inv]
  let ?ap1 = "expire_locked slot now ap"
  have "amap_count (\<lambda>e. \<not> expired e) (ap_entries ?ap1) \<le> amap_count (\<lambda>e. \<not> expired e) (ap_entries ap)"
  proof (rule amap_count_mono)
    fix k e'
    assume k: "map_of (ap_entries ?ap1) k = Some e'" "\<not> expired e'"
    from wf show "\<exists>e. map_of (ap_entries ap) k = Some e \<and> \<not> expired e"
      by (rule expire_locked_cases [of ap slot now k]) (use k not_expired_entry in auto)
  qed (use wf in simp_all)
  moreover have "amap_count expired (ap_entries ?ap1) \<le> cap"
    using wf approvals_inv_counts(1) [OF inv] by (simp add: expire_locked_def purge_drop_oldest drop_oldest_count)
  moreover have "pa_id (ae_pending e') = k" if k: "map_of (ap_entries ?ap1) k = Some e'" for k e'
  proof (rule expire_locked_cases [OF wf, of slot now k])
    fix e
    assume "map_of (ap_entries ?ap1) k = Some (expire_entry now e)" "map_of (ap_entries ap) k = Some e"
    with k approvals_inv_id [OF inv, of k e] show ?thesis by auto
  qed (use k in simp_all)
  ultimately show ?thesis using wf approvals_inv_counts [OF inv] by (intro approvals_invI) simp_all
qed

lemma inv_set_entry:
  assumes inv: "approvals_inv slot cap ap" and i: "map_of (ap_entries ap) i = Some e"
    and f: "ae_pending (f e) = ae_pending e" "expired (f e) \<longleftrightarrow> expired e"
  shows "approvals_inv slot cap (set_entry i f ap)"
proof -
  note count = amap_count_modify [OF approvals_inv_wf [OF inv] i]
  have "pa_id (ae_pending d) = k" if "map_of (ap_entries (set_entry i f ap)) k = Some d" for k d
    using that i f(1) approvals_inv_id [OF inv, of k] by (simp split: if_splits)
  moreover have "amap_count expired (ap_entries (set_entry i f ap)) = amap_count expired (ap_entries ap)"
    "amap_count (\<lambda>e. \<not> expired e) (ap_entries (set_entry i f ap)) = amap_count (\<lambda>e. \<not> expired e) (ap_entries ap)"
    using count [of expired f] count [of "\<lambda>e. \<not> expired e" f] f(2) by (simp_all add: set_entry_def split: if_splits)
  ultimately show ?thesis
    using approvals_inv_wf [OF inv] approvals_inv_counts [OF inv] by (intro approvals_invI) simp_all
qed

lemma inv_register:
  assumes inv: "approvals_inv slot cap ap" shows "approvals_inv slot cap (fst (register slot p now ap))"
proof -
  let ?ap1 = "expire_locked slot now ap"
  have inv1: "approvals_inv slot cap ?ap1" by (rule inv_expire_locked [OF inv])
  have "approvals_inv slot cap (?ap1\<lparr>ap_entries := AList.update (pa_id p) (fresh_entry p) (ap_entries ?ap1)\<rparr>)"
    if new: "map_of (ap_entries ?ap1) (pa_id p) = None"
      and room: "amap_count (\<lambda>e. pa_expires_at (ae_pending e) > now) (ap_entries ?ap1) < cap"
  proof -
    have "amap_count (\<lambda>e. \<not> expired e) (ap_entries ?ap1) \<le>
        amap_count (\<lambda>e. pa_expires_at (ae_pending e) > now) (ap_entries ?ap1)"
    proof (rule amap_count_mono)
      fix k e'
      assume k: "map_of (ap_entries ?ap1) k = Some e'" "\<not> expired e'"
      from approvals_inv_wf [OF inv] show "\<exists>e. map_of (ap_entries ?ap1) k = Some e \<and> now < pa_expires_at (ae_pending e)"
        by (rule expire_locked_cases [of ap slot now k]) (use k in \<open>auto simp: expire_entry_def split: if_splits\<close>)
    qed (use approvals_inv_wf [OF inv1] in simp_all)
    then show ?thesis
      using room new approvals_inv_wf [OF inv1] approvals_inv_counts [OF inv1] approvals_inv_id [OF inv1]
      by (intro approvals_invI)
        (auto simp: amap_count_update_new fresh_entry_def alist_simps capacity_def split: if_splits)
  qed
  moreover have "capacity slot ?ap1 = cap" by (rule approvals_inv_counts(1) [OF inv1])
  ultimately show ?thesis using inv1 by (auto simp: register_def Let_def not_le)
qed

lemma inv_step:
  assumes inv: "approvals_inv slot cap ap" shows "approvals_inv slot cap (approval_step slot ap op)"
proof (cases op)
  case (OpRegister p now)
  then show ?thesis by (simp add: inv_register [OF inv])
next
  case (OpGrantOnce parent i generation wrapper now)
  then show ?thesis
    using inv_expire_locked [OF inv]
    by (auto simp: grant_user_once_def Let_def intro!: inv_set_entry split: option.split sum.split)
next
  case (OpConsumeOnce parent i generation wrapper now)
  then show ?thesis
    using inv_expire_locked [OF inv]
    by (auto simp: consume_user_once_def Let_def intro!: inv_set_entry split: option.split sum.split)
next
  case (OpDecide parent generation i approve reason now)
  then show ?thesis
    using inv_expire_locked [OF inv]
    by (auto simp: decide_with_reason_def Let_def intro!: inv_set_entry split: option.split)
next
  case (OpCancelApproval parent generation i now)
  then show ?thesis
    using inv_expire_locked [OF inv]
    by (auto simp: cancel_def Let_def intro!: inv_set_entry split: option.split)
next
  case (OpConsume i tool_call_id args now)
  then show ?thesis
    using inv_expire_locked [OF inv]
    by (auto simp: consume_def Let_def intro!: inv_set_entry split: option.split)
next
  case (OpExpire now)
  then show ?thesis by (simp add: expire_def inv_expire_locked [OF inv])
qed

interpretation approval_registry: machine "approvals_new cap" "approval_step slot" "approvals_inv slot cap" for cap slot
  by unfold_locales (simp_all add: inv_step, simp add: approvals_inv_def approvals_new_def capacity_def)

interpretation settings_registry: machine approvals_from_settings "approval_step slot"
    "approvals_inv slot (max_pending_approvals slot)" for slot
  by unfold_locales (simp_all add: inv_step, simp add: approvals_inv_def approvals_from_settings_def capacity_def)

text \<open>
  The table is bounded whatever is requested and however the clock moves: at most as
  many requests as the capacity are undecided or decided and not yet expired, and at most
  as many expired ones are remembered.
\<close>

lemma approvals_bounded:
  "amap_count (\<lambda>e. \<not> expired e) (ap_entries (foldl (approval_step slot) (approvals_new cap) ops)) \<le> cap \<and>
   approvals_len (foldl (approval_step slot) (approvals_new cap) ops) \<le> 2 * cap"
proof -
  let ?ap = "foldl (approval_step slot) (approvals_new cap) ops"
  have "approvals_inv slot cap ?ap" by (rule approval_registry.reachable_inv)
  with approvals_inv_counts [OF this] count_split [of expired "ap_entries ?ap"] show ?thesis
    by (simp add: approvals_len_def)
qed

section \<open>What an operation does to one request\<close>

text \<open>The changes an operation makes to the entry of request \<open>i\<close>, after expiry.\<close>

inductive approval_move :: "'v approval_op \<Rightarrow> string \<Rightarrow> 'v approval_entry \<Rightarrow> 'v approval_entry \<Rightarrow> bool" for op i where
  same: "approval_move op i e e"
| granted: "ae_decision e = None \<Longrightarrow> ae_user_once e = None \<Longrightarrow>
    approval_move op i e (e\<lparr>ae_user_once := Some \<lparr>ug_pending = ae_pending e, ug_wrapper = w, ug_consumed = False\<rparr>\<rparr>)"
| used_once: "ae_decision e = None \<Longrightarrow> ae_user_once e = Some g \<Longrightarrow>
    approval_move op i e (e\<lparr>ae_user_once := Some (g\<lparr>ug_consumed := True\<rparr>)\<rparr>)"
| decided: "op = OpDecide (pa_parent_chat_id (ae_pending e)) (pa_run_generation (ae_pending e)) i approve reason now \<Longrightarrow>
    ae_decision e = None \<Longrightarrow> d = (if approve then Approved else Rejected) \<Longrightarrow>
    approval_move op i e (e\<lparr>ae_decision := Some d, ae_denial_reason := r, ae_user_once := None\<rparr>)"
| explained: "ae_decision e = Some Rejected \<Longrightarrow> approval_move op i e (e\<lparr>ae_denial_reason := r\<rparr>)"
| withdrawn: "op = OpCancelApproval (pa_parent_chat_id (ae_pending e)) (pa_run_generation (ae_pending e)) i now \<Longrightarrow>
    ae_decision e = None \<Longrightarrow>
    approval_move op i e (e\<lparr>ae_decision := Some DecisionCancelled, ae_user_once := None\<rparr>)"
| consumed: "ae_decision e = Some Approved \<Longrightarrow> approval_move op i e (e\<lparr>ae_consumed := True\<rparr>)"

definition registers :: "string \<Rightarrow> 'v approval_op \<Rightarrow> bool" where
  "registers i op \<longleftrightarrow> (\<exists>p now. op = OpRegister p now \<and> pa_id p = i)"

definition op_time :: "'v approval_op \<Rightarrow> nat" where
  "op_time op = (case op of OpRegister _ now \<Rightarrow> now | OpGrantOnce _ _ _ _ now \<Rightarrow> now
     | OpConsumeOnce _ _ _ _ now \<Rightarrow> now | OpDecide _ _ _ _ _ now \<Rightarrow> now | OpCancelApproval _ _ _ now \<Rightarrow> now
     | OpConsume _ _ _ now \<Rightarrow> now | OpExpire now \<Rightarrow> now)"

lemma check_user_once_ok:
  "check_user_once_entry e parent generation = Inr u \<longleftrightarrow>
     pa_parent_chat_id (ae_pending e) = parent \<and> pa_run_generation (ae_pending e) = generation \<and> ae_decision e = None"
  by (auto simp: check_user_once_entry_def split: option.splits approval_decision.splits)

lemma step_after_expiry:
  fixes ap1 :: "'v approvals"
  assumes ap1: "ap1 = expire_locked slot (op_time op) ap"
    and i: "map_of (ap_entries (approval_step slot ap op)) i = Some e'" and old: "\<not> registers i op"
  shows "\<exists>e. map_of (ap_entries ap1) i = Some e \<and> approval_move op i e e'"
proof (cases op)
  case (OpRegister p now)
  with assms show ?thesis
    by (auto simp: register_def Let_def op_time_def registers_def alist_simps approval_move.same split: if_splits)
next
  case (OpGrantOnce parent j generation wrapper now)
  with ap1 i show ?thesis
    by (auto simp: grant_user_once_def Let_def op_time_def check_user_once_ok approval_move.same
        intro!: approval_move.granted split: option.splits sum.splits if_splits)
next
  case (OpConsumeOnce parent j generation wrapper now)
  with ap1 i show ?thesis
    by (auto simp: consume_user_once_def Let_def op_time_def check_user_once_ok approval_move.same
        intro!: approval_move.used_once split: option.splits sum.splits if_splits)
next
  case (OpDecide parent generation j approve reason now)
  with ap1 i show ?thesis
    by (auto simp: decide_with_reason_def Let_def op_time_def approval_move.same
        intro!: approval_move.decided approval_move.explained split: option.splits if_splits)
next
  case (OpCancelApproval parent generation j now)
  with ap1 i show ?thesis
    by (auto simp: cancel_def Let_def op_time_def approval_move.same
        intro!: approval_move.withdrawn split: option.splits if_splits)
next
  case (OpConsume j tool_call_id args now)
  with ap1 i show ?thesis
    by (auto simp: consume_def Let_def op_time_def approval_move.same
        intro!: approval_move.consumed split: option.splits if_splits)
next
  case (OpExpire now)
  with ap1 i show ?thesis by (auto simp: expire_def op_time_def approval_move.same)
qed

lemma step_entry:
  assumes wf: "amap_wf (ap_entries ap)"
    and i: "map_of (ap_entries (approval_step slot ap op)) i = Some e'" and old: "\<not> registers i op"
  obtains e where "map_of (ap_entries ap) i = Some e" "approval_move op i (expire_entry (op_time op) e) e'"
proof -
  from step_after_expiry [OF refl i old] obtain d where
    d: "map_of (ap_entries (expire_locked slot (op_time op) ap)) i = Some d" "approval_move op i d e'" by blast
  from wf show thesis
    by (rule expire_locked_cases [of ap slot "op_time op" i]) (use d that in auto)
qed

abbreviation approvals_reached :: "coordination_settings \<Rightarrow> nat \<Rightarrow> 'v approval_op list \<Rightarrow> 'v approvals" where
  "approvals_reached slot cap ops \<equiv> foldl (approval_step slot) (approvals_new cap) ops"

lemma inv_reached: "approvals_inv slot cap (approvals_reached slot cap ops)"
  by (rule approval_registry.reachable_inv)

text \<open>What holds of a request and is kept by every move holds as long as the request is there.\<close>

lemma run_keeps:
  assumes "approvals_inv slot cap ap" "\<forall>op \<in> set ops. \<not> registers i op"
    and "\<And>e. map_of (ap_entries ap) i = Some e \<Longrightarrow> P e"
    and keep: "\<And>op e e'. P e \<Longrightarrow> approval_move op i (expire_entry (op_time op) e) e' \<Longrightarrow> P e'"
    and "map_of (ap_entries (foldl (approval_step slot) ap ops)) i = Some e'"
  shows "P e'"
  using assms(1,2,3,5)
proof (induction ops arbitrary: ap)
  case Nil
  then show ?case by simp
next
  case (Cons op ops)
  let ?ap1 = "approval_step slot ap op"
  have "P d" if d: "map_of (ap_entries ?ap1) i = Some d" for d
  proof -
    have old: "\<not> registers i op" using Cons.prems(2) by simp
    obtain e where "map_of (ap_entries ap) i = Some e" "approval_move op i (expire_entry (op_time op) e) d"
      by (rule step_entry [OF approvals_inv_wf [OF Cons.prems(1)] d old])
    with Cons.prems(3) keep show ?thesis by blast
  qed
  then show ?case using Cons.IH [OF inv_step [OF Cons.prems(1)], of op] Cons.prems by simp
qed

lemma move_pending: "approval_move op i (expire_entry now e) e' \<Longrightarrow> ae_pending e' = ae_pending e"
  by (cases rule: approval_move.cases) auto

lemma move_decision:
  "approval_move op i (expire_entry now e) e' \<Longrightarrow> ae_decision e = Some d \<Longrightarrow>
   ae_decision e' = Some d \<or> ae_decision e' = Some DecisionExpired"
  by (cases rule: approval_move.cases) (auto simp: expire_entry_def split: if_splits)

lemma move_consumed: "approval_move op i (expire_entry now e) e' \<Longrightarrow> ae_consumed e \<Longrightarrow> ae_consumed e'"
  by (cases rule: approval_move.cases) (auto simp: expire_entry_def split: if_splits)

text \<open>A request that its parent approves, evaluated: the witnesses below are taken at these states.\<close>

definition demo_request :: "string pending_approval" where
  "demo_request =
     \<lparr>pa_id = ''a'', pa_child_work_id = ''c'', pa_parent_chat_id = ''p'', pa_run_generation = 1,
      pa_tool_call_id = ''t'', pa_tool_name = ''shell'', pa_args = ''ls'', pa_digest = None,
      pa_created_at = 0, pa_expires_at = 10, pa_execution = None\<rparr>"

definition demo_entry :: "approval_decision option \<Rightarrow> bool \<Rightarrow> string approval_entry" where
  "demo_entry d used = \<lparr>ae_pending = demo_request, ae_decision = d, ae_denial_reason = None, ae_user_once = None,
     ae_consumed = used\<rparr>"

lemmas approval_eval = approvals_new_def register_def decide_with_reason_def consume_def Let_def expire_locked_def
  purge_def expired_keys_def mark_expired_def expire_entry_def capacity_def sat_sub_def amap_values_def same_call_def
  amap_count_def set_entry_def amap_modify_def fresh_entry_def demo_request_def demo_entry_def

lemma demo_registered:
  "ap_entries (approvals_reached slot 4 [OpRegister demo_request 0]) = [(''a'', demo_entry None False)]"
  by (simp add: approval_eval)

lemma demo_approved:
  "ap_entries (approvals_reached slot 4 [OpRegister demo_request 0, OpDecide ''p'' 1 ''a'' True None 1]) =
     [(''a'', demo_entry (Some Approved) False)]"
  by (simp add: approval_eval)

section \<open>Decisions\<close>

text \<open>
  Decisions are final. As long as a decided request is in the table, and until its id
  is registered anew, it is the same request and its decision is the one that was made,
  or expired.
\<close>

lemma decision_final:
  assumes "map_of (ap_entries (approvals_reached slot cap ops)) i = Some e" "ae_decision e = Some d"
    and "\<forall>op \<in> set later. \<not> registers i op"
    and "map_of (ap_entries (approvals_reached slot cap (ops @ later))) i = Some e'"
  shows "ae_pending e' = ae_pending e \<and> ae_decision e' \<in> {Some d, Some DecisionExpired}"
proof -
  define P :: "'a approval_entry \<Rightarrow> bool" where "P = (\<lambda>x. ae_pending x = ae_pending e \<and> ae_decision x \<in> {Some d, Some DecisionExpired})"
  have "P e'"
  proof (rule run_keeps [OF inv_reached assms(3)])
    show "map_of (ap_entries (foldl (approval_step slot) (approvals_reached slot cap ops) later)) i = Some e'"
      using assms(4) by simp
    show "P x" if "map_of (ap_entries (approvals_reached slot cap ops)) i = Some x" for x
      using that assms(1,2) by (simp add: P_def)
    show "P y" if "P x" "approval_move op i (expire_entry (op_time op) x) y" for op x y
      using that move_pending [OF that(2)] move_decision [OF that(2)] by (auto simp: P_def)
  qed
  then show ?thesis by (simp add: P_def)
qed

lemma decision_final_example:
  "\<exists>e'. map_of (ap_entries (approvals_reached default_settings 4
      [OpRegister demo_request 0, OpDecide ''p'' 1 ''a'' True None 1, OpDecide ''p'' 1 ''a'' False None 2])) ''a'' = Some e' \<and>
    ae_pending e' = demo_request \<and> ae_decision e' \<in> {Some Approved, Some DecisionExpired}"
proof -
  let ?ops = "[OpRegister demo_request 0, OpDecide ''p'' 1 ''a'' True None 1]"
  let ?later = "[OpDecide ''p'' 1 ''a'' False None 2]"
  have later: "map_of (ap_entries (approvals_reached default_settings 4 (?ops @ ?later))) ''a'' =
      Some (demo_entry (Some Approved) False)"
    by (simp add: approval_eval)
  have "map_of (ap_entries (approvals_reached default_settings 4 ?ops)) ''a'' = Some (demo_entry (Some Approved) False)"
    using demo_approved [of default_settings] by simp
  from decision_final [OF this _ _ later, of Approved] later show ?thesis
    by (simp add: demo_entry_def registers_def)
qed

text \<open>
  C17: only the owner approves. If a request is approved after an operation and was not
  before, the operation is the decision to approve it, by the parent it was addressed to
  and for the run generation it came from, and the request had neither been decided nor
  expired at the time.
\<close>

theorem approval_only_by_owner:
  assumes "map_of (ap_entries (approval_step slot (approvals_reached slot cap ops) op)) i = Some e'"
    and "ae_decision e' = Some Approved"
    and "\<And>e. map_of (ap_entries (approvals_reached slot cap ops)) i = Some e \<Longrightarrow> ae_decision e \<noteq> Some Approved"
  shows "\<exists>reason now e.
    op = OpDecide (pa_parent_chat_id (ae_pending e')) (pa_run_generation (ae_pending e')) i True reason now \<and>
    now < pa_expires_at (ae_pending e') \<and>
    map_of (ap_entries (approvals_reached slot cap ops)) i = Some e \<and> ae_pending e = ae_pending e' \<and> ae_decision e = None"
proof -
  let ?ap = "approvals_reached slot cap ops"
  have wf: "amap_wf (ap_entries ?ap)" by (rule approvals_inv_wf [OF inv_reached])
  have "\<not> registers i op"
  proof
    assume "registers i op"
    then obtain p now where p: "op = OpRegister p now" "pa_id p = i" by (auto simp: registers_def)
    with assms(1,2) have "map_of (ap_entries (expire_locked slot now ?ap)) i = Some e'"
      by (auto simp: register_def Let_def alist_simps fresh_entry_def split: if_splits)
    with assms(2,3) show False
      by (rule_tac expire_locked_cases [OF wf, of slot now i]) (auto simp: expire_entry_def split: if_splits)
  qed
  from step_entry [OF wf assms(1) this] obtain e where
    e: "map_of (ap_entries ?ap) i = Some e" and mv: "approval_move op i (expire_entry (op_time op) e) e'" .
  have "ae_decision e \<noteq> Some Approved" by (rule assms(3) [OF e])
  with mv assms(2) obtain reason now where
    "op = OpDecide (pa_parent_chat_id (ae_pending e)) (pa_run_generation (ae_pending e)) i True reason now"
    "ae_decision (expire_entry (op_time op) e) = None"
    by (cases rule: approval_move.cases) (auto simp: expire_entry_def split: if_splits)
  with e move_pending [OF mv] show ?thesis
    by (auto simp: expire_entry_def op_time_def split: if_splits)
qed

theorem approval_only_by_owner_witness:
  "let ap = approvals_reached default_settings 4 [OpRegister demo_request 0] in
   map_of (ap_entries (approval_step default_settings ap (OpDecide ''p'' 1 ''a'' True None 1))) ''a'' = Some (demo_entry (Some Approved) False) \<and>
   (\<exists>e. map_of (ap_entries ap) ''a'' = Some e \<and> ae_pending e = demo_request \<and> ae_decision e = None)"
proof -
  let ?ops = "[OpRegister demo_request 0]" and ?op = "OpDecide ''p'' 1 ''a'' True None 1"
  have "map_of (ap_entries (approval_step default_settings (approvals_reached default_settings 4 ?ops) ?op)) ''a'' =
      Some (demo_entry (Some Approved) False)"
    using demo_approved [of default_settings] by simp
  moreover have "ae_decision e \<noteq> Some Approved"
    if "map_of (ap_entries (approvals_reached default_settings 4 ?ops)) ''a'' = Some e" for e
    using that unfolding demo_registered by (auto simp: demo_entry_def)
  ultimately show ?thesis
    using approval_only_by_owner [of default_settings 4 ?ops ?op "''a''" "demo_entry (Some Approved) False"]
    by (auto simp: demo_entry_def Let_def)
qed

section \<open>Single use\<close>

lemma live_entry:
  assumes wf: "amap_wf (ap_entries ap)"
  shows "map_of (ap_entries (expire_locked slot now ap)) i = Some e \<and> \<not> expired e \<longleftrightarrow>
    map_of (ap_entries ap) i = Some e \<and> \<not> expired e \<and> now < pa_expires_at (ae_pending e)"
  using wf
  by (rule expire_locked_cases [of ap slot now i]) (auto simp: expire_entry_def split: if_splits)

text \<open>
  What \<open>consume\<close> accepts, exactly: the request is in the table, approved and not
  expired at that time, it was asked for this tool call with these arguments, and it was
  not consumed before. The answer is the request as registered.
\<close>

lemma consume_accepts_iff:
  "snd (consume slot i call args now (approvals_reached slot cap ops)) = Inr p \<longleftrightarrow>
   (\<exists>e. map_of (ap_entries (approvals_reached slot cap ops)) i = Some e \<and> ae_decision e = Some Approved \<and>
      now < pa_expires_at (ae_pending e) \<and> pa_tool_call_id (ae_pending e) = call \<and> pa_args (ae_pending e) = args \<and>
      \<not> ae_consumed e \<and> p = ae_pending e)"
proof -
  let ?ap = "approvals_reached slot cap ops"
  have live: "map_of (ap_entries (expire_locked slot now ?ap)) i = Some e \<and> ae_decision e = Some Approved \<longleftrightarrow>
      map_of (ap_entries ?ap) i = Some e \<and> ae_decision e = Some Approved \<and> now < pa_expires_at (ae_pending e)" for e
    using live_entry [OF approvals_inv_wf [OF inv_reached], of slot now slot cap ops i e] by auto
  have "snd (consume slot i call args now ?ap) = Inr p \<longleftrightarrow>
      (\<exists>e. (map_of (ap_entries (expire_locked slot now ?ap)) i = Some e \<and> ae_decision e = Some Approved) \<and>
         pa_tool_call_id (ae_pending e) = call \<and> pa_args (ae_pending e) = args \<and> \<not> ae_consumed e \<and> p = ae_pending e)"
    by (auto simp: consume_def Let_def split: option.splits)
  then show ?thesis unfolding live by auto
qed

lemma consume_marks:
  assumes "consume slot i call args now ap = (ap', Inr p)" "amap_wf (ap_entries ap)"
  shows "\<exists>e. map_of (ap_entries ap') i = Some e \<and> ae_consumed e"
  using assms by (auto simp: consume_def Let_def split: option.splits if_splits)

lemma consume_refuses:
  assumes "amap_wf (ap_entries ap)" "\<And>e. map_of (ap_entries ap) i = Some e \<Longrightarrow> ae_consumed e"
  shows "\<exists>err. snd (consume slot i call args now ap) = Inl err"
  using assms(1)
  by (rule expire_locked_cases [of ap slot now i])
    (use assms(2) in \<open>auto simp: consume_def Let_def expire_entry_def\<close>)

text \<open>
  C7: an approval is used at most once. After a successful \<open>consume\<close>, whatever operations
  follow, and until the id is registered anew, every further \<open>consume\<close> of the request
  fails.
\<close>

theorem consume_at_most_once:
  assumes "snd (consume slot i call args now (approvals_reached slot cap ops)) = Inr p"
    and "\<forall>op \<in> set later. \<not> registers i op"
  shows "\<exists>err. snd (consume slot i call' args' now'
    (approvals_reached slot cap (ops @ OpConsume i call args now # later))) = Inl err"
proof (rule consume_refuses)
  let ?ap = "approvals_reached slot cap ops" and ?ap1 = "approvals_reached slot cap (ops @ [OpConsume i call args now])"
  have "consume slot i call args now ?ap = (?ap1, Inr p)" using assms(1) by (simp add: prod_eq_iff)
  from consume_marks [OF this approvals_inv_wf [OF inv_reached]]
  have start: "ae_consumed x" if "map_of (ap_entries ?ap1) i = Some x" for x using that by auto
  show "amap_wf (ap_entries (approvals_reached slot cap (ops @ OpConsume i call args now # later)))"
    by (rule approvals_inv_wf [OF inv_reached])
  show "ae_consumed e" if "map_of (ap_entries (approvals_reached slot cap (ops @ OpConsume i call args now # later))) i = Some e" for e
  proof (rule run_keeps [OF inv_reached assms(2), where P = ae_consumed])
    show "map_of (ap_entries (foldl (approval_step slot) ?ap1 later)) i = Some e" using that by simp
  qed (use start move_consumed in blast)+
qed

theorem consume_at_most_once_witness:
  "\<exists>err. snd (consume default_settings ''a'' ''t'' ''ls'' 3 (approvals_reached default_settings 4
     [OpRegister demo_request 0, OpDecide ''p'' 1 ''a'' True None 1, OpConsume ''a'' ''t'' ''ls'' 2])) = Inl err"
proof -
  let ?ops = "[OpRegister demo_request 0, OpDecide ''p'' 1 ''a'' True None 1]"
  have "snd (consume default_settings ''a'' ''t'' ''ls'' 2 (approvals_reached default_settings 4 ?ops)) = Inr demo_request"
    by (simp add: approval_eval)
  from consume_at_most_once [OF this, of "[]" "''t''" "''ls''" 3] show ?thesis by simp
qed

definition spent :: "'v approval_entry \<Rightarrow> bool" where
  "spent e \<longleftrightarrow> ae_decision e \<noteq> None \<or> (\<exists>g. ae_user_once e = Some g \<and> ug_consumed g)"

lemma move_spent: "approval_move op i (expire_entry now e) e' \<Longrightarrow> spent e \<Longrightarrow> spent e'"
  by (cases rule: approval_move.cases) (auto simp: expire_entry_def spent_def split: if_splits)

lemma consume_once_marks:
  assumes "consume_user_once slot parent i generation w now ap = (ap', Inr u)"
  shows "\<exists>e. map_of (ap_entries ap') i = Some e \<and> spent e"
  using assms by (auto simp: consume_user_once_def Let_def spent_def split: option.splits sum.splits if_splits)

lemma consume_once_refuses:
  assumes "amap_wf (ap_entries ap)" "\<And>e. map_of (ap_entries ap) i = Some e \<Longrightarrow> spent e"
  shows "\<exists>err. snd (consume_user_once slot parent i generation w now ap) = Inl err"
proof (cases "map_of (ap_entries (expire_locked slot now ap)) i")
  case None
  then show ?thesis by (simp add: consume_user_once_def Let_def)
next
  case (Some e)
  from assms(1) have "spent e"
    by (rule expire_locked_cases [of ap slot now i]) (use Some assms(2) in \<open>auto simp: expire_entry_def spent_def\<close>)
  show ?thesis
  proof (cases "check_user_once_entry e parent generation")
    case (Inl err)
    with Some show ?thesis by (simp add: consume_user_once_def Let_def)
  next
    case (Inr u)
    then have "ae_decision e = None" by (simp add: check_user_once_ok)
    with \<open>spent e\<close> obtain g where "ae_user_once e = Some g" "ug_consumed g" by (auto simp: spent_def)
    with Some Inr show ?thesis by (simp add: consume_user_once_def Let_def)
  qed
qed

text \<open>
  A one-time grant of the user is used at most once: after a successful
  \<open>consume_user_once\<close>, until the id is registered anew, every further one fails -- also
  if a grant is asked for again, or the request is decided in between.
\<close>

lemma user_once_at_most_once:
  assumes "snd (consume_user_once slot parent i generation w now (approvals_reached slot cap ops)) = Inr u"
    and "\<forall>op \<in> set later. \<not> registers i op"
  shows "\<exists>err. snd (consume_user_once slot parent' i generation' w' now'
    (approvals_reached slot cap (ops @ OpConsumeOnce parent i generation w now # later))) = Inl err"
proof (rule consume_once_refuses)
  let ?ap = "approvals_reached slot cap ops"
  let ?ap1 = "approvals_reached slot cap (ops @ [OpConsumeOnce parent i generation w now])"
  have "consume_user_once slot parent i generation w now ?ap = (?ap1, Inr u)" using assms(1) by (simp add: prod_eq_iff)
  from consume_once_marks [OF this]
  have start: "spent x" if "map_of (ap_entries ?ap1) i = Some x" for x using that by auto
  show "amap_wf (ap_entries (approvals_reached slot cap (ops @ OpConsumeOnce parent i generation w now # later)))"
    by (rule approvals_inv_wf [OF inv_reached])
  show "spent e"
    if "map_of (ap_entries (approvals_reached slot cap (ops @ OpConsumeOnce parent i generation w now # later))) i = Some e" for e
  proof (rule run_keeps [OF inv_reached assms(2), where P = spent])
    show "map_of (ap_entries (foldl (approval_step slot) ?ap1 later)) i = Some e" using that by simp
  qed (use start move_spent in blast)+
qed

lemma user_once_at_most_once_example:
  "\<exists>err. snd (consume_user_once default_settings ''p'' ''a'' 1 ''w'' 3 (approvals_reached default_settings 4
     [OpRegister demo_request 0, OpGrantOnce ''p'' ''a'' 1 ''w'' 1, OpConsumeOnce ''p'' ''a'' 1 ''w'' 2])) = Inl err"
proof -
  let ?ops = "[OpRegister demo_request 0, OpGrantOnce ''p'' ''a'' 1 ''w'' 1]"
  have "snd (consume_user_once default_settings ''p'' ''a'' 1 ''w'' 2 (approvals_reached default_settings 4 ?ops)) = Inr ()"
    by (simp add: approval_eval grant_user_once_def consume_user_once_def check_user_once_entry_def)
  from user_once_at_most_once [OF this, of "[]" "''p''" 1 "''w''" 3] show ?thesis by simp
qed

section \<open>Registering and waiting\<close>

text \<open>
  A registered request is there: until it expires its parent reads it back, it is
  listed for its parent and among the undecided, and registering it again is refused as a
  duplicate.
\<close>

lemma register_get_roundtrip:
  assumes "register slot p now (approvals_reached slot cap ops) = (ap', Inr ())" "later < pa_expires_at p"
  shows "snd (get_approval slot (pa_parent_chat_id p) (pa_id p) later ap') = Inr p \<and>
    p \<in> set (snd (list_for_parent slot (pa_parent_chat_id p) later ap')) \<and>
    p \<in> set (snd (undecided slot later ap')) \<and>
    snd (register slot p later ap') = Inl EDuplicate"
proof -
  have "ap' = approvals_reached slot cap (ops @ [OpRegister p now])" using assms(1) by simp
  then have wf: "amap_wf (ap_entries ap')" using approvals_inv_wf [OF inv_reached] by blast
  have "map_of (ap_entries ap') (pa_id p) = Some (fresh_entry p)"
    using assms(1) by (auto simp: register_def Let_def alist_simps split: if_splits)
  then have e: "map_of (ap_entries (expire_locked slot later ap')) (pa_id p) = Some (fresh_entry p)"
    using live_entry [OF wf, of slot later "pa_id p" "fresh_entry p"] assms(2) by (simp add: fresh_entry_def)
  then have "fresh_entry p \<in> set (amap_values (ap_entries (expire_locked slot later ap')))"
    using map_of_SomeD [OF e] by (force simp: amap_values_def)
  with e show ?thesis
    by (auto simp: get_approval_def list_for_parent_def undecided_def register_def Let_def by_age_def fresh_entry_def
        image_iff intro!: bexI [of _ "fresh_entry p"])
qed

lemma register_get_roundtrip_example:
  "\<exists>ap'. register default_settings demo_request 0 (approvals_new 4) = (ap', Inr ()) \<and>
     snd (get_approval default_settings ''p'' ''a'' 5 ap') = Inr demo_request"
proof -
  obtain ap' where r: "register default_settings demo_request 0 (approvals_new 4) = (ap', Inr ())"
    by (simp add: approval_eval)
  from register_get_roundtrip [of default_settings demo_request 0 4 "[]" ap' 5] r
  have "snd (get_approval default_settings ''p'' ''a'' 5 ap') = Inr demo_request" by (simp add: demo_request_def)
  with r show ?thesis by blast
qed

text \<open>
  A wait ends. Once the deadline of the request that is waited for has passed, a turn
  of the loop answers, whatever has become of the table, and the answer is that the
  request expired; so does the timeout branch, which runs at that deadline. (A decision
  made earlier is answered by the turn that its notification triggers.)
\<close>

lemma wait_ends:
  assumes "pa_expires_at p \<le> current"
  shows "snd (wait_turn slot i p current (approvals_reached slot cap ops)) = Some DecisionExpired \<and>
    snd (wait_timeout slot i p (approvals_reached slot cap ops)) = DecisionExpired"
proof -
  let ?ap = "approvals_reached slot cap ops"
  have "ae_decision e = Some DecisionExpired"
    if "map_of (ap_entries (expire_locked slot t ?ap)) i = Some e" "ae_pending e = p" "pa_expires_at p \<le> t" for t e
    by (rule expire_locked_cases [OF approvals_inv_wf [OF inv_reached], of slot t slot cap ops i])
      (use that in \<open>auto simp: expire_entry_def\<close>)
  with assms show ?thesis by (auto simp: wait_turn_def wait_timeout_def Let_def split: option.split)
qed

lemma wait_ends_example:
  "snd (wait_turn default_settings ''a'' demo_request 10
     (approvals_reached default_settings 4 [OpRegister demo_request 0])) = Some DecisionExpired"
  using wait_ends [of demo_request 10 default_settings "''a''" 4 "[OpRegister demo_request 0]"]
  by (simp add: demo_request_def)

end
