(* ===== verification/Outcome.thy ===== *)
theory Outcome
  imports Rust_Text
begin

text \<open>
  The outcome documents of task cards (\<open>refact-tasks/src/types.rs\<close>): the sections a card's
  instructions require, the fragments a run delivers and their review, the structured
  final report with its markdown rendering, and its translation into fragments. Time
  stamps are strings, as in the source.
\<close>

section \<open>Fragment texts\<close>

definition outcome_placeholders :: "string list" where
  "outcome_placeholders = [''_none._'', ''_none_'', ''_none provided._'', ''none'', ''n/a'']"

text \<open>One line of a fragment says nothing if it is blank or a placeholder, also as a bullet.\<close>

definition line_is_absent :: "string \<Rightarrow> bool" where
  "line_is_absent raw =
     (let line = trim (trim_start_matches CHR ''-'' (trim raw))
      in line = [] \<or> (\<exists>p \<in> set outcome_placeholders. eq_ignore_ascii_case line p))"

definition fragment_content_is_absent :: "string \<Rightarrow> bool" where
  "fragment_content_is_absent content =
     (let trimmed = trim content in trimmed = [] \<or> list_all line_is_absent (lines trimmed))"

definition underscore_separators :: "string \<Rightarrow> string" where
  "underscore_separators s = map (\<lambda>c. if c = CHR '' '' \<or> c = CHR ''-'' then CHR ''_'' else c) s"

definition normalize_fragment_name :: "string \<Rightarrow> string" where
  "normalize_fragment_name name =
     underscore_separators (to_ascii_lowercase
       (trim (trim_matches CHR ''.'' (trim_matches CHR ''`'' (trim name)))))"

definition fragment_names :: "string \<Rightarrow> string list" where
  "fragment_names text = filter (\<lambda>n. n \<noteq> []) (map normalize_fragment_name (split_on CHR '','' text))"

record outcome_requirement =
  req_fragment :: string
  req_evidence :: bool

text \<open>The two accumulators of the loop over the instruction lines: requirements, and names that need evidence.\<close>

definition add_required :: "outcome_requirement list \<Rightarrow> string \<Rightarrow> outcome_requirement list" where
  "add_required rs n =
     (if \<exists>r \<in> set rs. req_fragment r = n then rs
      else rs @ [\<lparr>req_fragment = n, req_evidence = False\<rparr>])"

definition add_name :: "string list \<Rightarrow> string \<Rightarrow> string list" where
  "add_name ns n = (if n \<in> set ns then ns else ns @ [n])"

definition read_instruction ::
  "outcome_requirement list \<times> string list \<Rightarrow> string \<Rightarrow> outcome_requirement list \<times> string list" where
  "read_instruction acc raw =
     (let lower = to_ascii_lowercase (remove_stars (trim (trim_start_matches CHR ''-'' (trim raw))))
      in case strip_prefix ''required outcome evidence:'' lower of
           Some rest \<Rightarrow> (fst acc, foldl add_name (snd acc) (fragment_names rest))
         | None \<Rightarrow>
             (case strip_prefix ''required outcome:'' lower of
                Some rest \<Rightarrow> (foldl add_required (fst acc) (fragment_names rest), snd acc)
              | None \<Rightarrow> acc))"

definition require_evidence :: "outcome_requirement list \<Rightarrow> string \<Rightarrow> outcome_requirement list" where
  "require_evidence rs n =
     (if \<exists>r \<in> set rs. req_fragment r = n
      then modify_first (\<lambda>r. req_fragment r = n) (\<lambda>r. r\<lparr>req_evidence := True\<rparr>) rs
      else rs @ [\<lparr>req_fragment = n, req_evidence = True\<rparr>])"

definition outcome_requirements_from_instructions :: "string \<Rightarrow> outcome_requirement list" where
  "outcome_requirements_from_instructions instructions =
     (case foldl read_instruction ([], []) (lines instructions) of
        (rs, needs_evidence) \<Rightarrow> foldl require_evidence rs needs_evidence)"

section \<open>Fragments and outcomes\<close>

datatype fragment_review = ReviewPending | ReviewApproved | ReviewRejected | ReviewContradicted

primrec fragment_review_label :: "fragment_review \<Rightarrow> string" where
  "fragment_review_label ReviewPending = ''pending''"
| "fragment_review_label ReviewApproved = ''approved''"
| "fragment_review_label ReviewRejected = ''rejected''"
| "fragment_review_label ReviewContradicted = ''contradicted''"

record outcome_provenance =
  source_run :: "string option"
  evidence_spec_ids :: "string list"

record outcome_fragment =
  fg_name :: string
  fg_content :: string
  fg_provenance :: outcome_provenance
  fg_review :: fragment_review
  fg_reviewer_chat_id :: "string option"
  fg_reviewed_at :: "string option"
  fg_review_note :: "string option"

definition outcome_fragment_new :: "string \<Rightarrow> string \<Rightarrow> string option \<Rightarrow> outcome_fragment" where
  "outcome_fragment_new name content run =
     \<lparr>fg_name = normalize_fragment_name name, fg_content = content,
      fg_provenance = \<lparr>source_run = run, evidence_spec_ids = []\<rparr>, fg_review = ReviewPending,
      fg_reviewer_chat_id = None, fg_reviewed_at = None, fg_review_note = None\<rparr>"

definition has_content :: "outcome_fragment \<Rightarrow> bool" where
  "has_content f \<longleftrightarrow> \<not> fragment_content_is_absent (fg_content f)"

record card_finalization =
  finalized_by :: string
  finalized_at :: string

record card_outcome =
  co_required :: "outcome_requirement list"
  co_fragments :: "outcome_fragment list"
  co_finalized :: "card_finalization option"

definition card_outcome_default :: card_outcome where
  "card_outcome_default = \<lparr>co_required = [], co_fragments = [], co_finalized = None\<rparr>"

definition card_outcome_is_empty :: "card_outcome \<Rightarrow> bool" where
  "card_outcome_is_empty co \<longleftrightarrow> co_required co = [] \<and> co_fragments co = [] \<and> co_finalized co = None"

definition outcome_fragment_named :: "card_outcome \<Rightarrow> string \<Rightarrow> outcome_fragment option" where
  "outcome_fragment_named co name =
     List.find (\<lambda>f. fg_name f = normalize_fragment_name name) (co_fragments co)"

definition outcome_requirement_named :: "card_outcome \<Rightarrow> string \<Rightarrow> outcome_requirement option" where
  "outcome_requirement_named co name =
     List.find (\<lambda>r. req_fragment r = normalize_fragment_name name) (co_required co)"

definition set_fragment :: "outcome_fragment \<Rightarrow> card_outcome \<Rightarrow> card_outcome" where
  "set_fragment f co =
     (if \<exists>g \<in> set (co_fragments co). fg_name g = fg_name f
      then co\<lparr>co_fragments := modify_first (\<lambda>g. fg_name g = fg_name f) (\<lambda>_. f) (co_fragments co)\<rparr>
      else co\<lparr>co_fragments := co_fragments co @ [f]\<rparr>)"

definition record_review ::
  "string \<Rightarrow> fragment_review \<Rightarrow> string \<Rightarrow> string \<Rightarrow> string option \<Rightarrow> card_outcome
   \<Rightarrow> card_outcome \<times> (string + unit)" where
  "record_review fragment review reviewer at note co =
     (let name = normalize_fragment_name fragment in
      case List.find (\<lambda>f. fg_name f = name) (co_fragments co) of
        None \<Rightarrow> (co, Inl (''outcome has no fragment '' @ name))
      | Some _ \<Rightarrow>
          (co\<lparr>co_fragments := modify_first (\<lambda>f. fg_name f = name)
               (\<lambda>f. f\<lparr>fg_review := review, fg_reviewer_chat_id := Some reviewer,
                     fg_reviewed_at := Some at, fg_review_note := note\<rparr>) (co_fragments co)\<rparr>, Inr ()))"

definition add_evidence :: "string list \<Rightarrow> outcome_fragment \<Rightarrow> outcome_fragment" where
  "add_evidence ids f =
     f\<lparr>fg_provenance := (fg_provenance f)\<lparr>evidence_spec_ids :=
         foldl add_name (evidence_spec_ids (fg_provenance f)) ids\<rparr>\<rparr>"

definition attach_evidence :: "string \<Rightarrow> string list \<Rightarrow> card_outcome \<Rightarrow> card_outcome" where
  "attach_evidence fragment ids co =
     co\<lparr>co_fragments := modify_first (\<lambda>f. fg_name f = normalize_fragment_name fragment)
         (add_evidence ids) (co_fragments co)\<rparr>"

section \<open>Markdown of an outcome\<close>

definition fragment_body :: "outcome_fragment \<Rightarrow> string" where
  "fragment_body f =
     (let content = trim (fg_content f) in
      (if content = [] then ''_None._'' else content) @ [newline] @
      ''- source run: '' @ get_or ''_unrecorded_'' (source_run (fg_provenance f)) @ [newline] @
      (if evidence_spec_ids (fg_provenance f) = [] then ''- evidence: _unrecorded_''
       else ''- evidence: '' @ join_strings '', '' (evidence_spec_ids (fg_provenance f))) @ [newline] @
      ''- review: '' @ fragment_review_label (fg_review f) @ [newline, newline])"

definition required_section :: "card_outcome \<Rightarrow> outcome_requirement \<Rightarrow> string" where
  "required_section co r =
     ''## '' @ req_fragment r @
     (if req_evidence r then '' (required, evidence)'' else '' (required)'') @ [newline] @
     (case outcome_fragment_named co (req_fragment r) of
        Some f \<Rightarrow> if has_content f then fragment_body f
                  else ''**MISSING '' @ em_dash @ '' required outcome fragment.**'' @ [newline, newline]
      | None \<Rightarrow> ''**MISSING '' @ em_dash @ '' required outcome fragment.**'' @ [newline, newline])"

definition close_document :: "string \<Rightarrow> string" where
  "close_document s = trim_end_matches newline s @ [newline]"

definition card_outcome_markdown :: "card_outcome \<Rightarrow> string" where
  "card_outcome_markdown co =
     close_document
      (''# Outcome Document'' @ [newline, newline] @
       concat (map (required_section co) (co_required co)) @
       concat (map (\<lambda>f. ''## '' @ fg_name f @ [newline] @ fragment_body f)
         (filter (\<lambda>f. outcome_requirement_named co (fg_name f) = None) (co_fragments co))) @
       (case co_finalized co of
          None \<Rightarrow> []
        | Some fin \<Rightarrow> ''## Finalized'' @ [newline] @ ''- by: '' @ finalized_by fin @ [newline] @
                      ''- at: '' @ finalized_at fin @ [newline, newline]))"

section \<open>Final reports\<close>

datatype verification_outcome =
    OutcomeUnknown | OutcomePassed | CommandFailed | OutcomeRejected | PolicyDenied
  | InfrastructureFailed | NoCommands

record verification_result =
  vr_command :: string
  vr_exit_code :: "int option"
  vr_passed :: bool
  vr_output_tail :: string
  vr_outcome :: verification_outcome
  vr_from_cache :: bool
  vr_executed_at :: "string option"

datatype report_classification =
  ClassUnknown | ClassPassed | VerificationFailed | HumanReview | Unavailable

record verifier_report =
  vp_passed :: bool
  vp_command_results :: "verification_result list"
  vp_concerns :: "string list"
  vp_recommendation :: string
  vp_classification :: report_classification

record suggested_card =
  sc_title :: string
  sc_instructions :: string
  sc_priority :: string
  sc_target_files :: "string list"

record final_report =
  rp_summary :: string
  rp_success :: bool
  rp_files_changed :: "string list"
  rp_tests :: "string list"
  rp_verification :: "verification_result list"
  rp_followup_cards :: "suggested_card list"
  rp_risks :: "string list"
  rp_assumptions :: "string list"

fun backtick_runs :: "nat \<Rightarrow> nat \<Rightarrow> string \<Rightarrow> nat" where
  "backtick_runs max_run current [] = max_run"
| "backtick_runs max_run current (c # s) =
     (if c = CHR ''`'' then backtick_runs (max max_run (current + 1)) (current + 1) s
      else backtick_runs max_run 0 s)"

definition max_backtick_run :: "string \<Rightarrow> nat" where
  "max_backtick_run text = backtick_runs 0 0 text"

definition markdown_code_fence :: "string \<Rightarrow> string" where
  "markdown_code_fence text = replicate (max (max_backtick_run text) 2 + 1) CHR ''`''"

definition markdown_inline_code :: "string \<Rightarrow> string" where
  "markdown_inline_code text =
     (if max_backtick_run text = 0 then ''`'' @ text @ ''`''
      else let fence = replicate (max_backtick_run text + 1) CHR ''`''
           in fence @ '' '' @ text @ '' '' @ fence)"

definition text_or_empty :: "string \<Rightarrow> string" where
  "text_or_empty text = (if trim text = [] then ''_None provided._'' else trim text) @ [newline]"

definition string_list_section :: "string \<Rightarrow> string list \<Rightarrow> string" where
  "string_list_section title items =
     ''## '' @ title @ [newline] @
     (if items = [] then ''- _None._'' @ [newline]
      else concat (map (\<lambda>item. ''- '' @ item @ [newline]) items)) @ [newline]"

definition passed_word :: "bool \<Rightarrow> string" where
  "passed_word p = (if p then ''passed'' else ''failed'')"

definition exit_code_note :: "int option \<Rightarrow> string" where
  "exit_code_note code =
     (case code of None \<Rightarrow> [] | Some n \<Rightarrow> '' (exit code '' @ show_int n @ '')'')"

definition verification_entry :: "verification_result \<Rightarrow> string" where
  "verification_entry v =
     ''- '' @ markdown_inline_code (vr_command v) @ '' '' @ em_dash @ '' '' @ passed_word (vr_passed v) @
     exit_code_note (vr_exit_code v) @ [newline] @
     (let tail = trim (vr_output_tail v); fence = markdown_code_fence tail
      in if tail = [] then []
         else [newline] @ fence @ ''text'' @ [newline] @ tail @ [newline] @ fence @ [newline])"

definition verification_section :: "verification_result list \<Rightarrow> string" where
  "verification_section vs =
     ''## Verification'' @ [newline] @
     (if vs = [] then ''- _None._'' @ [newline] else concat (map verification_entry vs)) @ [newline]"

definition followup_entry :: "suggested_card \<Rightarrow> string" where
  "followup_entry c =
     ''### '' @ (if trim (sc_title c) = [] then ''Untitled'' else trim (sc_title c)) @ [newline] @
     ''- Priority: '' @ (if trim (sc_priority c) = [] then ''unspecified'' else trim (sc_priority c)) @ [newline] @
     (if sc_target_files c = [] then []
      else ''- Target files: '' @ join_strings '', '' (sc_target_files c) @ [newline]) @
     (if trim (sc_instructions c) = [] then [] else [newline] @ trim (sc_instructions c) @ [newline]) @ [newline]"

definition followup_section :: "suggested_card list \<Rightarrow> string" where
  "followup_section cs =
     ''## Follow-up Cards'' @ [newline] @
     (if cs = [] then ''- _None._'' @ [newline, newline] else concat (map followup_entry cs))"

definition final_report_markdown :: "final_report \<Rightarrow> string" where
  "final_report_markdown r =
     close_document
      (''# Final Report'' @ [newline, newline] @ ''## Summary'' @ [newline] @
       text_or_empty (rp_summary r) @ [newline] @ ''## Result'' @ [newline] @
       (if rp_success r then ''- Success: true'' else ''- Success: false'') @ [newline, newline] @
       string_list_section ''Files Changed'' (rp_files_changed r) @
       string_list_section ''Tests Added or Updated'' (rp_tests r) @
       verification_section (rp_verification r) @ followup_section (rp_followup_cards r) @
       string_list_section ''Risks'' (rp_risks r) @ string_list_section ''Assumptions'' (rp_assumptions r))"

definition bullet_lines :: "string list \<Rightarrow> string" where
  "bullet_lines items = join_strings [newline] (map (\<lambda>item. ''- '' @ item) items)"

definition verification_line :: "verification_result \<Rightarrow> string" where
  "verification_line v =
     ''- '' @ vr_command v @ '' '' @ em_dash @ '' '' @ passed_word (vr_passed v) @ exit_code_note (vr_exit_code v)"

definition report_sections :: "final_report \<Rightarrow> (string \<times> string) list" where
  "report_sections r =
     [(''summary'', rp_summary r), (''files_changed'', bullet_lines (rp_files_changed r)),
      (''tests_added_or_updated'', bullet_lines (rp_tests r)),
      (''verification'', join_strings [newline] (map verification_line (rp_verification r))),
      (''followup_cards'', bullet_lines (map sc_title (rp_followup_cards r))),
      (''risks'', bullet_lines (rp_risks r)), (''assumptions'', bullet_lines (rp_assumptions r))]"

definition to_outcome_fragments :: "string option \<Rightarrow> final_report \<Rightarrow> outcome_fragment list" where
  "to_outcome_fragments run r =
     map (\<lambda>(name, content). outcome_fragment_new name content run)
       (filter (\<lambda>(name, content). \<not> fragment_content_is_absent content) (report_sections r))"

end
