(* ===== verification/Outcome_Properties.thy ===== *)
theory Outcome_Properties
  imports Outcome
begin

text \<open>
  What the outcome documents guarantee: a code fence around a command's output cannot be
  closed by that output, the requirements read from a card's instructions are declared
  once each, and a final report yields exactly the fragments of the sections it filled in.
\<close>

section \<open>Code fences\<close>

lemma backtick_runs_ge: "m \<le> backtick_runs m c s"
proof (induction s arbitrary: m c)
  case (Cons x s)
  have "m \<le> max m (c + 1)" by simp
  also have "\<dots> \<le> backtick_runs (max m (c + 1)) (c + 1) s" by (rule Cons.IH)
  finally show ?case using Cons.IH [of m 0] by simp
qed simp

lemma backtick_runs_replicate: "0 < k \<Longrightarrow> c + k \<le> backtick_runs m c (replicate k CHR ''`'' @ s)"
proof (induction k arbitrary: m c)
  case (Suc k)
  show ?case
  proof (cases k)
    case 0
    have "c + 1 \<le> max m (c + 1)" by simp
    also have "\<dots> \<le> backtick_runs (max m (c + 1)) (c + 1) s" by (rule backtick_runs_ge)
    finally show ?thesis using 0 by simp
  next
    case (Suc j)
    then show ?thesis using Suc.IH [of "c + 1" "max m (c + 1)"] by simp
  qed
qed simp

lemma backtick_runs_infix: "0 < k \<Longrightarrow> k \<le> backtick_runs m c (p @ replicate k CHR ''`'' @ q)"
proof (induction p arbitrary: m c)
  case Nil
  then show ?case using backtick_runs_replicate [of k c m q] by simp
qed simp

lemma max_backtick_run_infix:
  "s = p @ replicate k CHR ''`'' @ q \<Longrightarrow> k \<le> max_backtick_run s"
  using backtick_runs_infix [of k 0 0 p q] by (cases k) (auto simp: max_backtick_run_def)

text \<open>
  The code fence chosen for a text never occurs in the text, and it has at least three
  backticks: command output quoted in a report cannot end its own quotation.
\<close>

lemma fence_not_in_text:
  "3 \<le> length (markdown_code_fence s) \<and> (\<nexists>p q. s = p @ markdown_code_fence s @ q)"
  using max_backtick_run_infix [of s _ "max (max_backtick_run s) 2 + 1"]
  by (fastforce simp: markdown_code_fence_def)

section \<open>Requirements\<close>

definition req_names :: "outcome_requirement list \<Rightarrow> string list" where
  "req_names rs = map req_fragment rs"

lemma add_required_names: "req_names (add_required rs n) = add_name (req_names rs) n"
  by (force simp: add_required_def add_name_def req_names_def)

lemma require_evidence_names: "req_names (require_evidence rs n) = add_name (req_names rs) n"
proof -
  have "req_names (modify_first (\<lambda>r. req_fragment r = n) (\<lambda>r. r\<lparr>req_evidence := True\<rparr>) rs) = req_names rs"
    unfolding req_names_def by (rule modify_first_map) simp
  then show ?thesis by (auto simp: require_evidence_def add_name_def req_names_def)
qed

lemma fold_add_name:
  "set (foldl add_name ns xs) = set ns \<union> set xs \<and> (distinct ns \<longrightarrow> distinct (foldl add_name ns xs))"
  by (induction xs arbitrary: ns) (auto simp: add_name_def)

lemma fold_names:
  assumes "\<And>rs n. req_names (f rs n) = add_name (req_names rs) n"
  shows "req_names (foldl f rs ns) = foldl add_name (req_names rs) ns"
  using assms by (induction ns arbitrary: rs) simp_all

lemma read_instructions_names:
  assumes "distinct (req_names (fst acc))" "[] \<notin> set (req_names (fst acc))" "[] \<notin> set (snd acc)"
  shows "distinct (req_names (fst (foldl read_instruction acc ls))) \<and>
    [] \<notin> set (req_names (fst (foldl read_instruction acc ls))) \<and> [] \<notin> set (snd (foldl read_instruction acc ls))"
  using assms
proof (induction ls arbitrary: acc)
  case (Cons l ls)
  have "[] \<notin> set (fragment_names t)" for t by (simp add: fragment_names_def)
  then have "distinct (req_names (fst (read_instruction acc l))) \<and>
      [] \<notin> set (req_names (fst (read_instruction acc l))) \<and> [] \<notin> set (snd (read_instruction acc l))"
    using Cons.prems
    by (auto simp: read_instruction_def Let_def fold_names [of add_required, OF add_required_names] fold_add_name
        split: option.splits)
  with Cons.IH [of "read_instruction acc l"] show ?case by simp
qed simp

text \<open>
  The requirements read from a card's instructions name every section once, and no
  section is nameless.
\<close>

lemma requirements_declared_once:
  "distinct (map req_fragment (outcome_requirements_from_instructions instructions)) \<and>
   [] \<notin> set (map req_fragment (outcome_requirements_from_instructions instructions))"
proof -
  let ?acc = "foldl read_instruction ([], []) (lines instructions)"
  have "distinct (req_names (fst ?acc)) \<and> [] \<notin> set (req_names (fst ?acc)) \<and> [] \<notin> set (snd ?acc)"
    by (rule read_instructions_names) (simp_all add: req_names_def)
  moreover have "map req_fragment (outcome_requirements_from_instructions instructions) =
      foldl add_name (req_names (fst ?acc)) (snd ?acc)"
    using fold_names [of require_evidence, OF require_evidence_names, of "fst ?acc" "snd ?acc"]
    by (simp add: outcome_requirements_from_instructions_def req_names_def case_prod_beta)
  ultimately show ?thesis using fold_add_name by auto
qed

section \<open>Fragments of a report\<close>

lemma report_section_names:
  "map fst (report_sections r) =
     [''summary'', ''files_changed'', ''tests_added_or_updated'', ''verification'', ''followup_cards'',
      ''risks'', ''assumptions'']"
  by (simp add: report_sections_def)

lemma section_names_normal:
  "n \<in> set [''summary'', ''files_changed'', ''tests_added_or_updated'', ''verification'', ''followup_cards'',
      ''risks'', ''assumptions''] \<Longrightarrow> normalize_fragment_name n = n"
  by (simp, elim disjE; hypsubst; code_simp)

lemma find_section:
  assumes "distinct (map fst ps)" and "\<And>n. n \<in> fst ` set ps \<Longrightarrow> normalize_fragment_name n = n"
    and "(n, content) \<in> set ps"
  shows "List.find (\<lambda>f. fg_name f = n)
      (map (\<lambda>(n, content). outcome_fragment_new n content run)
        (filter (\<lambda>(n, content). \<not> fragment_content_is_absent content) ps)) =
    (if fragment_content_is_absent content then None else Some (outcome_fragment_new n content run))"
  using assms
proof (induction ps)
  case (Cons q ps)
  obtain n' c' where q: "q = (n', c')" by (cases q)
  have norm: "fg_name (outcome_fragment_new n' c' run) = n'"
    using Cons.prems(2) q by (simp add: outcome_fragment_new_def)
  show ?case
  proof (cases "n' = n")
    case True
    from Cons.prems(1) q True have fresh: "n \<notin> fst ` set ps" by simp
    with Cons.prems(3) q True have c: "c' = content" by (auto simp: image_iff)
    have "fg_name (outcome_fragment_new m d run) \<noteq> n" if "(m, d) \<in> set ps" for m d
    proof -
      from that have m: "m \<in> fst ` set ps" by force
      then have "normalize_fragment_name m = m" by (intro Cons.prems(2)) simp
      with m fresh show ?thesis by (auto simp: outcome_fragment_new_def)
    qed
    then have "List.find (\<lambda>f. fg_name f = n) (map (\<lambda>(n, content). outcome_fragment_new n content run)
        (filter (\<lambda>(n, content). \<not> fragment_content_is_absent content) ps)) = None"
      unfolding find_None_iff by (auto simp: case_prod_beta)
    then show ?thesis using True c q norm by simp
  next
    case False
    then show ?thesis using Cons q norm by auto
  qed
qed simp

text \<open>
  The fragments of a final report. Looking up a section's name finds exactly that
  section's text with the run that produced it, unless the section is empty or only a
  placeholder, in which case there is no fragment: a missing section can never pass for a
  delivered one.
\<close>

lemma report_fragments:
  assumes "(name, content) \<in> set (report_sections r)"
  shows "outcome_fragment_named (card_outcome_default\<lparr>co_fragments := to_outcome_fragments run r\<rparr>) name =
    (if fragment_content_is_absent content then None else Some (outcome_fragment_new name content run))"
proof -
  have names: "fst ` set (report_sections r) = set (map fst (report_sections r))" by simp
  have "distinct (map fst (report_sections r))" by (simp add: report_section_names)
  moreover have normal: "normalize_fragment_name n = n" if "n \<in> fst ` set (report_sections r)" for n
    using that unfolding names report_section_names by (rule section_names_normal)
  moreover have "normalize_fragment_name name = name" using assms by (intro normal) force
  ultimately show ?thesis
    using find_section [of "report_sections r" name content run] assms
    by (simp add: outcome_fragment_named_def to_outcome_fragments_def)
qed

definition sample_report :: final_report where
  "sample_report = \<lparr>rp_summary = ''Added a test'', rp_success = True, rp_files_changed = [], rp_tests = [],
     rp_verification = [], rp_followup_cards = [], rp_risks = [''none''], rp_assumptions = []\<rparr>"

lemma report_fragments_example:
  "outcome_fragment_named (card_outcome_default\<lparr>co_fragments := to_outcome_fragments None sample_report\<rparr>) ''summary'' =
     Some (outcome_fragment_new ''summary'' ''Added a test'' None)"
proof -
  have "\<not> fragment_content_is_absent ''Added a test''" by code_simp
  moreover have "(''summary'', ''Added a test'') \<in> set (report_sections sample_report)"
    by (simp add: report_sections_def sample_report_def)
  ultimately show ?thesis using report_fragments [of "''summary''" "''Added a test''" sample_report None] by simp
qed

text \<open>
  Quoting a section's name in backticks before a full stop, as in a sentence, leaves the
  closing backtick in the normalised name, so the requirement it declares is a different one
  from the section of that name, although a lookup under the normalised name would find the
  section.
\<close>

lemma quoted_requirement_keeps_backtick:
  "map req_fragment (outcome_requirements_from_instructions ''Required outcome: `summary`.'') = [''summary`''] \<and>
   normalize_fragment_name ''summary`'' = ''summary'' \<and>
   map req_fragment (outcome_requirements_from_instructions
     (''Required outcome: `summary`.'' @ [newline] @ ''Required outcome evidence: summary'')) = [''summary`'', ''summary'']"
  by code_simp

end
