(* ===== verification/Board.thy ===== *)
theory Board
  imports Outcome
begin

text \<open>
  The task board (\<open>refact-tasks/src/types.rs\<close>): cards with dependencies, compare-and-set
  claims, dependency overrides, review attestations, and the gate that finalises a card.
  The JSON values the board only stores (\<open>serde_json::Value\<close>) are a type parameter.
  A \<open>BTreeMap\<close> is an association list read in key order. Errors are the source's strings
  or its \<open>BoardRuleViolation\<close> values, as \<open>Inl\<close>.
\<close>

section \<open>Data\<close>

record planner_reply_attempt =
  pra_assignee :: "string option"
  pra_chat_id :: "string option"
  pra_started_at :: "string option"
  pra_generation :: nat

datatype planner_reply_state = ReplyRecorded | ReplyAccepted | ReplyDelivered | ReplyUnknown | ReplyFailed

record 'v planner_reply =
  pr_version :: nat
  pr_task_id :: string
  pr_card_id :: string
  pr_question_id :: string
  pr_planner_chat_id :: string
  pr_action_id :: string
  pr_answered_at :: string
  pr_answer :: string
  pr_answer_input_hash :: string
  pr_attempt :: planner_reply_attempt
  pr_envelope :: 'v
  pr_envelope_hash :: string
  pr_push :: string
  pr_ttl_secs :: nat
  pr_state :: planner_reply_state
  pr_outcome :: string
  pr_reservation :: string

record card_claim =
  claimant_chat_id :: string
  idempotency_key :: string
  claimed_at :: string

record dependency_override =
  overridden_by :: string
  override_reason :: string
  overridden_at :: string
  override_unsatisfied :: "string list"

datatype claim_outcome = Claimed | AlreadyHeld

datatype board_rule_violation =
    CardNotFound string
  | AlreadyClaimed string string
  | DependenciesUnsatisfied string "string list"
  | RoleDenied string string

primrec violation_code :: "board_rule_violation \<Rightarrow> string" where
  "violation_code (CardNotFound i) = ''not_found_or_not_visible''"
| "violation_code (AlreadyClaimed i h) = ''already_claimed''"
| "violation_code (DependenciesUnsatisfied i u) = ''dependency_unsatisfied''"
| "violation_code (RoleDenied i r) = ''scope_denied''"

definition violation_retryable :: "board_rule_violation \<Rightarrow> bool" where
  "violation_retryable v = (case v of DependenciesUnsatisfied _ _ \<Rightarrow> True | _ \<Rightarrow> False)"

primrec violation_message :: "board_rule_violation \<Rightarrow> string" where
  "violation_message (CardNotFound i) = ''card '' @ i @ '' not found on this board''"
| "violation_message (AlreadyClaimed i h) = ''card '' @ i @ '' is already claimed by '' @ h"
| "violation_message (DependenciesUnsatisfied i u) =
     ''card '' @ i @ '' is blocked by unsatisfied dependencies: '' @ join_strings '', '' u"
| "violation_message (RoleDenied i r) = ''card '' @ i @ '': '' @ r"

datatype board_review_policy = OwnerAllowed | IndependentRequired

record board_review_attestation =
  att_reviewer_chat_id :: string
  att_reviewed_at :: string
  att_report :: verifier_report

record card_attention =
  attn_reason :: string
  attn_kind :: string
  attn_since :: string
  attn_count :: nat

record ab_variant_finish =
  abf_success :: bool
  abf_final_report :: string
  abf_final_report_structured :: "final_report option"
  abf_completed_at :: string
  abf_commit_hash :: "string option"

record ab_variant_info =
  abi_agent_id :: string
  abi_chat_id :: string
  abi_worktree :: string
  abi_worktree_name :: "string option"
  abi_branch :: "string option"
  abi_model :: "string option"
  abi_finish :: "ab_variant_finish option"

record ab_variants =
  variant_a :: ab_variant_info
  variant_b :: ab_variant_info
  winner :: "string option"

definition ab_variant :: "ab_variants \<Rightarrow> string \<Rightarrow> ab_variant_info option" where
  "ab_variant vs key =
     (if key = ''a'' then Some (variant_a vs) else if key = ''b'' then Some (variant_b vs) else None)"

text \<open>\<open>variant_mut\<close>: the change the caller makes through the reference is \<open>f\<close>.\<close>

definition ab_variant_mut :: "string \<Rightarrow> (ab_variant_info \<Rightarrow> ab_variant_info) \<Rightarrow> ab_variants \<Rightarrow> ab_variants" where
  "ab_variant_mut key f vs =
     (if key = ''a'' then vs\<lparr>variant_a := f (variant_a vs)\<rparr>
      else if key = ''b'' then vs\<lparr>variant_b := f (variant_b vs)\<rparr> else vs)"

definition variant_key_for_chat_id :: "ab_variants \<Rightarrow> string \<Rightarrow> string option" where
  "variant_key_for_chat_id vs chat_id =
     (if abi_chat_id (variant_a vs) = chat_id then Some ''a''
      else if abi_chat_id (variant_b vs) = chat_id then Some ''b'' else None)"

definition all_finished :: "ab_variants \<Rightarrow> bool" where
  "all_finished vs \<longleftrightarrow> abi_finish (variant_a vs) \<noteq> None \<and> abi_finish (variant_b vs) \<noteq> None"

record team_member =
  tm_role :: string
  tm_agent_chat_id :: "string option"
  tm_agent_branch :: "string option"
  tm_status :: "string option"

record card_comment =
  cc_id :: string
  cc_author_role :: string
  cc_author_id :: "string option"
  cc_timestamp :: string
  cc_body :: string
  cc_reply_to :: "string option"

datatype scope_guard_mode = GuardOff | GuardWarn | GuardReject | GuardStrict

record status_update =
  su_timestamp :: string
  su_message :: string

record 'v board_card =
  bc_id :: string
  bc_title :: string
  bc_column :: string
  bc_priority :: string
  depends_on :: "string list"
  bc_instructions :: string
  bc_assignee :: "string option"
  bc_agent_chat_id :: "string option"
  bc_status_updates :: "status_update list"
  bc_comments :: "card_comment list"
  bc_final_report :: "string option"
  bc_final_report_structured :: "final_report option"
  verifier_report_of :: "verifier_report option"
  bc_created_at :: string
  bc_started_at :: "string option"
  bc_last_heartbeat_at :: "string option"
  bc_paused_at :: "string option"
  bc_paused_by :: "string option"
  bc_completed_at :: "string option"
  bc_agent_branch :: "string option"
  bc_agent_worktree :: "string option"
  bc_agent_worktree_name :: "string option"
  bc_base_branch :: "string option"
  bc_base_commit :: "string option"
  bc_ab_variants :: "ab_variants option"
  bc_team_members :: "team_member list"
  bc_target_files :: "string list"
  bc_scope_guard_mode :: scope_guard_mode
  bc_attention :: "card_attention option"
  bc_deliverable :: "'v option"
  bc_verification :: "'v list"

record board_column =
  col_id :: string
  col_title :: string

record 'v task_board =
  schema_version :: nat
  board_rev :: nat
  columns :: "board_column list"
  cards :: "'v board_card list"
  owner_chat_id :: "string option"
  reviewer_chat_ids :: "string list"
  review_policy :: board_review_policy
  review_attestations :: "(string, board_review_attestation) amap"
  card_claims :: "(string, card_claim) amap"
  dependency_overrides :: "(string, dependency_override) amap"
  card_outcomes :: "(string, card_outcome) amap"
  planner_replies :: "(string, (string, 'v planner_reply) amap) amap"
  card_attempt_generations :: "(string, nat) amap"

definition default_columns :: "board_column list" where
  "default_columns =
     [\<lparr>col_id = ''planned'', col_title = ''Planned''\<rparr>, \<lparr>col_id = ''doing'', col_title = ''Doing''\<rparr>,
      \<lparr>col_id = ''done'', col_title = ''Done''\<rparr>, \<lparr>col_id = ''failed'', col_title = ''Failed''\<rparr>,
      \<lparr>col_id = ''regressed'', col_title = ''Regressed''\<rparr>]"

definition task_board_default :: "'v task_board" where
  "task_board_default =
     \<lparr>schema_version = 1, board_rev = 0, columns = default_columns, cards = [], owner_chat_id = None,
      reviewer_chat_ids = [], review_policy = OwnerAllowed, review_attestations = [], card_claims = [],
      dependency_overrides = [], card_outcomes = [], planner_replies = [], card_attempt_generations = []\<rparr>"

section \<open>Dependencies\<close>

definition get_card :: "'v task_board \<Rightarrow> string \<Rightarrow> 'v board_card option" where
  "get_card b i = List.find (\<lambda>c. bc_id c = i) (cards b)"

text \<open>\<open>find(|x| !seen.insert(x))\<close>: the first element that occurred before.\<close>

fun first_duplicate :: "'a list \<Rightarrow> 'a list \<Rightarrow> 'a option" where
  "first_duplicate seen [] = None"
| "first_duplicate seen (x # xs) = (if x \<in> set seen then Some x else first_duplicate (x # seen) xs)"

definition index_by_id :: "'v board_card list \<Rightarrow> (string, nat) amap" where
  "index_by_id cs = foldl (\<lambda>m (i, c). AList.update (bc_id c) i m) [] (List.enumerate 0 cs)"

definition card_dependency_error :: "(string, nat) amap \<Rightarrow> 'v board_card \<Rightarrow> string option" where
  "card_dependency_error by_id c =
     (if bc_id c \<in> set (depends_on c) then Some (''Card '' @ bc_id c @ '' cannot depend on itself'')
      else case first_duplicate [] (depends_on c) of
        Some d \<Rightarrow> Some (''Card '' @ bc_id c @ '' lists dependency '' @ d @ '' more than once'')
      | None \<Rightarrow>
          (case List.find (\<lambda>d. map_of by_id d = None) (depends_on c) of
             Some d \<Rightarrow> Some (''Card '' @ bc_id c @ '' dependency '' @ d @ '' does not exist'')
           | None \<Rightarrow> None))"

definition push_dependent :: "(string, nat) amap \<Rightarrow> nat \<Rightarrow> nat list list \<Rightarrow> string \<Rightarrow> nat list list" where
  "push_dependent by_id i ds d =
     (case map_of by_id d of None \<Rightarrow> ds | Some j \<Rightarrow> ds[j := ds ! j @ [i]])"

definition dependents_of :: "(string, nat) amap \<Rightarrow> 'v board_card list \<Rightarrow> nat list list" where
  "dependents_of by_id cs =
     foldl (\<lambda>ds (i, c). foldl (push_dependent by_id i) ds (depends_on c))
       (replicate (length cs) []) (List.enumerate 0 cs)"

text \<open>
  One dependent of a processed card: its count of open dependencies goes down by one, and
  at zero it joins the queue. \<open>None\<close> is the panic of an index out of range or of a count
  below zero.
\<close>

definition relax :: "nat \<Rightarrow> nat list \<times> nat list \<Rightarrow> (nat list \<times> nat list) option" where
  "relax d st =
     (case st of (indegree, queue) \<Rightarrow>
        if d < length indegree \<and> 0 < indegree ! d
        then let n = indegree ! d - 1
             in Some (indegree[d := n], if n = 0 then queue @ [d] else queue)
        else None)"

fun relax_all :: "nat list \<Rightarrow> nat list \<times> nat list \<Rightarrow> (nat list \<times> nat list) option" where
  "relax_all [] st = Some st"
| "relax_all (d # ds) st = (case relax d st of None \<Rightarrow> None | Some st' \<Rightarrow> relax_all ds st')"

lemma sum_list_update_less:
  "d < length xs \<Longrightarrow> 0 < xs ! d \<Longrightarrow> Suc (sum_list (xs[d := xs ! d - 1])) = sum_list (xs :: nat list)"
proof (induction xs arbitrary: d)
  case (Cons x xs)
  then show ?case by (cases d) auto
qed simp

lemma relax_work:
  "relax d (ind, q) = Some (ind', q') \<Longrightarrow> sum_list ind' + length q' \<le> sum_list ind + length q"
  using sum_list_update_less [of d ind] by (auto simp: relax_def Let_def split: if_splits)

lemma relax_all_work:
  "relax_all ds (ind, q) = Some (ind', q') \<Longrightarrow> sum_list ind' + length q' \<le> sum_list ind + length q"
proof (induction ds arbitrary: ind q)
  case (Cons d ds)
  then obtain i1 q1 where "relax d (ind, q) = Some (i1, q1)" "relax_all ds (i1, q1) = Some (ind', q')"
    by (auto split: option.splits)
  with Cons.IH relax_work show ?case by (meson order.trans)
qed simp

text \<open>The loop over the queue of cards without open dependencies: the number of cards processed, and the counts left.\<close>

function topo_loop :: "nat list list \<Rightarrow> nat list \<Rightarrow> nat list \<Rightarrow> nat \<Rightarrow> (nat \<times> nat list) option" where
  "topo_loop dependents indegree [] visited = Some (visited, indegree)"
| "topo_loop dependents indegree (i # queue) visited =
     (case relax_all (dependents ! i) (indegree, queue) of
        None \<Rightarrow> None
      | Some (indegree', queue') \<Rightarrow> topo_loop dependents indegree' queue' (visited + 1))"
  by pat_completeness auto
termination
  by (relation "measure (\<lambda>(ds, ind, q, v). sum_list ind + length q)") (auto dest: relax_all_work)

definition sources :: "nat list \<Rightarrow> nat list" where
  "sources indegree = map fst (filter (\<lambda>(i, n). n = 0) (List.enumerate 0 indegree))"

definition indegrees :: "'v board_card list \<Rightarrow> nat list" where
  "indegrees cs = map (\<lambda>c. length (depends_on c)) cs"

text \<open>The panics of \<open>relax\<close> are given the message Rust reports for an unsigned underflow.\<close>

definition overflow_panic :: string where
  "overflow_panic = ''attempt to subtract with overflow''"

definition validate_dependencies :: "'v task_board \<Rightarrow> string + unit" where
  "validate_dependencies b =
     (case first_duplicate [] (map bc_id (cards b)) of
        Some i \<Rightarrow> Inl (''Duplicate card ID '' @ i)
      | None \<Rightarrow>
          (let by_id = index_by_id (cards b) in
           case find_map (card_dependency_error by_id) (cards b) of
             Some e \<Rightarrow> Inl e
           | None \<Rightarrow>
               (case topo_loop (dependents_of by_id (cards b)) (indegrees (cards b))
                       (sources (indegrees (cards b))) 0 of
                  None \<Rightarrow> Inl overflow_panic
                | Some (visited, indegree) \<Rightarrow>
                    if visited \<noteq> length (cards b)
                    then Inl (''Dependency cycle includes '' @
                           (case List.find (\<lambda>(i, n). 0 < n) (List.enumerate 0 indegree) of
                              Some (i, _) \<Rightarrow> bc_id (cards b ! i)
                            | None \<Rightarrow> ''unknown''))
                    else Inr ())))"

section \<open>Validation before a write\<close>

text \<open>Characters of a UTF-8 string: every byte that does not continue a character starts one.\<close>

definition char_count :: "string \<Rightarrow> nat" where
  "char_count s = length (filter (\<lambda>c. \<not> (0x80 \<le> byte c \<and> byte c < 0xC0)) s)"

definition claim_error :: "'v task_board \<Rightarrow> nat \<Rightarrow> string \<times> card_claim \<Rightarrow> string option" where
  "claim_error b max_claim_key_len entry =
     (case entry of (i, claim) \<Rightarrow>
        if get_card b i = None then Some (''Claim references missing card '' @ i)
        else if trim (claimant_chat_id claim) = []
        then Some (''Claim on card '' @ i @ '' has an empty claimant'')
        else if trim (idempotency_key claim) = []
        then Some (''Claim on card '' @ i @ '' has an empty idempotency key'')
        else if char_count (idempotency_key claim) > max_claim_key_len
        then Some (''Claim idempotency key on card '' @ i @ '' exceeds the configured maximum of '' @
                   show_nat max_claim_key_len @ '' characters'')
        else None)"

definition override_error :: "'v task_board \<Rightarrow> string \<times> dependency_override \<Rightarrow> string option" where
  "override_error b entry =
     (case entry of (i, ov) \<Rightarrow>
        if get_card b i = None then Some (''Dependency override references missing card '' @ i)
        else if trim (overridden_by ov) = []
        then Some (''Dependency override on card '' @ i @ '' has no recorded principal'')
        else if trim (override_reason ov) = []
        then Some (''Dependency override on card '' @ i @ '' has no recorded reason'')
        else None)"

definition validate_claims :: "'v task_board \<Rightarrow> nat \<Rightarrow> string + unit" where
  "validate_claims b max_claim_key_len =
     (case find_map (claim_error b max_claim_key_len) (btree_iter (card_claims b)) of
        Some e \<Rightarrow> Inl e
      | None \<Rightarrow>
          (case find_map (override_error b) (btree_iter (dependency_overrides b)) of
             Some e \<Rightarrow> Inl e
           | None \<Rightarrow> Inr ()))"

fun reviewer_error :: "string option \<Rightarrow> string list \<Rightarrow> string list \<Rightarrow> string option" where
  "reviewer_error owner seen [] = None"
| "reviewer_error owner seen (r # rs) =
     (if trim r = [] then Some ''Task board reviewer IDs cannot be empty''
      else if r \<in> set seen then Some (''Task board reviewer '' @ r @ '' is duplicated'')
      else if owner = Some r then Some ''Task board owner cannot also be an assigned reviewer''
      else reviewer_error owner (r # seen) rs)"

definition attestation_error :: "'v task_board \<Rightarrow> string \<times> board_review_attestation \<Rightarrow> string option" where
  "attestation_error b entry =
     (case entry of (i, att) \<Rightarrow>
        (case get_card b i of
           None \<Rightarrow> Some (''Review attestation references missing card '' @ i)
         | Some c \<Rightarrow>
             if verifier_report_of c \<noteq> Some (att_report att)
             then Some (''Review attestation for card '' @ i @ '' does not match its verifier report'')
             else if att_reviewer_chat_id att \<notin> set (reviewer_chat_ids b)
             then Some (''Review attestation for card '' @ i @ '' names unassigned reviewer '' @ att_reviewer_chat_id att)
             else if owner_chat_id b = Some (att_reviewer_chat_id att)
             then Some (''Review attestation for card '' @ i @ '' was produced by the board owner'')
             else None))"

definition validate_authority :: "'v task_board \<Rightarrow> nat \<Rightarrow> string + unit" where
  "validate_authority b max_reviewers =
     (if length (reviewer_chat_ids b) > max_reviewers
      then Inl (''Task board has '' @ show_nat (length (reviewer_chat_ids b)) @
                '' reviewers, exceeding the configured maximum of '' @ show_nat max_reviewers)
      else case reviewer_error (owner_chat_id b) [] (reviewer_chat_ids b) of
        Some e \<Rightarrow> Inl e
      | None \<Rightarrow>
          if owner_chat_id b = Some [] then Inl ''Task board owner ID cannot be empty''
          else (case find_map (attestation_error b) (btree_iter (review_attestations b)) of
                  Some e \<Rightarrow> Inl e
                | None \<Rightarrow> Inr ()))"

definition validate_for_write :: "'v task_board \<Rightarrow> nat \<Rightarrow> nat \<Rightarrow> string + unit" where
  "validate_for_write b max_reviewers max_claim_key_len =
     (case validate_dependencies b of
        Inl e \<Rightarrow> Inl e
      | Inr _ \<Rightarrow>
          (case validate_authority b max_reviewers of
             Inl e \<Rightarrow> Inl e
           | Inr _ \<Rightarrow> validate_claims b max_claim_key_len))"

section \<open>Claims and the dependency gate\<close>

definition card_claim_of :: "'v task_board \<Rightarrow> string \<Rightarrow> card_claim option" where
  "card_claim_of b i = map_of (card_claims b) i"

definition is_done :: "'v task_board \<Rightarrow> string \<Rightarrow> bool" where
  "is_done b i = (case get_card b i of None \<Rightarrow> False | Some c \<Rightarrow> bc_column c = ''done'')"

definition unsatisfied_dependencies :: "'v task_board \<Rightarrow> string \<Rightarrow> board_rule_violation + string list" where
  "unsatisfied_dependencies b i =
     (case get_card b i of
        None \<Rightarrow> Inl (CardNotFound i)
      | Some c \<Rightarrow> Inr (filter (\<lambda>d. \<not> is_done b d) (depends_on c)))"

definition dependency_gate :: "'v task_board \<Rightarrow> string \<Rightarrow> board_rule_violation + unit" where
  "dependency_gate b i =
     (case unsatisfied_dependencies b i of
        Inl e \<Rightarrow> Inl e
      | Inr unsatisfied \<Rightarrow>
          if unsatisfied = [] \<or> map_of (dependency_overrides b) i \<noteq> None then Inr ()
          else Inl (DependenciesUnsatisfied i unsatisfied))"

definition ensure_column_move_allowed :: "'v task_board \<Rightarrow> string \<Rightarrow> string \<Rightarrow> board_rule_violation + unit" where
  "ensure_column_move_allowed b i column =
     (if get_card b i = None then Inl (CardNotFound i)
      else if column = ''doing'' then dependency_gate b i
      else Inr ())"

definition claim_card ::
  "string \<Rightarrow> string \<Rightarrow> string \<Rightarrow> string \<Rightarrow> 'v task_board \<Rightarrow> 'v task_board \<times> (board_rule_violation + claim_outcome)" where
  "claim_card i claimant key at b =
     (case dependency_gate b i of
        Inl e \<Rightarrow> (b, Inl e)
      | Inr _ \<Rightarrow>
          (case map_of (card_claims b) i of
             Some existing \<Rightarrow>
               if claimant_chat_id existing = claimant \<and> idempotency_key existing = key
               then (b, Inr AlreadyHeld)
               else (b, Inl (AlreadyClaimed i (claimant_chat_id existing)))
           | None \<Rightarrow>
               (b\<lparr>card_claims := AList.update i
                   \<lparr>claimant_chat_id = claimant, idempotency_key = key, claimed_at = at\<rparr> (card_claims b)\<rparr>,
                Inr Claimed)))"

definition release_claim ::
  "string \<Rightarrow> string \<Rightarrow> 'v task_board \<Rightarrow> 'v task_board \<times> (board_rule_violation + unit)" where
  "release_claim i claimant b =
     (case map_of (card_claims b) i of
        None \<Rightarrow> (b, Inr ())
      | Some existing \<Rightarrow>
          if claimant_chat_id existing = claimant
          then (b\<lparr>card_claims := AList.delete i (card_claims b)\<rparr>, Inr ())
          else (b, Inl (AlreadyClaimed i (claimant_chat_id existing))))"

definition record_dependency_override ::
  "string \<Rightarrow> string \<Rightarrow> string \<Rightarrow> string \<Rightarrow> 'v task_board
   \<Rightarrow> 'v task_board \<times> (board_rule_violation + string list)" where
  "record_dependency_override i by reason at b =
     (case unsatisfied_dependencies b i of
        Inl e \<Rightarrow> (b, Inl e)
      | Inr unsatisfied \<Rightarrow>
          (b\<lparr>dependency_overrides := AList.update i
              \<lparr>overridden_by = by, override_reason = reason, overridden_at = at,
               override_unsatisfied = unsatisfied\<rparr> (dependency_overrides b)\<rparr>, Inr unsatisfied))"

definition first_open_dependency :: "'v task_board \<Rightarrow> string \<Rightarrow> string \<Rightarrow> string option" where
  "first_open_dependency b i d =
     (case get_card b d of
        None \<Rightarrow> Some (''Card '' @ i @ '' dependency '' @ d @ '' does not exist'')
      | Some dc \<Rightarrow>
          if bc_column dc \<noteq> ''done''
          then Some (''Card '' @ i @ '' is blocked by dependency '' @ d @ '' in '' @ single_quote @ bc_column dc @ single_quote)
          else None)"

definition dependencies_satisfied :: "'v task_board \<Rightarrow> string \<Rightarrow> string + unit" where
  "dependencies_satisfied b i =
     (case validate_dependencies b of
        Inl e \<Rightarrow> Inl e
      | Inr _ \<Rightarrow>
          (case get_card b i of
             None \<Rightarrow> Inl (''Card '' @ i @ '' not found'')
           | Some c \<Rightarrow>
               (case find_map (first_open_dependency b i) (depends_on c) of
                  Some e \<Rightarrow> Inl e
                | None \<Rightarrow> Inr ())))"

section \<open>Review authority\<close>

definition authorize_finalizer ::
  "'v task_board \<Rightarrow> string \<Rightarrow> string \<Rightarrow> bool \<Rightarrow> board_rule_violation + unit" where
  "authorize_finalizer b i who allow_self_review =
     (if get_card b i = None then Inl (CardNotFound i)
      else case owner_chat_id b of
        None \<Rightarrow> Inr ()
      | Some owner \<Rightarrow>
          if owner \<noteq> who \<and> who \<notin> set (reviewer_chat_ids b)
          then Inl (RoleDenied i ''finalising requires the board owner or an assigned reviewer'')
          else if (case map_of (card_claims b) i of None \<Rightarrow> False | Some c \<Rightarrow> claimant_chat_id c = who) \<and>
                  \<not> allow_self_review
          then Inl (RoleDenied i ''self-review is refused; enable coordination.board_allow_self_review to permit the claimant to finalise its own card'')
          else Inr ())"

definition authorize_owner :: "string \<Rightarrow> 'v task_board \<Rightarrow> 'v task_board \<times> (string + unit)" where
  "authorize_owner chat b =
     (case owner_chat_id b of
        None \<Rightarrow> (b\<lparr>owner_chat_id := Some chat\<rparr>, Inr ())
      | Some owner \<Rightarrow>
          (b, if owner = chat then Inr () else Inl ''task board mutation requires the owning planner chat''))"

definition require_owner :: "'v task_board \<Rightarrow> string \<Rightarrow> string + unit" where
  "require_owner b chat =
     (case owner_chat_id b of
        Some owner \<Rightarrow>
          if owner = chat then Inr () else Inl ''task board mutation requires the owning planner chat''
      | None \<Rightarrow> Inl ''task board has no owner; claim ownership first'')"

definition authorize_reviewer :: "'v task_board \<Rightarrow> string \<Rightarrow> bool \<Rightarrow> string + unit" where
  "authorize_reviewer b chat allow_self_review =
     (let owner = (owner_chat_id b = Some chat); assigned = (chat \<in> set (reviewer_chat_ids b)) in
      if assigned \<or> owner \<and> allow_self_review \<and> review_policy b = OwnerAllowed then Inr ()
      else if owner then Inl ''task review policy requires an independent assigned reviewer''
      else Inl ''task review requires the owner or an assigned reviewer'')"

definition review_policy_allows_report ::
  "'v task_board \<Rightarrow> string \<Rightarrow> verifier_report \<Rightarrow> bool \<Rightarrow> string + unit" where
  "review_policy_allows_report b i report allow_self_review =
     (if allow_self_review \<and> review_policy b = OwnerAllowed then Inr ()
      else case map_of (review_attestations b) i of
        None \<Rightarrow> Inl ''task review policy requires an independent reviewer report''
      | Some att \<Rightarrow>
          if att_report att \<noteq> report
          then Inl ''task review attestation no longer matches the stored report''
          else if owner_chat_id b = Some (att_reviewer_chat_id att)
          then Inl ''task review policy forbids owner self-review''
          else if att_reviewer_chat_id att \<notin> set (reviewer_chat_ids b)
          then Inl (''task reviewer '' @ att_reviewer_chat_id att @ '' is no longer assigned to this board'')
          else Inr ())"

section \<open>Outcomes and finalisation\<close>

definition card_outcome_of :: "'v task_board \<Rightarrow> string \<Rightarrow> card_outcome option" where
  "card_outcome_of b i = map_of (card_outcomes b) i"

definition card_is_finalized :: "'v task_board \<Rightarrow> string \<Rightarrow> bool" where
  "card_is_finalized b i =
     (case map_of (card_outcomes b) i of None \<Rightarrow> False | Some co \<Rightarrow> co_finalized co \<noteq> None)"

definition record_card_outcome ::
  "string \<Rightarrow> outcome_requirement list \<Rightarrow> outcome_fragment list \<Rightarrow> 'v task_board \<Rightarrow> 'v task_board" where
  "record_card_outcome i required fragments b =
     (let co = get_or card_outcome_default (map_of (card_outcomes b) i)
      in b\<lparr>card_outcomes := AList.update i
            (foldl (\<lambda>co f. set_fragment f co) (co\<lparr>co_required := required\<rparr>) fragments) (card_outcomes b)\<rparr>)"

definition attach_card_evidence :: "string \<Rightarrow> string \<Rightarrow> string list \<Rightarrow> 'v task_board \<Rightarrow> 'v task_board" where
  "attach_card_evidence i fragment ids b =
     (if ids = [] then b
      else b\<lparr>card_outcomes := amap_modify i (attach_evidence fragment ids) (card_outcomes b)\<rparr>)"

datatype finalize_block =
    BlockCardNotFound string
  | BlockNotCompleted string string
  | BlockAlreadyFinalized string string
  | BlockReviewDenied string
  | BlockMissingFragment string
  | BlockEmptyFragment string
  | BlockRejectedFragment string string
  | BlockContradictedFragment string string
  | BlockMissingSourceRun string
  | BlockMissingEvidence string

primrec finalize_block_message :: "finalize_block \<Rightarrow> string" where
  "finalize_block_message (BlockCardNotFound i) = ''card '' @ i @ '' not found on this board''"
| "finalize_block_message (BlockNotCompleted i column) =
     ''card '' @ i @ '' is in '' @ single_quote @ column @ single_quote @ ''; finalising requires a completed card''"
| "finalize_block_message (BlockAlreadyFinalized i who) = ''card '' @ i @ '' was already finalized by '' @ who"
| "finalize_block_message (BlockReviewDenied reason) = reason"
| "finalize_block_message (BlockMissingFragment f) =
     ''required outcome fragment '' @ single_quote @ f @ single_quote @ '' is missing''"
| "finalize_block_message (BlockEmptyFragment f) =
     ''required outcome fragment '' @ single_quote @ f @ single_quote @ '' is empty or a placeholder''"
| "finalize_block_message (BlockRejectedFragment f reason) =
     ''required outcome fragment '' @ single_quote @ f @ single_quote @ '' was rejected in review: '' @ reason"
| "finalize_block_message (BlockContradictedFragment f reason) =
     ''required outcome fragment '' @ single_quote @ f @ single_quote @ '' is contradicted and unresolved: '' @ reason"
| "finalize_block_message (BlockMissingSourceRun f) =
     ''required outcome fragment '' @ single_quote @ f @ single_quote @ '' does not record the run that produced it''"
| "finalize_block_message (BlockMissingEvidence f) =
     ''required outcome fragment '' @ single_quote @ f @ single_quote @ '' references no evidence record''"

text \<open>A \<open>FinalizeDecision\<close> is its list of blocks.\<close>

type_synonym finalize_decision = "finalize_block list"

definition decision_allowed :: "finalize_decision \<Rightarrow> bool" where
  "decision_allowed blocks \<longleftrightarrow> blocks = []"

definition decision_message :: "finalize_decision \<Rightarrow> string" where
  "decision_message blocks =
     (if blocks = [] then ''finalize allowed''
      else ''finalize blocked by '' @ show_nat (length blocks) @ '' unmet requirement(s):'' @ [newline] @
           join_strings [newline] (map (\<lambda>bl. ''- '' @ finalize_block_message bl) blocks))"

definition requirement_blocks :: "card_outcome \<Rightarrow> outcome_requirement \<Rightarrow> finalize_block list" where
  "requirement_blocks co r =
     (case outcome_fragment_named co (req_fragment r) of
        None \<Rightarrow> [BlockMissingFragment (req_fragment r)]
      | Some f \<Rightarrow>
          (if \<not> has_content f then [BlockEmptyFragment (req_fragment r)] else []) @
          (let note = get_or ''no reason recorded'' (fg_review_note f) in
           case fg_review f of
             ReviewRejected \<Rightarrow> [BlockRejectedFragment (req_fragment r) note]
           | ReviewContradicted \<Rightarrow> [BlockContradictedFragment (req_fragment r) note]
           | _ \<Rightarrow> []) @
          (if req_evidence r
           then (case map_option trim (source_run (fg_provenance f)) of
                   None \<Rightarrow> [BlockMissingSourceRun (req_fragment r)]
                 | Some run \<Rightarrow> if run = [] then [BlockMissingSourceRun (req_fragment r)] else []) @
                (if evidence_spec_ids (fg_provenance f) = [] then [BlockMissingEvidence (req_fragment r)] else [])
           else []))"

definition review_blocks :: "'v task_board \<Rightarrow> 'v board_card \<Rightarrow> string \<Rightarrow> bool \<Rightarrow> finalize_block list" where
  "review_blocks b c i allow_self_review =
     (if owner_chat_id b = None then []
      else case verifier_report_of c of
        Some report \<Rightarrow>
          (case review_policy_allows_report b i report allow_self_review of
             Inl reason \<Rightarrow> [BlockReviewDenied reason]
           | Inr _ \<Rightarrow> [])
      | None \<Rightarrow> [BlockReviewDenied ''finalising requires a reviewer report for the card''])"

definition evaluate_finalize :: "'v task_board \<Rightarrow> string \<Rightarrow> string \<Rightarrow> bool \<Rightarrow> finalize_decision" where
  "evaluate_finalize b i who allow_self_review =
     (case get_card b i of
        None \<Rightarrow> [BlockCardNotFound i]
      | Some c \<Rightarrow>
          (if bc_column c \<noteq> ''done'' then [BlockNotCompleted i (bc_column c)] else []) @
          (case Option.bind (map_of (card_outcomes b) i) co_finalized of
             Some fin \<Rightarrow> [BlockAlreadyFinalized i (finalized_by fin)]
           | None \<Rightarrow> []) @
          (case authorize_finalizer b i who allow_self_review of
             Inl v \<Rightarrow> [BlockReviewDenied (violation_message v)]
           | Inr _ \<Rightarrow> []) @
          review_blocks b c i allow_self_review @
          (case map_of (card_outcomes b) i of
             None \<Rightarrow> []
           | Some co \<Rightarrow> concat (map (requirement_blocks co) (co_required co))))"

definition finalize_card ::
  "string \<Rightarrow> string \<Rightarrow> bool \<Rightarrow> string \<Rightarrow> 'v task_board \<Rightarrow> 'v task_board \<times> (finalize_decision + unit)" where
  "finalize_card i who allow_self_review at b =
     (let decision = evaluate_finalize b i who allow_self_review in
      if \<not> decision_allowed decision then (b, Inl decision)
      else (b\<lparr>card_outcomes := AList.update i
               ((get_or card_outcome_default (map_of (card_outcomes b) i))
                  \<lparr>co_finalized := Some \<lparr>finalized_by = who, finalized_at = at\<rparr>\<rparr>) (card_outcomes b)\<rparr>, Inr ()))"

section \<open>Withdrawing reviews and cards\<close>

definition unfinalize :: "card_outcome \<Rightarrow> card_outcome" where
  "unfinalize co = co\<lparr>co_finalized := None\<rparr>"

definition clear_report :: "'v board_card \<Rightarrow> 'v board_card" where
  "clear_report c = c\<lparr>verifier_report_of := None\<rparr>"

text \<open>\<open>get_card_mut\<close>, with the change the caller makes through the reference.\<close>

definition update_card :: "string \<Rightarrow> ('v board_card \<Rightarrow> 'v board_card) \<Rightarrow> 'v board_card list \<Rightarrow> 'v board_card list" where
  "update_card i f cs = modify_first (\<lambda>c. bc_id c = i) f cs"

definition clear_verifier_reports :: "'v task_board \<Rightarrow> 'v task_board" where
  "clear_verifier_reports b =
     b\<lparr>review_attestations := [], cards := map clear_report (cards b),
       card_outcomes := map (\<lambda>(i, co). (i, unfinalize co)) (card_outcomes b)\<rparr>"

definition invalidate_card_review :: "string \<Rightarrow> 'v task_board \<Rightarrow> 'v task_board" where
  "invalidate_card_review i b =
     b\<lparr>review_attestations := AList.delete i (review_attestations b),
       card_outcomes := amap_modify i unfinalize (card_outcomes b),
       cards := update_card i clear_report (cards b)\<rparr>"

definition attested_by :: "string \<Rightarrow> 'v task_board \<Rightarrow> string list" where
  "attested_by r b =
     map fst (filter (\<lambda>(i, att). att_reviewer_chat_id att = r) (btree_iter (review_attestations b)))"

definition remove_reviewer :: "string \<Rightarrow> 'v task_board \<Rightarrow> 'v task_board" where
  "remove_reviewer r b =
     (let b1 = b\<lparr>reviewer_chat_ids := filter (\<lambda>x. x \<noteq> r) (reviewer_chat_ids b)\<rparr>
      in foldl (\<lambda>b i. invalidate_card_review i b) b1 (attested_by r b1))"

definition attest_review ::
  "string \<Rightarrow> string \<Rightarrow> verifier_report \<Rightarrow> string \<Rightarrow> bool \<Rightarrow> 'v task_board \<Rightarrow> 'v task_board \<times> (string + unit)" where
  "attest_review i reviewer report at allow_self_review b =
     (case authorize_reviewer b reviewer allow_self_review of
        Inl e \<Rightarrow> (b, Inl e)
      | Inr _ \<Rightarrow>
          (b\<lparr>review_attestations := AList.update i
              \<lparr>att_reviewer_chat_id = reviewer, att_reviewed_at = at, att_report = report\<rparr>
              (review_attestations b)\<rparr>, Inr ()))"

fun remove_first :: "('a \<Rightarrow> bool) \<Rightarrow> 'a list \<Rightarrow> 'a list" where
  "remove_first P [] = []"
| "remove_first P (x # xs) = (if P x then xs else x # remove_first P xs)"

definition remove_card :: "string \<Rightarrow> 'v task_board \<Rightarrow> 'v task_board \<times> 'v board_card option" where
  "remove_card i b =
     (b\<lparr>review_attestations := AList.delete i (review_attestations b),
        card_claims := AList.delete i (card_claims b),
        dependency_overrides := AList.delete i (dependency_overrides b),
        card_outcomes := AList.delete i (card_outcomes b),
        cards := remove_first (\<lambda>c. bc_id c = i) (cards b)\<rparr>, get_card b i)"

section \<open>Views\<close>

record ready_cards_result =
  rc_ready :: "string list"
  rc_blocked :: "string list"
  rc_in_progress :: "string list"
  rc_completed :: "string list"
  rc_failed :: "string list"

definition done_cards :: "'v task_board \<Rightarrow> string list" where
  "done_cards b = map bc_id (filter (\<lambda>c. bc_column c = ''done'') (cards b))"

definition classify_card :: "string list \<Rightarrow> ready_cards_result \<Rightarrow> 'v board_card \<Rightarrow> ready_cards_result" where
  "classify_card done_ids res c =
     (if bc_column c = ''done'' then res\<lparr>rc_completed := rc_completed res @ [bc_id c]\<rparr>
      else if bc_column c = ''failed'' \<or> bc_column c = ''regressed''
      then res\<lparr>rc_failed := rc_failed res @ [bc_id c]\<rparr>
      else if bc_column c = ''doing'' then res\<lparr>rc_in_progress := rc_in_progress res @ [bc_id c]\<rparr>
      else if bc_column c = ''planned''
      then if list_all (\<lambda>d. d \<in> set done_ids) (depends_on c)
           then res\<lparr>rc_ready := rc_ready res @ [bc_id c]\<rparr>
           else res\<lparr>rc_blocked := rc_blocked res @ [bc_id c]\<rparr>
      else res)"

definition get_ready_cards :: "'v task_board \<Rightarrow> ready_cards_result" where
  "get_ready_cards b =
     foldl (classify_card (done_cards b))
       \<lparr>rc_ready = [], rc_blocked = [], rc_in_progress = [], rc_completed = [], rc_failed = []\<rparr> (cards b)"

definition get_dependency_reports :: "'v task_board \<Rightarrow> string \<Rightarrow> (string \<times> string) list" where
  "get_dependency_reports b i =
     (case get_card b i of
        None \<Rightarrow> []
      | Some c \<Rightarrow>
          List.map_filter (\<lambda>d. Option.bind (get_card b d)
            (\<lambda>dc. map_option (\<lambda>report. (bc_title dc, report)) (bc_final_report dc))) (depends_on c))"

section \<open>Executions\<close>

text \<open>
  The operations that change a board, as the engine applies them under its board lock;
  \<open>self\<close> is the setting \<open>board_allow_self_review\<close>.
\<close>

datatype board_op =
    ClaimOp string string string string
  | ReleaseOp string string
  | OverrideOp string string string string
  | OwnOp string
  | OutcomeOp string "outcome_requirement list" "outcome_fragment list"
  | EvidenceOp string string "string list"
  | FinalizeOp string string string
  | ClearReportsOp
  | RemoveReviewerOp string
  | InvalidateOp string
  | AttestOp string string verifier_report string
  | RemoveCardOp string

primrec board_step :: "bool \<Rightarrow> 'v task_board \<Rightarrow> board_op \<Rightarrow> 'v task_board" where
  "board_step self b (ClaimOp i claimant key at) = fst (claim_card i claimant key at b)"
| "board_step self b (ReleaseOp i claimant) = fst (release_claim i claimant b)"
| "board_step self b (OverrideOp i who reason at) = fst (record_dependency_override i who reason at b)"
| "board_step self b (OwnOp chat) = fst (authorize_owner chat b)"
| "board_step self b (OutcomeOp i required fragments) = record_card_outcome i required fragments b"
| "board_step self b (EvidenceOp i fragment ids) = attach_card_evidence i fragment ids b"
| "board_step self b (FinalizeOp i who at) = fst (finalize_card i who self at b)"
| "board_step self b ClearReportsOp = clear_verifier_reports b"
| "board_step self b (RemoveReviewerOp r) = remove_reviewer r b"
| "board_step self b (InvalidateOp i) = invalidate_card_review i b"
| "board_step self b (AttestOp i reviewer report at) = fst (attest_review i reviewer report at self b)"
| "board_step self b (RemoveCardOp i) = fst (remove_card i b)"

end
