(* ===== verification/Board_Dependencies.thy ===== *)
theory Board_Dependencies
  imports Board
begin

text \<open>
  Correctness of the dependency check: the worklist loop of \<open>validate_dependencies\<close>
  processes exactly the cards that are not behind a cycle, never underflows a count, and
  so the check accepts exactly the boards with unique ids whose dependencies exist, are
  listed once and form no cycle.
\<close>

section \<open>The worklist loop\<close>

text \<open>\<open>D i\<close> are the dependencies of node \<open>i\<close>; \<open>ds ! j\<close> lists the nodes that depend on \<open>j\<close>.\<close>

definition dep_graph :: "nat \<Rightarrow> (nat \<Rightarrow> nat set) \<Rightarrow> nat list list \<Rightarrow> bool" where
  "dep_graph n D ds \<longleftrightarrow> length ds = n \<and> (\<forall>i<n. D i \<subseteq> {..<n} \<and> i \<notin> D i) \<and>
     (\<forall>j<n. distinct (ds ! j) \<and> set (ds ! j) = {i. i < n \<and> j \<in> D i})"

text \<open>With \<open>P\<close> processed, the counts are the dependencies outside \<open>P\<close>, and the nodes with none are processed or queued.\<close>

definition topo_inv :: "nat \<Rightarrow> (nat \<Rightarrow> nat set) \<Rightarrow> nat set \<Rightarrow> nat list \<Rightarrow> nat list \<Rightarrow> bool" where
  "topo_inv n D P ind q \<longleftrightarrow> length ind = n \<and> distinct q \<and> set q \<subseteq> {..<n} \<and> P \<subseteq> {..<n} \<and> set q \<inter> P = {} \<and>
     (\<forall>i<n. ind ! i = card (D i - P)) \<and> (\<forall>i<n. D i \<subseteq> P \<longleftrightarrow> i \<in> P \<union> set q)"

definition ranked :: "(nat \<Rightarrow> nat set) \<Rightarrow> nat set \<Rightarrow> bool" where
  "ranked D P \<longleftrightarrow> (\<exists>f :: nat \<Rightarrow> nat. \<forall>i \<in> P. \<forall>j \<in> D i. f j < f i)"

lemma relax_all_closed:
  assumes "distinct ds" "\<And>d. d \<in> set ds \<Longrightarrow> d < length ind \<and> 0 < ind ! d"
  shows "relax_all ds (ind, q) =
    Some (map (\<lambda>k. if k \<in> set ds then ind ! k - 1 else ind ! k) [0..<length ind], q @ filter (\<lambda>d. ind ! d = 1) ds)"
  using assms
proof (induction ds arbitrary: ind q)
  case Nil
  then show ?case by (simp add: map_nth)
next
  case (Cons d ds)
  let ?ind = "ind[d := ind ! d - 1]"
  have d: "d < length ind" "0 < ind ! d" "d \<notin> set ds" using Cons.prems by auto
  have "relax_all ds (?ind, q') = Some (map (\<lambda>k. if k \<in> set ds then ?ind ! k - 1 else ?ind ! k) [0..<length ind],
      q' @ filter (\<lambda>d. ?ind ! d = 1) ds)" for q'
  proof -
    have "distinct ds" using Cons.prems(1) by simp
    moreover have "k < length ?ind \<and> 0 < ?ind ! k" if "k \<in> set ds" for k
      using that Cons.prems(2) [of k] d by (auto simp: nth_list_update)
    ultimately show ?thesis using Cons.IH [of ?ind q'] by simp
  qed
  moreover have "filter (\<lambda>k. ?ind ! k = 1) ds = filter (\<lambda>k. ind ! k = 1) ds"
    using d by (intro filter_cong) (auto simp: nth_list_update)
  moreover have "map (\<lambda>k. if k \<in> set ds then ?ind ! k - 1 else ?ind ! k) [0..<length ind] =
      map (\<lambda>k. if k \<in> set (d # ds) then ind ! k - 1 else ind ! k) [0..<length ind]"
    using d by (intro map_cong) (auto simp: nth_list_update)
  ultimately show ?case using d by (auto simp: relax_def Let_def)
qed

lemma dep_graph_finite: "dep_graph n D ds \<Longrightarrow> i < n \<Longrightarrow> finite (D i)"
  unfolding dep_graph_def by (meson finite_lessThan finite_subset)

lemma topo_step:
  assumes g: "dep_graph n D ds" and inv: "topo_inv n D P ind (i # q)"
  obtains ind' q' where "relax_all (ds ! i) (ind, q) = Some (ind', q')" "topo_inv n D (insert i P) ind' q'"
    "q' = q @ filter (\<lambda>d. ind ! d = 1) (ds ! i)"
proof -
  from inv have i: "i < n" "i \<notin> P" "i \<notin> set q" and len: "length ind = n"
    and cnt: "\<And>k. k < n \<Longrightarrow> ind ! k = card (D k - P)"
    and ready: "\<And>k. k < n \<Longrightarrow> D k \<subseteq> P \<longleftrightarrow> k \<in> insert i (P \<union> set q)"
    and q: "distinct q" "set q \<subseteq> {..<n}" "P \<subseteq> {..<n}" "set q \<inter> P = {}"
    unfolding topo_inv_def by auto
  have ds: "distinct (ds ! i)" "\<And>k. k \<in> set (ds ! i) \<longleftrightarrow> k < n \<and> i \<in> D k" and self: "i \<notin> D i"
    using g i unfolding dep_graph_def by auto
  have pos: "k < length ind \<and> 0 < ind ! k" if "k \<in> set (ds ! i)" for k
    using that i ds cnt [of k] len dep_graph_finite [OF g, of k] by (auto simp: card_gt_0_iff)
  have one: "ind ! k = 1 \<longleftrightarrow> D k \<subseteq> insert i P" if "k \<in> set (ds ! i)" for k
  proof -
    from that ds have k: "k < n" "i \<in> D k" by auto
    note fin = dep_graph_finite [OF g k(1)]
    have "D k - P = insert i (D k - insert i P)" using k i by auto
    then have "card (D k - P) = Suc (card (D k - insert i P))" using fin by (metis Diff_iff card_insert_disjoint finite_Diff insertI1)
    with fin cnt [OF k(1)] show ?thesis by (simp add: Diff_eq_empty_iff)
  qed
  let ?ind = "map (\<lambda>k. if k \<in> set (ds ! i) then ind ! k - 1 else ind ! k) [0..<length ind]"
  let ?q = "q @ filter (\<lambda>d. ind ! d = 1) (ds ! i)"
  have "?ind ! k = card (D k - insert i P)" if "k < n" for k
  proof (cases "i \<in> D k")
    case True
    with i dep_graph_finite [OF g that] have "card (D k - P) = Suc (card (D k - insert i P))"
      by (metis Diff_insert card_Suc_Diff1 finite_Diff DiffI)
    with True that len cnt [OF that] ds show ?thesis by simp
  next
    case False
    then have "D k - insert i P = D k - P" by auto
    with False that len cnt [OF that] ds show ?thesis by simp
  qed
  moreover have "D k \<subseteq> insert i P \<longleftrightarrow> k \<in> insert i P \<union> set ?q" if k: "k < n" for k
  proof (cases "i \<in> D k")
    case True
    with i have "\<not> D k \<subseteq> P" by auto
    with k ready have "k \<notin> insert i P" "k \<notin> set q" by auto
    with True k one ds show ?thesis by auto
  next
    case False
    then have "D k \<subseteq> insert i P \<longleftrightarrow> D k \<subseteq> P" by auto
    with False k ready ds show ?thesis by auto
  qed
  moreover have "k \<notin> insert i (P \<union> set q)" if "k \<in> set (ds ! i)" for k
    using that ds i ready [of k] by blast
  ultimately have "topo_inv n D (insert i P) ?ind ?q"
    using q i ds len unfolding topo_inv_def by auto
  with that relax_all_closed [OF ds(1) pos] show thesis by blast
qed

lemma ranked_insert:
  assumes "ranked D P" "D i \<subseteq> P" "i \<notin> P" "\<And>k. k \<in> P \<Longrightarrow> D k \<subseteq> P" "finite P"
  shows "ranked D (insert i P)"
proof -
  from assms(1) obtain f :: "nat \<Rightarrow> nat" where f: "\<And>k j. k \<in> P \<Longrightarrow> j \<in> D k \<Longrightarrow> f j < f k"
    unfolding ranked_def by blast
  let ?f = "f(i := Suc (sum f P))"
  have "?f j < ?f k" if "k \<in> insert i P" "j \<in> D k" for k j
  proof (cases "k = i")
    case True
    with that assms(2,3) have "j \<in> P" "j \<noteq> i" by auto
    then show ?thesis using True assms(5) by (auto simp: less_Suc_eq_le intro: member_le_sum)
  next
    case False
    with that have "k \<in> P" by simp
    moreover from this that assms(3,4) have "j \<noteq> i" by auto
    ultimately show ?thesis using False f that by simp
  qed
  then show ?thesis unfolding ranked_def by blast
qed

text \<open>The loop ends with every node whose dependencies were all processed processed, and never panics.\<close>

lemma topo_loop_result:
  assumes "dep_graph n D ds" "topo_inv n D P ind q" "ranked D P" "v = card P"
  shows "\<exists>P' ind'. topo_loop ds ind q v = Some (card P', ind') \<and> topo_inv n D P' ind' [] \<and> ranked D P'"
  using assms(2-)
proof (induction "sum_list ind + length q" arbitrary: P ind q v rule: less_induct)
  case less
  show ?case
  proof (cases q)
    case Nil
    with less.prems show ?thesis by auto
  next
    case (Cons i q1)
    from less.prems(1) Cons have inv: "topo_inv n D P ind (i # q1)" by simp
    from topo_step [OF assms(1) inv] obtain ind' q' where
      step: "relax_all (ds ! i) (ind, q1) = Some (ind', q')" and inv': "topo_inv n D (insert i P) ind' q'" by blast
    have P: "finite P" "i \<notin> P" "D i \<subseteq> P" "\<And>k. k \<in> P \<Longrightarrow> D k \<subseteq> P"
      using inv unfolding topo_inv_def by (auto intro: finite_subset)
    have "sum_list ind' + length q' < sum_list ind + length q"
      using relax_all_work [OF step] Cons by simp
    moreover have "v + 1 = card (insert i P)" using P less.prems(3) by simp
    ultimately show ?thesis
      using less.hyps [OF _ inv' ranked_insert [OF less.prems(2) P(3,2,4,1)], of "v + 1"] step Cons by auto
  qed
qed

text \<open>If not every node was processed, the nodes left form a set in which each depends on another.\<close>

lemma topo_left_over:
  assumes "topo_inv n D P ind []" "i < n" "i \<notin> P" "D i \<subseteq> {..<n}"
  shows "\<exists>j. j < n \<and> j \<notin> P \<and> j \<in> D i"
proof -
  have "\<not> D i \<subseteq> P" using assms(1-3) unfolding topo_inv_def by simp
  with assms(4) show ?thesis by blast
qed

section \<open>Indices of cards\<close>

lemma get_cardD: "get_card b i = Some c \<Longrightarrow> c \<in> set (cards b) \<and> bc_id c = i"
  by (auto simp: get_card_def find_Some_iff)

lemma get_card_None: "get_card b i = None \<longleftrightarrow> i \<notin> bc_id ` set (cards b)"
  by (auto simp: get_card_def find_None_iff)

lemma get_card_unique:
  assumes "distinct (map bc_id (cards b))" "c \<in> set (cards b)"
  shows "get_card b (bc_id c) = Some c"
proof (cases "get_card b (bc_id c)")
  case None
  with assms(2) show ?thesis by (simp add: get_card_None)
next
  case (Some c')
  from get_cardD [OF this] assms have "c' = c" by (metis distinct_map inj_onD)
  with Some show ?thesis by simp
qed

lemma first_duplicate_None: "first_duplicate seen xs = None \<longleftrightarrow> distinct xs \<and> set seen \<inter> set xs = {}"
  by (induction xs arbitrary: seen) auto

lemma map_of_index_by_id:
  assumes "distinct (map bc_id cs)"
  shows "map_of (index_by_id cs) d = Some j \<longleftrightarrow> j < length cs \<and> bc_id (cs ! j) = d"
  using assms
proof (induction cs arbitrary: j rule: rev_induct)
  case Nil
  then show ?case by (simp add: index_by_id_def)
next
  case (snoc c cs)
  have "index_by_id (cs @ [c]) = AList.update (bc_id c) (length cs) (index_by_id cs)"
    by (simp add: index_by_id_def enumerate_append_eq)
  moreover have "bc_id (cs ! k) \<noteq> bc_id c" if "k < length cs" for k
    using snoc.prems that by (metis distinct_append image_eqI list.set_intros(1) map_append nth_mem set_map
        disjoint_iff list.simps(9))
  ultimately show ?case using snoc by (auto simp: alist_simps nth_append less_Suc_eq)
qed

lemma index_by_id_None: "map_of (index_by_id cs) d = None \<longleftrightarrow> d \<notin> bc_id ` set cs"
proof (induction cs rule: rev_induct)
  case (snoc c cs)
  then show ?case by (auto simp: index_by_id_def enumerate_append_eq alist_simps)
qed (simp add: index_by_id_def)

lemma card_dependency_error_None:
  "card_dependency_error (index_by_id cs) c = None \<longleftrightarrow>
     bc_id c \<notin> set (depends_on c) \<and> distinct (depends_on c) \<and> set (depends_on c) \<subseteq> bc_id ` set cs"
proof -
  have "List.find (\<lambda>d. map_of (index_by_id cs) d = None) (depends_on c) = None \<longleftrightarrow>
      set (depends_on c) \<subseteq> bc_id ` set cs"
    by (auto simp: find_None_iff index_by_id_None)
  moreover have "first_duplicate [] (depends_on c) = None \<longleftrightarrow> distinct (depends_on c)"
    by (simp add: first_duplicate_None)
  ultimately show ?thesis
    by (cases "first_duplicate [] (depends_on c)") (auto simp: card_dependency_error_def split: option.splits)
qed

text \<open>A board whose ids are unique and whose dependencies exist, once each, on other cards.\<close>

definition cards_ok :: "'v board_card list \<Rightarrow> bool" where
  "cards_ok cs \<longleftrightarrow> distinct (map bc_id cs) \<and>
     (\<forall>c \<in> set cs. bc_id c \<notin> set (depends_on c) \<and> distinct (depends_on c) \<and> set (depends_on c) \<subseteq> bc_id ` set cs)"

definition deps_index :: "'v board_card list \<Rightarrow> nat \<Rightarrow> nat set" where
  "deps_index cs i = {j. j < length cs \<and> bc_id (cs ! j) \<in> set (depends_on (cs ! i))}"

lemma push_dependents:
  assumes "distinct deps" "\<And>d j. d \<in> set deps \<Longrightarrow> map_of m d = Some j \<Longrightarrow> j < length ds"
    and "\<And>d d' j. map_of m d = Some j \<Longrightarrow> map_of m d' = Some j \<Longrightarrow> d = d'"
  shows "length (foldl (push_dependent m i) ds deps) = length ds \<and>
    (\<forall>j < length ds. foldl (push_dependent m i) ds deps ! j =
       ds ! j @ (if \<exists>d \<in> set deps. map_of m d = Some j then [i] else []))"
  using assms(1,2)
proof (induction deps arbitrary: ds)
  case (Cons d deps)
  let ?ds = "push_dependent m i ds d"
  have len: "length ?ds = length ds" by (simp add: push_dependent_def split: option.splits)
  have IH: "length (foldl (push_dependent m i) ?ds deps) = length ds \<and>
      (\<forall>j < length ds. foldl (push_dependent m i) ?ds deps ! j =
         ?ds ! j @ (if \<exists>d \<in> set deps. map_of m d = Some j then [i] else []))"
  proof -
    have "distinct deps" using Cons.prems(1) by simp
    moreover have "j < length ?ds" if "d' \<in> set deps" "map_of m d' = Some j" for d' j
      using Cons.prems(2) [of d' j] that len by simp
    ultimately show ?thesis using Cons.IH [of ?ds] len by simp
  qed
  have at: "?ds ! j = ds ! j @ (if map_of m d = Some j then [i] else [])" if "j < length ds" for j
    using that by (auto simp: push_dependent_def nth_list_update split: option.splits)
  have "\<not> (map_of m d = Some j \<and> (\<exists>d' \<in> set deps. map_of m d' = Some j))" for j
    using assms(3) Cons.prems(1) by auto
  with IH at show ?case by auto
qed simp

lemma dependents_prefix:
  fixes n :: nat
  assumes "\<And>c. c \<in> set xs \<Longrightarrow> distinct (depends_on c)"
    and "\<And>d j. map_of m d = Some j \<Longrightarrow> j < n"
    and "\<And>d d' j. map_of m d = Some j \<Longrightarrow> map_of m d' = Some j \<Longrightarrow> d = d'"
  shows "let ds = foldl (\<lambda>ds (i, c). foldl (push_dependent m i) ds (depends_on c)) (replicate n [])
                   (List.enumerate 0 xs)
    in length ds = n \<and>
       (\<forall>j<n. ds ! j = filter (\<lambda>i. \<exists>d \<in> set (depends_on (xs ! i)). map_of m d = Some j) [0..<length xs])"
  using assms(1)
proof (induction xs rule: rev_induct)
  case (snoc c xs)
  let ?ds = "foldl (\<lambda>ds (i, c). foldl (push_dependent m i) ds (depends_on c)) (replicate n []) (List.enumerate 0 xs)"
  have IH: "length ?ds = n" "\<And>j. j < n \<Longrightarrow>
      ?ds ! j = filter (\<lambda>i. \<exists>d \<in> set (depends_on (xs ! i)). map_of m d = Some j) [0..<length xs]"
    using snoc by (auto simp: Let_def)
  have "distinct (depends_on c)" using snoc.prems by simp
  from push_dependents [OF this, of m ?ds "length xs"] IH(1) assms(2,3)
  have step: "length (foldl (push_dependent m (length xs)) ?ds (depends_on c)) = n"
    "\<And>j. j < n \<Longrightarrow> foldl (push_dependent m (length xs)) ?ds (depends_on c) ! j =
       ?ds ! j @ (if \<exists>d \<in> set (depends_on c). map_of m d = Some j then [length xs] else [])"
    by auto
  have "filter (\<lambda>i. \<exists>d \<in> set (depends_on ((xs @ [c]) ! i)). map_of m d = Some j) [0..<length (xs @ [c])] =
      filter (\<lambda>i. \<exists>d \<in> set (depends_on (xs ! i)). map_of m d = Some j) [0..<length xs] @
      (if \<exists>d \<in> set (depends_on c). map_of m d = Some j then [length xs] else [])" for j
    by (auto simp: nth_append intro!: filter_cong)
  with step IH(2) show ?case by (simp add: enumerate_append_eq Let_def)
qed simp

lemma dep_graph_cards:
  assumes "cards_ok cs"
  shows "dep_graph (length cs) (deps_index cs) (dependents_of (index_by_id cs) cs)"
proof -
  have dist: "distinct (map bc_id cs)" and deps: "\<And>c. c \<in> set cs \<Longrightarrow> distinct (depends_on c)"
    and self: "\<And>c. c \<in> set cs \<Longrightarrow> bc_id c \<notin> set (depends_on c)"
    using assms by (auto simp: cards_ok_def)
  note idx = map_of_index_by_id [OF dist]
  have "let ds = dependents_of (index_by_id cs) cs in length ds = length cs \<and>
      (\<forall>j<length cs. ds ! j =
         filter (\<lambda>i. \<exists>d \<in> set (depends_on (cs ! i)). map_of (index_by_id cs) d = Some j) [0..<length cs])"
    unfolding dependents_of_def by (rule dependents_prefix) (auto simp: deps idx)
  then show ?thesis
    using self by (auto simp: dep_graph_def deps_index_def idx Let_def)
qed

lemma card_deps_index:
  assumes "cards_ok cs" "i < length cs"
  shows "card (deps_index cs i) = length (depends_on (cs ! i))"
proof -
  let ?f = "\<lambda>j. bc_id (cs ! j)"
  have dist: "distinct (map bc_id cs)" and ok: "distinct (depends_on (cs ! i))" "set (depends_on (cs ! i)) \<subseteq> bc_id ` set cs"
    using assms by (auto simp: cards_ok_def)
  have "inj_on ?f (deps_index cs i)"
    using dist by (auto simp: inj_on_def deps_index_def distinct_conv_nth)
  moreover have "?f ` deps_index cs i = set (depends_on (cs ! i))"
  proof
    show "set (depends_on (cs ! i)) \<subseteq> ?f ` deps_index cs i"
    proof
      fix d assume d: "d \<in> set (depends_on (cs ! i))"
      with ok(2) have "d \<in> bc_id ` set cs" by blast
      then obtain j where "j < length cs" "bc_id (cs ! j) = d" by (metis image_iff in_set_conv_nth)
      with d show "d \<in> ?f ` deps_index cs i" by (auto simp: deps_index_def)
    qed
  qed (auto simp: deps_index_def)
  ultimately have "card (deps_index cs i) = card (set (depends_on (cs ! i)))" by (metis card_image)
  with ok(1) show ?thesis by (simp add: distinct_card)
qed

lemma topo_inv_start:
  assumes "cards_ok cs"
  shows "topo_inv (length cs) (deps_index cs) {} (indegrees cs) (sources (indegrees cs))"
proof -
  have set: "set (sources (indegrees cs)) = {i. i < length cs \<and> indegrees cs ! i = 0}"
    by (force simp: sources_def indegrees_def in_set_enumerate_eq image_iff)
  have "sources (indegrees cs) = map fst (filter (\<lambda>(i, n). n = 0) (List.enumerate 0 (indegrees cs)))"
    by (simp add: sources_def)
  then have dist: "distinct (sources (indegrees cs))"
    by (simp add: distinct_map_filter)
  have fin: "finite (deps_index cs i)" for i by (simp add: deps_index_def)
  have cnt: "indegrees cs ! i = card (deps_index cs i)" if "i < length cs" for i
    using card_deps_index [OF assms that] that by (simp add: indegrees_def)
  show ?thesis
    unfolding topo_inv_def using set dist cnt fin by (auto simp: indegrees_def)
qed

section \<open>What the check accepts\<close>

definition depends_rel :: "'v board_card list \<Rightarrow> (string \<times> string) set" where
  "depends_rel cs = {(d, bc_id c) | c d. c \<in> set cs \<and> d \<in> set (depends_on c)}"

lemma depends_rel_Union: "depends_rel cs = (\<Union>c \<in> set cs. (\<lambda>d. (d, bc_id c)) ` set (depends_on c))"
  by (auto simp: depends_rel_def)

lemma finite_depends_rel: "finite (depends_rel cs)"
  by (simp add: depends_rel_Union)

lemma ranked_acyclic:
  assumes ok: "cards_ok cs" and r: "ranked (deps_index cs) {..<length cs}"
  shows "acyclic (depends_rel cs)"
proof -
  from r obtain f :: "nat \<Rightarrow> nat" where f: "\<And>i j. i < length cs \<Longrightarrow> j \<in> deps_index cs i \<Longrightarrow> f j < f i"
    unfolding ranked_def by blast
  have dist: "distinct (map bc_id cs)" using ok by (simp add: cards_ok_def)
  define g where "g d = get_or 0 (map_option f (map_of (index_by_id cs) d))" for d
  have at: "g (bc_id (cs ! i)) = f i" if "i < length cs" for i
    using that map_of_index_by_id [OF dist, of "bc_id (cs ! i)" i] by (simp add: g_def)
  have "g d < g e" if "(d, e) \<in> depends_rel cs" for d e
  proof -
    from that obtain c where c: "c \<in> set cs" "e = bc_id c" "d \<in> set (depends_on c)" by (auto simp: depends_rel_def)
    then obtain i where i: "i < length cs" "c = cs ! i" by (metis in_set_conv_nth)
    from ok c have "d \<in> bc_id ` set cs" unfolding cards_ok_def by blast
    then obtain j where j: "j < length cs" "d = bc_id (cs ! j)" by (metis image_iff in_set_conv_nth)
    then have "j \<in> deps_index cs i" using c i by (simp add: deps_index_def)
    from f [OF i(1) this] show ?thesis using at i j c by simp
  qed
  then have "depends_rel cs \<subseteq> measure g" by auto
  then show ?thesis by (meson wf_acyclic wf_measure wf_subset)
qed

lemma acyclic_processed:
  assumes ok: "cards_ok cs" and acy: "acyclic (depends_rel cs)"
    and inv: "topo_inv (length cs) (deps_index cs) P ind []"
  shows "P = {..<length cs}"
proof (rule ccontr)
  assume "P \<noteq> {..<length cs}"
  with inv obtain k where k: "k < length cs" "k \<notin> P" unfolding topo_inv_def by auto
  let ?U = "(\<lambda>i. bc_id (cs ! i)) ` ({..<length cs} - P)"
  have "wf (depends_rel cs)" using acy finite_depends_rel finite_acyclic_wf by blast
  then obtain z where z: "z \<in> ?U" "\<And>y. (y, z) \<in> depends_rel cs \<Longrightarrow> y \<notin> ?U"
    using k wfE_min [of "depends_rel cs" "bc_id (cs ! k)" ?U] by blast
  then obtain i where i: "i < length cs" "i \<notin> P" "z = bc_id (cs ! i)" by auto
  have "deps_index cs i \<subseteq> {..<length cs}" by (auto simp: deps_index_def)
  from topo_left_over [OF inv i(1,2) this] obtain j where j: "j < length cs" "j \<notin> P" "j \<in> deps_index cs i" by blast
  then have "(bc_id (cs ! j), z) \<in> depends_rel cs" using i by (auto simp: depends_rel_def deps_index_def)
  with z(2) j show False by blast
qed

text \<open>The outcome of the worklist loop on the cards of a board that passed the other checks.\<close>

lemma topo_loop_cards:
  assumes "cards_ok cs"
  obtains P ind where
    "topo_loop (dependents_of (index_by_id cs) cs) (indegrees cs) (sources (indegrees cs)) 0 = Some (card P, ind)"
    "topo_inv (length cs) (deps_index cs) P ind []" "card P = length cs \<longleftrightarrow> acyclic (depends_rel cs)"
proof -
  have "ranked (deps_index cs) {}" by (simp add: ranked_def)
  from topo_loop_result [OF dep_graph_cards [OF assms] topo_inv_start [OF assms] this, of 0] obtain P ind where
    run: "topo_loop (dependents_of (index_by_id cs) cs) (indegrees cs) (sources (indegrees cs)) 0 = Some (card P, ind)"
    and inv: "topo_inv (length cs) (deps_index cs) P ind []" and r: "ranked (deps_index cs) P" by auto
  have "P \<subseteq> {..<length cs}" using inv by (simp add: topo_inv_def)
  then have "card P = length cs \<longleftrightarrow> P = {..<length cs}"
    by (metis card_lessThan card_subset_eq finite_lessThan)
  also have "\<dots> \<longleftrightarrow> acyclic (depends_rel cs)"
    using ranked_acyclic [OF assms] acyclic_processed [OF assms _ inv] r by blast
  finally show thesis using that run inv by blast
qed

lemma card_errors_None:
  "first_duplicate [] (map bc_id cs) = None \<and> find_map (card_dependency_error (index_by_id cs)) cs = None \<longleftrightarrow> cards_ok cs"
  by (auto simp: first_duplicate_None find_map_None card_dependency_error_None cards_ok_def)

lemma validate_dependencies_cards:
  "validate_dependencies b = Inr () \<longleftrightarrow> cards_ok (cards b) \<and> acyclic (depends_rel (cards b))"
proof (cases "cards_ok (cards b)")
  case True
  obtain P ind where
    run: "topo_loop (dependents_of (index_by_id (cards b)) (cards b)) (indegrees (cards b))
      (sources (indegrees (cards b))) 0 = Some (card P, ind)"
    and "topo_inv (length (cards b)) (deps_index (cards b)) P ind []"
    and acy: "card P = length (cards b) \<longleftrightarrow> acyclic (depends_rel (cards b))"
    by (rule topo_loop_cards [OF True])
  from True card_errors_None [of "cards b"] have
    "first_duplicate [] (map bc_id (cards b)) = None" "find_map (card_dependency_error (index_by_id (cards b))) (cards b) = None"
    by simp_all
  with run acy True show ?thesis by (simp add: validate_dependencies_def Let_def)
next
  case False
  with card_errors_None [of "cards b"] consider
    x where "first_duplicate [] (map bc_id (cards b)) = Some x"
  | e where "first_duplicate [] (map bc_id (cards b)) = None"
      "find_map (card_dependency_error (index_by_id (cards b))) (cards b) = Some e"
    by (metis not_Some_eq)
  then have "validate_dependencies b \<noteq> Inr ()"
    by cases (simp_all add: validate_dependencies_def Let_def)
  with False show ?thesis by simp
qed

text \<open>
  C11: the dependency check accepts a board exactly when its card ids are unique, every
  card lists existing other cards, each once, and the dependencies form no cycle.
\<close>

theorem validate_dependencies_iff:
  "validate_dependencies b = Inr () \<longleftrightarrow>
     distinct (map bc_id (cards b)) \<and>
     list_all (\<lambda>c. bc_id c \<notin> set (depends_on c) \<and> distinct (depends_on c) \<and>
        set (depends_on c) \<subseteq> bc_id ` set (cards b)) (cards b) \<and>
     acyclic (depends_rel (cards b))"
  unfolding validate_dependencies_cards cards_ok_def list_all_iff by blast

text \<open>The counts never underflow: the panic value is no answer of the check.\<close>

lemma validate_dependencies_no_panic: "validate_dependencies b \<noteq> Inl overflow_panic"
proof (cases "cards_ok (cards b)")
  case True
  obtain P ind where run: "topo_loop (dependents_of (index_by_id (cards b)) (cards b)) (indegrees (cards b))
      (sources (indegrees (cards b))) 0 = Some (card P, ind)"
    and "topo_inv (length (cards b)) (deps_index (cards b)) P ind []"
    and "card P = length (cards b) \<longleftrightarrow> acyclic (depends_rel (cards b))"
    by (rule topo_loop_cards [OF True])
  from True card_errors_None [of "cards b"] have
    "first_duplicate [] (map bc_id (cards b)) = None" "find_map (card_dependency_error (index_by_id (cards b))) (cards b) = None"
    by simp_all
  with run show ?thesis by (simp add: validate_dependencies_def Let_def overflow_panic_def)
next
  case False
  with card_errors_None [of "cards b"] consider
    x where "first_duplicate [] (map bc_id (cards b)) = Some x"
  | e where "first_duplicate [] (map bc_id (cards b)) = None"
      "find_map (card_dependency_error (index_by_id (cards b))) (cards b) = Some e"
    by (metis not_Some_eq)
  then show ?thesis
  proof cases
    case 2
    from find_map_Some [OF 2(2)] obtain c where
      "c \<in> set (cards b)" "card_dependency_error (index_by_id (cards b)) c = Some e" by blast
    then have "\<exists>rest. e = CHR ''C'' # rest"
      by (auto simp: card_dependency_error_def split: if_splits option.splits)
    with 2 show ?thesis by (auto simp: validate_dependencies_def Let_def overflow_panic_def)
  qed (simp add: validate_dependencies_def overflow_panic_def)
qed

section \<open>The card a cycle report names\<close>

definition sample_card :: "string \<Rightarrow> string \<Rightarrow> string list \<Rightarrow> unit board_card" where
  "sample_card i column deps =
     \<lparr>bc_id = i, bc_title = i, bc_column = column, bc_priority = ''P1'', depends_on = deps,
      bc_instructions = [], bc_assignee = None, bc_agent_chat_id = None, bc_status_updates = [],
      bc_comments = [], bc_final_report = None, bc_final_report_structured = None,
      verifier_report_of = None, bc_created_at = [], bc_started_at = None, bc_last_heartbeat_at = None,
      bc_paused_at = None, bc_paused_by = None, bc_completed_at = None, bc_agent_branch = None,
      bc_agent_worktree = None, bc_agent_worktree_name = None, bc_base_branch = None,
      bc_base_commit = None, bc_ab_variants = None, bc_team_members = [], bc_target_files = [],
      bc_scope_guard_mode = GuardOff, bc_attention = None, bc_deliverable = None, bc_verification = []\<rparr>"

lemma sample_card_simps [simp]:
  "bc_id (sample_card i column deps) = i" "depends_on (sample_card i column deps) = deps"
  "bc_column (sample_card i column deps) = column"
  by (simp_all add: sample_card_def)

definition sample_board :: "(string \<times> string \<times> string list) list \<Rightarrow> unit task_board" where
  "sample_board cs = task_board_default\<lparr>cards := map (\<lambda>(i, column, deps). sample_card i column deps) cs\<rparr>"

definition cycle_board :: "unit task_board" where
  "cycle_board = sample_board [(''a'', ''planned'', [''b'']), (''b'', ''planned'', [''c'']), (''c'', ''planned'', [''b''])]"

text \<open>
  The card named by a rejected cycle need not be on a cycle. On the board where \<open>a\<close>
  depends on \<open>b\<close>, and \<open>b\<close> and \<open>c\<close> depend on each other, the check answers that the cycle
  includes \<open>a\<close>, but no chain of dependencies leads from \<open>a\<close> back to \<open>a\<close>.
\<close>

lemma cycle_report_names_bystander:
  "validate_dependencies cycle_board = Inl ''Dependency cycle includes a'' \<and>
   (''a'', ''a'') \<notin> (depends_rel (cards cycle_board))\<^sup>+ \<and> (''b'', ''b'') \<in> (depends_rel (cards cycle_board))\<^sup>+"
proof -
  have rel: "depends_rel (cards cycle_board) = {(''b'', ''a''), (''c'', ''b''), (''b'', ''c'')}"
    by (simp add: depends_rel_Union cycle_board_def sample_board_def) auto
  have "validate_dependencies cycle_board = Inl ''Dependency cycle includes a''" by code_simp
  moreover have "(''a'', x) \<notin> (depends_rel (cards cycle_board))\<^sup>+" for x
    using tranclD [of "''a''" x "depends_rel (cards cycle_board)"] by (auto simp: rel)
  moreover have "(''b'', ''b'') \<in> (depends_rel (cards cycle_board))\<^sup>+"
    unfolding rel by (rule trancl_trans [of _ "''c''"]) (auto intro: r_into_trancl)
  ultimately show ?thesis by blast
qed

end
