(* ===== verification/Board_Properties.thy ===== *)
theory Board_Properties
  imports Board_Dependencies
begin

text \<open>
  What the task board guarantees: a claim is exclusive until its holder releases it, the
  finalise gate is exactly its declarative conditions, every operation used as intended
  keeps a board valid for writing, withdrawing a reviewer withdraws what rested on the
  review, and the three views of a card's readiness agree.
\<close>

section \<open>Claims\<close>

lemma invalidate_claims [simp]: "card_claims (invalidate_card_review i b) = card_claims b"
  by (simp add: invalidate_card_review_def)

lemma invalidate_all_claims [simp]:
  "card_claims (foldl (\<lambda>b i. invalidate_card_review i b) b js) = card_claims b"
  by (induction js arbitrary: b) simp_all

lemma remove_reviewer_claims [simp]: "card_claims (remove_reviewer r b) = card_claims b"
  by (simp add: remove_reviewer_def Let_def)

lemma step_keeps_claim:
  assumes "map_of (card_claims b) i = Some cl" "op \<noteq> ReleaseOp i (claimant_chat_id cl)" "op \<noteq> RemoveCardOp i"
  shows "map_of (card_claims (board_step self b op)) i = Some cl"
  using assms
  by (cases op)
    (auto simp: claim_card_def release_claim_def record_dependency_override_def authorize_owner_def
      record_card_outcome_def attach_card_evidence_def finalize_card_def clear_verifier_reports_def
      attest_review_def remove_card_def Let_def alist_simps split: sum.splits option.splits)

lemma run_keeps_claim:
  "map_of (card_claims b) i = Some cl \<Longrightarrow> ReleaseOp i (claimant_chat_id cl) \<notin> set ops \<Longrightarrow> RemoveCardOp i \<notin> set ops \<Longrightarrow>
   map_of (card_claims (foldl (board_step self) b ops)) i = Some cl"
proof (induction ops arbitrary: b)
  case (Cons op ops)
  have "map_of (card_claims (board_step self b op)) i = Some cl"
    using Cons.prems by (intro step_keeps_claim) auto
  with Cons show ?case by simp
qed simp

text \<open>
  C8: a claim is exclusive. Whatever operations follow, as long as the holder does not
  release it and the card is not removed, the card stays claimed by the same holder with
  the same key: no further claim is granted, a claim is confirmed only to the holder
  repeating its own key, and any other claimant is told who holds the card unless the
  dependencies already refuse it.
\<close>

theorem claim_exclusive:
  assumes "map_of (card_claims b) i = Some cl"
    and "ReleaseOp i (claimant_chat_id cl) \<notin> set ops" "RemoveCardOp i \<notin> set ops"
  shows "let b' = foldl (board_step self) b ops in
    map_of (card_claims b') i = Some cl \<and>
    claim_card i who key at b' =
      (b', case dependency_gate b' i of
             Inl e \<Rightarrow> Inl e
           | Inr _ \<Rightarrow> if who = claimant_chat_id cl \<and> key = idempotency_key cl then Inr AlreadyHeld
                      else Inl (AlreadyClaimed i (claimant_chat_id cl)))"
  using run_keeps_claim [OF assms, of self] by (auto simp: claim_card_def Let_def split: sum.splits)

definition claimed_board :: "unit task_board" where
  "claimed_board = fst (claim_card ''a'' ''chat-1'' ''key-1'' ''t0'' (sample_board [(''a'', ''planned'', [])]))"

theorem claim_exclusive_witness:
  "claim_card ''a'' ''chat-2'' ''key-2'' ''t1'' (board_step False claimed_board (OwnOp ''planner'')) =
     (board_step False claimed_board (OwnOp ''planner''), Inl (AlreadyClaimed ''a'' ''chat-1''))"
proof -
  have cl: "map_of (card_claims claimed_board) ''a'' =
      Some \<lparr>claimant_chat_id = ''chat-1'', idempotency_key = ''key-1'', claimed_at = ''t0''\<rparr>"
    by code_simp
  have "dependency_gate (board_step False claimed_board (OwnOp ''planner'')) ''a'' = Inr ()" by code_simp
  then show ?thesis
    using claim_exclusive [OF cl, of "[OwnOp ''planner'']" False "''chat-2''" "''key-2''" "''t1''"] by (simp add: Let_def)
qed

section \<open>Finalisation\<close>

text \<open>A required fragment is there, says something, is not refused in review and, if asked for, carries its evidence.\<close>

definition requirement_met :: "card_outcome \<Rightarrow> outcome_requirement \<Rightarrow> bool" where
  "requirement_met co r \<longleftrightarrow>
     (\<exists>f. outcome_fragment_named co (req_fragment r) = Some f \<and> has_content f \<and>
        fg_review f \<noteq> ReviewRejected \<and> fg_review f \<noteq> ReviewContradicted \<and>
        (req_evidence r \<longrightarrow>
           (\<exists>run. source_run (fg_provenance f) = Some run \<and> trim run \<noteq> []) \<and> evidence_spec_ids (fg_provenance f) \<noteq> []))"

text \<open>The report of a card was attested by an assigned reviewer other than the owner.\<close>

definition independently_reviewed :: "'v task_board \<Rightarrow> string \<Rightarrow> verifier_report \<Rightarrow> bool" where
  "independently_reviewed b i report \<longleftrightarrow>
     (\<exists>att. map_of (review_attestations b) i = Some att \<and> att_report att = report \<and>
        owner_chat_id b \<noteq> Some (att_reviewer_chat_id att) \<and> att_reviewer_chat_id att \<in> set (reviewer_chat_ids b))"

lemma requirement_blocks_Nil: "requirement_blocks co r = [] \<longleftrightarrow> requirement_met co r"
  by (auto simp: requirement_blocks_def requirement_met_def Let_def
      split: option.splits fragment_review.splits if_splits)

lemma review_policy_ok:
  "review_policy_allows_report b i report self = Inr () \<longleftrightarrow>
     self \<and> review_policy b = OwnerAllowed \<or> independently_reviewed b i report"
  by (auto simp: review_policy_allows_report_def independently_reviewed_def split: option.splits)

lemma review_blocks_Nil:
  "review_blocks b c i self = [] \<longleftrightarrow> owner_chat_id b = None \<or>
     (\<exists>report. verifier_report_of c = Some report \<and>
        (self \<and> review_policy b = OwnerAllowed \<or> independently_reviewed b i report))"
  unfolding review_blocks_def
  by (auto simp: review_policy_ok [symmetric] split: option.splits sum.splits)

lemma authorize_finalizer_ok:
  "authorize_finalizer b i who self = Inr () \<longleftrightarrow> get_card b i \<noteq> None \<and>
     (owner_chat_id b = None \<or>
      (owner_chat_id b = Some who \<or> who \<in> set (reviewer_chat_ids b)) \<and>
      (self \<or> map_option claimant_chat_id (map_of (card_claims b) i) \<noteq> Some who))"
  by (auto simp: authorize_finalizer_def split: option.splits)

text \<open>
  C9: the finalise gate. A card is finalised exactly when it is done and not yet finalised;
  on a board with an owner, by the owner or an assigned reviewer that is not the card's own
  claimant (unless self-review is enabled), with a verifier report that an independent
  reviewer attested (or self-review under the owner-allowed policy); and with every required
  fragment of its outcome met.
\<close>

theorem finalize_iff:
  "snd (finalize_card i who self at b) = Inr () \<longleftrightarrow>
     (\<exists>c. get_card b i = Some c \<and> bc_column c = ''done'' \<and> \<not> card_is_finalized b i \<and>
        (owner_chat_id b = None \<or>
         (owner_chat_id b = Some who \<or> who \<in> set (reviewer_chat_ids b)) \<and>
         (self \<or> map_option claimant_chat_id (map_of (card_claims b) i) \<noteq> Some who) \<and>
         (\<exists>report. verifier_report_of c = Some report \<and>
            (self \<and> review_policy b = OwnerAllowed \<or> independently_reviewed b i report))) \<and>
        (case map_of (card_outcomes b) i of
           None \<Rightarrow> True
         | Some co \<Rightarrow> list_all (requirement_met co) (co_required co)))"
proof -
  have "snd (finalize_card i who self at b) = Inr () \<longleftrightarrow> evaluate_finalize b i who self = []"
    by (simp add: finalize_card_def Let_def decision_allowed_def)
  also have "\<dots> \<longleftrightarrow> (\<exists>c. get_card b i = Some c \<and> bc_column c = ''done'' \<and> \<not> card_is_finalized b i \<and>
      authorize_finalizer b i who self = Inr () \<and> review_blocks b c i self = [] \<and>
      (case map_of (card_outcomes b) i of
         None \<Rightarrow> True
       | Some co \<Rightarrow> list_all (requirement_met co) (co_required co)))"
    by (auto simp: evaluate_finalize_def card_is_finalized_def requirement_blocks_Nil list_all_iff
        split: option.splits sum.splits)
  also have "\<dots> \<longleftrightarrow> (\<exists>c. get_card b i = Some c \<and> bc_column c = ''done'' \<and> \<not> card_is_finalized b i \<and>
        (owner_chat_id b = None \<or>
         (owner_chat_id b = Some who \<or> who \<in> set (reviewer_chat_ids b)) \<and>
         (self \<or> map_option claimant_chat_id (map_of (card_claims b) i) \<noteq> Some who) \<and>
         (\<exists>report. verifier_report_of c = Some report \<and>
            (self \<and> review_policy b = OwnerAllowed \<or> independently_reviewed b i report))) \<and>
        (case map_of (card_outcomes b) i of
           None \<Rightarrow> True
         | Some co \<Rightarrow> list_all (requirement_met co) (co_required co)))"
    unfolding authorize_finalizer_ok review_blocks_Nil by blast
  finally show ?thesis .
qed

definition reviewed_report :: verifier_report where
  "reviewed_report = \<lparr>vp_passed = True, vp_command_results = [], vp_concerns = [], vp_recommendation = ''merge'',
     vp_classification = ClassPassed\<rparr>"

definition reviewed_board :: "unit task_board" where
  "reviewed_board = (sample_board [(''a'', ''done'', []), (''b'', ''planned'', [''a''])])
     \<lparr>owner_chat_id := Some ''planner'', reviewer_chat_ids := [''rev''],
      cards := [(sample_card ''a'' ''done'' [])\<lparr>verifier_report_of := Some reviewed_report\<rparr>,
                sample_card ''b'' ''planned'' [''a'']]\<rparr>"

theorem finalize_iff_witness:
  "\<exists>c. get_card (board_step False reviewed_board (AttestOp ''a'' ''rev'' reviewed_report ''t'')) ''a'' = Some c \<and>
     bc_column c = ''done'' \<and>
     snd (finalize_card ''a'' ''planner'' False ''t'' (board_step False reviewed_board (AttestOp ''a'' ''rev'' reviewed_report ''t''))) =
       Inr ()"
proof -
  let ?b = "board_step False reviewed_board (AttestOp ''a'' ''rev'' reviewed_report ''t'')"
  have "snd (finalize_card ''a'' ''planner'' False ''t'' ?b) = Inr ()" by code_simp
  then show ?thesis using finalize_iff [of "''a''" "''planner''" False "''t''" ?b] by blast
qed

section \<open>Valid boards stay valid\<close>

lemma set_update_subset: "set (AList.update k v m) \<subseteq> insert (k, v) (set m)"
  by (induction m) auto

lemma set_delete_alist: "set (AList.delete k m) = {(k', v) \<in> set m. k' \<noteq> k}"
  by (auto simp: AList.delete_eq)

definition claim_ok :: "'v task_board \<Rightarrow> nat \<Rightarrow> string \<times> card_claim \<Rightarrow> bool" where
  "claim_ok b mk e \<longleftrightarrow> get_card b (fst e) \<noteq> None \<and> trim (claimant_chat_id (snd e)) \<noteq> [] \<and>
     trim (idempotency_key (snd e)) \<noteq> [] \<and> char_count (idempotency_key (snd e)) \<le> mk"

definition override_ok :: "'v task_board \<Rightarrow> string \<times> dependency_override \<Rightarrow> bool" where
  "override_ok b e \<longleftrightarrow> get_card b (fst e) \<noteq> None \<and> trim (overridden_by (snd e)) \<noteq> [] \<and> trim (override_reason (snd e)) \<noteq> []"

definition claims_ok :: "'v task_board \<Rightarrow> nat \<Rightarrow> bool" where
  "claims_ok b mk \<longleftrightarrow>
     (\<forall>e \<in> set (card_claims b). claim_ok b mk e) \<and> (\<forall>e \<in> set (dependency_overrides b). override_ok b e)"

definition attested_ok :: "'v task_board \<Rightarrow> string \<times> board_review_attestation \<Rightarrow> bool" where
  "attested_ok b entry \<longleftrightarrow>
     (\<exists>c. get_card b (fst entry) = Some c \<and> verifier_report_of c = Some (att_report (snd entry))) \<and>
     att_reviewer_chat_id (snd entry) \<in> set (reviewer_chat_ids b) \<and>
     owner_chat_id b \<noteq> Some (att_reviewer_chat_id (snd entry))"

definition authority_ok :: "'v task_board \<Rightarrow> nat \<Rightarrow> bool" where
  "authority_ok b mr \<longleftrightarrow> length (reviewer_chat_ids b) \<le> mr \<and> distinct (reviewer_chat_ids b) \<and>
     (\<forall>r \<in> set (reviewer_chat_ids b). trim r \<noteq> [] \<and> owner_chat_id b \<noteq> Some r) \<and> owner_chat_id b \<noteq> Some [] \<and>
     (\<forall>e \<in> set (review_attestations b). attested_ok b e)"

lemma reviewer_error_None:
  "reviewer_error owner seen rs = None \<longleftrightarrow>
     distinct rs \<and> set seen \<inter> set rs = {} \<and> (\<forall>r \<in> set rs. trim r \<noteq> [] \<and> owner \<noteq> Some r)"
  by (induction rs arbitrary: seen) auto

lemma claim_error_None: "claim_error b mk e = None \<longleftrightarrow> claim_ok b mk e"
  by (cases e) (simp add: claim_error_def claim_ok_def)

lemma override_error_None: "override_error b e = None \<longleftrightarrow> override_ok b e"
  by (cases e) (simp add: override_error_def override_ok_def)

lemma validate_claims_ok: "validate_claims b mk = Inr () \<longleftrightarrow> claims_ok b mk"
proof -
  have "validate_claims b mk = Inr () \<longleftrightarrow> find_map (claim_error b mk) (btree_iter (card_claims b)) = None \<and>
      find_map (override_error b) (btree_iter (dependency_overrides b)) = None"
    by (simp add: validate_claims_def split: option.split)
  then show ?thesis by (simp add: find_map_None claim_error_None override_error_None claims_ok_def)
qed

lemma attestation_error_None: "attestation_error b e = None \<longleftrightarrow> attested_ok b e"
  by (auto simp: attestation_error_def attested_ok_def split: prod.splits option.splits if_splits)

lemma validate_authority_ok: "validate_authority b mr = Inr () \<longleftrightarrow> authority_ok b mr"
proof -
  have "validate_authority b mr = Inr () \<longleftrightarrow> length (reviewer_chat_ids b) \<le> mr \<and>
      reviewer_error (owner_chat_id b) [] (reviewer_chat_ids b) = None \<and> owner_chat_id b \<noteq> Some [] \<and>
      find_map (attestation_error b) (btree_iter (review_attestations b)) = None"
    by (auto simp: validate_authority_def split: option.splits if_splits)
  then show ?thesis
    by (simp add: find_map_None attestation_error_None reviewer_error_None authority_ok_def)
qed

definition deps_ok :: "'v board_card list \<Rightarrow> bool" where
  "deps_ok cs \<longleftrightarrow> cards_ok cs \<and> acyclic (depends_rel cs)"

definition write_ok :: "nat \<Rightarrow> nat \<Rightarrow> 'v task_board \<Rightarrow> bool" where
  "write_ok mr mk b \<longleftrightarrow> deps_ok (cards b) \<and> authority_ok b mr \<and> claims_ok b mk"

lemma validate_for_write_ok:
  "validate_for_write b mr mk = Inr () \<longleftrightarrow> write_ok mr mk b"
  unfolding validate_for_write_def write_ok_def deps_ok_def
  using validate_dependencies_cards [of b] validate_authority_ok [of b mr] validate_claims_ok [of b mk]
  by (cases "validate_dependencies b"; cases "validate_authority b mr") auto

text \<open>The dependency rules read only the ids and the dependencies of the cards.\<close>

abbreviation dep_shape :: "'v board_card list \<Rightarrow> (string \<times> string list) list" where
  "dep_shape cs \<equiv> map (\<lambda>c. (bc_id c, depends_on c)) cs"

lemma deps_ok_shape:
  "deps_ok cs \<longleftrightarrow> distinct (map fst (dep_shape cs)) \<and>
     (\<forall>p \<in> set (dep_shape cs). fst p \<notin> set (snd p) \<and> distinct (snd p) \<and> set (snd p) \<subseteq> fst ` set (dep_shape cs)) \<and>
     acyclic (\<Union>p \<in> set (dep_shape cs). (\<lambda>d. (d, fst p)) ` set (snd p))"
  by (simp add: deps_ok_def cards_ok_def depends_rel_Union comp_def image_image)

lemma deps_ok_cong: "dep_shape cs = dep_shape cs' \<Longrightarrow> deps_ok cs = deps_ok cs'"
  unfolding deps_ok_shape by simp

lemma find_update_card:
  "(\<And>c. bc_id (f c) = bc_id c) \<Longrightarrow>
   List.find (\<lambda>c. bc_id c = j) (update_card i f cs) =
     (if j = i then map_option f (List.find (\<lambda>c. bc_id c = j) cs) else List.find (\<lambda>c. bc_id c = j) cs)"
  unfolding update_card_def by (simp add: find_modify_first_same find_modify_first_other)

lemma clear_report_simps [simp]:
  "bc_id (clear_report c) = bc_id c" "depends_on (clear_report c) = depends_on c"
  by (simp_all add: clear_report_def)

abbreviation invalidate_all :: "string list \<Rightarrow> 'v task_board \<Rightarrow> 'v task_board" where
  "invalidate_all js b \<equiv> foldl (\<lambda>b i. invalidate_card_review i b) b js"

lemma invalidate_simps:
  fixes b :: "'v task_board"
  shows "reviewer_chat_ids (invalidate_card_review i b) = reviewer_chat_ids b"
    "owner_chat_id (invalidate_card_review i b) = owner_chat_id b"
    "dependency_overrides (invalidate_card_review i b) = dependency_overrides b"
    "dep_shape (cards (invalidate_card_review i b)) = dep_shape (cards b)"
    "set (review_attestations (invalidate_card_review i b)) = {e \<in> set (review_attestations b). fst e \<noteq> i}"
    "get_card (invalidate_card_review i b) j = (if j = i then map_option clear_report (get_card b j) else get_card b j)"
proof -
  show "dep_shape (cards (invalidate_card_review i b)) = dep_shape (cards b)"
    by (auto simp: invalidate_card_review_def update_card_def intro: modify_first_map)
qed (auto simp: invalidate_card_review_def get_card_def find_update_card set_delete_alist)

lemma fold_invalidate:
  fixes b :: "'v task_board"
  shows "reviewer_chat_ids (invalidate_all js b) = reviewer_chat_ids b"
    "owner_chat_id (invalidate_all js b) = owner_chat_id b"
    "dependency_overrides (invalidate_all js b) = dependency_overrides b"
    "dep_shape (cards (invalidate_all js b)) = dep_shape (cards b)"
    "set (review_attestations (invalidate_all js b)) = {e \<in> set (review_attestations b). fst e \<notin> set js}"
    "get_card (invalidate_all js b) j = (if j \<in> set js then map_option clear_report (get_card b j) else get_card b j)"
proof -
  have clr: "map_option clear_report (map_option clear_report x) = map_option clear_report x" for x :: "'v board_card option"
    by (cases x) (simp_all add: clear_report_def)
  show "reviewer_chat_ids (invalidate_all js b) = reviewer_chat_ids b"
    "owner_chat_id (invalidate_all js b) = owner_chat_id b"
    "dependency_overrides (invalidate_all js b) = dependency_overrides b"
    "dep_shape (cards (invalidate_all js b)) = dep_shape (cards b)"
    by (induction js arbitrary: b) (simp_all only: foldl.simps invalidate_simps)
  show "set (review_attestations (invalidate_all js b)) = {e \<in> set (review_attestations b). fst e \<notin> set js}"
    by (induction js arbitrary: b) (auto simp: invalidate_simps)
  show "get_card (invalidate_all js b) j = (if j \<in> set js then map_option clear_report (get_card b j) else get_card b j)"
    by (induction js arbitrary: b) (auto simp: invalidate_simps clr)
qed

lemma write_ok_fold_invalidate:
  fixes b :: "'v task_board"
  assumes deps: "deps_ok (cards b)" and claims: "claims_ok b mk"
    and revs: "length (reviewer_chat_ids b) \<le> mr" "distinct (reviewer_chat_ids b)"
      "\<And>r. r \<in> set (reviewer_chat_ids b) \<Longrightarrow> trim r \<noteq> [] \<and> owner_chat_id b \<noteq> Some r" "owner_chat_id b \<noteq> Some []"
    and atts: "\<And>e. e \<in> set (review_attestations b) \<Longrightarrow> fst e \<notin> set js \<Longrightarrow> attested_ok b e"
  shows "write_ok mr mk (invalidate_all js b)" (is "write_ok mr mk ?b")
proof -
  note F = fold_invalidate [where b = b and js = js]
  have "get_card ?b j = None \<longleftrightarrow> get_card b j = None" for j by (simp add: F(6))
  then have "claims_ok ?b mk"
    using claims by (simp add: claims_ok_def claim_ok_def override_ok_def F(3))
  moreover have "deps_ok (cards ?b)" using deps deps_ok_cong [OF F(4)] by simp
  moreover have "attested_ok ?b e" if "e \<in> set (review_attestations ?b)" for e
    using that atts [of e] by (auto simp: F(5,6,1,2) attested_ok_def)
  ultimately show ?thesis using revs by (simp add: write_ok_def authority_ok_def F(1,2))
qed

lemma write_ok_remove_reviewer:
  fixes b :: "'v task_board"
  assumes "write_ok mr mk b"
  shows "write_ok mr mk (remove_reviewer r b)"
proof -
  let ?b1 = "b\<lparr>reviewer_chat_ids := filter (\<lambda>x. x \<noteq> r) (reviewer_chat_ids b)\<rparr>"
  from assms have ok: "deps_ok (cards b)" "claims_ok b mk" "authority_ok b mr" by (auto simp: write_ok_def)
  have get: "get_card ?b1 = get_card b" by (rule ext) (simp add: get_card_def)
  have "write_ok mr mk (invalidate_all (attested_by r ?b1) ?b1)"
  proof (rule write_ok_fold_invalidate)
    show "deps_ok (cards ?b1)" using ok(1) by simp
    show "claims_ok ?b1 mk" using ok(2) by (simp add: claims_ok_def claim_ok_def override_ok_def get)
    show "length (reviewer_chat_ids ?b1) \<le> mr"
      using ok(3) by (simp add: authority_ok_def) (meson length_filter_le order.trans)
    show "distinct (reviewer_chat_ids ?b1)" "owner_chat_id ?b1 \<noteq> Some []" using ok(3) by (simp_all add: authority_ok_def)
    show "trim x \<noteq> [] \<and> owner_chat_id ?b1 \<noteq> Some x" if "x \<in> set (reviewer_chat_ids ?b1)" for x
      using that ok(3) by (simp add: authority_ok_def)
    show "attested_ok ?b1 e" if "e \<in> set (review_attestations ?b1)" "fst e \<notin> set (attested_by r ?b1)" for e
    proof -
      from that have "e \<in> set (review_attestations b)" "att_reviewer_chat_id (snd e) \<noteq> r"
        by (force simp: attested_by_def)+
      with ok(3) show ?thesis by (auto simp: authority_ok_def attested_ok_def get)
    qed
  qed
  then show ?thesis by (simp add: remove_reviewer_def Let_def)
qed

lemma find_remove_first:
  "j \<noteq> i \<Longrightarrow> List.find (\<lambda>c. bc_id c = j) (remove_first (\<lambda>c. bc_id c = i) cs) = List.find (\<lambda>c. bc_id c = j) cs"
  by (induction cs) auto

lemma set_remove_first:
  "distinct (map bc_id cs) \<Longrightarrow> set (remove_first (\<lambda>c. bc_id c = i) cs) = {c \<in> set cs. bc_id c \<noteq> i}"
  by (induction cs) (auto simp: image_iff)

lemma distinct_remove_first: "distinct (map f cs) \<Longrightarrow> distinct (map f (remove_first P cs))"
proof (induction cs)
  case (Cons c cs)
  have "set (remove_first P cs) \<subseteq> set cs" by (induction cs) auto
  with Cons show ?case by auto
qed simp

lemma write_ok_remove_card:
  fixes b :: "'v task_board"
  assumes ok: "write_ok mr mk b" and free: "\<forall>c \<in> set (cards b). i \<notin> set (depends_on c)"
  shows "write_ok mr mk (fst (remove_card i b))" (is "write_ok mr mk ?b")
proof -
  have dist: "distinct (map bc_id (cards b))" using ok by (simp add: write_ok_def deps_ok_def cards_ok_def)
  have cs: "cards ?b = remove_first (\<lambda>c. bc_id c = i) (cards b)" by (simp add: remove_card_def)
  note mem = set_remove_first [OF dist, of i]
  have get: "get_card ?b j = get_card b j" if "j \<noteq> i" for j
    using that by (simp add: get_card_def cs find_remove_first)
  have "depends_rel (cards ?b) \<subseteq> depends_rel (cards b)" by (auto simp: depends_rel_def cs mem)
  moreover have "cards_ok (cards ?b)"
    using ok free distinct_remove_first [OF dist] unfolding write_ok_def deps_ok_def cards_ok_def cs mem
    by (auto simp: image_iff) blast
  ultimately have "deps_ok (cards ?b)"
    using ok by (meson acyclic_subset deps_ok_def write_ok_def)
  moreover have "claims_ok ?b mk"
    using ok get by (auto simp: write_ok_def claims_ok_def claim_ok_def override_ok_def remove_card_def set_delete_alist)
  moreover have "authority_ok ?b mr"
  proof -
    have "attested_ok ?b e" if "e \<in> set (review_attestations ?b)" for e
      using that ok get [of "fst e"]
      by (auto simp: write_ok_def authority_ok_def attested_ok_def remove_card_def set_delete_alist)
    then show ?thesis using ok by (simp add: write_ok_def authority_ok_def remove_card_def)
  qed
  ultimately show ?thesis by (simp add: write_ok_def)
qed

lemma find_map_clear: "List.find (\<lambda>c. bc_id c = j) (map clear_report cs) = map_option clear_report (List.find (\<lambda>c. bc_id c = j) cs)"
  by (induction cs) auto

lemma write_ok_clear: "write_ok mr mk b \<Longrightarrow> write_ok mr mk (clear_verifier_reports b)"
proof -
  assume ok: "write_ok mr mk b"
  have "dep_shape (map clear_report (cards b)) = dep_shape (cards b)" by (simp add: comp_def)
  from deps_ok_cong [OF this] have "deps_ok (cards (clear_verifier_reports b))"
    using ok by (simp add: write_ok_def clear_verifier_reports_def)
  moreover have "get_card (clear_verifier_reports b) j = map_option clear_report (get_card b j)" for j
    by (simp add: get_card_def clear_verifier_reports_def find_map_clear)
  ultimately show ?thesis
    using ok by (simp add: write_ok_def authority_ok_def claims_ok_def claim_ok_def override_ok_def)
      (simp add: clear_verifier_reports_def)
qed

text \<open>Operations that change nothing but claims, overrides, attestations, the owner or outcomes.\<close>

lemma write_ok_simple:
  assumes ok: "write_ok mr mk b" and same: "cards b' = cards b" "reviewer_chat_ids b' = reviewer_chat_ids b"
    and owner: "owner_chat_id b' = owner_chat_id b \<or>
      (\<exists>chat. owner_chat_id b' = Some chat \<and> chat \<noteq> [] \<and> chat \<notin> set (reviewer_chat_ids b))"
    and claims: "\<And>e. e \<in> set (card_claims b') \<Longrightarrow> e \<in> set (card_claims b) \<or> claim_ok b mk e"
    and overrides: "\<And>e. e \<in> set (dependency_overrides b') \<Longrightarrow> e \<in> set (dependency_overrides b) \<or> override_ok b e"
    and atts: "\<And>e. e \<in> set (review_attestations b') \<Longrightarrow> e \<in> set (review_attestations b) \<or> attested_ok b e"
  shows "write_ok mr mk b'"
proof -
  have get: "get_card b' = get_card b" by (rule ext) (simp add: get_card_def same)
  have "attested_ok b' e" if e: "e \<in> set (review_attestations b')" for e
  proof -
    have "attested_ok b e" using e atts [of e] ok by (auto simp: write_ok_def authority_ok_def)
    with owner show ?thesis by (auto simp: attested_ok_def get same)
  qed
  then have "authority_ok b' mr"
    using ok owner by (auto simp: write_ok_def authority_ok_def same)
  moreover have "claims_ok b' mk"
  proof -
    have "claim_ok b mk e" if "e \<in> set (card_claims b')" for e
      using that claims [of e] ok by (auto simp: write_ok_def claims_ok_def)
    moreover have "override_ok b e" if "e \<in> set (dependency_overrides b')" for e
      using that overrides [of e] ok by (auto simp: write_ok_def claims_ok_def)
    ultimately show ?thesis by (simp add: claims_ok_def claim_ok_def override_ok_def get)
  qed
  ultimately show ?thesis using ok same by (simp add: write_ok_def)
qed

text \<open>How an operation has to be used: non-blank names, keys within the limit, reviews of the stored report.\<close>

fun op_proper :: "nat \<Rightarrow> 'v task_board \<Rightarrow> board_op \<Rightarrow> bool" where
  "op_proper mk b (ClaimOp i claimant key at) \<longleftrightarrow> trim claimant \<noteq> [] \<and> trim key \<noteq> [] \<and> char_count key \<le> mk"
| "op_proper mk b (OverrideOp i who reason at) \<longleftrightarrow> trim who \<noteq> [] \<and> trim reason \<noteq> []"
| "op_proper mk b (OwnOp chat) \<longleftrightarrow> chat \<noteq> [] \<and> chat \<notin> set (reviewer_chat_ids b)"
| "op_proper mk b (AttestOp i reviewer report at) \<longleftrightarrow>
     reviewer \<in> set (reviewer_chat_ids b) \<and> Option.bind (get_card b i) verifier_report_of = Some report"
| "op_proper mk b (RemoveCardOp i) \<longleftrightarrow> list_all (\<lambda>c. i \<notin> set (depends_on c)) (cards b)"
| "op_proper mk b op \<longleftrightarrow> True"

lemma step_write_ok:
  assumes ok: "write_ok mr mk b" and proper: "op_proper mk b op"
  shows "write_ok mr mk (board_step self b op)"
proof (cases op)
  case (ClaimOp i claimant key at)
  show ?thesis
  proof (rule write_ok_simple [OF ok])
    show "e \<in> set (card_claims b) \<or> claim_ok b mk e" if "e \<in> set (card_claims (board_step self b op))" for e
      using that proper ClaimOp set_update_subset [of i _ "card_claims b"]
      by (auto simp: claim_card_def claim_ok_def dependency_gate_def unsatisfied_dependencies_def
          split: sum.splits option.splits if_splits dest!: subsetD [OF set_update_subset])
  qed (auto simp: ClaimOp claim_card_def split: sum.splits option.splits if_splits)
next
  case (ReleaseOp i claimant)
  show ?thesis
    by (rule write_ok_simple [OF ok])
      (auto simp: ReleaseOp release_claim_def set_delete_alist split: option.splits if_splits)
next
  case (OverrideOp i who reason at)
  show ?thesis
  proof (rule write_ok_simple [OF ok])
    show "e \<in> set (dependency_overrides b) \<or> override_ok b e" if "e \<in> set (dependency_overrides (board_step self b op))" for e
      using that proper OverrideOp
      by (auto simp: record_dependency_override_def override_ok_def unsatisfied_dependencies_def
          split: sum.splits option.splits dest!: subsetD [OF set_update_subset])
  qed (auto simp: OverrideOp record_dependency_override_def split: sum.splits)
next
  case (OwnOp chat)
  show ?thesis
    by (rule write_ok_simple [OF ok]) (use proper in \<open>auto simp: OwnOp authorize_owner_def split: option.splits if_splits\<close>)
next
  case (OutcomeOp i required fragments)
  show ?thesis by (rule write_ok_simple [OF ok]) (auto simp: OutcomeOp record_card_outcome_def Let_def)
next
  case (EvidenceOp i fragment ids)
  show ?thesis by (rule write_ok_simple [OF ok]) (auto simp: EvidenceOp attach_card_evidence_def split: if_splits)
next
  case (FinalizeOp i who at)
  show ?thesis by (rule write_ok_simple [OF ok]) (auto simp: FinalizeOp finalize_card_def Let_def split: if_splits)
next
  case ClearReportsOp
  then show ?thesis using write_ok_clear [OF ok] by simp
next
  case (RemoveReviewerOp r)
  then show ?thesis using write_ok_remove_reviewer [OF ok] by simp
next
  case (InvalidateOp i)
  then show ?thesis
    using ok write_ok_fold_invalidate [of b mk mr "[i]"] by (auto simp: write_ok_def authority_ok_def)
next
  case (AttestOp i reviewer report at)
  show ?thesis
  proof (rule write_ok_simple [OF ok])
    show "e \<in> set (review_attestations b) \<or> attested_ok b e"
      if "e \<in> set (review_attestations (board_step self b op))" for e
      using that proper ok AttestOp
      by (auto simp: attest_review_def attested_ok_def write_ok_def authority_ok_def bind_eq_Some_conv
          split: sum.splits dest!: subsetD [OF set_update_subset])
  qed (auto simp: AttestOp attest_review_def split: sum.splits)
next
  case (RemoveCardOp i)
  then show ?thesis using write_ok_remove_card [OF ok, of i] proper by (simp add: list_all_iff)
qed

text \<open>
  C36: a board that passes the validation before a write still passes it after any
  operation used as intended: claims and overrides with non-blank names and a key within
  the limit, an owner that is not a reviewer, an attestation by an assigned reviewer of the
  report the card carries, and the removal of a card no other card depends on. Releasing,
  finalising, recording outcomes or evidence and withdrawing reviews have no condition.
\<close>

theorem operations_keep_board_valid:
  assumes "validate_for_write b mr mk = Inr ()" "op_proper mk b op"
  shows "validate_for_write (board_step self b op) mr mk = Inr ()"
  using step_write_ok [of mr mk b op self] assms by (simp add: validate_for_write_ok)

theorem operations_keep_board_valid_witness:
  "validate_for_write (board_step False reviewed_board (AttestOp ''a'' ''rev'' reviewed_report ''t'')) 4 64 = Inr ()"
proof (rule operations_keep_board_valid)
  show "validate_for_write reviewed_board 4 64 = Inr ()" by code_simp
  show "op_proper 64 reviewed_board (AttestOp ''a'' ''rev'' reviewed_report ''t'')" by code_simp
qed

section \<open>Withdrawing a reviewer\<close>

lemma fold_invalidate_finalized:
  "i \<in> set js \<Longrightarrow> \<not> card_is_finalized (invalidate_all js b) i"
proof -
  have out: "map_of (card_outcomes (invalidate_all js b)) i =
      (if i \<in> set js then map_option unfinalize (map_of (card_outcomes b) i) else map_of (card_outcomes b) i)" for b :: "'v task_board"
  proof (induction js arbitrary: b)
    case (Cons j js)
    have "map_of (card_outcomes (invalidate_card_review j b)) i =
        (if i = j then map_option unfinalize (map_of (card_outcomes b) i) else map_of (card_outcomes b) i)"
      by (simp add: invalidate_card_review_def alist_simps)
    moreover have "map_option unfinalize (map_option unfinalize x) = map_option unfinalize x" for x
      by (cases x) (simp_all add: unfinalize_def)
    ultimately show ?case using Cons by auto
  qed simp
  assume "i \<in> set js"
  then show ?thesis by (simp add: card_is_finalized_def out unfinalize_def split: option.splits)
qed

text \<open>
  Withdrawing a reviewer withdraws what rested on the review. Afterwards the reviewer
  is not assigned, no attestation names it, every card it had attested is neither
  finalised nor carries a verifier report, and such a card cannot be finalised on a board
  with an owner until it is reviewed again.
\<close>

lemma removed_reviewer_leaves_nothing:
  assumes "map_of (review_attestations b) i = Some att" "att_reviewer_chat_id att = r"
  shows "let b' = remove_reviewer r b in
    r \<notin> set (reviewer_chat_ids b') \<and> (\<forall>e \<in> set (review_attestations b'). att_reviewer_chat_id (snd e) \<noteq> r) \<and>
    \<not> card_is_finalized b' i \<and> Option.bind (get_card b' i) verifier_report_of = None \<and>
    (owner_chat_id b \<noteq> None \<longrightarrow> evaluate_finalize b' i who self \<noteq> [])"
proof -
  let ?b1 = "b\<lparr>reviewer_chat_ids := filter (\<lambda>x. x \<noteq> r) (reviewer_chat_ids b)\<rparr>"
  let ?js = "attested_by r ?b1"
  note F = fold_invalidate [where b = ?b1 and js = ?js]
  have b': "remove_reviewer r b = invalidate_all ?js ?b1" by (simp add: remove_reviewer_def Let_def)
  from assms have i: "i \<in> set ?js" by (force simp: attested_by_def dest: map_of_SomeD)
  have rep: "Option.bind (get_card (remove_reviewer r b) i) verifier_report_of = None"
    using i by (cases "get_card ?b1 i") (simp_all add: b' F(6) clear_report_def)
  have "evaluate_finalize (remove_reviewer r b) i who self \<noteq> []" if owner: "owner_chat_id b \<noteq> None"
  proof (cases "get_card (remove_reviewer r b) i")
    case (Some c)
    then have "review_blocks (remove_reviewer r b) c i self \<noteq> []"
      using rep owner by (simp add: review_blocks_Nil b' F(2))
    with Some show ?thesis by (simp add: evaluate_finalize_def)
  qed (simp add: evaluate_finalize_def)
  moreover have "att_reviewer_chat_id (snd e) \<noteq> r" if "e \<in> set (review_attestations (remove_reviewer r b))" for e
  proof -
    from that have "e \<in> set (review_attestations b)" "fst e \<notin> set ?js" by (simp_all add: b' F(5))
    then show ?thesis by (auto simp: attested_by_def image_iff split_beta)
  qed
  ultimately show ?thesis
    using rep fold_invalidate_finalized [OF i, of ?b1] by (auto simp: Let_def b' F(1))
qed

lemma removed_reviewer_leaves_nothing_example:
  "\<not> card_is_finalized (remove_reviewer ''rev'' (board_step False
       (board_step False reviewed_board (AttestOp ''a'' ''rev'' reviewed_report ''t'')) (FinalizeOp ''a'' ''planner'' ''t''))) ''a'' \<and>
   card_is_finalized (board_step False
       (board_step False reviewed_board (AttestOp ''a'' ''rev'' reviewed_report ''t'')) (FinalizeOp ''a'' ''planner'' ''t'')) ''a''"
proof
  let ?b = "board_step False (board_step False reviewed_board (AttestOp ''a'' ''rev'' reviewed_report ''t''))
    (FinalizeOp ''a'' ''planner'' ''t'')"
  have "map_of (review_attestations ?b) ''a'' =
      Some \<lparr>att_reviewer_chat_id = ''rev'', att_reviewed_at = ''t'', att_report = reviewed_report\<rparr>"
    by code_simp
  from removed_reviewer_leaves_nothing [OF this, of "''rev''"] show "\<not> card_is_finalized (remove_reviewer ''rev'' ?b) ''a''"
    by (simp add: Let_def)
  show "card_is_finalized ?b ''a''" by code_simp
qed

section \<open>Readiness\<close>

lemma ready_cards_lists:
  "get_ready_cards b = \<lparr>
     rc_ready = map bc_id (filter (\<lambda>c. bc_column c = ''planned'' \<and> set (depends_on c) \<subseteq> set (done_cards b)) (cards b)),
     rc_blocked = map bc_id (filter (\<lambda>c. bc_column c = ''planned'' \<and> \<not> set (depends_on c) \<subseteq> set (done_cards b)) (cards b)),
     rc_in_progress = map bc_id (filter (\<lambda>c. bc_column c = ''doing'') (cards b)),
     rc_completed = map bc_id (filter (\<lambda>c. bc_column c = ''done'') (cards b)),
     rc_failed = map bc_id (filter (\<lambda>c. bc_column c \<in> {''failed'', ''regressed''}) (cards b))\<rparr>"
proof -
  have "foldl (classify_card ds) res cs = \<lparr>
      rc_ready = rc_ready res @ map bc_id (filter (\<lambda>c. bc_column c = ''planned'' \<and> set (depends_on c) \<subseteq> set ds) cs),
      rc_blocked = rc_blocked res @ map bc_id (filter (\<lambda>c. bc_column c = ''planned'' \<and> \<not> set (depends_on c) \<subseteq> set ds) cs),
      rc_in_progress = rc_in_progress res @ map bc_id (filter (\<lambda>c. bc_column c = ''doing'') cs),
      rc_completed = rc_completed res @ map bc_id (filter (\<lambda>c. bc_column c = ''done'') cs),
      rc_failed = rc_failed res @ map bc_id (filter (\<lambda>c. bc_column c \<in> {''failed'', ''regressed''}) cs)\<rparr>"
    for res ds and cs :: "'a board_card list"
    by (induction cs arbitrary: res) (auto simp: classify_card_def list_all_iff subset_eq)
  then show ?thesis by (simp add: get_ready_cards_def)
qed

lemma ready_mem:
  "i \<in> set (rc_ready (get_ready_cards b)) \<longleftrightarrow>
     i \<in> bc_id ` {c \<in> set (cards b). bc_column c = ''planned'' \<and> set (depends_on c) \<subseteq> set (done_cards b)}"
  "i \<in> set (rc_blocked (get_ready_cards b)) \<longleftrightarrow>
     i \<in> bc_id ` {c \<in> set (cards b). bc_column c = ''planned'' \<and> \<not> set (depends_on c) \<subseteq> set (done_cards b)}"
  by (simp_all add: ready_cards_lists)

lemma done_cards_is_done:
  assumes "distinct (map bc_id (cards b))"
  shows "d \<in> set (done_cards b) \<longleftrightarrow> is_done b d"
proof
  assume "d \<in> set (done_cards b)"
  then obtain c where c: "c \<in> set (cards b)" "bc_id c = d" "bc_column c = ''done''" by (auto simp: done_cards_def)
  with get_card_unique [OF assms c(1)] show "is_done b d" by (simp add: is_done_def)
next
  assume "is_done b d"
  then show "d \<in> set (done_cards b)"
    by (auto simp: is_done_def done_cards_def split: option.splits dest!: get_cardD)
qed

text \<open>
  The three answers to whether a planned card may start agree on a board that passes
  the dependency check: the card is listed as ready, it has no unsatisfied dependency, and
  the detailed check of its dependencies succeeds; otherwise it is listed as blocked.
\<close>

lemma readiness_views_agree:
  assumes "validate_dependencies b = Inr ()" "c \<in> set (cards b)" "bc_column c = ''planned''"
  shows "(bc_id c \<in> set (rc_ready (get_ready_cards b)) \<longleftrightarrow> unsatisfied_dependencies b (bc_id c) = Inr []) \<and>
    (bc_id c \<in> set (rc_ready (get_ready_cards b)) \<longleftrightarrow> dependencies_satisfied b (bc_id c) = Inr ()) \<and>
    (bc_id c \<in> set (rc_blocked (get_ready_cards b)) \<longleftrightarrow> bc_id c \<notin> set (rc_ready (get_ready_cards b)))"
proof -
  have dist: "distinct (map bc_id (cards b))"
    using assms(1) by (simp add: validate_dependencies_cards cards_ok_def)
  have get: "get_card b (bc_id c) = Some c" by (rule get_card_unique [OF dist assms(2)])
  have uniq: "c' = c" if "c' \<in> set (cards b)" "bc_id c' = bc_id c" for c'
    using get_card_unique [OF dist that(1)] get that(2) by (metis option.inject)
  let ?ok = "set (depends_on c) \<subseteq> set (done_cards b)"
  have mem: "bc_id c \<in> bc_id ` {x \<in> set (cards b). bc_column x = ''planned'' \<and> P x} \<longleftrightarrow> P c" for P
  proof
    assume "bc_id c \<in> bc_id ` {x \<in> set (cards b). bc_column x = ''planned'' \<and> P x}"
    then obtain x where "bc_id c = bc_id x" "x \<in> {x \<in> set (cards b). bc_column x = ''planned'' \<and> P x}" by (rule imageE)
    then show "P c" using uniq [of x] by simp
  qed (use assms(2,3) in simp)
  note ready = ready_mem(1) [of "bc_id c" b, unfolded mem] and blocked = ready_mem(2) [of "bc_id c" b, unfolded mem]
  have unsat: "unsatisfied_dependencies b (bc_id c) = Inr [] \<longleftrightarrow> ?ok"
    by (auto simp: unsatisfied_dependencies_def get filter_empty_conv done_cards_is_done [OF dist])
  have open1: "first_open_dependency b i d = None \<longleftrightarrow> is_done b d" for i d
    by (simp add: first_open_dependency_def is_done_def split: option.split)
  have "dependencies_satisfied b (bc_id c) = Inr () \<longleftrightarrow>
      find_map (first_open_dependency b (bc_id c)) (depends_on c) = None"
    by (simp add: dependencies_satisfied_def assms(1) get split: option.split)
  also have "\<dots> \<longleftrightarrow> ?ok"
    by (auto simp: find_map_None open1 done_cards_is_done [OF dist])
  finally show ?thesis using ready blocked unsat by simp
qed

lemma readiness_views_agree_example:
  "unsatisfied_dependencies reviewed_board ''b'' = Inr [] \<and> ''b'' \<in> set (rc_ready (get_ready_cards reviewed_board))"
proof -
  have "validate_dependencies reviewed_board = Inr ()" by code_simp
  moreover have "sample_card ''b'' ''planned'' [''a''] \<in> set (cards reviewed_board)" by (simp add: reviewed_board_def)
  moreover have "unsatisfied_dependencies reviewed_board ''b'' = Inr []" by code_simp
  ultimately show ?thesis
    using readiness_views_agree [of reviewed_board "sample_card ''b'' ''planned'' [''a'']"] by simp
qed

end
