(* ===== verification/Overlap_Order.thy ===== *)
theory Overlap_Order
  imports Rust_Text
begin

text \<open>
  Ordering of cards that touch the same files (\<open>refact-tasks/src/overlap_order.rs\<close>): each
  card of a wave gets the least rank that no earlier card sharing a file with it has. A
  \<open>BTreeSet\<close> of file keys is its sorted list.
\<close>

section \<open>Inputs\<close>

definition absence_note :: string where
  "absence_note = ''No observed overlap is not permission or a guarantee that editing is safe.''"

datatype overlap_source = Declared | Observed

primrec overlap_source_as_str :: "overlap_source \<Rightarrow> string" where
  "overlap_source_as_str Declared = ''declared''"
| "overlap_source_as_str Observed = ''observed''"

record overlap_inputs =
  declared :: "(string, string list) amap"
  observed :: "(string, string list) amap"

definition overlap_inputs_new :: overlap_inputs where
  "overlap_inputs_new = \<lparr>declared = [], observed = []\<rparr>"

definition extend_keys :: "string \<Rightarrow> string list \<Rightarrow> (string, string list) amap \<Rightarrow> (string, string list) amap" where
  "extend_keys cid keys m =
     AList.update cid (foldl (\<lambda>s k. bset_insert k s) (get_or [] (map_of m cid)) keys) m"

definition declare_files :: "string \<Rightarrow> string list \<Rightarrow> overlap_inputs \<Rightarrow> overlap_inputs" where
  "declare_files cid keys inp = inp\<lparr>declared := extend_keys cid keys (declared inp)\<rparr>"

definition observe_files :: "string \<Rightarrow> string list \<Rightarrow> overlap_inputs \<Rightarrow> overlap_inputs" where
  "observe_files cid keys inp = inp\<lparr>observed := extend_keys cid keys (observed inp)\<rparr>"

definition overlap_inputs_is_empty :: "overlap_inputs \<Rightarrow> bool" where
  "overlap_inputs_is_empty inp \<longleftrightarrow>
     list_all (\<lambda>s. s = []) (amap_values (declared inp)) \<and> list_all (\<lambda>s. s = []) (amap_values (observed inp))"

definition shared :: "(string, string list) amap \<Rightarrow> string \<Rightarrow> string \<Rightarrow> string list option" where
  "shared m left right =
     (case map_of m left of
        None \<Rightarrow> None
      | Some l \<Rightarrow>
          (case map_of m right of
             None \<Rightarrow> None
           | Some r \<Rightarrow>
               let common = filter (\<lambda>k. k \<in> set r) l in if common = [] then None else Some common))"

section \<open>Ranks\<close>

record overlap_edge =
  oe_with :: string
  oe_source :: overlap_source
  oe_files :: "string list"

record ordered_card =
  oc_card_id :: string
  oc_rank :: nat
  oc_overlaps :: "overlap_edge list"

record wave_order =
  wo_wave :: nat
  wo_cards :: "ordered_card list"
  wo_note :: string

definition rank_of :: "wave_order \<Rightarrow> string \<Rightarrow> nat option" where
  "rank_of wo cid = map_option oc_rank (List.find (\<lambda>c. oc_card_id c = cid) (wo_cards wo))"

definition ranks :: "wave_order \<Rightarrow> (string, nat) amap" where
  "ranks wo = foldl (\<lambda>m c. AList.update (oc_card_id c) (oc_rank c) m) [] (wo_cards wo)"

text \<open>The edges between a card and an earlier one, declared before observed.\<close>

definition edges_to :: "overlap_inputs \<Rightarrow> string \<Rightarrow> string \<Rightarrow> overlap_edge list" where
  "edges_to inp cid earlier =
     (case shared (declared inp) cid earlier of
        None \<Rightarrow> []
      | Some files \<Rightarrow> [\<lparr>oe_with = earlier, oe_source = Declared, oe_files = files\<rparr>]) @
     (case shared (observed inp) cid earlier of
        None \<Rightarrow> []
      | Some files \<Rightarrow> [\<lparr>oe_with = earlier, oe_source = Observed, oe_files = files\<rparr>])"

definition overlaps_with :: "overlap_inputs \<Rightarrow> string \<Rightarrow> string \<Rightarrow> bool" where
  "overlaps_with inp cid earlier \<longleftrightarrow>
     \<not> (shared (declared inp) cid earlier = None \<and> shared (observed inp) cid earlier = None)"

definition place_card :: "overlap_inputs \<Rightarrow> ordered_card list \<Rightarrow> string \<Rightarrow> ordered_card" where
  "place_card inp placed cid =
     (let index = length placed;
          taken = map oc_rank (filter (\<lambda>e. overlaps_with inp cid (oc_card_id e)) placed)
      in \<lparr>oc_card_id = cid,
          oc_rank = get_or index (List.find (\<lambda>rank. rank \<notin> set taken) [0..<index + 1]),
          oc_overlaps = concat (map (\<lambda>e. edges_to inp cid (oc_card_id e)) placed)\<rparr>)"

text \<open>\<open>placed\<close> holds the cards before the current one, in the order of \<open>card_ids\<close>.\<close>

fun place_cards :: "overlap_inputs \<Rightarrow> ordered_card list \<Rightarrow> string list \<Rightarrow> ordered_card list" where
  "place_cards inp placed [] = placed"
| "place_cards inp placed (cid # rest) = place_cards inp (placed @ [place_card inp placed cid]) rest"

definition order_wave :: "nat \<Rightarrow> string list \<Rightarrow> overlap_inputs \<Rightarrow> wave_order" where
  "order_wave wave card_ids inp =
     \<lparr>wo_wave = wave, wo_cards = sort_key oc_rank (place_cards inp [] card_ids), wo_note = absence_note\<rparr>"

section \<open>What the ranks guarantee\<close>

lemma overlaps_with_sym: "overlaps_with inp a b \<longleftrightarrow> overlaps_with inp b a"
  by (auto simp: overlaps_with_def shared_def Let_def filter_empty_conv split: option.splits)

text \<open>The rank found is the least free one: every smaller one is taken.\<close>

lemma first_free_rank:
  fixes taken :: "nat list"
  assumes "length taken \<le> n"
  shows "get_or n (List.find (\<lambda>r. r \<notin> set taken) [0..<n + 1]) = (LEAST r. r \<notin> set taken)"
    and "(LEAST r. r \<notin> set taken) \<le> n"
proof -
  have "card (set taken) \<le> n" using assms card_length le_trans by blast
  then have "\<not> {0..<n + 1} \<subseteq> set taken" using card_mono [of "set taken" "{0..<n + 1}"] by auto
  then obtain r where "r \<in> {0..<n + 1}" "r \<notin> set taken" by blast
  then have "r \<le> n" by simp
  with \<open>r \<notin> set taken\<close> show le: "(LEAST r. r \<notin> set taken) \<le> n" by (meson Least_le le_trans)
  define m where "m = (LEAST r. r \<notin> set taken)"
  have "m \<notin> set taken" unfolding m_def using \<open>r \<notin> set taken\<close> by (rule LeastI)
  moreover have "j \<in> set taken" if "j < m" for j using not_less_Least [of j "\<lambda>r. r \<notin> set taken"] that by (auto simp: m_def)
  moreover have "m < n + 1" using le by (simp add: m_def)
  ultimately have "List.find (\<lambda>r. r \<notin> set taken) [0..<n + 1] = Some m"
    unfolding find_Some_iff by (intro exI [of _ m]) (simp add: nth_upt del: upt_Suc)
  then show "get_or n (List.find (\<lambda>r. r \<notin> set taken) [0..<n + 1]) = (LEAST r. r \<notin> set taken)" by (simp add: m_def)
qed

lemma place_card_rank:
  assumes "c = place_card inp placed cid"
  shows "oc_card_id c = cid" "oc_rank c \<le> length placed"
    "\<And>e. e \<in> set placed \<Longrightarrow> overlaps_with inp cid (oc_card_id e) \<Longrightarrow> oc_rank e \<noteq> oc_rank c"
    "\<And>r. r < oc_rank c \<Longrightarrow> \<exists>e \<in> set placed. overlaps_with inp cid (oc_card_id e) \<and> oc_rank e = r"
proof -
  let ?taken = "map oc_rank (filter (\<lambda>e. overlaps_with inp cid (oc_card_id e)) placed)"
  have len: "length ?taken \<le> length placed" by simp
  note free = first_free_rank [OF len]
  have rank: "oc_rank c = (LEAST r. r \<notin> set ?taken)" using assms free(1) by (simp add: place_card_def Let_def)
  show "oc_card_id c = cid" using assms by (simp add: place_card_def Let_def)
  show "oc_rank c \<le> length placed" using free(2) rank by simp
  have fresh: "oc_rank c \<notin> set ?taken"
    unfolding rank by (rule LeastI_ex) (metis List.finite_set ex_new_if_finite infinite_UNIV_nat)
  show "oc_rank e \<noteq> oc_rank c" if "e \<in> set placed" "overlaps_with inp cid (oc_card_id e)" for e
    using fresh that by (auto simp: image_iff)
  show "\<exists>e \<in> set placed. overlaps_with inp cid (oc_card_id e) \<and> oc_rank e = r" if "r < oc_rank c" for r
    using not_less_Least [of r "\<lambda>r. r \<notin> set ?taken"] that rank by auto
qed

text \<open>The cards placed so far: ranks below their number, different for overlapping cards, and none larger than needed.\<close>

definition placed_ok :: "overlap_inputs \<Rightarrow> ordered_card list \<Rightarrow> bool" where
  "placed_ok inp placed \<longleftrightarrow>
     (\<forall>c \<in> set placed. oc_rank c < length placed) \<and>
     (\<forall>c \<in> set placed. \<forall>e \<in> set placed.
        oc_card_id c \<noteq> oc_card_id e \<and> overlaps_with inp (oc_card_id c) (oc_card_id e) \<longrightarrow> oc_rank c \<noteq> oc_rank e) \<and>
     (\<forall>c \<in> set placed. \<forall>r < oc_rank c.
        \<exists>e \<in> set placed. overlaps_with inp (oc_card_id c) (oc_card_id e) \<and> oc_rank e = r)"

lemma placed_ok_step: "placed_ok inp placed \<Longrightarrow> placed_ok inp (placed @ [place_card inp placed cid])"
proof -
  assume ok: "placed_ok inp placed"
  note new = place_card_rank [of "place_card inp placed cid" inp placed cid, OF refl]
  let ?c = "place_card inp placed cid"
  have "\<forall>c \<in> set (placed @ [?c]). \<forall>e \<in> set (placed @ [?c]).
      oc_card_id c \<noteq> oc_card_id e \<and> overlaps_with inp (oc_card_id c) (oc_card_id e) \<longrightarrow> oc_rank c \<noteq> oc_rank e"
  proof (intro ballI impI)
    fix c e assume c: "c \<in> set (placed @ [?c])" and e: "e \<in> set (placed @ [?c])"
      and ov: "oc_card_id c \<noteq> oc_card_id e \<and> overlaps_with inp (oc_card_id c) (oc_card_id e)"
    consider "c \<in> set placed" "e \<in> set placed" | "c \<in> set placed" "e = ?c" | "c = ?c" "e \<in> set placed"
      using c e ov by auto
    then show "oc_rank c \<noteq> oc_rank e"
    proof cases
      case 1
      with ok ov show ?thesis by (auto simp: placed_ok_def)
    next
      case 2
      with ov new(1) new(3) [of c] overlaps_with_sym show ?thesis by metis
    next
      case 3
      with ov new(1) new(3) [of e] show ?thesis by metis
    qed
  qed
  moreover have "\<forall>c \<in> set (placed @ [?c]). oc_rank c < length (placed @ [?c])"
    using ok new(2) by (auto simp: placed_ok_def less_Suc_eq_le intro: less_imp_le)
  moreover have "\<exists>e \<in> set (placed @ [?c]). overlaps_with inp (oc_card_id c) (oc_card_id e) \<and> oc_rank e = r"
    if "c \<in> set (placed @ [?c])" "r < oc_rank c" for c r
    using that ok new(1) new(4) [of r] by (auto simp: placed_ok_def)
  ultimately show ?thesis unfolding placed_ok_def by blast
qed

lemma place_cards_ok: "placed_ok inp placed \<Longrightarrow> placed_ok inp (place_cards inp placed ids)"
  by (induction inp placed ids rule: place_cards.induct) (auto intro: placed_ok_step)

lemma place_cards_ids: "map oc_card_id (place_cards inp placed ids) = map oc_card_id placed @ ids"
  by (induction inp placed ids rule: place_cards.induct) (simp_all add: place_card_def Let_def)

lemma order_wave_placed:
  "set (wo_cards (order_wave wave ids inp)) = set (place_cards inp [] ids)"
  "length (wo_cards (order_wave wave ids inp)) = length ids"
  "placed_ok inp (wo_cards (order_wave wave ids inp))"
proof -
  show mem: "set (wo_cards (order_wave wave ids inp)) = set (place_cards inp [] ids)" by (simp add: order_wave_def)
  have len: "length (place_cards inp [] ids) = length ids"
    using place_cards_ids [of inp "[]" ids] by (metis append_Nil length_map list.simps(8))
  then show "length (wo_cards (order_wave wave ids inp)) = length ids" by (simp add: order_wave_def)
  moreover have "placed_ok inp (place_cards inp [] ids)" by (rule place_cards_ok) (simp add: placed_ok_def)
  ultimately show "placed_ok inp (wo_cards (order_wave wave ids inp))"
    unfolding placed_ok_def mem len by simp
qed

text \<open>
  Ordering a wave loses no card and serialises exactly what it must. The result holds
  the same cards, sorted by rank; two different cards known to share a file never have the
  same rank; every rank is below the number of cards; and a card is ranked later only
  behind cards it overlaps with, one at each smaller rank.
\<close>

lemma order_wave_correct:
  "mset (map oc_card_id (wo_cards (order_wave wave ids inp))) = mset ids \<and>
   sorted (map oc_rank (wo_cards (order_wave wave ids inp))) \<and>
   placed_ok inp (wo_cards (order_wave wave ids inp))"
proof -
  have "map oc_card_id (place_cards inp [] ids) = ids" using place_cards_ids [of inp "[]" ids] by simp
  then have "image_mset oc_card_id (mset (place_cards inp [] ids)) = mset ids" by (metis mset_map)
  then show ?thesis using order_wave_placed(3) [of inp wave ids] by (simp add: order_wave_def)
qed

end
