(* ===== verification/Waves.thy ===== *)
theory Waves
  imports Board_Dependencies Overlap_Order
begin

text \<open>
  Wave scheduling of a task board (\<open>refact-tasks/src/waves.rs\<close>): topological levels of the
  dependency graph, lanes with their pipeline cursor, the gate of the first unfinished or
  failed wave, and the schedule of stages to submit, optionally ordered by file overlap.
\<close>

section \<open>Waves\<close>

definition is_terminal_column :: "string \<Rightarrow> bool" where
  "is_terminal_column col \<longleftrightarrow> col = ''done'' \<or> col = ''failed'' \<or> col = ''regressed''"

definition is_failed_column :: "string \<Rightarrow> bool" where
  "is_failed_column col \<longleftrightarrow> col = ''failed'' \<or> col = ''regressed''"

record wave =
  wv_index :: nat
  wv_cards :: "string list"

text \<open>One processed card raises the level of its dependents while it settles their counts; \<open>None\<close> is a panic.\<close>

fun level_all :: "nat \<Rightarrow> nat list \<Rightarrow> nat list \<times> nat list \<times> nat list \<Rightarrow> (nat list \<times> nat list \<times> nat list) option" where
  "level_all i [] st = Some st"
| "level_all i (d # ds) (levels, indegree, queue) =
     (if d < length levels \<and> i < length levels
      then case relax d (indegree, queue) of
             None \<Rightarrow> None
           | Some (indegree', queue') \<Rightarrow>
               level_all i ds (levels[d := max (levels ! d) (levels ! i + 1)], indegree', queue')
      else None)"

lemma level_all_relax:
  "level_all i ds (lv, ind, q) = Some (lv', ind', q') \<Longrightarrow> relax_all ds (ind, q) = Some (ind', q')"
  by (induction ds arbitrary: lv ind q) (auto split: option.splits if_splits)

function level_loop :: "nat list list \<Rightarrow> nat list \<Rightarrow> nat list \<Rightarrow> nat list \<Rightarrow> nat list option" where
  "level_loop dependents levels indegree [] = Some levels"
| "level_loop dependents levels indegree (i # queue) =
     (case level_all i (dependents ! i) (levels, indegree, queue) of
        None \<Rightarrow> None
      | Some (levels', indegree', queue') \<Rightarrow> level_loop dependents levels' indegree' queue')"
  by pat_completeness auto
termination
  by (relation "measure (\<lambda>(ds, lv, ind, q). sum_list ind + length q)")
    (auto dest!: level_all_relax relax_all_work)

definition push_card :: "string \<Rightarrow> wave \<Rightarrow> wave" where
  "push_card i w = w\<lparr>wv_cards := wv_cards w @ [i]\<rparr>"

definition wave_depth :: "nat list \<Rightarrow> nat" where
  "wave_depth levels = (case levels of [] \<Rightarrow> 0 | l # ls \<Rightarrow> foldl max l ls + 1)"

definition collect_waves :: "nat list \<Rightarrow> 'v board_card list \<Rightarrow> wave list" where
  "collect_waves levels cs =
     foldl (\<lambda>ws (i, c). ws[levels ! i := push_card (bc_id c) (ws ! (levels ! i))])
       (map (\<lambda>i. \<lparr>wv_index = i, wv_cards = []\<rparr>) [0..<wave_depth levels]) (List.enumerate 0 cs)"

definition derive_waves :: "'v task_board \<Rightarrow> string + wave list" where
  "derive_waves b =
     (case validate_dependencies b of
        Inl e \<Rightarrow> Inl e
      | Inr _ \<Rightarrow>
          (case level_loop (dependents_of (index_by_id (cards b)) (cards b)) (replicate (length (cards b)) 0)
                  (indegrees (cards b)) (sources (indegrees (cards b))) of
             None \<Rightarrow> Inl overflow_panic
           | Some levels \<Rightarrow> Inr (collect_waves levels (cards b))))"

section \<open>Lanes\<close>

datatype lane_kind = Parallel | Sequential | Pipeline

definition lane_kind_names :: "string list" where
  "lane_kind_names = [''parallel'', ''sequential'', ''pipeline'']"

definition lane_kind_parse :: "string \<Rightarrow> string + lane_kind" where
  "lane_kind_parse value =
     (if value = ''parallel'' then Inr Parallel
      else if value = ''sequential'' then Inr Sequential
      else if value = ''pipeline'' then Inr Pipeline
      else Inl (''unknown lane kind '' @ single_quote @ value @ single_quote @ '', expected one of '' @
                join_strings '', '' lane_kind_names))"

primrec lane_kind_as_str :: "lane_kind \<Rightarrow> string" where
  "lane_kind_as_str Parallel = ''parallel''"
| "lane_kind_as_str Sequential = ''sequential''"
| "lane_kind_as_str Pipeline = ''pipeline''"

definition advances_one_position_at_a_time :: "lane_kind \<Rightarrow> bool" where
  "advances_one_position_at_a_time k \<longleftrightarrow> k = Sequential \<or> k = Pipeline"

record lane_stage =
  ls_card_id :: string
  ls_agent_id :: "string option"
  ls_optional :: bool

record lane =
  ln_name :: string
  ln_kind :: lane_kind
  ln_stages :: "lane_stage list"
  ln_optional :: bool

record wave_limits =
  max_wave_width :: nat
  max_pipeline_depth :: nat

datatype pipeline_advance = AdvanceNext nat string "string option" | AdvanceComplete | AdvanceOutOfRange nat

definition advance_pipeline :: "lane_stage list \<Rightarrow> nat \<Rightarrow> pipeline_advance" where
  "advance_pipeline stages completed =
     (if completed \<ge> length stages then AdvanceOutOfRange completed
      else if completed + 1 < length stages
      then AdvanceNext (completed + 1) (ls_card_id (stages ! (completed + 1))) (ls_agent_id (stages ! (completed + 1)))
      else AdvanceComplete)"

datatype pipeline_cursor = CursorAt nat | CursorBlocked nat string | CursorComplete

definition column_of :: "'v task_board \<Rightarrow> string \<Rightarrow> string" where
  "column_of b i = get_or [] (map_option bc_column (get_card b i))"

function cursor_from :: "'v task_board \<Rightarrow> lane_stage list \<Rightarrow> nat \<Rightarrow> pipeline_cursor" where
  "cursor_from b stages position =
     (if position \<ge> length stages then CursorComplete
      else let stage = stages ! position; column = column_of b (ls_card_id stage) in
        if is_failed_column column then CursorBlocked position (ls_card_id stage)
        else if \<not> is_terminal_column column then CursorAt position
        else case advance_pipeline stages position of
               AdvanceNext nxt _ _ \<Rightarrow> cursor_from b stages nxt
             | AdvanceComplete \<Rightarrow> CursorComplete
             | AdvanceOutOfRange _ \<Rightarrow> CursorComplete)"
  by pat_completeness auto
termination
  by (relation "measure (\<lambda>(b, stages, position). length stages - position)")
    (auto simp: advance_pipeline_def split: if_splits)

declare cursor_from.simps [simp del]

definition pipeline_cursor_of :: "'v task_board \<Rightarrow> lane_stage list \<Rightarrow> pipeline_cursor" where
  "pipeline_cursor_of b stages = cursor_from b stages 0"

datatype stage_decision = Dispatch | NotRun string | StageBlocked string

record stage_outcome =
  so_card_id :: string
  so_agent_id :: "string option"
  so_position :: nat
  so_wave :: nat
  so_decision :: stage_decision
  so_serial_rank :: "nat option"

datatype lane_status = LaneDispatched | LaneNotRun

record lane_outcome =
  lo_lane :: string
  lo_kind :: lane_kind
  lo_status :: lane_status
  lo_reason :: "string option"
  lo_optional :: bool
  lo_stages :: "stage_outcome list"

record wave_schedule =
  ws_waves :: "wave list"
  admitted_wave :: "nat option"
  ws_lanes :: "lane_outcome list"
  dispatch :: "string list"
  overlap_order :: "wave_order list"

section \<open>Submission groups\<close>

definition rank_table :: "lane_outcome list \<Rightarrow> (string, nat \<times> nat) amap" where
  "rank_table lanes =
     foldl (\<lambda>m (k, v). AList.update k v m) []
       (List.map_filter (\<lambda>st. map_option (\<lambda>rank. (so_card_id st, so_wave st, rank)) (so_serial_rank st))
         (concat (map lo_stages lanes)))"

text \<open>The groups so far with the last one at the end, and the key of the last group.\<close>

definition group_card ::
  "(string, nat \<times> nat) amap \<Rightarrow> string list list \<times> (nat \<times> nat) option \<Rightarrow> string
   \<Rightarrow> string list list \<times> (nat \<times> nat) option" where
  "group_card table acc i =
     (case acc of (groups, current) \<Rightarrow>
        let key = map_of table i in
        if groups \<noteq> [] \<and> (key \<noteq> None \<and> current = key \<or> key = None \<and> current = None)
        then (butlast groups @ [last groups @ [i]], current)
        else (groups @ [[i]], key))"

definition submission_groups :: "wave_schedule \<Rightarrow> string list list" where
  "submission_groups s = fst (foldl (group_card (rank_table (ws_lanes s))) ([], None) (dispatch s))"

section \<open>Gate and lane checks\<close>

record wave_gate =
  frontier :: nat
  holding :: "string list list"
  failed_cards :: "string list list"
  blocked_at :: "nat option"

text \<open>\<open>Iterator::position\<close>.\<close>

fun position_of :: "('a \<Rightarrow> bool) \<Rightarrow> 'a list \<Rightarrow> nat option" where
  "position_of P [] = None"
| "position_of P (x # xs) = (if P x then Some 0 else map_option Suc (position_of P xs))"

definition holding_wave :: "'v task_board \<Rightarrow> string list \<Rightarrow> wave \<Rightarrow> string list" where
  "holding_wave b optional w =
     filter (\<lambda>i. i \<notin> set optional \<and> \<not> is_failed_column (column_of b i) \<and> \<not> is_terminal_column (column_of b i)) (wv_cards w)"

definition failed_wave :: "'v task_board \<Rightarrow> string list \<Rightarrow> wave \<Rightarrow> string list" where
  "failed_wave b optional w = filter (\<lambda>i. i \<notin> set optional \<and> is_failed_column (column_of b i)) (wv_cards w)"

definition wave_gate_of :: "'v task_board \<Rightarrow> wave list \<Rightarrow> string list \<Rightarrow> wave_gate" where
  "wave_gate_of b ws optional =
     (let hold = map (holding_wave b optional) ws; fl = map (failed_wave b optional) ws
      in \<lparr>frontier = get_or (length ws) (position_of (\<lambda>w. w \<noteq> []) hold), holding = hold, failed_cards = fl,
          blocked_at = position_of (\<lambda>w. w \<noteq> []) fl\<rparr>)"

text \<open>The loops of \<open>validate_lanes\<close>: the cards placed so far, and the first error.\<close>

fun stage_errors :: "'v task_board \<Rightarrow> string \<Rightarrow> string list \<Rightarrow> lane_stage list \<Rightarrow> string + string list" where
  "stage_errors b lane_name placed [] = Inr placed"
| "stage_errors b lane_name placed (st # rest) =
     (if get_card b (ls_card_id st) = None
      then Inl (''lane '' @ single_quote @ lane_name @ single_quote @ '' stage references unknown card '' @ ls_card_id st)
      else if ls_card_id st \<in> set placed
      then Inl (''card '' @ ls_card_id st @ '' is placed in more than one lane stage'')
      else stage_errors b lane_name (ls_card_id st # placed) rest)"

fun lane_errors ::
  "'v task_board \<Rightarrow> wave_limits \<Rightarrow> string list \<Rightarrow> string list \<Rightarrow> lane list \<Rightarrow> string + unit" where
  "lane_errors b limits seen placed [] = Inr ()"
| "lane_errors b limits seen placed (ln # rest) =
     (if trim (ln_name ln) = [] then Inl ''lane name cannot be empty''
      else if ln_name ln \<in> set seen
      then Inl (''lane '' @ single_quote @ ln_name ln @ single_quote @ '' is declared more than once'')
      else if ln_kind ln = Pipeline \<and> length (ln_stages ln) > max_pipeline_depth limits
      then Inl (''pipeline lane '' @ single_quote @ ln_name ln @ single_quote @ '' declares '' @
                show_nat (length (ln_stages ln)) @
                '' stages, exceeding the configured maximum pipeline depth of '' @ show_nat (max_pipeline_depth limits))
      else case stage_errors b (ln_name ln) placed (ln_stages ln) of
             Inl e \<Rightarrow> Inl e
           | Inr placed' \<Rightarrow> lane_errors b limits (ln_name ln # seen) placed' rest)"

definition validate_lanes :: "'v task_board \<Rightarrow> lane list \<Rightarrow> wave_limits \<Rightarrow> string + unit" where
  "validate_lanes b lanes limits = lane_errors b limits [] [] lanes"

section \<open>Decisions\<close>

definition terminal_or_dispatch :: "'v task_board \<Rightarrow> lane \<Rightarrow> nat \<Rightarrow> stage_decision" where
  "terminal_or_dispatch b ln position =
     (let i = ls_card_id (ln_stages ln ! position); column = column_of b i in
      if is_terminal_column column
      then NotRun (''card '' @ i @ '' is already in '' @ single_quote @ column @ single_quote)
      else Dispatch)"

definition lane_phrase :: "lane \<Rightarrow> string" where
  "lane_phrase ln = lane_kind_as_str (ln_kind ln) @ '' lane '' @ single_quote @ ln_name ln @ single_quote"

definition decide_at_cursor :: "'v task_board \<Rightarrow> lane \<Rightarrow> pipeline_cursor option \<Rightarrow> nat \<Rightarrow> stage_decision" where
  "decide_at_cursor b ln cursor position =
     (case cursor of
        Some CursorComplete \<Rightarrow> NotRun (lane_phrase ln @ '' has no remaining stage'')
      | Some (CursorBlocked failed_position i) \<Rightarrow>
          StageBlocked (lane_phrase ln @ '' stopped at position '' @ show_nat failed_position @ '': card '' @ i @ '' failed'')
      | Some (CursorAt current) \<Rightarrow>
          if position = current then Dispatch
          else if position < current then NotRun (lane_phrase ln @ '' already passed position '' @ show_nat position)
          else NotRun (lane_phrase ln @ '' is at position '' @ show_nat current)
      | None \<Rightarrow> terminal_or_dispatch b ln position)"

definition decide_stage ::
  "'v task_board \<Rightarrow> wave_gate \<Rightarrow> lane \<Rightarrow> pipeline_cursor option \<Rightarrow> nat \<Rightarrow> nat \<Rightarrow> stage_decision" where
  "decide_stage b gate ln cursor position w =
     (let rest = (if w > frontier gate
                  then NotRun (''wave '' @ show_nat (frontier gate) @ '' is still running required card(s) '' @
                         (if frontier gate < length (holding gate)
                          then join_strings '', '' (holding gate ! frontier gate) else []))
                  else decide_at_cursor b ln cursor position)
      in case blocked_at gate of
           Some blocked \<Rightarrow>
             if w > blocked
             then StageBlocked (''wave '' @ show_nat blocked @ '' required card(s) '' @
                    join_strings '', '' (failed_cards gate ! blocked) @ '' failed'')
             else rest
         | None \<Rightarrow> rest)"

section \<open>The schedule\<close>

definition optional_cards :: "lane list \<Rightarrow> string list" where
  "optional_cards lanes =
     concat (map (\<lambda>ln. map ls_card_id (filter (\<lambda>st. ln_optional ln \<or> ls_optional st) (ln_stages ln))) lanes)"

definition wave_of :: "wave list \<Rightarrow> (string, nat) amap" where
  "wave_of ws =
     foldl (\<lambda>m (i, w). AList.update i w m) [] (concat (map (\<lambda>w. map (\<lambda>i. (i, wv_index w)) (wv_cards w)) ws))"

definition stage_outcome_of ::
  "'v task_board \<Rightarrow> wave_gate \<Rightarrow> (string, nat) amap \<Rightarrow> lane \<Rightarrow> pipeline_cursor option \<Rightarrow> nat \<times> lane_stage \<Rightarrow> stage_outcome" where
  "stage_outcome_of b gate waves ln cursor entry =
     (case entry of (position, st) \<Rightarrow>
        let w = get_or 0 (map_of waves (ls_card_id st))
        in \<lparr>so_card_id = ls_card_id st, so_agent_id = ls_agent_id st, so_position = position, so_wave = w,
            so_decision = decide_stage b gate ln cursor position w, so_serial_rank = None\<rparr>)"

definition lane_outcome_of :: "'v task_board \<Rightarrow> wave_gate \<Rightarrow> (string, nat) amap \<Rightarrow> lane \<Rightarrow> lane_outcome" where
  "lane_outcome_of b gate waves ln =
     (let cursor = (if advances_one_position_at_a_time (ln_kind ln)
                    then Some (pipeline_cursor_of b (ln_stages ln)) else None)
      in \<lparr>lo_lane = ln_name ln, lo_kind = ln_kind ln, lo_status = LaneNotRun, lo_reason = None,
          lo_optional = ln_optional ln,
          lo_stages = map (stage_outcome_of b gate waves ln cursor) (List.enumerate 0 (ln_stages ln))\<rparr>)"

definition dispatched_stages :: "lane_outcome list \<Rightarrow> stage_outcome list" where
  "dispatched_stages outcomes = filter (\<lambda>st. so_decision st = Dispatch) (concat (map lo_stages outcomes))"

definition order_dispatch_by_wave :: "lane_outcome list \<Rightarrow> overlap_inputs \<Rightarrow> wave_order list" where
  "order_dispatch_by_wave outcomes inp =
     map (\<lambda>(w, ids). order_wave w ids inp)
       (btree_iter (foldl (\<lambda>m st. AList.update (so_wave st) (get_or [] (map_of m (so_wave st)) @ [so_card_id st]) m) []
         (dispatched_stages outcomes)))"

definition merged_ranks :: "wave_order list \<Rightarrow> (string, nat) amap" where
  "merged_ranks orders = foldl (\<lambda>m (k, v). AList.update k v m) [] (concat (map (\<lambda>wo. btree_iter (ranks wo)) orders))"

definition stamp_ranks ::
  "lane_outcome list \<Rightarrow> wave_order list \<Rightarrow> lane_outcome list \<times> (string, nat) amap option" where
  "stamp_ranks outcomes orders =
     (if orders = [] then (outcomes, None)
      else let rk = merged_ranks orders
           in (map (\<lambda>lo. lo\<lparr>lo_stages := map (\<lambda>st. st\<lparr>so_serial_rank := map_of rk (so_card_id st)\<rparr>) (lo_stages lo)\<rparr>)
                 outcomes, Some rk))"

text \<open>Places of dispatched stages, as pairs of lane and stage index, in lane order or by wave and rank.\<close>

definition stage_at :: "lane_outcome list \<Rightarrow> nat \<times> nat \<Rightarrow> stage_outcome" where
  "stage_at outcomes p = lo_stages (outcomes ! fst p) ! snd p"

definition dispatch_places :: "lane_outcome list \<Rightarrow> (nat \<times> nat) list" where
  "dispatch_places outcomes =
     concat (map (\<lambda>(l, lo). map (\<lambda>(s, st). (l, s))
       (filter (\<lambda>(s, st). so_decision st = Dispatch) (List.enumerate 0 (lo_stages lo)))) (List.enumerate 0 outcomes))"

definition dispatch_order :: "lane_outcome list \<Rightarrow> (string, nat) amap option \<Rightarrow> (nat \<times> nat) list" where
  "dispatch_order outcomes rk =
     (case rk of
        None \<Rightarrow> dispatch_places outcomes
      | Some m \<Rightarrow>
          sort_key (\<lambda>p. (so_wave (stage_at outcomes p), get_or 0 (map_of m (so_card_id (stage_at outcomes p)))))
            (dispatch_places outcomes))"

definition set_decision :: "stage_decision \<Rightarrow> lane_outcome list \<Rightarrow> nat \<times> nat \<Rightarrow> lane_outcome list" where
  "set_decision d outcomes p =
     outcomes[fst p := (outcomes ! fst p)\<lparr>lo_stages :=
       (lo_stages (outcomes ! fst p))[snd p := (stage_at outcomes p)\<lparr>so_decision := d\<rparr>]\<rparr>]"

definition throttle_wave_width :: "lane_outcome list \<Rightarrow> (nat \<times> nat) list \<Rightarrow> nat \<Rightarrow> lane_outcome list" where
  "throttle_wave_width outcomes order width =
     foldl (set_decision (NotRun (''wave width limit of '' @ show_nat width @ '' card(s) per submission was reached'')))
       outcomes (drop width order)"

text \<open>The reason of a lane without a dispatched stage; \<open>Dispatch\<close> in the last case is \<open>unreachable!\<close>.\<close>

definition lane_not_run_reason :: "lane_outcome \<Rightarrow> string" where
  "lane_not_run_reason lo =
     (case lo_stages lo of
        [] \<Rightarrow> ''lane '' @ single_quote @ lo_lane lo @ single_quote @ '' declares no stages''
      | st # _ \<Rightarrow> (case so_decision st of NotRun reason \<Rightarrow> reason | StageBlocked reason \<Rightarrow> reason | Dispatch \<Rightarrow> []))"

definition close_lane :: "lane_outcome \<Rightarrow> lane_outcome" where
  "close_lane lo =
     (if \<exists>st \<in> set (lo_stages lo). so_decision st = Dispatch
      then lo\<lparr>lo_status := LaneDispatched, lo_reason := None\<rparr>
      else lo\<lparr>lo_status := LaneNotRun, lo_reason := Some (lane_not_run_reason lo)\<rparr>)"

definition schedule_of ::
  "'v task_board \<Rightarrow> lane list \<Rightarrow> wave_limits \<Rightarrow> overlap_inputs option \<Rightarrow> wave list \<Rightarrow> wave_schedule" where
  "schedule_of b lanes limits overlap ws =
     (let gate = wave_gate_of b ws (optional_cards lanes);
          outcomes = map (lane_outcome_of b gate (wave_of ws)) lanes;
          orders = (case overlap of
                      None \<Rightarrow> []
                    | Some inp \<Rightarrow> if overlap_inputs_is_empty inp then [] else order_dispatch_by_wave outcomes inp);
          (stamped, rk) = stamp_ranks outcomes orders;
          order = dispatch_order stamped rk;
          final = throttle_wave_width stamped order (max_wave_width limits);
          admitted = (case blocked_at gate of None \<Rightarrow> frontier gate | Some blocked \<Rightarrow> min (frontier gate) blocked)
      in \<lparr>ws_waves = ws, admitted_wave = if admitted < length ws then Some admitted else None,
          ws_lanes = map close_lane final,
          dispatch = map (\<lambda>p. so_card_id (stage_at final p))
            (filter (\<lambda>p. so_decision (stage_at final p) = Dispatch) order),
          overlap_order = orders\<rparr>)"

definition plan_schedule_with_overlap ::
  "'v task_board \<Rightarrow> lane list \<Rightarrow> wave_limits \<Rightarrow> overlap_inputs option \<Rightarrow> string + wave_schedule" where
  "plan_schedule_with_overlap b lanes limits overlap =
     (case derive_waves b of
        Inl e \<Rightarrow> Inl e
      | Inr ws \<Rightarrow>
          (case validate_lanes b lanes limits of
             Inl e \<Rightarrow> Inl e
           | Inr _ \<Rightarrow> Inr (schedule_of b lanes limits overlap ws)))"

definition plan_schedule :: "'v task_board \<Rightarrow> lane list \<Rightarrow> wave_limits \<Rightarrow> string + wave_schedule" where
  "plan_schedule b lanes limits = plan_schedule_with_overlap b lanes limits None"

end
