(* ===== verification/Waves_Levels.thy ===== *)
theory Waves_Levels
  imports Waves
begin

text \<open>
  The waves of a board are the levels of its dependency graph: the loop of \<open>derive_waves\<close>
  computes, for every card, the length of the longest chain of dependencies below it.
\<close>

section \<open>The level loop\<close>

lemma level_all_closed:
  assumes "distinct ds" "i \<notin> set ds" "i < length lv" "\<And>d. d \<in> set ds \<Longrightarrow> d < length lv"
    and "relax_all ds (ind, q) = Some st"
  shows "level_all i ds (lv, ind, q) =
    Some (map (\<lambda>k. if k \<in> set ds then max (lv ! k) (lv ! i + 1) else lv ! k) [0..<length lv], st)"
  using assms
proof (induction ds arbitrary: lv ind q)
  case Nil
  then show ?case by (simp add: map_nth)
next
  case (Cons d ds)
  from Cons.prems(5) obtain ind1 q1 where step: "relax d (ind, q) = Some (ind1, q1)" "relax_all ds (ind1, q1) = Some st"
    by (auto split: option.splits)
  let ?lv = "lv[d := max (lv ! d) (lv ! i + 1)]"
  have d: "d < length lv" "d \<notin> set ds" "i \<noteq> d" using Cons.prems(1,2,4) by auto
  have "level_all i ds (?lv, ind1, q1) =
      Some (map (\<lambda>k. if k \<in> set ds then max (?lv ! k) (?lv ! i + 1) else ?lv ! k) [0..<length ?lv], st)"
    using Cons.prems step(2) by (intro Cons.IH) auto
  moreover have "map (\<lambda>k. if k \<in> set ds then max (?lv ! k) (?lv ! i + 1) else ?lv ! k) [0..<length ?lv] =
      map (\<lambda>k. if k \<in> set (d # ds) then max (lv ! k) (lv ! i + 1) else lv ! k) [0..<length lv]"
    using d by (intro map_cong) (auto simp: nth_list_update)
  ultimately show ?case using step(1) d(1) Cons.prems(3) by simp
qed

text \<open>With \<open>P\<close> processed, a level is one more than the greatest level of the processed dependencies.\<close>

definition lev_inv :: "nat \<Rightarrow> (nat \<Rightarrow> nat set) \<Rightarrow> nat set \<Rightarrow> nat list \<Rightarrow> bool" where
  "lev_inv n D P lv \<longleftrightarrow> length lv = n \<and> (\<forall>k<n. lv ! k = Max (insert 0 ((\<lambda>j. Suc (lv ! j)) ` (D k \<inter> P))))"

lemma lev_step:
  assumes g: "dep_graph n D ds" and inv: "topo_inv n D P ind (i # q)" and lev: "lev_inv n D P lv"
  shows "lev_inv n D (insert i P) (map (\<lambda>k. if k \<in> set (ds ! i) then max (lv ! k) (lv ! i + 1) else lv ! k) [0..<length lv])"
    (is "lev_inv n D _ ?lv")
proof -
  from inv have i: "i < n" "i \<notin> P" and P: "P \<subseteq> {..<n}" and closed: "\<And>k. k \<in> P \<Longrightarrow> D k \<subseteq> P"
    unfolding topo_inv_def by auto
  have len: "length lv = n" and at: "\<And>k. k < n \<Longrightarrow> lv ! k = Max (insert 0 ((\<lambda>j. Suc (lv ! j)) ` (D k \<inter> P)))"
    using lev by (auto simp: lev_inv_def)
  have ds: "\<And>k. k \<in> set (ds ! i) \<longleftrightarrow> k < n \<and> i \<in> D k" and self: "i \<notin> D i"
    using g i unfolding dep_graph_def by auto
  have keep: "?lv ! j = lv ! j" if "j \<in> insert i P" for j
  proof -
    have "j < n" using that i P by auto
    moreover have "i \<notin> D j" using that self closed i by auto
    ultimately show ?thesis using len by (simp add: ds)
  qed
  have "?lv ! k = Max (insert 0 ((\<lambda>j. Suc (?lv ! j)) ` (D k \<inter> insert i P)))" if k: "k < n" for k
  proof -
    have fin: "finite (D k)" by (rule dep_graph_finite [OF g k])
    have "(\<lambda>j. Suc (?lv ! j)) ` (D k \<inter> insert i P) = (\<lambda>j. Suc (lv ! j)) ` (D k \<inter> insert i P)"
      by (intro image_cong refl) (use keep in auto)
    also have "\<dots> = (if i \<in> D k then insert (Suc (lv ! i)) ((\<lambda>j. Suc (lv ! j)) ` (D k \<inter> P))
        else (\<lambda>j. Suc (lv ! j)) ` (D k \<inter> P))" by auto
    finally have img: "(\<lambda>j. Suc (?lv ! j)) ` (D k \<inter> insert i P) = \<dots>" .
    show ?thesis
    proof (cases "i \<in> D k")
      case True
      have "Max (insert 0 (insert (Suc (lv ! i)) ((\<lambda>j. Suc (lv ! j)) ` (D k \<inter> P)))) = max (Suc (lv ! i)) (lv ! k)"
        using fin at [OF k] by (subst insert_commute, subst Max_insert) simp_all
      with True img k len ds show ?thesis by (simp add: max.commute)
    next
      case False
      with img k len ds at [OF k] show ?thesis by simp
    qed
  qed
  then show ?thesis unfolding lev_inv_def using len by simp
qed

lemma level_loop_result:
  assumes "dep_graph n D ds" "topo_inv n D P ind q" "lev_inv n D P lv"
  shows "\<exists>P' ind' lv'. level_loop ds lv ind q = Some lv' \<and> topo_inv n D P' ind' [] \<and> lev_inv n D P' lv'"
  using assms(2-)
proof (induction "sum_list ind + length q" arbitrary: P ind q lv rule: less_induct)
  case less
  show ?case
  proof (cases q)
    case Nil
    with less.prems show ?thesis by auto
  next
    case (Cons i q1)
    from less.prems(1) Cons have inv: "topo_inv n D P ind (i # q1)" by simp
    obtain ind' q' where step: "relax_all (ds ! i) (ind, q1) = Some (ind', q')"
      and inv': "topo_inv n D (insert i P) ind' q'" and "q' = q1 @ filter (\<lambda>d. ind ! d = 1) (ds ! i)"
      by (rule topo_step [OF assms(1) inv])
    let ?lv = "map (\<lambda>k. if k \<in> set (ds ! i) then max (lv ! k) (lv ! i + 1) else lv ! k) [0..<length lv]"
    have len: "length lv = n" and i: "i < n" using less.prems(2) inv by (auto simp: lev_inv_def topo_inv_def)
    have ds: "distinct (ds ! i)" "i \<notin> set (ds ! i)" "\<And>d. d \<in> set (ds ! i) \<Longrightarrow> d < length lv"
      using assms(1) i len by (auto simp: dep_graph_def)
    have "level_all i (ds ! i) (lv, ind, q1) = Some (?lv, ind', q')"
      using level_all_closed [OF ds(1,2) _ ds(3) step] i len by simp
    moreover have "sum_list ind' + length q' < sum_list ind + length q"
      using relax_all_work [OF step] Cons by simp
    ultimately show ?thesis
      using less.hyps [OF _ inv' lev_step [OF assms(1) inv less.prems(2)]] Cons by simp
  qed
qed

section \<open>The waves\<close>

definition ids_at :: "nat list \<Rightarrow> 'v board_card list \<Rightarrow> nat \<Rightarrow> string list" where
  "ids_at lv cs l = map (\<lambda>i. bc_id (cs ! i)) (filter (\<lambda>i. lv ! i = l) [0..<length cs])"

lemma foldl_max: "foldl max l ls = Max (insert l (set ls))" for l :: nat
proof (induction ls arbitrary: l)
  case (Cons x xs)
  have "Max (insert (max l x) (set xs)) = Max (insert l (set (x # xs)))"
    by (cases "xs = []") (auto simp: max.assoc)
  with Cons show ?case by simp
qed simp

lemma level_less_depth: "l \<in> set lv \<Longrightarrow> l < wave_depth lv"
  by (auto simp: wave_depth_def foldl_max less_Suc_eq_le split: list.splits)

lemma collect_waves_closed:
  assumes "length lv = length cs"
  shows "collect_waves lv cs = map (\<lambda>l. \<lparr>wv_index = l, wv_cards = ids_at lv cs l\<rparr>) [0..<wave_depth lv]"
proof -
  have "foldl (\<lambda>ws (i, c). ws[lv ! i := push_card (bc_id c) (ws ! (lv ! i))])
      (map (\<lambda>i. \<lparr>wv_index = i, wv_cards = []\<rparr>) [0..<m]) (List.enumerate 0 xs) =
      map (\<lambda>l. \<lparr>wv_index = l, wv_cards = ids_at lv xs l\<rparr>) [0..<m]"
    if "\<And>i. i < length xs \<Longrightarrow> lv ! i < m" for m and xs :: "'a board_card list"
    using that
  proof (induction xs rule: rev_induct)
    case Nil
    then show ?case by (simp add: ids_at_def)
  next
    case (snoc c xs)
    let ?l = "lv ! length xs"
    have "ids_at lv (xs @ [c]) l = ids_at lv xs l @ (if ?l = l then [bc_id c] else [])" for l
      by (auto simp: ids_at_def nth_append intro!: map_cong)
    moreover have "?l < m" using snoc.prems [of "length xs"] by simp
    ultimately show ?case
      using snoc by (auto simp: enumerate_append_eq push_card_def intro!: nth_equalityI simp: nth_list_update)
  qed
  from this [of cs "wave_depth lv"] show ?thesis
    using assms level_less_depth [of _ lv] by (simp add: collect_waves_def)
qed

text \<open>What the rest of the development uses: the levels behind the waves.\<close>

definition wave_levels :: "'v board_card list \<Rightarrow> nat list \<Rightarrow> wave list \<Rightarrow> bool" where
  "wave_levels cs lv ws \<longleftrightarrow> cards_ok cs \<and> length lv = length cs \<and>
     (\<forall>k<length cs. lv ! k = Max (insert 0 ((\<lambda>j. Suc (lv ! j)) ` deps_index cs k))) \<and>
     ws = map (\<lambda>l. \<lparr>wv_index = l, wv_cards = ids_at lv cs l\<rparr>) [0..<wave_depth lv]"

lemma derive_waves_levels:
  assumes "validate_dependencies b = Inr ()"
  obtains lv ws where "derive_waves b = Inr ws" "wave_levels (cards b) lv ws"
proof -
  let ?cs = "cards b"
  from assms have ok: "cards_ok ?cs" and acy: "acyclic (depends_rel ?cs)" by (auto simp: validate_dependencies_cards)
  have "lev_inv (length ?cs) (deps_index ?cs) {} (replicate (length ?cs) 0)" by (simp add: lev_inv_def)
  from level_loop_result [OF dep_graph_cards [OF ok] topo_inv_start [OF ok] this] obtain P ind lv where
    run: "level_loop (dependents_of (index_by_id ?cs) ?cs) (replicate (length ?cs) 0) (indegrees ?cs)
      (sources (indegrees ?cs)) = Some lv"
    and inv: "topo_inv (length ?cs) (deps_index ?cs) P ind []" and lev: "lev_inv (length ?cs) (deps_index ?cs) P lv"
    by blast
  have P: "P = {..<length ?cs}" by (rule acyclic_processed [OF ok acy inv])
  have "deps_index ?cs k \<inter> P = deps_index ?cs k" for k by (auto simp: P deps_index_def)
  with lev ok have "wave_levels ?cs lv (collect_waves lv ?cs)"
    by (simp add: wave_levels_def lev_inv_def collect_waves_closed)
  moreover have "derive_waves b = Inr (collect_waves lv ?cs)" using assms run by (simp add: derive_waves_def)
  ultimately show thesis using that by blast
qed

lemma ids_at_mem:
  assumes "distinct (map bc_id cs)" "i < length cs"
  shows "bc_id (cs ! i) \<in> set (ids_at lv cs l) \<longleftrightarrow> lv ! i = l"
  using assms by (auto simp: ids_at_def distinct_conv_nth)

lemma ids_at_card: "d \<in> set (ids_at lv cs l) \<Longrightarrow> \<exists>i<length cs. bc_id (cs ! i) = d \<and> lv ! i = l"
  by (auto simp: ids_at_def)

lemma level_above_dep:
  assumes "wave_levels cs lv ws" "i < length cs" "j \<in> deps_index cs i"
  shows "lv ! j < lv ! i"
proof -
  have "finite (deps_index cs i)" by (simp add: deps_index_def)
  then have "Suc (lv ! j) \<le> Max (insert 0 ((\<lambda>j. Suc (lv ! j)) ` deps_index cs i))"
    using assms(3) by (intro Max_ge) auto
  with assms(1,2) show ?thesis unfolding wave_levels_def by (metis Suc_le_lessD)
qed

lemma level_deepest_dep:
  assumes "wave_levels cs lv ws" "i < length cs" "0 < lv ! i"
  obtains j where "j \<in> deps_index cs i" "Suc (lv ! j) = lv ! i"
proof -
  have "finite (deps_index cs i)" by (simp add: deps_index_def)
  then have "Max (insert 0 ((\<lambda>j. Suc (lv ! j)) ` deps_index cs i)) \<in> insert 0 ((\<lambda>j. Suc (lv ! j)) ` deps_index cs i)"
    by (intro Max_in) auto
  with assms have "lv ! i \<in> (\<lambda>j. Suc (lv ! j)) ` deps_index cs i" unfolding wave_levels_def by auto
  with that show thesis by auto
qed

lemma levels_inhabited:
  assumes "wave_levels cs lv ws" "l < wave_depth lv"
  shows "\<exists>i<length cs. lv ! i = l"
proof -
  from assms have len: "length lv = length cs" by (simp add: wave_levels_def)
  from assms(2) have ne: "lv \<noteq> []" and max: "wave_depth lv = Suc (Max (set lv))"
    by (cases lv; simp add: wave_depth_def foldl_max)+
  then have "Max (set lv) \<in> set lv" by simp
  then have top: "\<exists>i<length cs. lv ! i = Max (set lv)" using len by (metis in_set_conv_nth)
  have "\<exists>i<length cs. lv ! i = Max (set lv) - k" if "k \<le> Max (set lv)" for k
    using that
  proof (induction k)
    case (Suc k)
    then obtain i where i: "i < length cs" "lv ! i = Max (set lv) - k" by auto
    then have "0 < lv ! i" using Suc.prems by simp
    from level_deepest_dep [OF assms(1) i(1) this] obtain j where "j \<in> deps_index cs i" "Suc (lv ! j) = lv ! i" .
    with i Suc.prems show ?case by (auto simp: deps_index_def intro!: exI [of _ j])
  qed (use top in simp)
  from this [of "Max (set lv) - l"] assms(2) max show ?thesis by simp
qed

lemma mset_by_level:
  "(\<And>x. x \<in> set xs \<Longrightarrow> g x < m) \<Longrightarrow> mset (concat (map (\<lambda>l. filter (\<lambda>x. g x = l) xs) [0..<m])) = mset xs"
proof (induction xs)
  case (Cons x xs)
  have pick: "(\<Sum>l\<leftarrow>[0..<m]. if g x = l then {#x#} else {#}) = (if g x < m then {#x#} else {#})" for m
    by (induction m) auto
  have "mset (concat (map (\<lambda>l. filter (\<lambda>x. g x = l) (x # xs)) [0..<m])) =
      (\<Sum>l\<leftarrow>[0..<m]. (if g x = l then {#x#} else {#}) + mset (filter (\<lambda>x. g x = l) xs))"
    unfolding mset_concat by (intro arg_cong [where f = sum_list] map_cong) (simp_all add: comp_def)
  also have "\<dots> = {#x#} + mset (concat (map (\<lambda>l. filter (\<lambda>x. g x = l) xs) [0..<m]))"
    using Cons.prems [of x] by (simp add: sum_list_addf pick mset_concat comp_def)
  finally show ?case using Cons by simp
qed (simp add: mset_concat comp_def)

lemma mset_waves:
  assumes "wave_levels cs lv ws"
  shows "mset (concat (map wv_cards ws)) = mset (map bc_id cs)"
proof -
  have "map wv_cards ws = map (\<lambda>l. map (\<lambda>i. bc_id (cs ! i)) (filter (\<lambda>i. lv ! i = l) [0..<length cs])) [0..<wave_depth lv]"
    using assms by (simp add: wave_levels_def ids_at_def comp_def)
  then have "concat (map wv_cards ws) =
      map (\<lambda>i. bc_id (cs ! i)) (concat (map (\<lambda>l. filter (\<lambda>i. lv ! i = l) [0..<length cs]) [0..<wave_depth lv]))"
    by (simp add: map_concat comp_def)
  moreover have "lv ! i < wave_depth lv" if "i < length cs" for i
    using that assms by (intro level_less_depth nth_mem) (simp add: wave_levels_def)
  then have "mset (concat (map (\<lambda>l. filter (\<lambda>i. lv ! i = l) [0..<length cs]) [0..<wave_depth lv])) = mset [0..<length cs]"
    by (intro mset_by_level) simp
  ultimately have "mset (concat (map wv_cards ws)) = image_mset (\<lambda>i. bc_id (cs ! i)) (mset [0..<length cs])"
    by (metis mset_map)
  also have "\<dots> = mset (map (\<lambda>i. bc_id (cs ! i)) [0..<length cs])" by (rule mset_map [symmetric])
  also have "map (\<lambda>i. bc_id (cs ! i)) [0..<length cs] = map bc_id cs" by (simp add: map_equality_iff)
  finally show ?thesis .
qed

text \<open>
  C34: the waves are the topological levels. On a board that passes the dependency check
  the waves are numbered in order, none is empty, together they hold every card exactly
  once, every dependency of a card lies in an earlier wave, and a card outside the first
  wave has a dependency in the wave just before: it sits one level below its deepest
  dependency.
\<close>

theorem waves_are_levels:
  assumes "validate_dependencies b = Inr ()"
  shows "\<exists>ws. derive_waves b = Inr ws \<and> map wv_index ws = [0..<length ws] \<and> [] \<notin> set (map wv_cards ws) \<and>
    mset (concat (map wv_cards ws)) = mset (map bc_id (cards b)) \<and>
    (\<forall>c \<in> set (cards b). \<forall>l < length ws. bc_id c \<in> set (wv_cards (ws ! l)) \<longrightarrow>
       (\<forall>d \<in> set (depends_on c). \<exists>k < l. d \<in> set (wv_cards (ws ! k))) \<and>
       (0 < l \<longrightarrow> (\<exists>d \<in> set (depends_on c). d \<in> set (wv_cards (ws ! (l - 1))))))"
proof -
  let ?cs = "cards b"
  obtain lv ws where run: "derive_waves b = Inr ws" and lev: "wave_levels ?cs lv ws" by (rule derive_waves_levels [OF assms])
  from lev have ok: "cards_ok ?cs" and len: "length ws = wave_depth lv"
    and at: "\<And>l. l < length ws \<Longrightarrow> wv_cards (ws ! l) = ids_at lv ?cs l"
    and idx: "map wv_index ws = [0..<length ws]"
    unfolding wave_levels_def by (auto simp: comp_def)
  have dist: "distinct (map bc_id ?cs)" using ok by (simp add: cards_ok_def)
  have "ids_at lv ?cs l \<noteq> []" if "l < length ws" for l
  proof -
    from levels_inhabited [OF lev] that len obtain i where "i < length ?cs" "lv ! i = l" by metis
    with dist ids_at_mem [of ?cs i lv l] show ?thesis by auto
  qed
  then have "[] \<notin> set (map wv_cards ws)" using at by (auto simp: in_set_conv_nth) (metis at)
  moreover have "(\<forall>d \<in> set (depends_on c). \<exists>k < l. d \<in> set (wv_cards (ws ! k))) \<and>
      (0 < l \<longrightarrow> (\<exists>d \<in> set (depends_on c). d \<in> set (wv_cards (ws ! (l - 1)))))"
    if c: "c \<in> set ?cs" and l: "l < length ws" and mem: "bc_id c \<in> set (wv_cards (ws ! l))" for c l
  proof -
    obtain i where i: "i < length ?cs" "c = ?cs ! i" using c by (metis in_set_conv_nth)
    with mem l at dist have lvl: "lv ! i = l" by (simp add: ids_at_mem)
    have "\<exists>k < l. d \<in> set (wv_cards (ws ! k))" if d: "d \<in> set (depends_on c)" for d
    proof -
      from d c ok have "d \<in> bc_id ` set ?cs" unfolding cards_ok_def by blast
      then obtain j where j: "j < length ?cs" "d = bc_id (?cs ! j)" by (metis image_iff in_set_conv_nth)
      with d i have "lv ! j < lv ! i" by (intro level_above_dep [OF lev]) (simp_all add: deps_index_def)
      with j lvl l dist at [of "lv ! j"] show ?thesis by (intro exI [of _ "lv ! j"]) (simp add: ids_at_mem)
    qed
    moreover have "\<exists>d \<in> set (depends_on c). d \<in> set (wv_cards (ws ! (l - 1)))" if pos: "0 < l"
    proof -
      obtain j where "j \<in> deps_index ?cs i" "Suc (lv ! j) = lv ! i"
        using level_deepest_dep [OF lev i(1)] lvl pos by blast
      with lvl l i dist at [of "l - 1"] show ?thesis
        by (intro bexI [of _ "bc_id (?cs ! j)"]) (auto simp: deps_index_def ids_at_mem)
    qed
    ultimately show ?thesis by blast
  qed
  ultimately show ?thesis using run idx mset_waves [OF lev] by blast
qed

definition diamond_board :: "unit task_board" where
  "diamond_board = sample_board [(''a'', ''done'', []), (''b'', ''planned'', [''a'']), (''c'', ''planned'', [''a'']),
     (''d'', ''planned'', [''b'', ''c''])]"

theorem waves_are_levels_witness:
  "\<exists>ws. derive_waves diamond_board = Inr ws \<and> map wv_index ws = [0..<length ws] \<and>
     map wv_cards ws = [[''a''], [''b'', ''c''], [''d'']]"
proof -
  have "validate_dependencies diamond_board = Inr ()" by code_simp
  from waves_are_levels [OF this] obtain ws where "derive_waves diamond_board = Inr ws" "map wv_index ws = [0..<length ws]"
    by blast
  moreover have "(case derive_waves diamond_board of Inl _ \<Rightarrow> [] | Inr ws \<Rightarrow> map wv_cards ws) = [[''a''], [''b'', ''c''], [''d'']]"
    by code_simp
  ultimately show ?thesis by auto
qed

end
