(* ===== verification/Waves_Groups.thy ===== *)
theory Waves_Groups
  imports Waves_Schedule
begin

text \<open>
  Submission groups: the cards of a schedule are submitted group by group, and two cards
  that are known to touch the same file never share a group.
\<close>

section \<open>Grouping by key\<close>

definition groups_inv :: "(string, nat \<times> nat) amap \<Rightarrow> string list \<Rightarrow> string list list \<times> (nat \<times> nat) option \<Rightarrow> bool" where
  "groups_inv table ids acc \<longleftrightarrow> concat (fst acc) = ids \<and> [] \<notin> set (fst acc) \<and>
     (\<forall>g \<in> set (fst acc). \<exists>key. \<forall>i \<in> set g. map_of table i = key) \<and>
     (fst acc \<noteq> [] \<longrightarrow> (\<forall>i \<in> set (last (fst acc)). map_of table i = snd acc))"

lemma groups_inv_step:
  assumes "groups_inv table ids acc"
  shows "groups_inv table (ids @ [i]) (group_card table acc i)"
proof -
  obtain groups current where acc: "acc = (groups, current)" by fastforce
  show ?thesis
  proof (cases "groups \<noteq> [] \<and> (map_of table i \<noteq> None \<and> current = map_of table i \<or> map_of table i = None \<and> current = None)")
    case True
    then have key: "current = map_of table i" by auto
    from True obtain gs g where g: "groups = gs @ [g]" by (cases groups rule: rev_cases) auto
    have step: "group_card table acc i = (gs @ [g @ [i]], current)"
      using True by (simp only: acc group_card_def Let_def prod.case if_True) (simp add: g)
    from assms have inv: "concat gs @ g = ids" "[] \<notin> set gs"
      "\<forall>h \<in> set gs. \<exists>key. \<forall>i \<in> set h. map_of table i = key" "\<forall>j \<in> set g. map_of table j = current"
      by (simp_all add: groups_inv_def acc g)
    have "\<forall>j \<in> set (g @ [i]). map_of table j = current" using inv(4) key by simp
    with inv step show ?thesis by (auto simp: groups_inv_def)
  next
    case False
    then have "group_card table acc i = (groups @ [[i]], map_of table i)" by (simp only: acc group_card_def Let_def prod.case if_False)
    with assms show ?thesis by (auto simp: groups_inv_def acc)
  qed
qed

lemma submission_groups_inv:
  "concat (submission_groups s) = dispatch s" "[] \<notin> set (submission_groups s)"
  "\<And>g i j. g \<in> set (submission_groups s) \<Longrightarrow> i \<in> set g \<Longrightarrow> j \<in> set g \<Longrightarrow>
     map_of (rank_table (ws_lanes s)) i = map_of (rank_table (ws_lanes s)) j"
proof -
  let ?t = "rank_table (ws_lanes s)"
  have "groups_inv ?t ids (foldl (group_card ?t) ([], None) ids)" for ids
    by (induction ids rule: rev_induct) (simp add: groups_inv_def, simp add: groups_inv_step)
  from this [of "dispatch s"]
  show "concat (submission_groups s) = dispatch s" "[] \<notin> set (submission_groups s)"
    "\<And>g i j. g \<in> set (submission_groups s) \<Longrightarrow> i \<in> set g \<Longrightarrow> j \<in> set g \<Longrightarrow> map_of ?t i = map_of ?t j"
    unfolding groups_inv_def submission_groups_def by metis+
qed

section \<open>Ranks of a schedule\<close>

lemma fold_by_wave:
  "map_of (foldl (\<lambda>m st. AList.update (so_wave st) (get_or [] (map_of m (so_wave st)) @ [so_card_id st]) m) [] sts) w =
     (let ids = map so_card_id (filter (\<lambda>st. so_wave st = w) sts) in if ids = [] then None else Some ids)"
  by (induction sts rule: rev_induct) (auto simp: alist_simps Let_def filter_empty_conv)

lemma fold_by_wave_wf:
  "amap_wf (foldl (\<lambda>m st. AList.update (so_wave st) (get_or [] (map_of m (so_wave st)) @ [so_card_id st]) m) [] sts)"
  by (induction sts rule: rev_induct) simp_all

lemma set_order_dispatch_by_wave:
  "set (order_dispatch_by_wave os inp) =
     (\<lambda>w. order_wave w (map so_card_id (filter (\<lambda>st. so_wave st = w) (dispatched_stages os))) inp) `
       so_wave ` set (dispatched_stages os)" (is "_ = ?g ` _")
proof -
  let ?m = "foldl (\<lambda>m st. AList.update (so_wave st) (get_or [] (map_of m (so_wave st)) @ [so_card_id st]) m) []
    (dispatched_stages os)"
  let ?ids = "\<lambda>w. map so_card_id (filter (\<lambda>st. so_wave st = w) (dispatched_stages os))"
  have mem: "(w, ids) \<in> set ?m \<longleftrightarrow> ids = ?ids w \<and> w \<in> so_wave ` set (dispatched_stages os)" for w ids
    unfolding amap_mem_iff [OF fold_by_wave_wf] fold_by_wave Let_def by (auto simp: filter_empty_conv image_iff)
  have "set (order_dispatch_by_wave os inp) = (\<lambda>(w, ids). order_wave w ids inp) ` set ?m"
    by (simp add: order_dispatch_by_wave_def)
  also have "set ?m = (\<lambda>w. (w, ?ids w)) ` so_wave ` set (dispatched_stages os)"
    using mem by (auto simp del: foldl_Cons)
  also have "(\<lambda>(w, ids). order_wave w ids inp) ` \<dots> = ?g ` so_wave ` set (dispatched_stages os)"
    by (simp add: image_image)
  finally show ?thesis .
qed

lemma fold_ranks_wf: "amap_wf (foldl (\<lambda>m c. AList.update (oc_card_id c) (oc_rank c) m) [] cs)"
  by (induction cs rule: rev_induct) simp_all

lemma map_of_ranks:
  "map_of (ranks wo) i = Some r \<Longrightarrow> \<exists>c \<in> set (wo_cards wo). oc_card_id c = i \<and> oc_rank c = r"
  "c \<in> set (wo_cards wo) \<Longrightarrow> map_of (ranks wo) (oc_card_id c) \<noteq> None"
proof -
  have "(map_of (foldl (\<lambda>m c. AList.update (oc_card_id c) (oc_rank c) m) [] cs) i = Some r \<longrightarrow>
      (\<exists>c \<in> set cs. oc_card_id c = i \<and> oc_rank c = r)) \<and>
      (\<forall>c \<in> set cs. map_of (foldl (\<lambda>m c. AList.update (oc_card_id c) (oc_rank c) m) [] cs) (oc_card_id c) \<noteq> None)" for cs
    by (induction cs rule: rev_induct) (auto simp: alist_simps)
  from this [of "wo_cards wo"]
  show "map_of (ranks wo) i = Some r \<Longrightarrow> \<exists>c \<in> set (wo_cards wo). oc_card_id c = i \<and> oc_rank c = r"
    "c \<in> set (wo_cards wo) \<Longrightarrow> map_of (ranks wo) (oc_card_id c) \<noteq> None"
    by (auto simp: ranks_def)
qed

lemma merged_ranks_Some:
  assumes "map_of (merged_ranks orders) i = Some r"
  shows "\<exists>wo \<in> set orders. \<exists>c \<in> set (wo_cards wo). oc_card_id c = i \<and> oc_rank c = r"
proof -
  let ?kvs = "concat (map (\<lambda>wo. btree_iter (ranks wo)) orders)"
  from assms have "map_of (rev ?kvs) i = Some r" by (simp add: merged_ranks_def map_of_fold_update split: option.splits)
  then have "(i, r) \<in> set ?kvs" by (auto dest: map_of_SomeD)
  then obtain wo where wo: "wo \<in> set orders" "(i, r) \<in> set (ranks wo)" by auto
  have "map_of (ranks wo) i = Some r" using wo(2) amap_mem_iff [OF fold_ranks_wf] unfolding ranks_def by blast
  with wo(1) map_of_ranks(1) show ?thesis by blast
qed

lemma merged_ranks_covers:
  assumes "wo \<in> set orders" "c \<in> set (wo_cards wo)"
  shows "map_of (merged_ranks orders) (oc_card_id c) \<noteq> None"
proof -
  let ?kvs = "concat (map (\<lambda>wo. btree_iter (ranks wo)) orders)"
  from map_of_ranks(2) [OF assms(2)] obtain r where "(oc_card_id c, r) \<in> set (ranks wo)" by (auto dest: map_of_SomeD)
  with assms(1) have "(oc_card_id c, r) \<in> set ?kvs" by auto
  then have "\<exists>r'. map_of (rev ?kvs) (oc_card_id c) = Some r'" by (intro weak_map_of_SomeI) (simp only: set_rev)
  then show ?thesis by (auto simp: merged_ranks_def map_of_fold_update split: option.splits)
qed

section \<open>Groups and overlap\<close>

text \<open>The stages of the finished lanes are the stages of the outcomes, with the ranks stamped on them.\<close>

lemma set_stages: "set (concat (map lo_stages os)) = {stage_at os p |p. valid_place os p}"
  by (force simp: valid_place_def stage_at_def in_set_conv_nth)

lemma close_lane_stages: "map lo_stages (map close_lane os) = map lo_stages os"
  by (simp add: close_lane_def)

lemma throttle_stages:
  assumes "set order \<subseteq> set (dispatch_places os)" "distinct order"
  shows "(\<lambda>st. (so_card_id st, so_wave st, so_serial_rank st)) ` set (concat (map lo_stages (throttle_wave_width os order width))) =
    (\<lambda>st. (so_card_id st, so_wave st, so_serial_rank st)) ` set (concat (map lo_stages os))"
proof -
  let ?d = "NotRun (''wave width limit of '' @ show_nat width @ '' card(s) per submission was reached'')"
  have "\<And>p. p \<in> set (drop width order) \<Longrightarrow> valid_place os p"
    using assms(1) set_drop_subset [of width order] by (fastforce simp: set_dispatch_places)
  from fold_set_decision [OF this, where d = ?d]
  have "valid_place (throttle_wave_width os order width) p \<longleftrightarrow> valid_place os p" for p
    unfolding throttle_wave_width_def by blast
  with dispatch_take [OF assms, of width] show ?thesis
    unfolding set_stages by (auto simp: image_iff) metis+
qed

lemma rank_table_Some:
  "map_of (rank_table lanes) i = Some (w, r) \<Longrightarrow>
     (i, w, Some r) \<in> (\<lambda>st. (so_card_id st, so_wave st, so_serial_rank st)) ` set (concat (map lo_stages lanes))"
  unfolding rank_table_def map_of_fold_update
  by (force simp: image_iff map_filter_def dest!: map_of_SomeD split: option.splits)

lemma rank_table_covers:
  assumes "(i, w, Some r) \<in> (\<lambda>st. (so_card_id st, so_wave st, so_serial_rank st)) ` set (concat (map lo_stages lanes))"
  shows "map_of (rank_table lanes) i \<noteq> None"
proof -
  let ?kvs = "List.map_filter (\<lambda>st. map_option (\<lambda>rank. (so_card_id st, so_wave st, rank)) (so_serial_rank st))
    (concat (map lo_stages lanes))"
  from assms obtain st where st: "(i, w, Some r) = (so_card_id st, so_wave st, so_serial_rank st)"
    "st \<in> set (concat (map lo_stages lanes))" by (rule imageE)
  have "map_option (\<lambda>rank. (so_card_id st, so_wave st, rank)) (so_serial_rank st) = Some (i, w, r)"
    using st(1) by (cases "so_serial_rank st") simp_all
  with st(2) have "(i, w, r) \<in> set ?kvs" by (force simp: map_filter_def)
  then have "\<exists>v. map_of (rev ?kvs) i = Some v" by (intro weak_map_of_SomeI) (simp only: set_rev)
  then show ?thesis unfolding rank_table_def by (auto simp: map_of_fold_update split: option.splits)
qed

lemma map_of_rank_table_same:
  assumes "(\<lambda>st. (so_card_id st, so_wave st, so_serial_rank st)) ` set (concat (map lo_stages lanes)) = R"
  shows "map_of (rank_table lanes) i = Some (w, r) \<Longrightarrow> (i, w, Some r) \<in> R"
    "(i, w, Some r) \<in> R \<Longrightarrow> map_of (rank_table lanes) i \<noteq> None"
  using rank_table_Some rank_table_covers assms by blast+

lemma set_dispatched_stages: "set (dispatched_stages os) = stage_at os ` set (dispatch_places os)"
  by (metis map_stage_at_places set_map)

text \<open>The ranks of a schedule planned with overlap: what the rank table holds for its cards.\<close>

lemma schedule_ranks:
  fixes lanes :: "lane list"
  assumes s: "s = schedule_of b lanes limits (Some inp) ws" and inp: "\<not> overlap_inputs_is_empty inp"
    and some: "dispatched_stages (base_outcomes b lanes ws) \<noteq> []"
  defines "orders \<equiv> order_dispatch_by_wave (base_outcomes b lanes ws) inp"
  shows "(\<lambda>st. (so_card_id st, so_wave st, so_serial_rank st)) ` set (concat (map lo_stages (ws_lanes s))) =
    (\<lambda>st. (so_card_id st, so_wave st, map_of (merged_ranks orders) (so_card_id st))) `
      set (concat (map lo_stages (base_outcomes b lanes ws)))"
proof -
  let ?os = "base_outcomes b lanes ws"
  let ?stamp = "\<lambda>lo. lo\<lparr>lo_stages := map (\<lambda>st. st\<lparr>so_serial_rank := map_of (merged_ranks orders) (so_card_id st)\<rparr>) (lo_stages lo)\<rparr>"
  have "orders \<noteq> []" using set_order_dispatch_by_wave [of ?os inp] some by (auto simp: orders_def)
  then have st: "stamp_ranks ?os orders = (map ?stamp ?os, Some (merged_ranks orders))"
    by (simp add: stamp_ranks_def Let_def)
  define order where "order = dispatch_order (map ?stamp ?os) (Some (merged_ranks orders))"
  have "ws_lanes s = map close_lane (throttle_wave_width (map ?stamp ?os) order (max_wave_width limits))"
    using st inp unfolding s schedule_of_def Let_def base_outcomes_def [symmetric] orders_def order_def
    by (simp add: split_def)
  moreover have "mset order = mset (dispatch_places (map ?stamp ?os))" by (simp only: order_def mset_dispatch_order)
  then have "set order \<subseteq> set (dispatch_places (map ?stamp ?os))" "distinct order"
    using distinct_dispatch_places mset_eq_imp_distinct_iff by (auto dest: mset_eq_setD)
  from throttle_stages [OF this, of "max_wave_width limits"]
  have "(\<lambda>st. (so_card_id st, so_wave st, so_serial_rank st)) `
      set (concat (map lo_stages (throttle_wave_width (map ?stamp ?os) order (max_wave_width limits)))) =
    (\<lambda>st. (so_card_id st, so_wave st, map_of (merged_ranks orders) (so_card_id st))) ` set (concat (map lo_stages ?os))"
    by (simp add: map_concat [symmetric] comp_def image_image image_UN)
  ultimately show ?thesis by (simp only: close_lane_stages)
qed

lemma order_wave_ids: "oc_card_id ` set (wo_cards (order_wave w ids inp)) = set ids"
  using place_cards_ids [of inp "[]" ids] order_wave_placed(1) [of w ids inp]
  by (metis append_Nil list.set_map list.simps(8))

lemma ranks_separate:
  fixes os :: "lane_outcome list" and inp :: overlap_inputs
  assumes dist: "distinct (map so_card_id (concat (map lo_stages os)))"
    and st: "st \<in> set (concat (map lo_stages os))" "st' \<in> set (concat (map lo_stages os))"
    and wave: "so_wave st' = so_wave st" and ov: "overlaps_with inp (so_card_id st) (so_card_id st')"
    and ne: "so_card_id st \<noteq> so_card_id st'"
    and rk: "map_of (merged_ranks (order_dispatch_by_wave os inp)) (so_card_id st) = Some r"
  shows "map_of (merged_ranks (order_dispatch_by_wave os inp)) (so_card_id st') \<noteq> Some r"
proof
  let ?ids = "\<lambda>w. map so_card_id (filter (\<lambda>st. so_wave st = w) (dispatched_stages os))"
  have find: "\<exists>c \<in> set (wo_cards (order_wave (so_wave s) (?ids (so_wave s)) inp)). oc_card_id c = so_card_id s \<and> oc_rank c = r"
    if s: "s \<in> set (concat (map lo_stages os))"
      and some: "map_of (merged_ranks (order_dispatch_by_wave os inp)) (so_card_id s) = Some r" for s
  proof -
    from merged_ranks_Some [OF some] obtain w c where
      c: "c \<in> set (wo_cards (order_wave w (?ids w) inp))" "oc_card_id c = so_card_id s" "oc_rank c = r"
      unfolding set_order_dispatch_by_wave by blast
    then have "so_card_id s \<in> set (?ids w)" by (metis imageI order_wave_ids)
    then obtain s' where "s' \<in> set (dispatched_stages os)" "so_wave s' = w" "so_card_id s' = so_card_id s" by auto
    moreover from this have "s' = s" using dist s unfolding dispatched_stages_def distinct_map inj_on_def by auto
    ultimately show ?thesis using c by blast
  qed
  assume "map_of (merged_ranks (order_dispatch_by_wave os inp)) (so_card_id st') = Some r"
  from find [OF st(2) this] obtain c' where
    c': "c' \<in> set (wo_cards (order_wave (so_wave st) (?ids (so_wave st)) inp))" "oc_card_id c' = so_card_id st'" "oc_rank c' = r"
    unfolding wave by blast
  from find [OF st(1) rk] obtain c where
    c: "c \<in> set (wo_cards (order_wave (so_wave st) (?ids (so_wave st)) inp))" "oc_card_id c = so_card_id st" "oc_rank c = r"
    by blast
  have "placed_ok inp (wo_cards (order_wave (so_wave st) (?ids (so_wave st)) inp))" by (rule order_wave_placed(3))
  then show False using c c' ov ne unfolding placed_ok_def by metis
qed

lemma dispatched_rank:
  assumes "st \<in> set (dispatched_stages os)"
  shows "\<exists>r. map_of (merged_ranks (order_dispatch_by_wave os inp)) (so_card_id st) = Some r"
proof -
  let ?ids = "map so_card_id (filter (\<lambda>s. so_wave s = so_wave st) (dispatched_stages os))"
  let ?wo = "order_wave (so_wave st) ?ids inp"
  have "?wo \<in> set (order_dispatch_by_wave os inp)" using assms unfolding set_order_dispatch_by_wave by blast
  moreover have "so_card_id st \<in> oc_card_id ` set (wo_cards ?wo)" using assms by (simp add: order_wave_ids)
  ultimately show ?thesis using merged_ranks_covers by (metis (no_types, lifting) imageE not_None_eq)
qed

lemma empty_inputs_share_nothing:
  assumes "overlap_inputs_is_empty inp"
  shows "shared (declared inp) i j = None" "shared (observed inp) i j = None"
  using assms
  by (auto simp: overlap_inputs_is_empty_def shared_def Let_def amap_values_def list_all_iff
      split: option.splits dest!: map_of_SomeD)

text \<open>
  C35: submission groups are safe to run group by group. The groups partition the submitted
  cards in their order, none is empty, and when overlap is known two different cards of a
  group never share a declared or observed file.
\<close>

theorem groups_never_overlap:
  assumes "plan_schedule_with_overlap b lanes limits (Some inp) = Inr s"
  shows "concat (submission_groups s) = dispatch s \<and> [] \<notin> set (submission_groups s) \<and>
    (\<forall>g \<in> set (submission_groups s). \<forall>i \<in> set g. \<forall>j \<in> set g. i \<noteq> j \<longrightarrow> \<not> overlaps_with inp i j)"
proof (intro conjI ballI impI submission_groups_inv(1,2))
  fix g i j assume g: "g \<in> set (submission_groups s)" "i \<in> set g" "j \<in> set g" and ne: "i \<noteq> j"
  obtain lv ws where "wave_levels (cards b) lv ws" "validate_lanes b lanes limits = Inr ()"
    and s: "s = schedule_of b lanes limits (Some inp) ws" and ids: "distinct (stage_ids lanes)"
    by (rule plan_schedule_Inr [OF assms])
  let ?os = "base_outcomes b lanes ws"
  let ?rk = "merged_ranks (order_dispatch_by_wave ?os inp)"
  let ?R = "(\<lambda>st. (so_card_id st, so_wave st, map_of ?rk (so_card_id st))) ` set (concat (map lo_stages ?os))"
  obtain order where order: "mset order = mset (dispatch_places ?os)"
    and disp: "dispatch s = map (\<lambda>p. so_card_id (stage_at ?os p)) (take (max_wave_width limits) order)"
    by (rule schedule_dispatch [OF s])
  have member: "k \<in> so_card_id ` set (dispatched_stages ?os)" if "k \<in> set g" for k
  proof -
    have "k \<in> set (dispatch s)" using that g(1) submission_groups_inv(1) [of s] by (metis UN_I set_concat)
    then obtain p where "p \<in> set (take (max_wave_width limits) order)" "k = so_card_id (stage_at ?os p)"
      by (auto simp: disp)
    then show ?thesis using order by (metis image_eqI in_set_takeD mset_eq_setD set_dispatched_stages)
  qed
  show "\<not> overlaps_with inp i j"
  proof (cases "overlap_inputs_is_empty inp")
    case True
    then show ?thesis by (auto simp: overlaps_with_def intro: empty_inputs_share_nothing)
  next
    case False
    from member [OF g(2)] have some: "dispatched_stages ?os \<noteq> []" by auto
    note table = map_of_rank_table_same [OF schedule_ranks [OF s False some]]
    from member [OF g(2)] obtain st where st: "st \<in> set (dispatched_stages ?os)" "so_card_id st = i" by auto
    from dispatched_rank [OF st(1)] obtain r where r: "map_of ?rk i = Some r" using st(2) by blast
    have "st \<in> set (concat (map lo_stages ?os))" using st(1) by (simp add: dispatched_stages_def)
    then have "(i, so_wave st, Some r) \<in> ?R" using st(2) r by force
    from table(2) [OF this] obtain w q where "map_of (rank_table (ws_lanes s)) i = Some (w, q)" by auto
    moreover from this have "map_of (rank_table (ws_lanes s)) j = Some (w, q)"
      using submission_groups_inv(3) [OF g] by simp
    ultimately have "(i, w, Some q) \<in> ?R" "(j, w, Some q) \<in> ?R" using table(1) by blast+
    then obtain si sj where stages: "si \<in> set (concat (map lo_stages ?os))" "sj \<in> set (concat (map lo_stages ?os))"
      and keys: "i = so_card_id si" "j = so_card_id sj" "so_wave si = w" "so_wave sj = w"
        "map_of ?rk (so_card_id si) = Some q" "map_of ?rk (so_card_id sj) = Some q"
      by (elim imageE) auto
    have "distinct (map so_card_id (concat (map lo_stages ?os)))" using ids by (simp only: map_card_outcomes)
    from ranks_separate [OF this stages] keys ne show ?thesis by metis
  qed
qed

definition three_schedule :: wave_schedule where
  "three_schedule = (case plan_schedule_with_overlap three_board three_lanes (three_limits 4) (Some three_inputs) of
     Inr s \<Rightarrow> s | Inl _ \<Rightarrow> \<lparr>ws_waves = [], admitted_wave = None, ws_lanes = [], dispatch = [], overlap_order = []\<rparr>)"

theorem groups_never_overlap_witness:
  "submission_groups three_schedule = [[''x'', ''z''], [''y'']] \<and> overlaps_with three_inputs ''x'' ''y'' \<and>
   concat (submission_groups three_schedule) = dispatch three_schedule"
proof -
  have ok: "(case plan_schedule_with_overlap three_board three_lanes (three_limits 4) (Some three_inputs) of
     Inl _ \<Rightarrow> False | Inr _ \<Rightarrow> True)" by code_simp
  then have "plan_schedule_with_overlap three_board three_lanes (three_limits 4) (Some three_inputs) = Inr three_schedule"
    by (auto simp: three_schedule_def split: sum.splits)
  from groups_never_overlap [OF this] have "concat (submission_groups three_schedule) = dispatch three_schedule" by blast
  moreover have "submission_groups three_schedule = [[''x'', ''z''], [''y'']]" by code_simp
  moreover have "overlaps_with three_inputs ''x'' ''y''" by code_simp
  ultimately show ?thesis by blast
qed

end
