(* ===== verification/Question.thy ===== *)
theory Question
  imports Rust_Text Retention
begin

text \<open>
  Questions between agents and to the user (\<open>refact-chat-api/src/question.rs\<close>): the
  contract of a question, its validation, and the registry in which a question is asked,
  answered, rejected, cancelled, withdrawn, defaulted or expired.

  A \<open>DateTime<Utc>\<close> is its distance from the epoch in nanoseconds, an \<open>int\<close>; dates are far
  inside the range of the type, so adding at most \<open>QUESTION_MAX_EXPIRY_SECS\<close> seconds does
  not overflow. Every method holds the lock of the table, so it is one function on the
  registry; the identifier drawn by \<open>Uuid::new_v4\<close> and the clock are arguments, and the
  clock need not be monotone. Notifications carry no data; \<open>wait\<close> is modelled by its atomic
  parts: the first lookup, one turn of its loop (\<open>observe\<close>) and the timeout branch.
\<close>

section \<open>Contracts\<close>

datatype question_kind = UserInput | AgentParent | BoardPlanner | PlanApproval | PermissionEscalation

datatype question_state = QPending | QAnswered | QDefaulted | QRejected | QCancelled | QWithdrawn | QExpired

record question_contract =
  q_id :: string
  q_kind :: question_kind
  q_asker :: string
  q_answerer :: string
  q_correlation_id :: string
  q_text :: string
  q_options :: "string list option"
  q_state :: question_state
  q_asked_at :: int
  q_expires_at :: "int option"
  q_irreversible :: bool
  q_default_answer :: "string option"
  q_answer :: "string option"
  q_answered_at :: "int option"

definition question_is_irreversible :: "question_contract \<Rightarrow> bool" where
  "question_is_irreversible q \<longleftrightarrow> q_irreversible q \<or> q_kind q = PlanApproval \<or> q_kind q = PermissionEscalation"

definition defaultable :: "question_contract \<Rightarrow> string option" where
  "defaultable q = (if question_is_irreversible q then None else q_default_answer q)"

definition answered_text :: "question_contract \<Rightarrow> string option" where
  "answered_text q = (if q_state q = QAnswered then q_answer q else None)"

definition defaulted_text :: "question_contract \<Rightarrow> string option" where
  "defaulted_text q = (if q_state q = QDefaulted then q_answer q else None)"

definition contract_validate :: "question_contract \<Rightarrow> string + unit" where
  "contract_validate q =
     (if list_ex (\<lambda>value. trim value = []) [q_id q, q_asker q, q_answerer q, q_correlation_id q, q_text q]
      then Inl ''question identity, principals, correlation and text must be nonempty''
      else if (case q_expires_at q of None \<Rightarrow> False | Some e \<Rightarrow> e \<le> q_asked_at q)
      then Inl ''question expiry must be after creation''
      else if q_state q = QAnswered \<and> (get_or [] (q_answer q) = [] \<or> q_answered_at q = None)
      then Inl ''answered questions require answer text and timestamp''
      else if (case q_default_answer q of None \<Rightarrow> False | Some d \<Rightarrow> trim d = [])
      then Inl ''a defaultable question needs nonempty default text''
      else if q_default_answer q \<noteq> None \<and> question_is_irreversible q
      then Inl ''approvals, permission escalations and irreversible questions cannot carry a default''
      else if q_state q = QDefaulted \<and>
              (q_default_answer q = None \<or> q_answer q \<noteq> q_default_answer q \<or> q_answered_at q = None)
      then Inl ''defaulted questions require the stored default and its timestamp''
      else Inr ())"

definition contract_pending ::
  "string \<Rightarrow> question_kind \<Rightarrow> string \<Rightarrow> string \<Rightarrow> string \<Rightarrow> string \<Rightarrow> string list option \<Rightarrow> int \<Rightarrow> int option
   \<Rightarrow> string + question_contract" where
  "contract_pending qid kind asker answerer correlation txt options asked_at expires_at =
     (let q = \<lparr>q_id = qid, q_kind = kind, q_asker = asker, q_answerer = answerer, q_correlation_id = correlation,
               q_text = txt, q_options = options, q_state = QPending, q_asked_at = asked_at,
               q_expires_at = expires_at, q_irreversible = False, q_default_answer = None, q_answer = None,
               q_answered_at = None\<rparr>
      in case contract_validate q of Inl e \<Rightarrow> Inl e | Inr _ \<Rightarrow> Inr q)"

definition with_stakes :: "bool \<Rightarrow> string option \<Rightarrow> question_contract \<Rightarrow> string + question_contract" where
  "with_stakes irreversible default_answer q =
     (let q' = q\<lparr>q_irreversible := irreversible, q_default_answer := default_answer\<rparr>
      in case contract_validate q' of Inl e \<Rightarrow> Inl e | Inr _ \<Rightarrow> Inr q')"

section \<open>Limits, errors and settlements\<close>

definition question_max_expiry_limit :: nat where
  "question_max_expiry_limit = 31536000"

record question_limits =
  ql_max_pending :: nat
  ql_default_expiry_secs :: nat
  ql_max_expiry_secs :: nat

definition question_limits_default :: question_limits where
  "question_limits_default = \<lparr>ql_max_pending = 256, ql_default_expiry_secs = 1800, ql_max_expiry_secs = 604800\<rparr>"

definition question_limits_validate :: "question_limits \<Rightarrow> string + unit" where
  "question_limits_validate l =
     (if ql_max_pending l = 0 then Inl ''question max_pending must be at least 1''
      else if ql_default_expiry_secs l = 0 \<or> ql_max_expiry_secs l = 0
      then Inl ''question expiry bounds must be at least 1 second''
      else if ql_max_expiry_secs l > question_max_expiry_limit
      then Inl (''question max expiry must not exceed '' @ show_nat question_max_expiry_limit @ '' seconds'')
      else if ql_default_expiry_secs l > ql_max_expiry_secs l
      then Inl ''question default expiry must not exceed the maximum''
      else Inr ())"

datatype question_error =
    QInvalid string
  | QCapacity
  | QDuplicate
  | QNotFound
  | QNotAsker
  | QNotAnswerer
  | QAlreadyAnswered
  | QAlreadySettled question_state

primrec question_error_code :: "question_error \<Rightarrow> string" where
  "question_error_code (QInvalid r) = ''invalid_question''"
| "question_error_code QCapacity = ''question_capacity''"
| "question_error_code QDuplicate = ''duplicate_question''"
| "question_error_code QNotFound = ''question_not_found''"
| "question_error_code QNotAsker = ''not_question_asker''"
| "question_error_code QNotAnswerer = ''not_question_answerer''"
| "question_error_code QAlreadyAnswered = ''already_answered''"
| "question_error_code (QAlreadySettled st) = ''already_settled''"

primrec question_state_debug :: "question_state \<Rightarrow> string" where
  "question_state_debug QPending = ''Pending''"
| "question_state_debug QAnswered = ''Answered''"
| "question_state_debug QDefaulted = ''Defaulted''"
| "question_state_debug QRejected = ''Rejected''"
| "question_state_debug QCancelled = ''Cancelled''"
| "question_state_debug QWithdrawn = ''Withdrawn''"
| "question_state_debug QExpired = ''Expired''"

primrec question_error_display :: "question_error \<Rightarrow> string" where
  "question_error_display (QInvalid reason) = ''invalid_question: '' @ reason"
| "question_error_display QCapacity = ''question_capacity: too many pending questions''"
| "question_error_display QDuplicate = ''duplicate_question: correlation is already pending''"
| "question_error_display QNotFound = ''question_not_found''"
| "question_error_display QNotAsker = ''not_question_asker''"
| "question_error_display QNotAnswerer = ''not_question_answerer''"
| "question_error_display QAlreadyAnswered = ''already_answered''"
| "question_error_display (QAlreadySettled st) = ''already_settled: question is '' @ question_state_debug st"

datatype settlement =
    SAnswered string
  | SDefaulted string
  | SRejected
  | SCancelled
  | SWithdrawn
  | SExpired

primrec settlement_state :: "settlement \<Rightarrow> question_state" where
  "settlement_state (SAnswered a) = QAnswered"
| "settlement_state (SDefaulted d) = QDefaulted"
| "settlement_state SRejected = QRejected"
| "settlement_state SCancelled = QCancelled"
| "settlement_state SWithdrawn = QWithdrawn"
| "settlement_state SExpired = QExpired"

definition settlement_answer :: "settlement \<Rightarrow> string option" where
  "settlement_answer s = (case s of SAnswered a \<Rightarrow> Some a | _ \<Rightarrow> None)"

definition settlement_default_used :: "settlement \<Rightarrow> string option" where
  "settlement_default_used s = (case s of SDefaulted d \<Rightarrow> Some d | _ \<Rightarrow> None)"

definition settlement_is_answered :: "settlement \<Rightarrow> bool" where
  "settlement_is_answered s = (case s of SAnswered _ \<Rightarrow> True | _ \<Rightarrow> False)"

record ask_question =
  aq_id :: "string option"
  aq_kind :: question_kind
  aq_asker :: string
  aq_answerer :: string
  aq_correlation_id :: string
  aq_text :: string
  aq_options :: "string list option"
  aq_expires_in_secs :: "nat option"
  aq_irreversible :: bool
  aq_default_answer :: "string option"

definition ask_question_new :: "question_kind \<Rightarrow> string \<Rightarrow> string \<Rightarrow> string \<Rightarrow> string \<Rightarrow> ask_question" where
  "ask_question_new kind asker answerer correlation txt =
     \<lparr>aq_id = None, aq_kind = kind, aq_asker = asker, aq_answerer = answerer, aq_correlation_id = correlation,
      aq_text = txt, aq_options = None, aq_expires_in_secs = None, aq_irreversible = False, aq_default_answer = None\<rparr>"

definition ask_with_id :: "string \<Rightarrow> ask_question \<Rightarrow> ask_question" where
  "ask_with_id i request = request\<lparr>aq_id := Some i\<rparr>"

definition ask_with_options :: "string list option \<Rightarrow> ask_question \<Rightarrow> ask_question" where
  "ask_with_options options request = request\<lparr>aq_options := options\<rparr>"

definition ask_with_expiry_secs :: "nat option \<Rightarrow> ask_question \<Rightarrow> ask_question" where
  "ask_with_expiry_secs seconds request = request\<lparr>aq_expires_in_secs := seconds\<rparr>"

definition ask_irreversible :: "bool \<Rightarrow> ask_question \<Rightarrow> ask_question" where
  "ask_irreversible irreversible request = request\<lparr>aq_irreversible := irreversible\<rparr>"

definition ask_with_default_answer :: "string option \<Rightarrow> ask_question \<Rightarrow> ask_question" where
  "ask_with_default_answer default_answer request = request\<lparr>aq_default_answer := default_answer\<rparr>"

section \<open>The registry\<close>

type_synonym question_table = "(string, question_contract) amap"

record question_registry =
  qr_entries :: question_table
  qr_limits :: question_limits

definition question_registry_new :: "question_limits \<Rightarrow> string + question_registry" where
  "question_registry_new limits =
     (case question_limits_validate limits of
        Inl e \<Rightarrow> Inl e
      | Inr _ \<Rightarrow> Inr \<lparr>qr_entries = [], qr_limits = limits\<rparr>)"

definition expire_question :: "int \<Rightarrow> question_contract \<Rightarrow> question_contract" where
  "expire_question now q =
     (if q_state q \<noteq> QPending \<or> \<not> (case q_expires_at q of None \<Rightarrow> False | Some e \<Rightarrow> e \<le> now) then q
      else case defaultable q of
             Some d \<Rightarrow> q\<lparr>q_state := QDefaulted, q_answer := Some d, q_answered_at := Some now\<rparr>
           | None \<Rightarrow> q\<lparr>q_state := QExpired\<rparr>)"

definition expire_questions :: "int \<Rightarrow> question_table \<Rightarrow> question_table" where
  "expire_questions now m = map (\<lambda>(k, q). (k, expire_question now q)) m"

definition pending_count :: "question_table \<Rightarrow> nat" where
  "pending_count m = length (filter (\<lambda>q. q_state q = QPending) (amap_values m))"

definition prune_questions :: "question_limits \<Rightarrow> question_table \<Rightarrow> question_table" where
  "prune_questions limits m =
     (let settled = map (\<lambda>q. (q_asked_at q, q_id q)) (filter (\<lambda>q. q_state q \<noteq> QPending) (amap_values m));
          excess = sat_sub (length settled) (ql_max_pending limits)
      in if excess = 0 then m else foldl (\<lambda>m (_, k). AList.delete k m) m (take excess (sort settled)))"

definition sorted_questions :: "question_contract list \<Rightarrow> question_contract list" where
  "sorted_questions qs = sort_key (\<lambda>q. (q_asked_at q, q_id q)) qs"

definition settlement_of :: "question_contract \<Rightarrow> settlement option" where
  "settlement_of q =
     (case q_state q of
        QPending \<Rightarrow> None
      | QAnswered \<Rightarrow> Some (SAnswered (get_or [] (q_answer q)))
      | QDefaulted \<Rightarrow> Some (SDefaulted (get_or [] (q_answer q)))
      | QRejected \<Rightarrow> Some SRejected
      | QCancelled \<Rightarrow> Some SCancelled
      | QWithdrawn \<Rightarrow> Some SWithdrawn
      | QExpired \<Rightarrow> Some SExpired)"

definition register_question ::
  "question_contract \<Rightarrow> int \<Rightarrow> question_registry \<Rightarrow> question_registry \<times> (question_error + unit)" where
  "register_question q now r =
     (case contract_validate q of
        Inl reason \<Rightarrow> (r, Inl (QInvalid reason))
      | Inr _ \<Rightarrow>
          (let m = expire_questions now (qr_entries r); r1 = r\<lparr>qr_entries := m\<rparr> in
           if map_of m (q_id q) \<noteq> None then (r1, Inl QDuplicate)
           else if q_state q = QPending \<and>
                   list_ex (\<lambda>e. q_state e = QPending \<and> q_correlation_id e = q_correlation_id q) (amap_values m)
           then (r1, Inl QDuplicate)
           else if q_state q = QPending \<and> pending_count m \<ge> ql_max_pending (qr_limits r) then (r1, Inl QCapacity)
           else (r\<lparr>qr_entries := prune_questions (qr_limits r) (AList.update (q_id q) q m)\<rparr>, Inr ())))"

definition nanos :: "nat \<Rightarrow> int" where
  "nanos secs = int secs * 1000000000"

definition ask ::
  "string \<Rightarrow> ask_question \<Rightarrow> int \<Rightarrow> question_registry \<Rightarrow> question_registry \<times> (question_error + question_contract)" where
  "ask fresh_id request now r =
     (let seconds = get_or (ql_default_expiry_secs (qr_limits r)) (aq_expires_in_secs request) in
      if seconds = 0 \<or> seconds > ql_max_expiry_secs (qr_limits r)
      then (r, Inl (QInvalid (''question expiry must be between 1 and '' @
              show_nat (ql_max_expiry_secs (qr_limits r)) @ '' seconds, got '' @ show_nat seconds)))
      else case contract_pending (get_or fresh_id (aq_id request)) (aq_kind request) (aq_asker request)
                  (aq_answerer request) (aq_correlation_id request) (aq_text request) (aq_options request)
                  now (Some (now + nanos seconds)) of
             Inl e \<Rightarrow> (r, Inl (QInvalid e))
           | Inr q0 \<Rightarrow>
               (case with_stakes (aq_irreversible request) (aq_default_answer request) q0 of
                  Inl e \<Rightarrow> (r, Inl (QInvalid e))
                | Inr q \<Rightarrow>
                    (case register_question q now r of
                       (r1, Inl e) \<Rightarrow> (r1, Inl e)
                     | (r1, Inr _) \<Rightarrow> (r1, Inr q))))"

definition get_question :: "string \<Rightarrow> question_registry \<Rightarrow> question_contract option" where
  "get_question i r = map_of (qr_entries r) i"

definition list_questions ::
  "question_kind option \<Rightarrow> int \<Rightarrow> question_registry \<Rightarrow> question_registry \<times> question_contract list" where
  "list_questions kind now r =
     (let m = expire_questions now (qr_entries r)
      in (r\<lparr>qr_entries := m\<rparr>,
          sorted_questions (filter (\<lambda>q. case kind of None \<Rightarrow> True | Some k \<Rightarrow> q_kind q = k) (amap_values m))))"

definition pending_for_asker ::
  "string \<Rightarrow> int \<Rightarrow> question_registry \<Rightarrow> question_registry \<times> question_contract list" where
  "pending_for_asker asker now r =
     (let m = expire_questions now (qr_entries r)
      in (r\<lparr>qr_entries := m\<rparr>,
          sorted_questions (filter (\<lambda>q. q_state q = QPending \<and> q_asker q = asker) (amap_values m))))"

definition settle_question ::
  "string \<Rightarrow> string \<Rightarrow> bool \<Rightarrow> question_state \<Rightarrow> string option \<Rightarrow> int \<Rightarrow> question_registry
   \<Rightarrow> question_registry \<times> (question_error + question_contract)" where
  "settle_question i who require_asker target answer now r =
     (let m = expire_questions now (qr_entries r); r1 = r\<lparr>qr_entries := m\<rparr> in
      case map_of m i of
        None \<Rightarrow> (r1, Inl QNotFound)
      | Some q \<Rightarrow>
          if (if require_asker then q_asker q else q_answerer q) \<noteq> who
          then (r1, Inl (if require_asker then QNotAsker else QNotAnswerer))
          else (case q_state q of
                  QPending \<Rightarrow>
                    let q' = (if target = QAnswered
                              then q\<lparr>q_state := target, q_answer := answer, q_answered_at := Some now\<rparr>
                              else q\<lparr>q_state := target\<rparr>)
                    in (r1\<lparr>qr_entries := AList.update i q' m\<rparr>, Inr q')
                | QAnswered \<Rightarrow> (r1, Inl QAlreadyAnswered)
                | other \<Rightarrow> (r1, Inl (QAlreadySettled other))))"

definition answer_question ::
  "string \<Rightarrow> string \<Rightarrow> string \<Rightarrow> int \<Rightarrow> question_registry \<Rightarrow> question_registry \<times> (question_error + question_contract)" where
  "answer_question i answerer answer now r =
     (if trim answer = [] then (r, Inl (QInvalid ''answer text must be nonempty''))
      else settle_question i answerer False QAnswered (Some answer) now r)"

definition reject_question ::
  "string \<Rightarrow> string \<Rightarrow> int \<Rightarrow> question_registry \<Rightarrow> question_registry \<times> (question_error + question_contract)" where
  "reject_question i answerer now r = settle_question i answerer False QRejected None now r"

definition cancel_question ::
  "string \<Rightarrow> string \<Rightarrow> int \<Rightarrow> question_registry \<Rightarrow> question_registry \<times> (question_error + question_contract)" where
  "cancel_question i asker now r = settle_question i asker True QCancelled None now r"

definition withdraw_question ::
  "string \<Rightarrow> string \<Rightarrow> int \<Rightarrow> question_registry \<Rightarrow> question_registry \<times> (question_error + question_contract)" where
  "withdraw_question i asker now r = settle_question i asker True QWithdrawn None now r"

definition expire_registry :: "int \<Rightarrow> question_registry \<Rightarrow> question_registry" where
  "expire_registry now r = r\<lparr>qr_entries := prune_questions (qr_limits r) (expire_questions now (qr_entries r))\<rparr>"

definition question_settlement :: "string \<Rightarrow> int \<Rightarrow> question_registry \<Rightarrow> question_registry \<times> settlement option" where
  "question_settlement i now r =
     (let m = expire_questions now (qr_entries r)
      in (r\<lparr>qr_entries := m\<rparr>, Option.bind (map_of m i) settlement_of))"

definition observe ::
  "string \<Rightarrow> question_contract \<Rightarrow> int \<Rightarrow> question_registry \<Rightarrow> question_registry \<times> settlement option" where
  "observe i snap now r =
     (let m = expire_questions now (qr_entries r)
      in (r\<lparr>qr_entries := m\<rparr>,
          case map_of m i of
            Some q \<Rightarrow> if q_correlation_id q = q_correlation_id snap \<and> q_asked_at q = q_asked_at snap
                      then settlement_of q else Some SExpired
          | None \<Rightarrow> Some SExpired))"

text \<open>\<open>wait\<close>: the first lookup, and its answer when the question's own deadline fires.\<close>

definition wait_snapshot :: "string \<Rightarrow> question_registry \<Rightarrow> question_error + question_contract" where
  "wait_snapshot i r = (case map_of (qr_entries r) i of None \<Rightarrow> Inl QNotFound | Some q \<Rightarrow> Inr q)"

definition wait_deadline ::
  "string \<Rightarrow> question_contract \<Rightarrow> int \<Rightarrow> question_registry \<Rightarrow> question_registry \<times> settlement" where
  "wait_deadline i snap current r =
     (case observe i snap (get_or current (q_expires_at snap)) r of
        (r1, Some s) \<Rightarrow> (r1, s)
      | (r1, None) \<Rightarrow> (r1, SExpired))"

definition question_snapshot :: "question_registry \<Rightarrow> question_contract list" where
  "question_snapshot r = sorted_questions (amap_values (qr_entries r))"

fun restore_questions :: "question_contract list \<Rightarrow> int \<Rightarrow> question_registry \<Rightarrow> question_registry \<times> nat" where
  "restore_questions [] now r = (r, 0)"
| "restore_questions (q # qs) now r =
     (case register_question q now r of
        (r1, Inl _) \<Rightarrow> restore_questions qs now r1
      | (r1, Inr _) \<Rightarrow> (case restore_questions qs now r1 of (r2, n) \<Rightarrow> (r2, n + 1)))"

definition questions_len :: "question_registry \<Rightarrow> nat" where
  "questions_len r = length (qr_entries r)"

definition questions_is_empty :: "question_registry \<Rightarrow> bool" where
  "questions_is_empty r \<longleftrightarrow> qr_entries r = []"

section \<open>Runs of the registry\<close>

datatype question_op =
    AskOp string ask_question int
  | RegisterOp question_contract int
  | ListOp "question_kind option" int
  | PendingForOp string int
  | AnswerOp string string string int
  | RejectOp string string int
  | CancelOp string string int
  | WithdrawOp string string int
  | ExpireOp int
  | SettlementOp string int
  | ObserveOp string question_contract int
  | RestoreOp "question_contract list" int

fun question_step :: "question_registry \<Rightarrow> question_op \<Rightarrow> question_registry" where
  "question_step r (AskOp fresh_id request now) = fst (ask fresh_id request now r)"
| "question_step r (RegisterOp q now) = fst (register_question q now r)"
| "question_step r (ListOp kind now) = fst (list_questions kind now r)"
| "question_step r (PendingForOp asker now) = fst (pending_for_asker asker now r)"
| "question_step r (AnswerOp i who txt now) = fst (answer_question i who txt now r)"
| "question_step r (RejectOp i who now) = fst (reject_question i who now r)"
| "question_step r (CancelOp i who now) = fst (cancel_question i who now r)"
| "question_step r (WithdrawOp i who now) = fst (withdraw_question i who now r)"
| "question_step r (ExpireOp now) = expire_registry now r"
| "question_step r (SettlementOp i now) = fst (question_settlement i now r)"
| "question_step r (ObserveOp i snap now) = fst (observe i snap now r)"
| "question_step r (RestoreOp qs now) = fst (restore_questions qs now r)"

end
