(* ===== verification/Question_Properties.thy ===== *)
theory Question_Properties
  imports Question
begin

text \<open>
  What the question registry guarantees: its table is well formed and bounded, a settled
  question never changes, an answer is the consent of the answerer given in time, a default
  is applied only where one was offered for something reversible, a wait ends, and a
  snapshot restores the table.
\<close>

abbreviation settled :: "question_contract \<Rightarrow> bool" where
  "settled q \<equiv> q_state q \<noteq> QPending"

abbreviation overdue :: "int \<Rightarrow> question_contract \<Rightarrow> bool" where
  "overdue now q \<equiv> (case q_expires_at q of None \<Rightarrow> False | Some e \<Rightarrow> e \<le> now)"

section \<open>Expiry and pruning\<close>

lemma map_of_expire_questions [alist_simps]:
  "map_of (expire_questions now m) k = map_option (expire_question now) (map_of m k)"
  by (induction m) (auto simp: expire_questions_def)

lemma expire_questions_keys [simp]: "map fst (expire_questions now m) = map fst m"
  by (induction m) (auto simp: expire_questions_def)

lemma length_expire_questions [simp]: "length (expire_questions now m) = length m"
  by (simp add: expire_questions_def)

lemma expire_question_settled [simp]: "settled q \<Longrightarrow> expire_question now q = q"
  by (simp add: expire_question_def)

lemma expire_question_pending_iff: "q_state (expire_question now q) = QPending \<longleftrightarrow> q_state q = QPending \<and> \<not> overdue now q"
  by (auto simp: expire_question_def split: option.splits)

lemma expire_question_pending: "q_state (expire_question now q) = QPending \<Longrightarrow> expire_question now q = q"
  by (auto simp: expire_question_def split: option.splits if_splits)

lemma expire_question_idem [simp]: "expire_question now (expire_question now q) = expire_question now q"
  by (cases "settled (expire_question now q)") (auto simp: expire_question_pending)

lemma expire_question_frame [simp]:
  "q_id (expire_question now q) = q_id q" "q_asker (expire_question now q) = q_asker q"
  "q_answerer (expire_question now q) = q_answerer q" "q_correlation_id (expire_question now q) = q_correlation_id q"
  "q_asked_at (expire_question now q) = q_asked_at q" "q_kind (expire_question now q) = q_kind q"
  by (simp_all add: expire_question_def split: option.splits)

lemma expire_question_answered [simp]: "q_state (expire_question now q) = QAnswered \<longleftrightarrow> q_state q = QAnswered"
  by (auto simp: expire_question_def split: option.splits)

lemma pending_count_amap: "pending_count m = amap_count (\<lambda>q. q_state q = QPending) m"
  by (simp add: pending_count_def amap_count_def)

section \<open>Well-formed contracts\<close>

definition contract_ok :: "question_contract \<Rightarrow> bool" where
  "contract_ok q \<longleftrightarrow>
     list_all (\<lambda>s. trim s \<noteq> []) [q_id q, q_asker q, q_answerer q, q_correlation_id q, q_text q] \<and>
     (\<forall>e. q_expires_at q = Some e \<longrightarrow> q_asked_at q < e) \<and>
     (q_state q = QAnswered \<longrightarrow> get_or [] (q_answer q) \<noteq> [] \<and> q_answered_at q \<noteq> None) \<and>
     (\<forall>d. q_default_answer q = Some d \<longrightarrow> trim d \<noteq> [] \<and> \<not> question_is_irreversible q) \<and>
     (q_state q = QDefaulted \<longrightarrow>
        q_default_answer q \<noteq> None \<and> q_answer q = q_default_answer q \<and> q_answered_at q \<noteq> None)"

lemma contract_validate_ok: "contract_validate q = Inr u \<longleftrightarrow> contract_ok q"
  by (auto simp: contract_validate_def contract_ok_def split: option.splits)

lemma contract_ok_expire: "contract_ok q \<Longrightarrow> contract_ok (expire_question now q)"
  by (auto simp: expire_question_def contract_ok_def defaultable_def question_is_irreversible_def split: option.splits)

section \<open>The invariant\<close>

definition questions_inv :: "question_limits \<Rightarrow> question_registry \<Rightarrow> bool" where
  "questions_inv l r \<longleftrightarrow>
     amap_wf (qr_entries r) \<and> qr_limits r = l \<and>
     (\<forall>k q. map_of (qr_entries r) k = Some q \<longrightarrow> q_id q = k \<and> contract_ok q) \<and>
     (\<forall>k k' q q'. map_of (qr_entries r) k = Some q \<and> map_of (qr_entries r) k' = Some q' \<and>
        q_state q = QPending \<and> q_state q' = QPending \<and> q_correlation_id q = q_correlation_id q' \<longrightarrow> k = k') \<and>
     amap_count (\<lambda>q. q_state q = QPending) (qr_entries r) \<le> ql_max_pending l \<and>
     length (qr_entries r) \<le> 2 * ql_max_pending l"

lemma questions_invD:
  assumes "questions_inv l r"
  shows "amap_wf (qr_entries r)" "qr_limits r = l"
    "map_of (qr_entries r) k = Some q \<Longrightarrow> q_id q = k" "map_of (qr_entries r) k = Some q \<Longrightarrow> contract_ok q"
    "map_of (qr_entries r) k = Some q \<Longrightarrow> map_of (qr_entries r) k' = Some q' \<Longrightarrow> q_state q = QPending \<Longrightarrow>
       q_state q' = QPending \<Longrightarrow> q_correlation_id q = q_correlation_id q' \<Longrightarrow> k = k'"
    "amap_count (\<lambda>q. q_state q = QPending) (qr_entries r) \<le> ql_max_pending l"
    "length (qr_entries r) \<le> 2 * ql_max_pending l"
  using assms unfolding questions_inv_def by blast+

lemma questions_invI:
  assumes "amap_wf (qr_entries r)" "qr_limits r = l"
    and "\<And>k q. map_of (qr_entries r) k = Some q \<Longrightarrow> q_id q = k \<and> contract_ok q"
    and "\<And>k k' q q'. map_of (qr_entries r) k = Some q \<Longrightarrow> map_of (qr_entries r) k' = Some q' \<Longrightarrow> q_state q = QPending \<Longrightarrow>
       q_state q' = QPending \<Longrightarrow> q_correlation_id q = q_correlation_id q' \<Longrightarrow> k = k'"
    and "amap_count (\<lambda>q. q_state q = QPending) (qr_entries r) \<le> ql_max_pending l"
    and "length (qr_entries r) \<le> 2 * ql_max_pending l"
  shows "questions_inv l r"
  using assms unfolding questions_inv_def by blast

text \<open>Under the invariant pruning is the removal of the oldest settled questions.\<close>

lemma prune_drop_oldest:
  assumes "\<And>k q. (k, q) \<in> set m \<Longrightarrow> q_id q = k"
  shows "prune_questions l m = drop_oldest settled q_asked_at (ql_max_pending l) m"
proof -
  have "map (\<lambda>q. (q_asked_at q, q_id q)) (filter settled (amap_values m)) = aged_keys settled q_asked_at m"
    using assms by (auto simp: aged_keys_def amap_values_def filter_map comp_def split_def)
  then show ?thesis
    by (simp add: prune_questions_def drop_oldest_def oldest_keys_def Let_def sat_sub_def)
qed

lemma inv_expire:
  assumes inv: "questions_inv l r"
  shows "questions_inv l (r\<lparr>qr_entries := expire_questions now (qr_entries r)\<rparr>)"
proof (rule questions_invI)
  let ?m = "expire_questions now (qr_entries r)"
  have "amap_count (\<lambda>q. q_state q = QPending) ?m \<le> amap_count (\<lambda>q. q_state q = QPending) (qr_entries r)"
    by (rule amap_count_mono) (use questions_invD(1) [OF inv] in
      \<open>auto simp: alist_simps expire_question_pending_iff\<close>)
  then show "amap_count (\<lambda>q. q_state q = QPending) (qr_entries (r\<lparr>qr_entries := ?m\<rparr>)) \<le> ql_max_pending l"
    using questions_invD(6) [OF inv] by simp
qed (use questions_invD [OF inv] in \<open>auto simp: alist_simps contract_ok_expire expire_question_pending_iff\<close>)

lemma inv_drop_oldest:
  assumes "amap_wf m" "\<And>k q. map_of m k = Some q \<Longrightarrow> q_id q = k \<and> contract_ok q"
    and "\<And>k k' q q'. map_of m k = Some q \<Longrightarrow> map_of m k' = Some q' \<Longrightarrow> q_state q = QPending \<Longrightarrow>
       q_state q' = QPending \<Longrightarrow> q_correlation_id q = q_correlation_id q' \<Longrightarrow> k = k'"
    and "amap_count (\<lambda>q. q_state q = QPending) m \<le> ql_max_pending l" and "qr_limits r = l"
  shows "questions_inv l (r\<lparr>qr_entries := prune_questions l m\<rparr>)"
proof -
  let ?m = "drop_oldest settled q_asked_at (ql_max_pending l) m"
  have prune: "prune_questions l m = ?m"
    using assms(2) amap_mem_iff [OF assms(1)] by (intro prune_drop_oldest) blast
  have pend: "amap_count (\<lambda>q. q_state q = QPending) ?m \<le> amap_count (\<lambda>q. q_state q = QPending) m"
    by (rule amap_count_mono) (use assms(1) in \<open>auto dest: drop_oldest_Some\<close>)
  moreover have "amap_count settled ?m \<le> ql_max_pending l" using assms(1) by (simp add: drop_oldest_count)
  moreover have "length ?m = amap_count settled ?m + amap_count (\<lambda>q. q_state q = QPending) ?m"
    using count_split [of settled ?m] by simp
  ultimately show ?thesis
    using assms by (intro questions_invI) (auto simp: prune dest!: drop_oldest_Some)
qed

section \<open>Operations keep the invariant\<close>

text \<open>The question after a settlement, and the two ways a settlement ends.\<close>

definition settled_as :: "question_state \<Rightarrow> string option \<Rightarrow> int \<Rightarrow> question_contract \<Rightarrow> question_contract" where
  "settled_as target reply now q =
     (if target = QAnswered then q\<lparr>q_state := target, q_answer := reply, q_answered_at := Some now\<rparr>
      else q\<lparr>q_state := target\<rparr>)"

lemma settle_question_cases:
  obtains (refused) e where "settle_question i who ra target reply now r =
      (r\<lparr>qr_entries := expire_questions now (qr_entries r)\<rparr>, Inl e)"
  | (settled) q where "map_of (expire_questions now (qr_entries r)) i = Some q" "q_state q = QPending"
      "(if ra then q_asker q else q_answerer q) = who"
      "settle_question i who ra target reply now r =
        (r\<lparr>qr_entries := AList.update i (settled_as target reply now q) (expire_questions now (qr_entries r))\<rparr>,
         Inr (settled_as target reply now q))"
proof (cases "map_of (expire_questions now (qr_entries r)) i")
  case None
  then show thesis by (intro refused) (simp add: settle_question_def Let_def)
next
  case (Some q)
  show thesis
  proof (cases "(if ra then q_asker q else q_answerer q) = who \<and> q_state q = QPending")
    case True
    with Some show thesis by (intro settled [of q]) (simp_all add: settle_question_def settled_as_def Let_def)
  next
    case False
    with Some have "\<exists>e. settle_question i who ra target reply now r =
        (r\<lparr>qr_entries := expire_questions now (qr_entries r)\<rparr>, Inl e)"
      by (cases "q_state q") (auto simp: settle_question_def Let_def)
    with refused show thesis by blast
  qed
qed

lemma inv_settle_at:
  assumes inv: "questions_inv l r" and q: "map_of (qr_entries r) i = Some q" "q_state q = QPending"
    and q': "q_id q' = q_id q" "contract_ok q'" "settled q'"
  shows "questions_inv l (r\<lparr>qr_entries := AList.update i q' (qr_entries r)\<rparr>)"
proof (rule questions_invI)
  have "amap_count (\<lambda>q. q_state q = QPending) (AList.update i q' (qr_entries r)) \<le>
      amap_count (\<lambda>q. q_state q = QPending) (qr_entries r)"
    by (rule amap_count_mono) (use questions_invD(1) [OF inv] q' in \<open>auto simp: alist_simps split: if_splits\<close>)
  then show "amap_count (\<lambda>q. q_state q = QPending) (qr_entries (r\<lparr>qr_entries := AList.update i q' (qr_entries r)\<rparr>)) \<le>
      ql_max_pending l" using questions_invD(6) [OF inv] by simp
  have "i \<in> set (amap_keys (qr_entries r))" using q(1) by (metis map_of_None_keys option.distinct(1))
  then have "length (AList.update i q' (qr_entries r)) = length (qr_entries r)"
    by (metis length_map update_keys)
  then show "length (qr_entries (r\<lparr>qr_entries := AList.update i q' (qr_entries r)\<rparr>)) \<le> 2 * ql_max_pending l"
    using questions_invD(7) [OF inv] by simp
qed (use questions_invD [OF inv] q q' in \<open>auto simp: alist_simps split: if_splits\<close>)

lemma contract_ok_settled_as:
  "contract_ok q \<Longrightarrow> target \<noteq> QDefaulted \<Longrightarrow> (target = QAnswered \<longrightarrow> get_or [] reply \<noteq> []) \<Longrightarrow>
   contract_ok (settled_as target reply now q)"
  by (simp add: contract_ok_def settled_as_def question_is_irreversible_def)

lemma settled_as_frame [simp]:
  "q_id (settled_as target reply now q) = q_id q" "q_state (settled_as target reply now q) = target"
  by (simp_all add: settled_as_def)

lemma inv_settle_question:
  assumes inv: "questions_inv l r" and "target \<noteq> QPending" "target \<noteq> QDefaulted"
    and "target = QAnswered \<longrightarrow> get_or [] reply \<noteq> []"
  shows "questions_inv l (fst (settle_question i who ra target reply now r))"
proof (rule settle_question_cases [where i = i and who = who and ra = ra and target = target and reply = reply and now = now and r = r])
  fix q
  let ?r1 = "r\<lparr>qr_entries := expire_questions now (qr_entries r)\<rparr>"
  assume q: "map_of (expire_questions now (qr_entries r)) i = Some q" "q_state q = QPending"
    and out: "settle_question i who ra target reply now r =
      (r\<lparr>qr_entries := AList.update i (settled_as target reply now q) (expire_questions now (qr_entries r))\<rparr>,
       Inr (settled_as target reply now q))"
  have inv1: "questions_inv l ?r1" by (rule inv_expire [OF inv])
  have "contract_ok q" using questions_invD(4) [OF inv1, of i q] q(1) by simp
  with assms contract_ok_settled_as have ok: "contract_ok (settled_as target reply now q)" by blast
  have at: "map_of (qr_entries ?r1) i = Some q" using q(1) by simp
  from inv_settle_at [OF inv1 at q(2) _ ok] assms(2) out show ?thesis by simp
qed (simp add: inv_expire [OF inv])

lemma register_question_cases:
  obtains (invalid) e where "register_question q now r = (r, Inl e)"
  | (refused) e where "register_question q now r = (r\<lparr>qr_entries := expire_questions now (qr_entries r)\<rparr>, Inl e)"
  | (registered) "contract_ok q" "map_of (expire_questions now (qr_entries r)) (q_id q) = None"
      "q_state q = QPending \<Longrightarrow> \<not> list_ex (\<lambda>e. q_state e = QPending \<and> q_correlation_id e = q_correlation_id q)
         (amap_values (expire_questions now (qr_entries r)))"
      "q_state q = QPending \<Longrightarrow> pending_count (expire_questions now (qr_entries r)) < ql_max_pending (qr_limits r)"
      "register_question q now r =
         (r\<lparr>qr_entries := prune_questions (qr_limits r) (AList.update (q_id q) q (expire_questions now (qr_entries r)))\<rparr>, Inr ())"
proof (cases "contract_validate q")
  case (Inl reason)
  then show thesis by (intro invalid [of "QInvalid reason"]) (simp add: register_question_def)
next
  case (Inr u)
  let ?m = "expire_questions now (qr_entries r)"
  let ?taken = "map_of ?m (q_id q) \<noteq> None"
  let ?twin = "q_state q = QPending \<and> list_ex (\<lambda>e. q_state e = QPending \<and> q_correlation_id e = q_correlation_id q) (amap_values ?m)"
  let ?full = "q_state q = QPending \<and> pending_count ?m \<ge> ql_max_pending (qr_limits r)"
  have step: "register_question q now r =
      (if ?taken then (r\<lparr>qr_entries := ?m\<rparr>, Inl QDuplicate) else if ?twin then (r\<lparr>qr_entries := ?m\<rparr>, Inl QDuplicate)
       else if ?full then (r\<lparr>qr_entries := ?m\<rparr>, Inl QCapacity)
       else (r\<lparr>qr_entries := prune_questions (qr_limits r) (AList.update (q_id q) q ?m)\<rparr>, Inr ()))"
    by (simp only: register_question_def Inr sum.case Let_def)
  consider (taken) "?taken" | (twin) "\<not> ?taken" "?twin" | (full) "\<not> ?taken" "\<not> ?twin" "?full"
    | (free) "\<not> ?taken" "\<not> ?twin" "\<not> ?full" by argo
  then show thesis
  proof cases
    case taken
    then show thesis by (intro refused [of QDuplicate]) (simp only: step not_False_eq_True if_True)
  next
    case twin
    then show thesis by (intro refused [of QDuplicate]) (simp only: step conj_absorb if_True if_False simp_thms)
  next
    case full
    then show thesis by (intro refused [of QCapacity]) (simp only: step if_True if_False simp_thms)
  next
    case free
    then have "register_question q now r =
        (r\<lparr>qr_entries := prune_questions (qr_limits r) (AList.update (q_id q) q ?m)\<rparr>, Inr ())"
      by (simp only: step if_False)
    with free Inr show thesis by (intro registered) (auto simp: contract_validate_ok)
  qed
qed

lemma inv_register_question:
  assumes inv: "questions_inv l r"
  shows "questions_inv l (fst (register_question q now r))"
proof (cases rule: register_question_cases [of q now r, case_names invalid refused registered])
  case registered
  let ?m = "expire_questions now (qr_entries r)"
  let ?m' = "AList.update (q_id q) q ?m"
  note limits = questions_invD(2) [OF inv]
  note q = registered(1) and fresh = registered(2) and corr = registered(3)
    and room = registered(4) [unfolded limits] and out = registered(5) [unfolded limits]
  have inv1: "questions_inv l (r\<lparr>qr_entries := ?m\<rparr>)" by (rule inv_expire [OF inv])
  have D: "amap_wf ?m" "\<And>k e. map_of ?m k = Some e \<Longrightarrow> q_id e = k \<and> contract_ok e"
    "\<And>k k' e e'. map_of ?m k = Some e \<Longrightarrow> map_of ?m k' = Some e' \<Longrightarrow> q_state e = QPending \<Longrightarrow>
       q_state e' = QPending \<Longrightarrow> q_correlation_id e = q_correlation_id e' \<Longrightarrow> k = k'"
    "amap_count (\<lambda>q. q_state q = QPending) ?m \<le> ql_max_pending l"
    using questions_invD [OF inv1] by simp_all
  have other: "False" if "map_of ?m k = Some e" "q_state e = QPending" "q_correlation_id e = q_correlation_id q"
    "q_state q = QPending" for k e
    using corr that D(1) by (auto simp: list_ex_iff amap_values_ex [OF D(1)])
  have "amap_count (\<lambda>q. q_state q = QPending) ?m' = amap_count (\<lambda>q. q_state q = QPending) ?m + (if q_state q = QPending then 1 else 0)"
    by (rule amap_count_update_new [OF fresh])
  then have few: "amap_count (\<lambda>q. q_state q = QPending) ?m' \<le> ql_max_pending l"
    using D(4) room by (cases "q_state q = QPending") (simp_all add: pending_count_amap)
  have uniq: "k = k'" if "map_of ?m' k = Some e" "map_of ?m' k' = Some e'" "q_state e = QPending" "q_state e' = QPending"
    "q_correlation_id e = q_correlation_id e'" for k k' e e'
  proof (cases "k = q_id q"; cases "k' = q_id q")
    assume "k = q_id q" "k' \<noteq> q_id q"
    with that other [of k' e'] show ?thesis by (simp add: update_conv')
  next
    assume "k \<noteq> q_id q" "k' = q_id q"
    with that other [of k e] show ?thesis by (simp add: update_conv')
  next
    assume "k \<noteq> q_id q" "k' \<noteq> q_id q"
    then have "map_of ?m k = Some e" "map_of ?m k' = Some e'" using that(1,2) by (simp_all add: update_conv')
    from D(3) [OF this that(3-5)] show ?thesis .
  qed simp
  have ok: "q_id e = k \<and> contract_ok e" if "map_of ?m' k = Some e" for k e
    using that D(2) [of k e] q by (simp add: update_conv' split: if_splits)
  have wf: "amap_wf ?m'" using D(1) by simp
  show ?thesis unfolding out fst_conv by (rule inv_drop_oldest [OF wf ok uniq few limits])
qed (use inv inv_expire [OF inv] in simp_all)

lemma inv_restore: "questions_inv l r \<Longrightarrow> questions_inv l (fst (restore_questions qs now r))"
proof (induction qs now r rule: restore_questions.induct)
  case (2 q qs now r)
  note reg = inv_register_question [OF "2.prems", of q now]
  show ?case
  proof (cases "register_question q now r")
    case (Pair r1 res)
    with reg "2.IH" show ?thesis by (cases res) (auto split: prod.splits)
  qed
qed simp

lemma ask_cases:
  obtains (invalid) e where "ask fresh_id request now r = (r, Inl (QInvalid e))"
  | (registered) q where "q_id q = get_or fresh_id (aq_id request)" "q_state q = QPending"
      "ask fresh_id request now r = (case register_question q now r of (r1, Inl e) \<Rightarrow> (r1, Inl e) | (r1, Inr _) \<Rightarrow> (r1, Inr q))"
proof -
  let ?secs = "get_or (ql_default_expiry_secs (qr_limits r)) (aq_expires_in_secs request)"
  let ?q0 = "contract_pending (get_or fresh_id (aq_id request)) (aq_kind request) (aq_asker request)
      (aq_answerer request) (aq_correlation_id request) (aq_text request) (aq_options request) now (Some (now + nanos ?secs))"
  show thesis
  proof (cases "?secs = 0 \<or> ?secs > ql_max_expiry_secs (qr_limits r)")
    case True
    then show thesis by (intro invalid) (simp only: ask_def Let_def if_True)
  next
    case secs: False
    then have step: "ask fresh_id request now r = (case ?q0 of Inl e \<Rightarrow> (r, Inl (QInvalid e)) | Inr q0 \<Rightarrow>
        (case with_stakes (aq_irreversible request) (aq_default_answer request) q0 of
           Inl e \<Rightarrow> (r, Inl (QInvalid e))
         | Inr q \<Rightarrow> (case register_question q now r of (r1, Inl e) \<Rightarrow> (r1, Inl e) | (r1, Inr _) \<Rightarrow> (r1, Inr q))))"
      by (simp only: ask_def Let_def if_False)
    show thesis
    proof (cases ?q0)
      case (Inl e)
      then show thesis by (intro invalid) (simp only: step sum.case)
    next
      case q0: (Inr q0)
      then have q0': "q_id q0 = get_or fresh_id (aq_id request)" "q_state q0 = QPending"
        by (auto simp: contract_pending_def Let_def split: sum.splits)
      show thesis
      proof (cases "with_stakes (aq_irreversible request) (aq_default_answer request) q0")
        case (Inl e)
        then show thesis by (intro invalid) (simp only: step q0 sum.case)
      next
        case (Inr q)
        then have "q_id q = q_id q0" "q_state q = q_state q0" by (auto simp: with_stakes_def Let_def split: sum.splits)
        with q0' show thesis by (intro registered [of q]) (simp_all only: step q0 Inr sum.case)
      qed
    qed
  qed
qed

lemma fst_ask:
  obtains "fst (ask fresh_id request now r) = r"
  | q where "q_id q = get_or fresh_id (aq_id request)" "fst (ask fresh_id request now r) = fst (register_question q now r)"
  by (rule ask_cases [of fresh_id request now r]) (auto split: prod.splits sum.splits)

lemma inv_ask: "questions_inv l r \<Longrightarrow> questions_inv l (fst (ask fresh_id request now r))"
  by (rule fst_ask [of fresh_id request now r]) (simp_all add: inv_register_question)

lemma trim_nonempty: "trim s \<noteq> [] \<Longrightarrow> s \<noteq> []"
  by auto

lemma inv_question_step:
  assumes inv: "questions_inv l r" shows "questions_inv l (question_step r op)"
proof (cases op)
  case (AnswerOp i who reply now)
  then show ?thesis
    using inv by (auto simp: answer_question_def intro!: inv_settle_question dest: trim_nonempty)
next
  case (ExpireOp now)
  have "questions_inv l (r\<lparr>qr_entries := expire_questions now (qr_entries r)\<rparr>)" by (rule inv_expire [OF inv])
  from questions_invD [OF this] questions_invD(2) [OF inv] have
    "questions_inv l (r\<lparr>qr_entries := prune_questions l (expire_questions now (qr_entries r))\<rparr>)"
    by (intro inv_drop_oldest) simp_all
  then show ?thesis using ExpireOp questions_invD(2) [OF inv] by (simp add: expire_registry_def)
qed (use inv in \<open>simp_all add: inv_ask inv_register_question inv_restore inv_expire inv_settle_question Let_def
    reject_question_def cancel_question_def withdraw_question_def list_questions_def pending_for_asker_def
    question_settlement_def observe_def\<close>)

interpretation questions: machine "\<lparr>qr_entries = [], qr_limits = l\<rparr>" question_step "questions_inv l" for l
  by unfold_locales (simp_all add: inv_question_step, simp add: questions_inv_def)

section \<open>What an operation does to one question\<close>

definition renews :: "question_op \<Rightarrow> string \<Rightarrow> bool" where
  "renews op i \<longleftrightarrow>
     (case op of AskOp fresh_id request _ \<Rightarrow> get_or fresh_id (aq_id request) = i
      | RegisterOp q _ \<Rightarrow> q_id q = i | RestoreOp qs _ \<Rightarrow> i \<in> q_id ` set qs | _ \<Rightarrow> False)"

fun question_op_time :: "question_op \<Rightarrow> int" where
  "question_op_time (AskOp _ _ now) = now"
| "question_op_time (RegisterOp _ now) = now"
| "question_op_time (ListOp _ now) = now"
| "question_op_time (PendingForOp _ now) = now"
| "question_op_time (AnswerOp _ _ _ now) = now"
| "question_op_time (RejectOp _ _ now) = now"
| "question_op_time (CancelOp _ _ now) = now"
| "question_op_time (WithdrawOp _ _ now) = now"
| "question_op_time (ExpireOp now) = now"
| "question_op_time (SettlementOp _ now) = now"
| "question_op_time (ObserveOp _ _ now) = now"
| "question_op_time (RestoreOp _ now) = now"

text \<open>
  The life of a question: it stays, runs out, is settled by the party entitled to it, or,
  once settled, is forgotten.
\<close>

inductive question_move :: "question_op \<Rightarrow> string \<Rightarrow> question_contract option \<Rightarrow> question_contract option \<Rightarrow> bool" for op i where
  stays: "question_move op i e e"
| runs_out: "question_move op i (Some q) (Some (expire_question (question_op_time op) q))"
| answered: "op = AnswerOp i (q_answerer q) reply now \<Longrightarrow> trim reply \<noteq> [] \<Longrightarrow> q_state q = QPending \<Longrightarrow> \<not> overdue now q \<Longrightarrow>
    question_move op i (Some q) (Some (settled_as QAnswered (Some reply) now q))"
| rejected: "op = RejectOp i (q_answerer q) now \<Longrightarrow> q_state q = QPending \<Longrightarrow>
    question_move op i (Some q) (Some (settled_as QRejected None now q))"
| recalled: "op = CancelOp i (q_asker q) now \<and> target = QCancelled \<or> op = WithdrawOp i (q_asker q) now \<and> target = QWithdrawn \<Longrightarrow>
    q_state q = QPending \<Longrightarrow> question_move op i (Some q) (Some (settled_as target None now q))"
| forgotten: "settled (expire_question (question_op_time op) q) \<Longrightarrow> question_move op i (Some q) None"

lemma expire_move:
  "question_move op i (map_of m i) (map_of (expire_questions (question_op_time op) m) i)"
  by (cases "map_of m i") (auto simp: alist_simps intro: question_move.intros)

lemma settle_move:
  assumes out: "r' = fst (settle_question j who ra target reply now r)" and t: "now = question_op_time op"
    and op: "\<And>q. map_of (qr_entries r) j = Some q \<Longrightarrow> q_state q = QPending \<Longrightarrow> \<not> overdue now q \<Longrightarrow>
      (if ra then q_asker q else q_answerer q) = who \<Longrightarrow>
      question_move op j (Some q) (Some (settled_as target reply now q))"
  shows "question_move op i (map_of (qr_entries r) i) (map_of (qr_entries r') i)"
proof (cases rule: settle_question_cases [of j who ra target reply now r, case_names refused settled])
  case (refused e)
  then show ?thesis unfolding out using expire_move t by simp
next
  case (settled q)
  then obtain q0 where q0: "map_of (qr_entries r) j = Some q0" "q = expire_question now q0" by (auto simp: alist_simps)
  then have "q = q0" "\<not> overdue now q0" using settled(2) by (simp_all add: expire_question_pending expire_question_pending_iff)
  with op q0 settled show ?thesis
    unfolding out using expire_move [of op i "qr_entries r"] t by (auto simp: alist_simps split: if_splits)
qed

lemma prune_move:
  assumes "amap_wf m" "\<And>k q. map_of m k = Some q \<Longrightarrow> q_id q = k"
    and "map_of m i = map_option (expire_question (question_op_time op)) (map_of m0 i)"
  shows "question_move op i (map_of m0 i) (map_of (prune_questions l m) i)"
proof -
  have prune: "prune_questions l m = drop_oldest settled q_asked_at (ql_max_pending l) m"
    using assms(2) amap_mem_iff [OF assms(1)] by (intro prune_drop_oldest) blast
  show ?thesis
  proof (cases "map_of m0 i")
    case None
    with assms(3) have "map_of (prune_questions l m) i = None"
      using drop_oldest_Some [of settled q_asked_at "ql_max_pending l" m i] by (cases "map_of (prune_questions l m) i") (auto simp: prune)
    with None show ?thesis by (simp add: question_move.stays)
  next
    case (Some q)
    with assms(3) have q: "map_of m i = Some (expire_question (question_op_time op) q)" by simp
    show ?thesis
    proof (cases "map_of (prune_questions l m) i")
      case None
      then have "settled (expire_question (question_op_time op) q)"
        using drop_oldest_spares [OF assms(1) q, of settled q_asked_at "ql_max_pending l"] by (auto simp: prune)
      with Some None show ?thesis by (simp add: question_move.forgotten)
    next
      case (Some q')
      with q drop_oldest_Some [of settled q_asked_at "ql_max_pending l" m i q'] \<open>map_of m0 i = Some q\<close>
      show ?thesis using question_move.runs_out [of op i q] by (simp add: prune)
    qed
  qed
qed

lemma register_move:
  assumes inv: "questions_inv l r" and "q_id q \<noteq> i" "now = question_op_time op"
  shows "question_move op i (map_of (qr_entries r) i) (map_of (qr_entries (fst (register_question q now r))) i)"
proof (cases rule: register_question_cases [of q now r, case_names invalid refused registered])
  case (invalid e)
  then show ?thesis by (simp add: question_move.stays)
next
  case (refused e)
  then show ?thesis using expire_move [of op i "qr_entries r"] assms(3) by simp
next
  case registered
  let ?m = "expire_questions now (qr_entries r)"
  have inv1: "questions_inv l (r\<lparr>qr_entries := ?m\<rparr>)" by (rule inv_expire [OF inv])
  have "question_move op i (map_of (qr_entries r) i) (map_of (prune_questions (qr_limits r) (AList.update (q_id q) q ?m)) i)"
  proof (rule prune_move)
    show "amap_wf (AList.update (q_id q) q ?m)" using questions_invD(1) [OF inv1] by simp
    show "q_id e = k" if "map_of (AList.update (q_id q) q ?m) k = Some e" for k e
      using that questions_invD(3) [OF inv1, of k e] by (auto simp: alist_simps split: if_splits)
    show "map_of (AList.update (q_id q) q ?m) i = map_option (expire_question (question_op_time op)) (map_of (qr_entries r) i)"
      using assms(2,3) by (simp add: alist_simps)
  qed
  with registered(5) show ?thesis by simp
qed

inductive_cases restore_moveE: "question_move (RestoreOp qs now) i e e'"

lemma restore_move_trans:
  assumes "question_move (RestoreOp qs now) i e e1" "question_move (RestoreOp qs now) i e1 e2"
  shows "question_move (RestoreOp qs now) i e e2"
  using assms
  by (elim restore_moveE) (auto intro: question_move.intros
      question_move.runs_out [of "RestoreOp qs now", simplified question_op_time.simps])

lemma restore_move:
  "questions_inv l r \<Longrightarrow> i \<notin> q_id ` set qs' \<Longrightarrow>
   question_move (RestoreOp qs now) i (map_of (qr_entries r) i) (map_of (qr_entries (fst (restore_questions qs' now r))) i)"
proof (induction qs' now r rule: restore_questions.induct)
  case (1 now r)
  then show ?case by (simp add: question_move.stays)
next
  case (2 q qs' now r)
  obtain r1 res where reg: "register_question q now r = (r1, res)" by fastforce
  have "question_move (RestoreOp qs now) i (map_of (qr_entries r) i) (map_of (qr_entries r1) i)"
    using register_move [OF "2.prems"(1), of q i now "RestoreOp qs now"] "2.prems"(2) reg by auto
  moreover have "question_move (RestoreOp qs now) i (map_of (qr_entries r1) i) (map_of (qr_entries (fst (restore_questions qs' now r1))) i)"
    using "2.IH" [of r1 res] reg inv_register_question [OF "2.prems"(1), of q now] "2.prems"(2) by (cases res) auto
  ultimately have "question_move (RestoreOp qs now) i (map_of (qr_entries r) i) (map_of (qr_entries (fst (restore_questions qs' now r1))) i)"
    by (rule restore_move_trans)
  then show ?case using reg by (cases res) (simp_all add: case_prod_beta)
qed

lemma question_step_move:
  assumes inv: "questions_inv l r" and op: "\<not> renews op i"
  shows "question_move op i (map_of (qr_entries r) i) (map_of (qr_entries (question_step r op)) i)"
proof (cases op)
  case (AskOp fresh_id request now)
  show ?thesis
    by (rule fst_ask [of fresh_id request now r])
      (use AskOp op register_move [OF inv, where op = op and now = now] in \<open>auto simp: renews_def question_move.stays\<close>)
next
  case (RegisterOp q now)
  with op register_move [OF inv, of q i now op] show ?thesis by (simp add: renews_def)
next
  case (RestoreOp qs now)
  with op restore_move [OF inv, of i qs qs now] show ?thesis by (simp add: renews_def)
next
  case (AnswerOp j who reply now)
  show ?thesis
  proof (cases "trim reply = []")
    case True
    then show ?thesis using AnswerOp by (simp add: answer_question_def question_move.stays)
  next
    case False
    then have "question_step r op = fst (settle_question j who False QAnswered (Some reply) now r)"
      using AnswerOp by (simp add: answer_question_def)
    then show ?thesis
      by (rule settle_move) (use AnswerOp False in \<open>auto intro!: question_move.answered\<close>)
  qed
next
  case (RejectOp j who now)
  then have "question_step r op = fst (settle_question j who False QRejected None now r)" by (simp add: reject_question_def)
  then show ?thesis
    by (rule settle_move) (use RejectOp in \<open>auto intro!: question_move.rejected\<close>)
next
  case (CancelOp j who now)
  then have "question_step r op = fst (settle_question j who True QCancelled None now r)" by (simp add: cancel_question_def)
  then show ?thesis
    by (rule settle_move) (use CancelOp in \<open>auto intro!: question_move.recalled\<close>)
next
  case (WithdrawOp j who now)
  then have "question_step r op = fst (settle_question j who True QWithdrawn None now r)" by (simp add: withdraw_question_def)
  then show ?thesis
    by (rule settle_move) (use WithdrawOp in \<open>auto intro!: question_move.recalled\<close>)
next
  case (ExpireOp now)
  let ?r1 = "r\<lparr>qr_entries := expire_questions now (qr_entries r)\<rparr>"
  have inv1: "questions_inv l ?r1" by (rule inv_expire [OF inv])
  have "question_move op i (map_of (qr_entries r) i) (map_of (prune_questions (qr_limits r) (qr_entries ?r1)) i)"
    by (rule prune_move [OF questions_invD(1) [OF inv1] questions_invD(3) [OF inv1]])
      (simp_all add: ExpireOp map_of_expire_questions)
  then show ?thesis by (simp add: ExpireOp expire_registry_def)
qed (use expire_move [of op i "qr_entries r"] in \<open>simp_all add: list_questions_def pending_for_asker_def
    question_settlement_def observe_def Let_def\<close>)

inductive_cases settled_moveE: "question_move op i (Some q) e"

interpretation questions: settling_table "\<lambda>r. map_of (qr_entries r)" question_step "questions_inv l" settled renews for l
proof
  fix r op k q
  assume "questions_inv l r" "map_of (qr_entries r) k = Some q" "settled q" "\<not> renews op k"
  with question_step_move [of l r op k] show "map_of (qr_entries (question_step r op)) k \<in> {None, Some q}"
    by (auto elim!: settled_moveE)
next
  fix r op k
  assume "questions_inv l r" "map_of (qr_entries r) k = None" "\<not> renews op k"
  with question_step_move [of l r op k] show "map_of (qr_entries (question_step r op)) k = None"
    by (auto elim: question_move.cases)
qed (rule inv_question_step)

lemma move_answered:
  assumes "question_move op i (Some q) (Some q')" "q_state q' = QAnswered" "q_state q \<noteq> QAnswered"
  shows "\<exists>reply now. op = AnswerOp i (q_answerer q) reply now \<and> trim reply \<noteq> [] \<and> q_state q = QPending \<and>
    \<not> overdue now q \<and> q' = settled_as QAnswered (Some reply) now q"
  using assms(1)
proof (cases rule: question_move.cases)
  case (answered reply now)
  then show ?thesis by blast
qed (use assms(2,3) in auto)

section \<open>Guarantees\<close>

abbreviation run_questions :: "question_limits \<Rightarrow> question_op list \<Rightarrow> question_registry" where
  "run_questions l ops \<equiv> foldl question_step \<lparr>qr_entries = [], qr_limits = l\<rparr> ops"

definition one_limit :: question_limits where
  "one_limit = \<lparr>ql_max_pending = 1, ql_default_expiry_secs = 60, ql_max_expiry_secs = 600\<rparr>"

definition sample_asks :: "question_op list" where
  "sample_asks = [AskOp ''x'' (ask_question_new AgentParent ''child'' ''parent'' ''c1'' ''May I?'') 0]"

definition sample_question :: question_contract where
  "sample_question = \<lparr>q_id = ''x'', q_kind = AgentParent, q_asker = ''child'', q_answerer = ''parent'', q_correlation_id = ''c1'',
     q_text = ''May I?'', q_options = None, q_state = QPending, q_asked_at = 0, q_expires_at = Some 60000000000,
     q_irreversible = False, q_default_answer = None, q_answer = None, q_answered_at = None\<rparr>"

definition sample_answered :: question_contract where
  "sample_answered = sample_question\<lparr>q_state := QAnswered, q_answer := Some ''yes'', q_answered_at := Some 5\<rparr>"

lemma sample_runs:
  "map_of (qr_entries (run_questions one_limit sample_asks)) ''x'' = Some sample_question"
  "map_of (qr_entries (run_questions one_limit (sample_asks @ [AnswerOp ''x'' ''parent'' ''yes'' 5]))) ''x'' = Some sample_answered"
  by code_simp+

text \<open>
  C21: a settled question is final. Once a question is answered, defaulted, rejected,
  cancelled, withdrawn or expired, no later operation changes it in any way: it is read
  back as it was settled, or it has been forgotten, until its identifier is registered
  anew.
\<close>

theorem settled_question_final:
  assumes "map_of (qr_entries (run_questions l ops)) i = Some q" "q_state q \<noteq> QPending"
    and "\<forall>op \<in> set later. \<not> renews op i"
  shows "get_question i (run_questions l (ops @ later)) \<in> {None, Some q}"
  using questions.run_final [of l "run_questions l ops" i q later] questions.reachable_inv [of l ops] assms
  by (simp add: get_question_def)

theorem settled_question_final_witness:
  "get_question ''x'' (run_questions one_limit ((sample_asks @ [AnswerOp ''x'' ''parent'' ''yes'' 5]) @
     [CancelOp ''x'' ''child'' 6, ExpireOp 70000000000])) \<in> {None, Some sample_answered}"
  by (rule settled_question_final [OF sample_runs(2)]) (simp_all add: sample_answered_def renews_def)

text \<open>
  C20: consent is never invented. By an operation that does not put a question under this
  identifier anew (\<open>renews\<close>: registering it or restoring a snapshot with it), a question that
  is in the table becomes answered only if the operation is the answer of its own answerer,
  with a text that is not blank, while the question was pending and before its deadline;
  nothing else of the question changes.
\<close>

theorem answered_only_by_answerer:
  assumes "map_of (qr_entries (run_questions l ops)) i = Some q" "q_state q \<noteq> QAnswered" "\<not> renews op i"
    and "map_of (qr_entries (question_step (run_questions l ops) op)) i = Some q'" "q_state q' = QAnswered"
  shows "\<exists>reply now. op = AnswerOp i (q_answerer q) reply now \<and> trim reply \<noteq> [] \<and> q_state q = QPending \<and>
    (\<forall>e. q_expires_at q = Some e \<longrightarrow> now < e) \<and>
    q' = q\<lparr>q_state := QAnswered, q_answer := Some reply, q_answered_at := Some now\<rparr>"
proof -
  have "question_move op i (Some q) (Some q')"
    using question_step_move [OF questions.reachable_inv assms(3), of l ops] assms(1,4) by simp
  from move_answered [OF this assms(5,2)] obtain reply now where
    "op = AnswerOp i (q_answerer q) reply now" "trim reply \<noteq> []" "q_state q = QPending" "\<not> overdue now q"
    "q' = settled_as QAnswered (Some reply) now q"
    by blast
  then show ?thesis by (simp add: settled_as_def not_le split: option.splits)
qed

theorem answered_only_by_answerer_witness:
  "let r = run_questions one_limit sample_asks; r' = question_step r (AnswerOp ''x'' ''parent'' ''yes'' 5) in
   map_of (qr_entries r) ''x'' = Some sample_question \<and> q_state sample_question = QPending \<and>
   map_of (qr_entries r') ''x'' =
     Some (sample_question\<lparr>q_state := QAnswered, q_answer := Some ''yes'', q_answered_at := Some 5\<rparr>)"
proof -
  have step: "map_of (qr_entries (question_step (run_questions one_limit sample_asks) (AnswerOp ''x'' ''parent'' ''yes'' 5))) ''x'' =
      Some sample_answered" using sample_runs(2) by simp
  from answered_only_by_answerer [OF sample_runs(1) _ _ step]
  have "\<exists>reply now. AnswerOp ''x'' ''parent'' ''yes'' 5 = AnswerOp ''x'' (q_answerer sample_question) reply now \<and>
      trim reply \<noteq> [] \<and> q_state sample_question = QPending \<and> (\<forall>e. q_expires_at sample_question = Some e \<longrightarrow> now < e) \<and>
      sample_answered = sample_question\<lparr>q_state := QAnswered, q_answer := Some reply, q_answered_at := Some now\<rparr>"
    by (simp add: sample_question_def sample_answered_def renews_def)
  with step sample_runs(1) show ?thesis by (auto simp: Let_def)
qed

text \<open>
  C37: every question in the table is well formed, in every reachable state: stored under
  its own identifier, with names and text, a deadline after its creation, an answer and a
  time if it is answered; a question settled by default is reversible and carries exactly
  the default its asker offered; and no two pending questions share a correlation.
\<close>

theorem questions_well_formed:
  assumes "map_of (qr_entries (run_questions l ops)) i = Some q"
  shows "q_id q = i \<and> contract_validate q = Inr () \<and>
    (q_state q = QDefaulted \<longrightarrow> \<not> question_is_irreversible q \<and> q_answer q = q_default_answer q \<and> q_default_answer q \<noteq> None) \<and>
    (q_state q = QPending \<longrightarrow> (\<forall>j q'. map_of (qr_entries (run_questions l ops)) j = Some q' \<and> q_state q' = QPending \<and>
       q_correlation_id q' = q_correlation_id q \<longrightarrow> j = i))"
proof -
  note inv = questions.reachable_inv [of l ops]
  have "q_id q = i" "contract_ok q" using questions_invD(3,4) [OF inv assms] by simp_all
  moreover have "q_state q = QDefaulted \<longrightarrow> \<not> question_is_irreversible q \<and> q_answer q = q_default_answer q \<and> q_default_answer q \<noteq> None"
    using \<open>contract_ok q\<close> by (auto simp: contract_ok_def)
  moreover have "j = i" if "q_state q = QPending" "map_of (qr_entries (run_questions l ops)) j = Some q'" "q_state q' = QPending"
    "q_correlation_id q' = q_correlation_id q" for j q'
    using questions_invD(5) [OF inv that(2) assms that(3,1,4)] .
  ultimately show ?thesis unfolding contract_validate_ok by blast
qed

theorem questions_well_formed_witness: "q_id sample_question = ''x'' \<and> contract_validate sample_question = Inr ()"
  using questions_well_formed [OF sample_runs(1)] by blast

text \<open>
  The table of questions is bounded: at most the configured number is pending, and at
  most twice that number is held in all.
\<close>

lemma questions_bounded:
  "pending_count (qr_entries (run_questions l ops)) \<le> ql_max_pending l \<and>
   questions_len (run_questions l ops) \<le> 2 * ql_max_pending l"
  using questions_invD(6,7) [OF questions.reachable_inv [of l ops]]
  by (simp add: pending_count_amap questions_len_def)

section \<open>Waiting\<close>

text \<open>What identifies a question never changes while it is in the table.\<close>

definition same_question :: "question_contract \<Rightarrow> question_contract \<Rightarrow> bool" where
  "same_question q q' \<longleftrightarrow> q_correlation_id q' = q_correlation_id q \<and> q_asked_at q' = q_asked_at q \<and>
     q_expires_at q' = q_expires_at q \<and> q_asker q' = q_asker q \<and> q_answerer q' = q_answerer q"

lemma move_same_question: "question_move op i (Some q) (Some q') \<Longrightarrow> same_question q q'"
  by (auto elim!: settled_moveE simp: same_question_def settled_as_def expire_question_def split: option.splits)

lemma run_same_question:
  assumes "questions_inv l r" "map_of (qr_entries r) i = Some q" "\<forall>op \<in> set ops. \<not> renews op i"
  shows "case map_of (qr_entries (foldl question_step r ops)) i of None \<Rightarrow> True | Some q' \<Rightarrow> same_question q q'"
  using assms
proof (induction ops arbitrary: r q)
  case Nil
  then show ?case by (simp add: same_question_def)
next
  case (Cons op ops)
  let ?r = "question_step r op"
  have inv: "questions_inv l ?r" by (rule inv_question_step [OF Cons.prems(1)])
  have move: "question_move op i (Some q) (map_of (qr_entries ?r) i)"
    using question_step_move [OF Cons.prems(1), of op i] Cons.prems(2,3) by simp
  show ?case
  proof (cases "map_of (qr_entries ?r) i")
    case None
    with questions.run_absent [OF inv, of i ops] Cons.prems(3) show ?thesis by simp
  next
    case (Some q1)
    with move have "same_question q q1" by (simp add: move_same_question)
    with Cons.IH [OF inv Some] Cons.prems(3) show ?thesis by (auto simp: same_question_def split: option.splits)
  qed
qed

text \<open>
  C40: a wait ends with what happened to its question. A waiter that read the question
  before it was settled, whatever happens in between, gets an answer from every turn at or
  after the deadline: the settlement the question has then, or \<open>Expired\<close> when the table has
  forgotten it. The branch taken when the deadline fires returns the same.
\<close>

theorem question_wait_ends:
  assumes "wait_snapshot i (run_questions l ops) = Inr snap" "q_expires_at snap = Some e"
    and "\<forall>op \<in> set later. \<not> renews op i" "e \<le> now"
  defines "r \<equiv> run_questions l (ops @ later)"
  shows "\<exists>s. snd (observe i snap now r) = Some s \<and>
    (case map_of (qr_entries r) i of None \<Rightarrow> s = SExpired | Some q \<Rightarrow> settlement_of (expire_question now q) = Some s) \<and>
    (now = e \<longrightarrow> snd (wait_deadline i snap current r) = s)"
proof -
  have snap: "map_of (qr_entries (run_questions l ops)) i = Some snap"
    using assms(1) by (simp add: wait_snapshot_def split: option.splits)
  have same: "case map_of (qr_entries r) i of None \<Rightarrow> True | Some q' \<Rightarrow> same_question snap q'"
    using run_same_question [OF questions.reachable_inv snap assms(3)] by (simp add: r_def)
  have "\<exists>s. snd (observe i snap now r) = Some s \<and>
    (case map_of (qr_entries r) i of None \<Rightarrow> s = SExpired | Some q \<Rightarrow> settlement_of (expire_question now q) = Some s)"
  proof (cases "map_of (qr_entries r) i")
    case None
    then show ?thesis by (simp add: observe_def Let_def map_of_expire_questions)
  next
    case (Some q)
    with same have q: "same_question snap q" by simp
    then have "overdue now q" using assms(2,4) by (simp add: same_question_def)
    then have "settled (expire_question now q)" by (auto simp: expire_question_pending_iff)
    then obtain s where "settlement_of (expire_question now q) = Some s"
      by (cases "q_state (expire_question now q)") (auto simp: settlement_of_def)
    with q Some show ?thesis by (simp add: observe_def Let_def map_of_expire_questions same_question_def)
  qed
  moreover have "snd (wait_deadline i snap current r) = s" if "now = e" "snd (observe i snap now r) = Some s" for s
    using that assms(2) by (cases "observe i snap e r") (simp add: wait_deadline_def)
  ultimately show ?thesis by blast
qed

theorem question_wait_ends_witness:
  "\<exists>s. snd (observe ''x'' sample_question 60000000000
     (run_questions one_limit (sample_asks @ [AnswerOp ''x'' ''parent'' ''yes'' 5]))) = Some s"
proof -
  have "wait_snapshot ''x'' (run_questions one_limit sample_asks) = Inr sample_question"
    by (simp add: wait_snapshot_def sample_runs(1))
  moreover have "q_expires_at sample_question = Some 60000000000" by (simp add: sample_question_def)
  moreover have "\<forall>op \<in> set [AnswerOp ''x'' ''parent'' ''yes'' 5]. \<not> renews op ''x''" by (simp add: renews_def)
  ultimately show ?thesis using question_wait_ends [of "''x''" one_limit sample_asks sample_question 60000000000
      "[AnswerOp ''x'' ''parent'' ''yes'' 5]" 60000000000] by blast
qed

text \<open>
  What a waiter is told can differ from what happened: an answered question that the
  table has forgotten before the waiter looks again is reported as expired.
\<close>

lemma forgotten_answer_reported_expired:
  "map_of (qr_entries (run_questions one_limit (sample_asks @ [AnswerOp ''x'' ''parent'' ''yes'' 5]))) ''x'' = Some sample_answered \<and>
   snd (observe ''x'' sample_question 9 (run_questions one_limit (sample_asks @
     [AnswerOp ''x'' ''parent'' ''yes'' 5, AskOp ''y'' (ask_question_new AgentParent ''child'' ''parent'' ''c2'' ''And now?'') 6,
      CancelOp ''y'' ''child'' 7, ExpireOp 8]))) = Some SExpired"
  by (intro conjI sample_runs(2)) code_simp

section \<open>Restoring a snapshot\<close>

definition restorable :: "question_limits \<Rightarrow> int \<Rightarrow> question_table \<Rightarrow> bool" where
  "restorable l now m \<longleftrightarrow> amap_wf m \<and>
     (\<forall>(k, q) \<in> set m. q_id q = k \<and> contract_ok q \<and> expire_question now q = q) \<and>
     (\<forall>k q k' q'. (k, q) \<in> set m \<and> (k', q') \<in> set m \<and>
        q_state q = QPending \<and> q_state q' = QPending \<and> q_correlation_id q = q_correlation_id q' \<longrightarrow> k = k') \<and>
     amap_count (\<lambda>q. q_state q = QPending) m \<le> ql_max_pending l \<and> amap_count settled m \<le> ql_max_pending l"

lemma prune_within: "amap_count settled m \<le> ql_max_pending l \<Longrightarrow> prune_questions l m = m"
  by (simp add: prune_questions_def Let_def sat_sub_def amap_count_def)

lemma register_restorable:
  assumes "restorable l now (m @ (q_id q, q) # rest)"
  shows "register_question q now \<lparr>qr_entries = m, qr_limits = l\<rparr> = (\<lparr>qr_entries = m @ [(q_id q, q)], qr_limits = l\<rparr>, Inr ())"
proof -
  let ?M = "m @ (q_id q, q) # rest"
  from assms have wf: "amap_wf ?M" and each: "\<forall>(k, q) \<in> set ?M. q_id q = k \<and> contract_ok q \<and> expire_question now q = q"
    and corr: "\<forall>k q k' q'. (k, q) \<in> set ?M \<and> (k', q') \<in> set ?M \<and>
        q_state q = QPending \<and> q_state q' = QPending \<and> q_correlation_id q = q_correlation_id q' \<longrightarrow> k = k'"
    and counts: "amap_count (\<lambda>q. q_state q = QPending) ?M \<le> ql_max_pending l" "amap_count settled ?M \<le> ql_max_pending l"
    unfolding restorable_def by blast+
  have exp: "expire_questions now m = m"
    unfolding expire_questions_def using each by (intro map_idI) auto
  have ok: "contract_validate q = Inr ()" using each by (simp add: contract_validate_ok)
  have fresh: "q_id q \<notin> set (amap_keys m)" using wf by auto
  then have none: "map_of m (q_id q) = None" by (simp only: map_of_None_keys) simp
  have twin: "\<not> list_ex (\<lambda>e. q_state e = QPending \<and> q_correlation_id e = q_correlation_id q) (amap_values m)" if "q_state q = QPending"
  proof
    assume "list_ex (\<lambda>e. q_state e = QPending \<and> q_correlation_id e = q_correlation_id q) (amap_values m)"
    then obtain k e where "(k, e) \<in> set m" "q_state e = QPending" "q_correlation_id e = q_correlation_id q"
      by (auto simp: list_ex_iff amap_values_def)
    moreover have "(k, e) \<in> set ?M" "(q_id q, q) \<in> set ?M" using calculation(1) by simp_all
    ultimately have "k = q_id q" using corr that by blast
    with fresh \<open>(k, e) \<in> set m\<close> show False by force
  qed
  have room: "pending_count m < ql_max_pending l" if "q_state q = QPending"
    using counts(1) that by (simp add: pending_count_amap)
  have "prune_questions l (m @ [(q_id q, q)]) = m @ [(q_id q, q)]"
    by (rule prune_within) (use counts(2) in \<open>simp split: if_splits\<close>)
  then show ?thesis
    using ok none twin room fresh by (simp add: register_question_def Let_def exp update_new_append not_le)
qed

lemma restore_restorable:
  "restorable l now (m @ map (\<lambda>q. (q_id q, q)) qs) \<Longrightarrow>
   restore_questions qs now \<lparr>qr_entries = m, qr_limits = l\<rparr> =
     (\<lparr>qr_entries = m @ map (\<lambda>q. (q_id q, q)) qs, qr_limits = l\<rparr>, length qs)"
proof (induction qs arbitrary: m)
  case (Cons q qs)
  from Cons.prems have "restorable l now ((m @ [(q_id q, q)]) @ map (\<lambda>q. (q_id q, q)) qs)" by simp
  from Cons.IH [OF this] register_restorable [of l now m q "map (\<lambda>q. (q_id q, q)) qs"] Cons.prems
  show ?case by simp
qed simp

lemma restorable_perm:
  assumes "mset m = mset m'" "restorable l now m" shows "restorable l now m'"
proof -
  have "mset (map fst m) = mset (map fst m')" "mset (map snd m) = mset (map snd m')" using assms(1) by simp_all
  then have "amap_wf m \<longleftrightarrow> amap_wf m'" and "mset (filter P (map snd m)) = mset (filter P (map snd m'))" for P
    using mset_eq_imp_distinct_iff by (blast, simp only: mset_filter)
  then have "amap_wf m \<longleftrightarrow> amap_wf m'" "amap_count P m = amap_count P m'" for P
    unfolding amap_count_def amap_values_def by (blast, metis size_mset)
  with assms(2) mset_eq_setD [OF assms(1)] show ?thesis by (simp add: restorable_def)
qed

text \<open>
  C38: a snapshot restores the registry. Seeding an empty registry with the same limits
  from the snapshot of a reachable one, before any of its pending deadlines and with no
  more settled questions than the limit keeps, accepts every question and reads each of
  them back unchanged.
\<close>

theorem snapshot_restores:
  assumes "r = run_questions l ops" "amap_count settled (qr_entries r) \<le> ql_max_pending l"
    and "\<forall>q \<in> set (question_snapshot r). q_state q = QPending \<longrightarrow> expire_question now q = q"
  shows "case restore_questions (question_snapshot r) now \<lparr>qr_entries = [], qr_limits = l\<rparr> of
    (r', n) \<Rightarrow> n = questions_len r \<and> (\<forall>i. get_question i r' = get_question i r)"
proof -
  let ?m = "qr_entries r" and ?qs = "question_snapshot r"
  let ?M = "map (\<lambda>q. (q_id q, q)) ?qs"
  have inv: "questions_inv l r" unfolding assms(1) by (rule questions.reachable_inv)
  note D = questions_invD [OF inv]
  have at: "map_of ?m k = Some q" if "(k, q) \<in> set ?m" for k q using that amap_mem_iff [OF D(1)] by blast
  have snap: "mset ?qs = mset (amap_values ?m)" by (simp add: question_snapshot_def sorted_questions_def)
  have "map (\<lambda>q. (q_id q, q)) (amap_values ?m) = ?m"
    unfolding amap_values_def using D(3) at by (auto intro!: map_idI simp: comp_def)
  with snap have M: "mset ?m = mset ?M" by (metis mset_map)
  have "expire_question now q = q" if "(k, q) \<in> set ?m" for k q
  proof (cases "settled q")
    case False
    have "q \<in> set ?qs" using that mset_eq_setD [OF snap] by (force simp: amap_values_def)
    with False assms(3) show ?thesis by simp
  qed simp
  then have "restorable l now ?m"
    unfolding restorable_def using D(1,6) D(3,4) [OF at] D(5) [OF at at] assms(2) by blast
  then have "restorable l now ([] @ ?M)" using restorable_perm [OF M] by simp
  note run = restore_restorable [OF this]
  have "map_of ?M = map_of ?m"
    using M D(1) mset_eq_setD [OF M] mset_eq_imp_distinct_iff [of "map fst ?m" "map fst ?M"]
    by (intro map_of_inject_set [THEN iffD2]) (metis mset_map, simp_all)
  moreover have "length ?qs = length ?m" using snap by (metis amap_values_def length_map size_mset)
  ultimately show ?thesis using run by (simp add: get_question_def questions_len_def)
qed

theorem snapshot_restores_witness:
  "\<forall>i. get_question i (fst (restore_questions (question_snapshot (run_questions one_limit sample_asks)) 7
     \<lparr>qr_entries = [], qr_limits = one_limit\<rparr>)) = get_question i (run_questions one_limit sample_asks)"
proof -
  have "amap_count settled (qr_entries (run_questions one_limit sample_asks)) \<le> ql_max_pending one_limit" by code_simp
  moreover have "question_snapshot (run_questions one_limit sample_asks) = [sample_question]" by code_simp
  moreover have "expire_question 7 sample_question = sample_question" by code_simp
  ultimately show ?thesis
    using snapshot_restores [of "run_questions one_limit sample_asks" one_limit sample_asks 7] by (simp add: case_prod_beta)
qed

end
