(* ===== verification/Deadlock.thy ===== *)
theory Deadlock
  imports Scheduler Waitgraph Approval Question
begin

text \<open>
  The deadlock detector of the engine (\<open>engine/src/coordination/deadlock.rs\<close>), which joins
  the scheduler, the registry of waits, the questions and the approvals: \<open>capture\<close> reads all
  four into one wait-for graph, \<open>scan\<close> runs the confirmed detection and refuses a wait,
  \<open>visible_view\<close> shows the graph without the runs a caller may not see.

  The components are the fields of \<open>app\<close>. The index of the agents' chats, read from the
  agent registry without waiting for its lock, is \<open>None\<close> when the lock is taken. The hash of
  a run's version (\<open>DefaultHasher\<close>) is a function that is an argument, as is the clock. The
  other tasks of the engine may change any component between two reads of a scan: \<open>env k\<close> is
  what they did before the scan's \<open>k\<close>-th step.
\<close>

section \<open>Captured waits\<close>

record 'v app =
  work_scheduler :: sched
  wait_registry :: registry
  app_questions :: question_registry
  agent_approvals :: "'v approvals"
  child_chat_index :: "(string, string) amap option"

type_synonym version_hash = "nat \<Rightarrow> nat \<Rightarrow> ticket_state \<Rightarrow> nat \<Rightarrow> nat"

definition user_principals :: "string list" where
  "user_principals = [''user'', ''operator'']"

definition node_version :: "version_hash \<Rightarrow> registry \<Rightarrow> ticket_snapshot \<Rightarrow> nat" where
  "node_version hash reg t = hash (version_of (ts_run t) reg) (ts_park_count t) (ts_state t) (ts_seq t)"

definition target_for :: "string \<Rightarrow> (string, run_key) amap \<Rightarrow> wait_target option" where
  "target_for who by_id = (if who \<in> set user_principals then Some User else map_option Run (map_of by_id who))"

definition resolve :: "'v app \<Rightarrow> string \<Rightarrow> run_key option" where
  "resolve a who = List.find (\<lambda>run. wk_id (rk_work run) = who) (map ts_run (snap_tickets (snapshot (work_scheduler a))))"

text \<open>A \<open>collect\<close> into a map keeps the last ticket of an identifier, \<open>or_insert_with\<close> the first.\<close>

definition last_by_id :: "ticket_snapshot list \<Rightarrow> (string, run_key) amap" where
  "last_by_id ts = foldl (\<lambda>m t. AList.update (wk_id (rk_work (ts_run t))) (ts_run t) m) [] ts"

definition first_by_id :: "ticket_snapshot list \<Rightarrow> (string, run_key) amap" where
  "first_by_id ts =
     foldl (\<lambda>m t. if map_of m (wk_id (rk_work (ts_run t))) = None
                  then AList.update (wk_id (rk_work (ts_run t))) (ts_run t) m else m) [] ts"

definition declare_agent_wait ::
  "coordination_settings \<Rightarrow> string \<Rightarrow> string option \<Rightarrow> string list \<Rightarrow> 'v app \<Rightarrow> 'v app \<times> handle" where
  "declare_agent_wait slot waiter background_agent_id targets a =
     (let by_id = last_by_id (snap_tickets (snapshot (work_scheduler a)));
          waiter_id = get_or waiter background_agent_id;
          from = (case map_of by_id waiter_id of
                    Some run \<Rightarrow> run
                  | None \<Rightarrow> if waiter_id \<noteq> waiter then work_key_run (work_key_background_agent waiter_id) 0
                            else work_key_run (work_key_trajectory waiter) 0);
          selected = (if map_of by_id waiter_id \<noteq> None
                      then map Run (List.map_filter (map_of by_id) targets) else []);
          (reg, h) = declare_wait slot from AgentWait selected ''wait'' (wait_registry a)
      in (a\<lparr>wait_registry := reg\<rparr>, h))"

definition run_facts_of :: "version_hash \<Rightarrow> registry \<Rightarrow> ticket_snapshot \<Rightarrow> run_key \<times> run_facts" where
  "run_facts_of hash reg t =
     (ts_run t, \<lparr>parked = ts_state t \<in> {Parked, Evicted}, waiting_for_capacity = ts_state t \<in> {Pending, Reserved},
                 facts_version = node_version hash reg t\<rparr>)"

definition question_edge :: "(string, string) amap \<Rightarrow> (string, run_key) amap \<Rightarrow> question_contract \<Rightarrow> wait_edge option" where
  "question_edge index by_id q =
     (if q_state q \<noteq> QPending then None
      else case map_of by_id (q_asker q) of
        None \<Rightarrow> None
      | Some asker \<Rightarrow>
          (case (if q_kind q = UserInput then Some User
                 else target_for (get_or (q_answerer q) (map_of index (q_answerer q))) by_id) of
             None \<Rightarrow> None
           | Some target \<Rightarrow> Some (wait_edge_new asker target Question (''question '' @ q_id q))))"

definition approval_edge :: "(string, run_key) amap \<Rightarrow> 'v pending_approval \<Rightarrow> wait_edge option" where
  "approval_edge by_id p =
     (case map_of by_id (pa_child_work_id p) of
        None \<Rightarrow> None
      | Some requester \<Rightarrow>
          (case target_for (pa_parent_chat_id p) by_id of
             None \<Rightarrow> None
           | Some target \<Rightarrow>
               Some (wait_edge_new requester target Approval (''approval '' @ pa_id p @ '' for '' @ pa_tool_name p))))"

definition capacity_edges :: "ticket_snapshot list \<Rightarrow> wait_edge list" where
  "capacity_edges ts =
     concat (map (\<lambda>t. map (\<lambda>holder. wait_edge_new (ts_run t) (Run (ts_run holder)) Capacity
                              (''capacity held by '' @ run_key_display (ts_run holder)))
                        (filter (\<lambda>holder. \<not> (scope_root (ts_scope holder) \<noteq> scope_root (ts_scope t) \<and>
                                             scope_project (ts_scope holder) \<noteq> scope_project (ts_scope t)))
                           (filter (\<lambda>holder. ts_state holder = Active) ts)))
       (filter (\<lambda>t. ts_state t \<in> {Pending, Reserved}) ts))"

definition push_edge :: "nat \<Rightarrow> wait_edge list \<Rightarrow> wait_edge \<Rightarrow> wait_edge list" where
  "push_edge ceiling edges e = (if length edges < ceiling then edges @ [e] else edges)"

definition millis :: "int \<Rightarrow> nat" where
  "millis now = nat (max (now div 1000000) 0)"

definition capture :: "version_hash \<Rightarrow> coordination_settings \<Rightarrow> int \<Rightarrow> 'v app \<Rightarrow> wait_graph \<times> 'v app" where
  "capture hash slot now a =
     (case child_chat_index a of
        None \<Rightarrow> (\<lparr>wg_nodes = [], wg_edges = [], wg_raw_edges = 0, wg_incomplete = Some ''agent registry busy''\<rparr>, a)
      | Some index \<Rightarrow>
          (let bounds = bounds_from_settings slot;
               tickets = snap_tickets (snapshot (work_scheduler a));
               declared = registry_edges (wait_registry a);
               (qr, questions) = list_questions None now (app_questions a);
               (ap, approvals) = undecided slot (millis now) (agent_approvals a);
               by_id = first_by_id tickets;
               runs = map (run_facts_of hash (wait_registry a)) tickets;
               ceiling = sat_add64 (max_edges bounds) 1;
               edges = foldl (push_edge ceiling) []
                 (declared @ List.map_filter (question_edge index by_id) questions @
                  List.map_filter (approval_edge by_id) approvals @ capacity_edges tickets)
           in (build runs edges bounds, a\<lparr>app_questions := qr, agent_approvals := ap\<rparr>)))"

section \<open>Scanning\<close>

definition scan_capture ::
  "version_hash \<Rightarrow> coordination_settings \<Rightarrow> (nat \<Rightarrow> int) \<Rightarrow> (nat \<Rightarrow> 'v app \<Rightarrow> 'v app) \<Rightarrow> 'v app \<times> nat
   \<Rightarrow> wait_graph \<times> 'v app \<times> nat" where
  "scan_capture hash slot clock env st =
     (case st of (a, k) \<Rightarrow>
        (case capture hash slot (clock k) (env k a) of (g, a') \<Rightarrow> (g, a', k + 1)))"

definition scan ::
  "version_hash \<Rightarrow> coordination_settings \<Rightarrow> (nat \<Rightarrow> int) \<Rightarrow> (nat \<Rightarrow> 'v app \<Rightarrow> 'v app) \<Rightarrow> 'v app \<Rightarrow> detection \<times> 'v app" where
  "scan hash slot clock env a =
     (case detect_stable (scan_capture hash slot clock env) (deadlock_detection_attempts slot) (a, 0) of
        (outcome, a1, k) \<Rightarrow>
          (case outcome of
             Deadlock report \<Rightarrow>
               (let a2 = env k a1;
                    (reg, refused) = refuse report (wait_registry a2);
                    a3 = a2\<lparr>wait_registry := reg\<rparr>
                in (outcome,
                    if deadlock_auto_cancel slot
                    then (let a4 = env (k + 1) a3
                          in a4\<lparr>work_scheduler :=
                               fst (cancel_run (get_or (we_from (closing_edge report)) refused) (work_scheduler a4))\<rparr>)
                    else a3))
           | _ \<Rightarrow> (outcome, a1)))"

section \<open>The view of a caller\<close>

record wait_graph_view =
  wv_nodes :: "wait_node list"
  wv_edges :: "wait_edge list"
  wv_withheld_nodes :: nat
  wv_incomplete :: "string option"
  wv_deadlock :: "deadlock_report option"

definition visible_view ::
  "version_hash \<Rightarrow> coordination_settings \<Rightarrow> int \<Rightarrow> string list \<Rightarrow> 'v app \<Rightarrow> wait_graph_view \<times> 'v app" where
  "visible_view hash slot now visible a =
     (case capture hash slot now a of (g, a') \<Rightarrow>
        (let shown = filter (\<lambda>n. work_key_display (rk_work (wn_run n)) \<in> set visible) (map snd (btree_iter (wg_nodes g)));
             named = map wn_run shown;
             es = filter (\<lambda>e. we_from e \<in> set named \<and>
                    (case target_run (we_to e) of None \<Rightarrow> False | Some t \<Rightarrow> t \<in> set named)) (wg_edges g);
             report = (case latest_report (wait_registry a') of
                         None \<Rightarrow> None
                       | Some r \<Rightarrow> if list_all (\<lambda>run. work_key_display (rk_work run) \<in> set visible) (participants r)
                                   then Some r else None)
         in (\<lparr>wv_nodes = shown, wv_edges = es, wv_withheld_nodes = sat_sub (length (wg_nodes g)) (length shown),
              wv_incomplete = wg_incomplete g, wv_deadlock = report\<rparr>, a')))"

end
