(* ===== verification/Deadlock_Properties.thy ===== *)
theory Deadlock_Properties
  imports Deadlock Waitgraph_Registry Scheduler_Properties
begin

text \<open>
  What the detector guarantees across the components it joins: a reported deadlock consists
  of runs the scheduler tracks, none of which the user could wake; a scan reports only what
  two captures agree on, refuses one wait of it and, if so configured, cancels one of its
  runs, whatever other tasks do in between; and a caller is shown no run it may not see.
\<close>

section \<open>The captured edges\<close>

lemma push_fold: "length es \<le> n \<Longrightarrow> foldl (push_edge n) es xs = es @ take (n - length es) xs"
proof (induction xs arbitrary: es)
  case (Cons x xs)
  show ?case
  proof (cases "length es < n")
    case True
    then have "n - length es = Suc (n - length (es @ [x]))" by simp
    with Cons.IH [of "es @ [x]"] True show ?thesis by (simp add: push_edge_def)
  next
    case False
    with Cons.prems have "n = length es" by simp
    with Cons.IH [of es] show ?thesis by (simp add: push_edge_def)
  qed
qed simp

lemma push_all: "foldl (push_edge n) [] xs = take n xs"
  using push_fold [of "[]" n xs] by simp

text \<open>The inputs of a capture, and the waits it reads.\<close>

definition captured_runs :: "version_hash \<Rightarrow> 'v app \<Rightarrow> (run_key \<times> run_facts) list" where
  "captured_runs hash a = map (run_facts_of hash (wait_registry a)) (snap_tickets (snapshot (work_scheduler a)))"

definition captured_waits :: "coordination_settings \<Rightarrow> int \<Rightarrow> (string, string) amap \<Rightarrow> 'v app \<Rightarrow> wait_edge list" where
  "captured_waits slot now index a =
     (let tickets = snap_tickets (snapshot (work_scheduler a)); by_id = first_by_id tickets
      in registry_edges (wait_registry a) @
         List.map_filter (question_edge index by_id) (snd (list_questions None now (app_questions a))) @
         List.map_filter (approval_edge by_id) (snd (undecided slot (millis now) (agent_approvals a))) @
         capacity_edges tickets)"

lemma capture_graph:
  assumes "child_chat_index a = Some index"
  shows "fst (capture hash slot now a) =
    build (captured_runs hash a) (take (sat_add64 (deadlock_max_edges slot) 1) (captured_waits slot now index a))
      (bounds_from_settings slot)"
  using assms
  by (simp add: capture_def captured_runs_def captured_waits_def Let_def split_def push_all bounds_from_settings_def
      del: foldl_append take_append)

text \<open>A capture that is cut off at the ceiling is over the bound, so a verdict rests on all waits.\<close>

lemma verdict_uses_all_waits:
  assumes "child_chat_index a = Some index" "deadlock_max_edges slot < u64_max"
    and "detect (fst (capture hash slot now a)) = Deadlock report"
  shows "fst (capture hash slot now a) =
    build (captured_runs hash a) (captured_waits slot now index a) (bounds_from_settings slot)"
proof -
  let ?w = "captured_waits slot now index a" and ?n = "sat_add64 (deadlock_max_edges slot) 1"
  have n: "?n = deadlock_max_edges slot + 1" using assms(2) by (simp add: sat_add64_def)
  have "wg_incomplete (fst (capture hash slot now a)) = None"
    using assms(3) by (auto simp: detect_def split: option.splits)
  then have "length (take ?n ?w) \<le> deadlock_max_edges slot"
    unfolding capture_graph [OF assms(1)]
    by (auto simp: build_def Let_def size_check_def bounds_from_settings_def split: if_splits)
  then have "length ?w \<le> ?n" using n by auto
  then show ?thesis using capture_graph [OF assms(1), of hash slot now] by simp
qed

lemma valid_cycle_edges:
  assumes "valid_cycle g report"
  shows "p \<in> set (participants report) \<Longrightarrow> \<exists>e \<in> set (cycle report). we_from e = p \<and> e \<in> set (wg_edges g)"
    "e \<in> set (cycle report) \<Longrightarrow> we_from e \<in> set (participants report) \<and>
       (\<exists>t \<in> set (participants report). we_to e = Run t)"
    "closing_edge report \<in> set (cycle report)"
proof -
  let ?n = "length (participants report)"
  have v: "0 < ?n" "length (cycle report) = ?n" "set (cycle report) \<subseteq> set (wg_edges g)" "closing_edge report = last (cycle report)"
    and at: "\<And>k. k < ?n \<Longrightarrow> we_from (cycle report ! k) = participants report ! k \<and>
        we_to (cycle report ! k) = Run (participants report ! (Suc k mod ?n))"
    using assms unfolding valid_cycle_def by auto
  show "\<exists>e \<in> set (cycle report). we_from e = p \<and> e \<in> set (wg_edges g)" if "p \<in> set (participants report)"
    using that at v by (metis in_set_conv_nth nth_mem subsetD)
  show "we_from e \<in> set (participants report) \<and> (\<exists>t \<in> set (participants report). we_to e = Run t)" if "e \<in> set (cycle report)"
    using that at v(1,2) by (metis in_set_conv_nth mod_less_divisor nth_mem)
  show "closing_edge report \<in> set (cycle report)" using v by (metis last_in_set length_greater_0_conv)
qed

section \<open>Who can be in a deadlock\<close>

lemma edge_in_waits:
  "child \<in> set (registry_edges (wait_registry a)) \<Longrightarrow> child \<in> set (captured_waits slot now index a)"
  "q \<in> set (snd (list_questions None now (app_questions a))) \<Longrightarrow>
   question_edge index (first_by_id (snap_tickets (snapshot (work_scheduler a)))) q = Some e \<Longrightarrow>
   e \<in> set (captured_waits slot now index a)"
  "p \<in> set (snd (undecided slot (millis now) (agent_approvals a))) \<Longrightarrow>
   approval_edge (first_by_id (snap_tickets (snapshot (work_scheduler a)))) p = Some e \<Longrightarrow>
   e \<in> set (captured_waits slot now index a)"
  by (force simp: captured_waits_def Let_def map_filter_def)+

lemma capacity_edge_from:
  "e \<in> set (capacity_edges ts) \<Longrightarrow> \<exists>t \<in> set ts. we_from e = ts_run t \<and> ts_state t \<in> {Pending, Reserved} \<and> we_kind e = Capacity"
  by (auto simp: capacity_edges_def wait_edge_new_def)

text \<open>What the user, or someone speaking for the user, is asked to decide for a run.\<close>

definition waits_for_user :: "coordination_settings \<Rightarrow> int \<Rightarrow> (string, string) amap \<Rightarrow> 'v app \<Rightarrow> run_key \<Rightarrow> bool" where
  "waits_for_user slot now index a run \<longleftrightarrow>
     (let by_id = first_by_id (snap_tickets (snapshot (work_scheduler a))) in
      (\<exists>q \<in> set (snd (list_questions None now (app_questions a))).
         q_state q = QPending \<and> map_of by_id (q_asker q) = Some run \<and>
         (q_kind q = UserInput \<or> get_or (q_answerer q) (map_of index (q_answerer q)) \<in> set user_principals)) \<or>
      (\<exists>p \<in> set (snd (undecided slot (millis now) (agent_approvals a))).
         map_of by_id (pa_child_work_id p) = Some run \<and> pa_parent_chat_id p \<in> set user_principals) \<or>
      (\<exists>e \<in> set (registry_edges (wait_registry a)). we_from e = run \<and> is_external (we_to e)))"

lemma waits_for_user_outside:
  assumes "waits_for_user slot now index a run"
  shows "waits_outside (captured_waits slot now index a) run"
proof -
  let ?by_id = "first_by_id (snap_tickets (snapshot (work_scheduler a)))"
  consider (question) q where "q \<in> set (snd (list_questions None now (app_questions a)))" "q_state q = QPending"
      "map_of ?by_id (q_asker q) = Some run"
      "q_kind q = UserInput \<or> get_or (q_answerer q) (map_of index (q_answerer q)) \<in> set user_principals"
    | (approval) p where "p \<in> set (snd (undecided slot (millis now) (agent_approvals a)))"
      "map_of ?by_id (pa_child_work_id p) = Some run" "pa_parent_chat_id p \<in> set user_principals"
    | (wait) e where "e \<in> set (registry_edges (wait_registry a))" "we_from e = run" "is_external (we_to e)"
    using assms unfolding waits_for_user_def Let_def by blast
  then show ?thesis
  proof cases
    case question
    then have "question_edge index ?by_id q = Some (wait_edge_new run User Question (''question '' @ q_id q))"
      by (auto simp: question_edge_def target_for_def)
    from edge_in_waits(2) [OF question(1) this, of slot] show ?thesis
      by (auto simp: waits_outside_def is_external_def wait_edge_new_def intro!: bexI)
  next
    case approval
    then have "approval_edge ?by_id p = Some (wait_edge_new run User Approval (''approval '' @ pa_id p @ '' for '' @ pa_tool_name p))"
      by (simp add: approval_edge_def target_for_def)
    from edge_in_waits(3) [OF approval(1) this] show ?thesis
      by (auto simp: waits_outside_def is_external_def wait_edge_new_def intro!: bexI)
  next
    case wait
    with edge_in_waits(1) [of e a slot now index] show ?thesis by (auto simp: waits_outside_def)
  qed
qed

text \<open>
  C18: a reported deadlock is one nobody outside can resolve. Every participant is the run
  of a ticket the scheduler holds; none of them waits for the user, by a question to the
  user, an approval the user decides or a declared wait for something outside; and each
  takes part through a wait it declared or asked for, or is itself waiting for capacity.
\<close>

theorem deadlock_excludes_user_waits:
  assumes "child_chat_index a = Some index" "deadlock_max_edges slot < u64_max"
    and "detect (fst (capture hash slot now a)) = Deadlock report" "run \<in> set (participants report)"
  shows "\<not> waits_for_user slot now index a run \<and>
    (\<exists>t \<in> set (snap_tickets (snapshot (work_scheduler a))). ts_run t = run) \<and>
    ((\<exists>e \<in> set (cycle report). we_from e = run \<and> (we_kind e \<noteq> Capacity \<or> e \<in> set (registry_edges (wait_registry a)))) \<or>
     (\<exists>t \<in> set (snap_tickets (snapshot (work_scheduler a))). ts_run t = run \<and> ts_state t \<in> {Pending, Reserved}))"
proof -
  let ?runs = "captured_runs hash a" and ?raw = "captured_waits slot now index a"
  let ?g = "build ?runs ?raw (bounds_from_settings slot)" and ?ts = "snap_tickets (snapshot (work_scheduler a))"
  have g: "detect ?g = Deadlock report" using assms(3) verdict_uses_all_waits [OF assms(1,2,3)] by simp
  then have v: "valid_cycle ?g report" using detect_build_result [of ?runs ?raw "bounds_from_settings slot"] by simp
  from valid_cycle_edges(1) [OF v assms(4)] obtain e where e: "e \<in> set (cycle report)" "we_from e = run" "e \<in> set (wg_edges ?g)"
    by blast
  then have raw: "e \<in> set ?raw" and keep: "is_wait_for ?runs ?raw e"
    using keep_edge_iff [of e ?raw ?runs] by (auto simp: build_def Let_def)
  then have "known ?runs run" "\<not> waits_outside ?raw run" using e(2) by (auto simp: is_wait_for_def)
  then have "\<not> waits_for_user slot now index a run" "\<exists>t \<in> set ?ts. ts_run t = run"
    using waits_for_user_outside by (blast, force simp: known_def captured_runs_def run_facts_of_def)
  moreover have "(\<exists>e \<in> set (cycle report). we_from e = run \<and> (we_kind e \<noteq> Capacity \<or> e \<in> set (registry_edges (wait_registry a)))) \<or>
     (\<exists>t \<in> set ?ts. ts_run t = run \<and> ts_state t \<in> {Pending, Reserved})"
  proof (cases "we_kind e = Capacity \<and> e \<notin> set (registry_edges (wait_registry a))")
    case True
    then have "e \<in> set (capacity_edges ?ts)"
      using raw by (auto simp: captured_waits_def Let_def map_filter_def question_edge_def approval_edge_def wait_edge_new_def
          split: if_splits option.splits)
    from capacity_edge_from [OF this] e(2) show ?thesis by auto
  next
    case False
    with e show ?thesis by blast
  qed
  ultimately show ?thesis by blast
qed

section \<open>Scans\<close>

text \<open>
  A deadlock that comes out of the attempts was found by the first capture of an attempt and
  confirmed by the second; the attempts before it found deadlocks that were not confirmed.
  Captures are numbered: attempt \<open>j + 1\<close> makes the captures \<open>2 * j\<close> and \<open>2 * j + 1\<close>.
\<close>

lemma stable_attempts_numbered:
  assumes cap: "\<And>j. cap (st j) = (c j, st (Suc j))"
    and run: "stable_attempts cap (Suc n) left (Inconsistent n) (st (2 * n)) = (Deadlock report, s')"
  shows "\<exists>j \<ge> n. j < n + left \<and> report_attempts report = Suc j \<and> s' = st (2 * j + 2) \<and>
    detect (c (2 * j)) = Deadlock (report\<lparr>report_attempts := 1\<rparr>) \<and> stable report (c (2 * j)) (c (2 * j + 1)) \<and>
    (\<forall>m. n \<le> m \<and> m < j \<longrightarrow> (\<exists>r. detect (c (2 * m)) = Deadlock r \<and> \<not> stable r (c (2 * m)) (c (2 * m + 1))))"
  using run
proof (induction left arbitrary: n)
  case (Suc left)
  show ?case
  proof (cases "detect (c (2 * n))")
    case (Deadlock r0)
    show ?thesis
    proof (cases "stable r0 (c (2 * n)) (c (2 * n + 1))")
      case True
      with Suc.prems Deadlock have r: "report = r0\<lparr>report_attempts := Suc n\<rparr>" "s' = st (2 * n + 2)" by (auto simp: cap)
      moreover have "r0\<lparr>report_attempts := 1\<rparr> = r0" using Deadlock by (rule detect_result(2))
      ultimately show ?thesis using True Deadlock by (intro exI [of _ n]) (auto simp: stable_def)
    next
      case False
      with Suc.prems Deadlock have "stable_attempts cap (Suc (Suc n)) left (Inconsistent (Suc n)) (st (2 * Suc n)) = (Deadlock report, s')"
        by (simp add: cap)
      from Suc.IH [OF this] obtain j where j: "Suc n \<le> j" "j < Suc n + left" "report_attempts report = Suc j" "s' = st (2 * j + 2)"
        "detect (c (2 * j)) = Deadlock (report\<lparr>report_attempts := 1\<rparr>)" "stable report (c (2 * j)) (c (2 * j + 1))"
        "\<forall>m. Suc n \<le> m \<and> m < j \<longrightarrow> (\<exists>r. detect (c (2 * m)) = Deadlock r \<and> \<not> stable r (c (2 * m)) (c (2 * m + 1)))"
        by blast
      moreover have "\<exists>r. detect (c (2 * m)) = Deadlock r \<and> \<not> stable r (c (2 * m)) (c (2 * m + 1))" if "n \<le> m" "m < j" for m
        using that j(7) Deadlock False by (cases "m = n") auto
      ultimately show ?thesis by (intro exI [of _ j]) auto
    qed
  qed (use Suc.prems in \<open>simp_all add: cap\<close>)
qed simp

text \<open>
  The captures of a scan: other tasks act before each of them (\<open>env\<close>), and a capture itself
  expires questions and approvals.
\<close>

primrec after_captures ::
  "version_hash \<Rightarrow> coordination_settings \<Rightarrow> (nat \<Rightarrow> int) \<Rightarrow> (nat \<Rightarrow> 'v app \<Rightarrow> 'v app) \<Rightarrow> 'v app \<Rightarrow> nat \<Rightarrow> 'v app" where
  "after_captures hash slot clock env a 0 = a"
| "after_captures hash slot clock env a (Suc j) = snd (capture hash slot (clock j) (env j (after_captures hash slot clock env a j)))"

definition capture_no ::
  "version_hash \<Rightarrow> coordination_settings \<Rightarrow> (nat \<Rightarrow> int) \<Rightarrow> (nat \<Rightarrow> 'v app \<Rightarrow> 'v app) \<Rightarrow> 'v app \<Rightarrow> nat \<Rightarrow> wait_graph" where
  "capture_no hash slot clock env a j = fst (capture hash slot (clock j) (env j (after_captures hash slot clock env a j)))"

lemma scan_capture_numbered:
  "scan_capture hash slot clock env (after_captures hash slot clock env a j, j) =
     (capture_no hash slot clock env a j, after_captures hash slot clock env a (Suc j), Suc j)"
  by (simp add: scan_capture_def capture_no_def split_def)

lemma cancel_run_effect:
  assumes inv: "sched_inv s"
  shows "\<not> is_tracked run (fst (cancel_run run s)) \<or>
    (\<exists>i e. map_of (entries (fst (cancel_run run s))) i = Some e \<and> e_run e = run \<and> e_state e = Active \<and> e_cancel_requested e)"
proof (cases "map_of (by_run s) run")
  case None
  then show ?thesis by (simp add: cancel_run_def is_tracked_def)
next
  case (Some i)
  then obtain e where e: "map_of (entries s) i = Some e" "e_run e = run"
    using inv by (auto simp: sched_inv_def run_index_ok_def)
  show ?thesis
  proof (cases "e_state e = Active")
    case True
    with Some e show ?thesis
      by (intro disjI2) (auto simp: cancel_run_def cancel_ticket_def alist_simps)
  next
    case False
    from inv e(1) obtain s1 where s1: "remove_entry i s = (s1, Some e)" "sched_inv s1" "entries s1 = AList.delete i (entries s)"
      "sent s1 = sent s" by (rule remove_entry_Some)
    then have "map_of (by_run s1) run = None" using untracked_after_delete [OF inv _ e(1)] e(2) by simp
    then show ?thesis using Some e False s1(1)
      by (simp add: cancel_run_def cancel_ticket_def is_tracked_def split: option.split)
  qed
qed

text \<open>The invariant of the scheduler survives a scan's captures, as long as the other tasks keep it.\<close>

lemma capture_scheduler [simp]: "work_scheduler (snd (capture hash slot now a)) = work_scheduler a"
  by (simp add: capture_def Let_def split_def split: option.split)

lemma after_captures_sched:
  assumes "sched_inv (work_scheduler a)" "\<And>k b. sched_inv (work_scheduler b) \<Longrightarrow> sched_inv (work_scheduler (env k b))"
  shows "sched_inv (work_scheduler (after_captures hash slot clock env a j))"
  using assms by (induction j) auto

text \<open>
  How a registry breaks a cycle: if a wait of the cycle is registered, one such wait is
  refused with the report, its owner is the waiter, and every other wait is as before; if
  none is, the waits stay as they are and the source of the closing edge is the waiter. The
  report is the latest one, and nothing else of the registry changes.
\<close>

definition cycle_wait :: "deadlock_report \<Rightarrow> registry \<Rightarrow> nat \<Rightarrow> live_wait \<Rightarrow> bool" where
  "cycle_wait report reg gid w \<longleftrightarrow>
     map_of (waits reg) gid = Some w \<and> (\<exists>e \<in> set (cycle report). we_group e = Some gid \<and> we_from e = lw_from w)"

definition breaks_cycle :: "deadlock_report \<Rightarrow> registry \<Rightarrow> registry \<Rightarrow> run_key \<Rightarrow> bool" where
  "breaks_cycle report reg reg' waiter \<longleftrightarrow>
     latest_report reg' = Some report \<and> next_group reg' = next_group reg \<and> versions reg' = versions reg \<and>
     (if \<exists>gid w. cycle_wait report reg gid w
      then \<exists>gid w. cycle_wait report reg gid w \<and> waiter = lw_from w \<and>
             map_of (waits reg') = (map_of (waits reg))(gid \<mapsto> w\<lparr>lw_refusal := Some report\<rparr>)
      else waiter = we_from (closing_edge report) \<and> waits reg' = waits reg)"

lemma cycle_wait_matching:
  "(\<exists>e \<in> set (cycle report). matching_wait reg e = Some (gid, run)) \<longleftrightarrow> (\<exists>w. cycle_wait report reg gid w \<and> lw_from w = run)"
  by (auto simp: cycle_wait_def matching_wait_Some)

lemma refuse_breaks:
  assumes "closing_edge report \<in> set (cycle report)"
  shows "breaks_cycle report reg (fst (refuse report reg)) (get_or (we_from (closing_edge report)) (snd (refuse report reg)))"
proof -
  define sel where "sel = (case matching_wait reg (closing_edge report) of
      Some x \<Rightarrow> Some x | None \<Rightarrow> find_map (matching_wait reg) (cycle report))"
  have same: "matching_wait (reg\<lparr>latest := Some report\<rparr>) = matching_wait reg" by (simp add: matching_wait_def [abs_def])
  show ?thesis
  proof (cases sel)
    case None
    then have "matching_wait reg e = None" if "e \<in> set (cycle report)" for e
      using that by (auto simp: sel_def find_map_None split: option.splits)
    then have "\<not> cycle_wait report reg gid w" for gid w using cycle_wait_matching [of report reg gid "lw_from w"] by auto
    moreover have "refuse report reg = (reg\<lparr>latest := Some report\<rparr>, None)" using None unfolding refuse_def Let_def same sel_def by simp
    ultimately show ?thesis by (simp add: breaks_cycle_def latest_report_def)
  next
    case (Some x)
    obtain gid run where x: "x = (gid, run)" by (cases x)
    with Some assms have "\<exists>e \<in> set (cycle report). matching_wait reg e = Some (gid, run)"
      by (auto simp: sel_def split: option.splits dest!: find_map_Some)
    then obtain w where w: "cycle_wait report reg gid w" "lw_from w = run" using cycle_wait_matching by metis
    have "refuse report reg = (reg\<lparr>latest := Some report, waits := amap_modify gid (\<lambda>w. w\<lparr>lw_refusal := Some report\<rparr>) (waits reg)\<rparr>, Some run)"
      using Some x unfolding refuse_def Let_def same sel_def by simp
    moreover have "map_of (amap_modify gid (\<lambda>w. w\<lparr>lw_refusal := Some report\<rparr>) (waits reg)) =
        (map_of (waits reg))(gid \<mapsto> w\<lparr>lw_refusal := Some report\<rparr>)"
      using w(1) by (auto simp: cycle_wait_def alist_simps)
    ultimately show ?thesis using w by (auto simp: breaks_cycle_def latest_report_def)
  qed
qed

lemma captured_deadlock_valid:
  assumes "detect (fst (capture hash slot now a)) = Deadlock report"
  shows "valid_cycle (fst (capture hash slot now a)) report"
proof (cases "child_chat_index a")
  case None
  with assms show ?thesis by (simp add: capture_def detect_def)
next
  case (Some index)
  with assms show ?thesis
    unfolding capture_graph [OF Some]
    using detect_build_result [of "captured_runs hash a"
        "take (sat_add64 (deadlock_max_edges slot) 1) (captured_waits slot now index a)" "bounds_from_settings slot"]
    by simp
qed

lemma valid_cycle_attempts [simp]: "valid_cycle g (report\<lparr>report_attempts := n\<rparr>) = valid_cycle g report"
  by (simp add: valid_cycle_def)

text \<open>A run that was cancelled is gone, or it still holds its permit and knows that it has to stop.\<close>

definition run_cancelled :: "run_key \<Rightarrow> sched \<Rightarrow> bool" where
  "run_cancelled run s \<longleftrightarrow> \<not> is_tracked run s \<or>
     (\<exists>(i, e) \<in> set (entries s). e_run e = run \<and> e_state e = Active \<and> e_cancel_requested e)"

text \<open>
  C19: what a scan does about a deadlock, whatever other tasks do to the components between
  its steps. The report names its attempt \<open>j + 1\<close>: the deadlock was found in the scan's own
  capture \<open>2 * j\<close> and confirmed by its next capture, with every participant at the same
  version and as blocked as before; the deadlocks of earlier attempts were not confirmed.
  Then the registry breaks the cycle: a registered wait of it is refused if there is one, and
  its owner, or else the source of the closing edge, is the waiter, a participant. With
  automatic cancellation that run is cancelled, and no other change is made; without it the
  scheduler is left alone.
\<close>

theorem scan_resolves:
  fixes a :: "'v app"
  assumes "scan hash slot clock env a = (Deadlock report, a')"
    and "sched_inv (work_scheduler a)"
    and "\<And>k b. sched_inv (work_scheduler b) \<Longrightarrow> sched_inv (work_scheduler (env k b))"
  shows "\<exists>j waiter reg.
    let graph = capture_no hash slot clock env a; b = env (2 * j + 2) (after_captures hash slot clock env a (2 * j + 2));
        c = env (2 * j + 3) (b\<lparr>wait_registry := reg\<rparr>) in
    j < max (deadlock_detection_attempts slot) 1 \<and> report_attempts report = j + 1 \<and>
    detect (graph (2 * j)) = Deadlock (report\<lparr>report_attempts := 1\<rparr>) \<and> stable report (graph (2 * j)) (graph (2 * j + 1)) \<and>
    (\<forall>m < j. \<exists>r. detect (graph (2 * m)) = Deadlock r \<and> \<not> stable r (graph (2 * m)) (graph (2 * m + 1))) \<and>
    waiter \<in> set (participants report) \<and> breaks_cycle report (wait_registry b) reg waiter \<and>
    (if deadlock_auto_cancel slot
     then a' = c\<lparr>work_scheduler := fst (cancel_run waiter (work_scheduler c))\<rparr> \<and> run_cancelled waiter (work_scheduler a')
     else a' = b\<lparr>wait_registry := reg\<rparr>)"
proof -
  let ?cap = "scan_capture hash slot clock env" and ?st = "after_captures hash slot clock env a"
  let ?graph = "capture_no hash slot clock env a"
  obtain a1 k where st: "detect_stable ?cap (deadlock_detection_attempts slot) (a, 0) = (Deadlock report, a1, k)"
    using assms(1) by (cases "detect_stable ?cap (deadlock_detection_attempts slot) (a, 0)")
      (auto simp: scan_def Let_def split: detection.splits prod.splits)
  have "\<exists>j \<ge> 0. j < 0 + max (deadlock_detection_attempts slot) 1 \<and> report_attempts report = Suc j \<and>
      (a1, k) = (?st (2 * j + 2), 2 * j + 2) \<and> detect (?graph (2 * j)) = Deadlock (report\<lparr>report_attempts := 1\<rparr>) \<and>
      stable report (?graph (2 * j)) (?graph (2 * j + 1)) \<and>
      (\<forall>m. 0 \<le> m \<and> m < j \<longrightarrow> (\<exists>r. detect (?graph (2 * m)) = Deadlock r \<and> \<not> stable r (?graph (2 * m)) (?graph (2 * m + 1))))"
    by (rule stable_attempts_numbered [of ?cap "\<lambda>j. (?st j, j)" ?graph 0])
      (use st in \<open>simp_all add: scan_capture_numbered detect_stable_def del: after_captures.simps\<close>, simp)
  then obtain j where j: "j < max (deadlock_detection_attempts slot) 1" "report_attempts report = j + 1"
      "a1 = ?st (2 * j + 2)" "k = 2 * j + 2" "detect (?graph (2 * j)) = Deadlock (report\<lparr>report_attempts := 1\<rparr>)"
      "stable report (?graph (2 * j)) (?graph (2 * j + 1))"
      "\<forall>m < j. \<exists>r. detect (?graph (2 * m)) = Deadlock r \<and> \<not> stable r (?graph (2 * m)) (?graph (2 * m + 1))"
    by auto
  define b where "b = env k a1"
  define reg where "reg = fst (refuse report (wait_registry b))"
  define waiter where "waiter = get_or (we_from (closing_edge report)) (snd (refuse report (wait_registry b)))"
  define c where "c = env (k + 1) (b\<lparr>wait_registry := reg\<rparr>)"
  have v: "valid_cycle (?graph (2 * j)) report"
    using captured_deadlock_valid j(5) by (fastforce simp: capture_no_def)
  have broken: "breaks_cycle report (wait_registry b) reg waiter"
    unfolding reg_def waiter_def by (rule refuse_breaks [OF valid_cycle_edges(3) [OF v]])
  then have "\<exists>e \<in> set (cycle report). waiter = we_from e"
    using valid_cycle_edges(3) [OF v] unfolding breaks_cycle_def cycle_wait_def by (auto split: if_splits) metis+
  then have member: "waiter \<in> set (participants report)" using valid_cycle_edges(2) [OF v] by auto
  have "sched_inv (work_scheduler c)"
    using assms(3) after_captures_sched [OF assms(2,3)] by (simp add: c_def b_def j(3) del: after_captures.simps)
  from cancel_run_effect [OF this, of waiter]
  have cancelled: "run_cancelled waiter (fst (cancel_run waiter (work_scheduler c)))"
    unfolding run_cancelled_def by (auto dest!: map_of_SomeD)
  have "a' = (if deadlock_auto_cancel slot then c\<lparr>work_scheduler := fst (cancel_run waiter (work_scheduler c))\<rparr>
      else b\<lparr>wait_registry := reg\<rparr>)"
    using assms(1) st by (auto simp: scan_def b_def c_def reg_def waiter_def split_def Let_def split: if_splits)
  moreover have "2 * j + 3 = k + 1" using j(4) by simp
  ultimately show ?thesis
    using j broken member cancelled unfolding Let_def
    by (intro exI [of _ j] exI [of _ waiter] exI [of _ reg]) (simp add: b_def c_def numeral_3_eq_3 del: after_captures.simps)
qed

text \<open>A scan that finds the agent registry locked says so and touches nothing.\<close>

lemma scan_busy:
  assumes "child_chat_index (env 0 a) = None"
  shows "scan hash slot clock env a = (Incomplete ''agent registry busy'', env 0 a)"
proof -
  obtain n where n: "max (deadlock_detection_attempts slot) 1 = Suc n"
    by (metis max.cobounded2 not0_implies_Suc not_one_le_zero)
  from assms show ?thesis
    unfolding scan_def detect_stable_def n by (simp add: scan_capture_def capture_def detect_def)
qed

section \<open>What a caller sees\<close>

text \<open>
  The view of a caller names only runs the caller may see. Every node shown, both ends
  of every edge shown and every participant of a deadlock shown are visible; the nodes
  shown and the withheld ones together are all the nodes of the graph; and between visible
  nodes no edge is left out.
\<close>

lemma view_names_only_visible:
  assumes "visible_view hash slot now visible a = (view, a')"
  shows "let may_see = (\<lambda>run. work_key_display (rk_work run) \<in> set visible); g = fst (capture hash slot now a) in
    (\<forall>n \<in> set (wv_nodes view). may_see (wn_run n)) \<and>
    (\<forall>e \<in> set (wv_edges view). may_see (we_from e) \<and> (\<exists>t. we_to e = Run t \<and> may_see t)) \<and>
    (\<forall>r \<in> set_option (wv_deadlock view). \<forall>run \<in> set (participants r). may_see run) \<and>
    length (wv_nodes view) + wv_withheld_nodes view = length (wg_nodes g) \<and>
    (\<forall>e \<in> set (wg_edges g). we_from e \<in> wn_run ` set (wv_nodes view) \<longrightarrow>
       (\<exists>t \<in> wn_run ` set (wv_nodes view). we_to e = Run t) \<longrightarrow> e \<in> set (wv_edges view))"
proof -
  obtain g a1 where g: "capture hash slot now a = (g, a1)" by fastforce
  define shown where "shown = filter (\<lambda>n. work_key_display (rk_work (wn_run n)) \<in> set visible) (map snd (btree_iter (wg_nodes g)))"
  have view: "wv_nodes view = shown" "wv_withheld_nodes view = sat_sub (length (wg_nodes g)) (length shown)"
    "wv_edges view = filter (\<lambda>e. we_from e \<in> set (map wn_run shown) \<and>
       (case target_run (we_to e) of None \<Rightarrow> False | Some t \<Rightarrow> t \<in> set (map wn_run shown))) (wg_edges g)"
    and report: "wv_deadlock view = (case latest_report (wait_registry a1) of None \<Rightarrow> None
       | Some r \<Rightarrow> if list_all (\<lambda>run. work_key_display (rk_work run) \<in> set visible) (participants r) then Some r else None)"
    using assms unfolding visible_view_def g Let_def prod.case shown_def [symmetric] by auto
  have "length shown \<le> length (wg_nodes g)"
    using length_filter_le [of _ "map snd (btree_iter (wg_nodes g))"] by (simp add: shown_def btree_iter_def)
  moreover have "wn_run ` set shown \<subseteq> {run. work_key_display (rk_work run) \<in> set visible}" by (auto simp: shown_def)
  moreover have "(case target_run t of None \<Rightarrow> False | Some r \<Rightarrow> P r) \<longleftrightarrow> (\<exists>r. t = Run r \<and> P r)" for t P
    by (cases t) simp_all
  moreover have "\<forall>r \<in> set_option (wv_deadlock view). \<forall>run \<in> set (participants r). work_key_display (rk_work run) \<in> set visible"
    by (simp add: report list_all_iff split: option.split)
  ultimately show ?thesis unfolding view g Let_def fst_conv by (auto simp: sat_sub_def)
qed

section \<open>A small engine\<close>

text \<open>The two runs of the knot hold tickets, and each has declared a wait for the other.\<close>

definition knot_sched :: sched where
  "knot_sched = sched_run (scheduler_new default_settings)
     (map (\<lambda>name. OpReserve (admission_request_new (knot_run name)
         \<lparr>scope_project = ProjectKey ''p'', scope_root = CheckoutKey ''/r''\<rparr>)) [''a'', ''b''])"

definition knot_app :: "unit app" where
  "knot_app = \<lparr>work_scheduler = knot_sched, wait_registry = knot_registry,
     app_questions = \<lparr>qr_entries = [], qr_limits = question_limits_default\<rparr>,
     agent_approvals = approvals_new 0, child_chat_index = Some []\<rparr>"

definition plain_hash :: version_hash where
  "plain_hash a b c d = a + b + d"

lemma knot_app_tickets:
  "map ts_run (snap_tickets (snapshot knot_sched)) = [knot_run ''a'', knot_run ''b'']"
  "map ts_state (snap_tickets (snapshot knot_sched)) = [Reserved, Reserved]"
proof -
  have "enabled default_settings" "max_subchat_depth default_settings = 5" "max_outstanding default_settings = 4096"
    "max_pending default_settings = 1024"
    by (simp_all add: default_settings_def)
  then show "map ts_run (snap_tickets (snapshot knot_sched)) = [knot_run ''a'', knot_run ''b'']"
    "map ts_state (snap_tickets (snapshot knot_sched)) = [Reserved, Reserved]"
    by (simp_all add: knot_sched_def sched_run_def scheduler_new_def reserve_def insert_reservation_def new_entry_def
        counts_def Let_def amap_count_def amap_values_def in_state_def admission_request_new_def
        snapshot_def ticket_snapshot_of_def knot_run_def bset_insert_def)
qed

lemma knot_captured:
  "captured_waits slot now index knot_app = registry_edges knot_registry"
  "map fst (captured_runs hash knot_app) = [knot_run ''a'', knot_run ''b'']"
  "snd (capture hash slot now knot_app) = knot_app"
proof -
  have none: "ts_state t \<noteq> Active" if "t \<in> set (snap_tickets (snapshot knot_sched))" for t
    using that arg_cong [OF knot_app_tickets(2), of set] by (metis image_eqI insert_iff list.set(1,2) list.set_map singletonD ticket_state.distinct)
  have q: "list_questions None now (app_questions knot_app) = (app_questions knot_app, [])"
    "undecided slot n (agent_approvals knot_app) = (agent_approvals knot_app, [])" for n
    by (simp_all add: knot_app_def list_questions_def expire_questions_def sorted_questions_def undecided_def
        expire_locked_def purge_def expired_keys_def sat_sub_def mark_expired_def by_age_def approvals_new_def amap_values_def Let_def)
  show "captured_waits slot now index knot_app = registry_edges knot_registry"
    using none q by (simp add: captured_waits_def Let_def capacity_edges_def filter_False map_filter_simps) (simp add: knot_app_def)
  show "map fst (captured_runs hash knot_app) = [knot_run ''a'', knot_run ''b'']"
    using knot_app_tickets(1) by (simp add: captured_runs_def run_facts_of_def knot_app_def comp_def)
  show "snd (capture hash slot now knot_app) = knot_app"
    using q by (simp add: capture_def Let_def split_def split: option.split)
qed

definition knot_cycle :: deadlock_report where
  "knot_cycle =
     \<lparr>participants = [knot_run ''a'', knot_run ''b''], cycle = registry_edges knot_registry,
      closing_edge = registry_edges knot_registry ! 1, report_attempts = 1\<rparr>"

lemma knot_build:
  assumes "map fst runs = [knot_run ''a'', knot_run ''b'']"
  shows "detect (build runs (registry_edges knot_registry) default_bounds) = Deadlock knot_cycle"
    "map fst (wg_nodes (build runs (registry_edges knot_registry) default_bounds)) = [knot_run ''a'', knot_run ''b'']"
proof -
  from assms obtain fa fb where runs: "runs = [(knot_run ''a'', fa), (knot_run ''b'', fb)]" by auto
  show "detect (build runs (registry_edges knot_registry) default_bounds) = Deadlock knot_cycle"
    "map fst (wg_nodes (build runs (registry_edges knot_registry) default_bounds)) = [knot_run ''a'', knot_run ''b'']"
    by (simp_all add: runs knot_eval key_order_defs Let_def knot_registry_edges with_group_def progressable_def knot_cycle_def)
qed

text \<open>The default settings, with automatic cancellation.\<close>

definition cancelling :: coordination_settings where
  "cancelling = default_settings\<lparr>deadlock_auto_cancel := True\<rparr>"

lemma cancelling_fields:
  "bounds_from_settings cancelling = default_bounds" "deadlock_max_edges cancelling = 16384"
  "deadlock_auto_cancel cancelling" "deadlock_detection_attempts cancelling = 3"
  by (simp_all add: cancelling_def bounds_from_settings_def default_settings_def default_bounds_def)

lemma knot_detected_here:
  "detect (fst (capture hash cancelling now knot_app)) = Deadlock knot_cycle"
  "map fst (wg_nodes (fst (capture hash cancelling now knot_app))) = [knot_run ''a'', knot_run ''b'']"
proof -
  have "child_chat_index knot_app = Some []" by (simp add: knot_app_def)
  then show "detect (fst (capture hash cancelling now knot_app)) = Deadlock knot_cycle"
    "map fst (wg_nodes (fst (capture hash cancelling now knot_app))) = [knot_run ''a'', knot_run ''b'']"
    using knot_build [OF knot_captured(2)]
    by (simp_all add: capture_graph knot_captured(1) cancelling_fields sat_add64_def u64_max_def knot_registry_edges)
qed

theorem deadlock_excludes_user_waits_witness: "\<not> waits_for_user cancelling 0 [] knot_app (knot_run ''a'')"
  using deadlock_excludes_user_waits [OF _ _ knot_detected_here(1) [of plain_hash 0], of "[]" "knot_run ''a''"]
  by (simp add: knot_cycle_def knot_app_def cancelling_fields u64_max_def)

lemma knot_scan: "\<exists>a'. scan plain_hash cancelling (\<lambda>_. 0) (\<lambda>_ b. b) knot_app = (Deadlock knot_cycle, a')"
proof -
  let ?g = "fst (capture plain_hash cancelling 0 knot_app)"
  have cap: "scan_capture plain_hash cancelling (\<lambda>_. 0) (\<lambda>_ b. b) (knot_app, k) = (?g, knot_app, Suc k)" for k
    using knot_captured(3) by (simp add: scan_capture_def split_def)
  have "knot_cycle\<lparr>report_attempts := 1\<rparr> = knot_cycle" by (simp add: knot_cycle_def)
  moreover have "map_of (wg_nodes ?g) run \<noteq> None" if "run \<in> set (participants knot_cycle)" for run
    using that arg_cong [OF knot_detected_here(2), of set] unfolding map_of_eq_None_iff by (simp add: knot_cycle_def)
  then have "stable knot_cycle ?g ?g" unfolding stable_def by (fastforce split: option.split)
  ultimately show ?thesis
    using knot_detected_here(1) [of plain_hash 0]
    by (simp add: scan_def detect_stable_def cancelling_fields eval_nat_numeral cap split_def Let_def)
qed

theorem scan_resolves_witness:
  "\<exists>a' waiter. scan plain_hash cancelling (\<lambda>_. 0) (\<lambda>_ b. b) knot_app = (Deadlock knot_cycle, a') \<and>
     waiter \<in> set (participants knot_cycle) \<and> run_cancelled waiter (work_scheduler a')"
proof -
  obtain a' where "scan plain_hash cancelling (\<lambda>_. 0) (\<lambda>_ b. b) knot_app = (Deadlock knot_cycle, a')" using knot_scan by blast
  moreover have "sched_inv (work_scheduler knot_app)"
    unfolding knot_app_def knot_sched_def sched_run_def app.select_convs by (rule scheduler.reachable_inv)
  ultimately show ?thesis using scan_resolves [of plain_hash cancelling "\<lambda>_. 0" "\<lambda>_ b. b" knot_app knot_cycle a']
    by (auto simp: cancelling_fields Let_def simp del: after_captures.simps)
qed

lemma view_names_only_visible_example:
  "let view = fst (visible_view plain_hash cancelling 0 [''trajectory:a''] knot_app) in
   length (wv_nodes view) + wv_withheld_nodes view = 2 \<and> knot_run ''b'' \<notin> wn_run ` set (wv_nodes view)"
proof -
  obtain view a' where v: "visible_view plain_hash cancelling 0 [''trajectory:a''] knot_app = (view, a')" by fastforce
  have "length (wg_nodes (fst (capture plain_hash cancelling 0 knot_app))) = 2"
    using arg_cong [OF knot_detected_here(2), of length] by simp
  moreover have "work_key_display (rk_work (knot_run ''b'')) \<notin> set [''trajectory:a'']"
    by (simp add: knot_run_def work_key_display_def)
  ultimately show ?thesis
    using view_names_only_visible [OF v] by (auto simp: v Let_def)
qed

end
