(* ===== verification/Text_Lines.thy ===== *)
theory Text_Lines
  imports Rust_Text
begin

text \<open>
  Further string functions of the standard library, for the editors of file texts, and the
  laws of \<open>trim\<close> and \<open>lines\<close> that their proofs share: what trimming does to a string that
  starts with an ASCII character, and that \<open>lines\<close> inverts writing lines out.
\<close>

section \<open>Prefixes and suffixes\<close>

definition starts_with :: "string \<Rightarrow> string \<Rightarrow> bool" where
  "starts_with p s \<longleftrightarrow> take (length p) s = p"

definition ends_with :: "string \<Rightarrow> string \<Rightarrow> bool" where
  "ends_with p s \<longleftrightarrow> length p \<le> length s \<and> drop (length s - length p) s = p"

lemma starts_with_append [simp]: "starts_with p (p @ s)"
  by (simp add: starts_with_def)

lemma starts_with_Cons [simp]:
  "starts_with [] s" "\<not> starts_with (c # p) []" "starts_with (c # p) (d # s) \<longleftrightarrow> c = d \<and> starts_with p s"
  by (auto simp: starts_with_def)

lemma starts_with_iff: "starts_with p s \<longleftrightarrow> (\<exists>r. s = p @ r)"
  by (metis append_take_drop_id starts_with_append starts_with_def)

lemma strip_prefix_starts: "strip_prefix p s = (if starts_with p s then Some (drop (length p) s) else None)"
  by (simp add: strip_prefix_def starts_with_def)

section \<open>Trimming\<close>

text \<open>A printable ASCII character is no part of a white-space character.\<close>

definition printable :: "char \<Rightarrow> bool" where
  "printable c \<longleftrightarrow> 32 < byte c \<and> byte c < 128"

lemma ws_len_printable [simp]: "printable c \<Longrightarrow> ws_len (c # s) = 0"
  by (cases s; cases "tl s") (auto simp: ws_len_def printable_def)

lemma trim_start_printable [simp]: "printable c \<Longrightarrow> trim_start (c # s) = c # s"
  by (simp add: trim_start.simps)

lemma ws_len_small: "byte c < 128 \<Longrightarrow> ws_len (c # s) \<le> 1"
  by (cases s; cases "tl s") (auto simp: ws_len_def)

lemma trim_start_space [simp]: "trim_start (CHR '' '' # s) = trim_start s"
proof -
  have "ws_len (CHR '' '' # s) = 1" by (simp add: ws_len_def byte_def)
  then show ?thesis by (simp add: trim_start.simps [of "CHR '' '' # s"])
qed

lemma ws_end_len_le: "ws_end_len s \<le> length s"
  by (auto simp: ws_end_len_def Suc_leI)

lemma ws_end_len_Cons:
  assumes "byte c < 128" "s \<noteq> []"
  shows "ws_end_len (c # s) = ws_end_len s"
proof -
  have *: "ws_len (c # t) \<noteq> 2" "ws_len (c # t) \<noteq> 3" for t using ws_len_small [OF assms(1), of t] by auto
  show ?thesis
  proof (cases "length s \<le> 2")
    case True
    with assms(2) consider a where "s = [a]" | a b where "s = [a, b]"
      by (cases s; cases "tl s"; force)
    then show ?thesis by cases (use * in \<open>auto simp: ws_end_len_def\<close>)
  next
    case False
    then show ?thesis
      using assms(2) by (simp add: ws_end_len_def drop_Cons' numeral_eq_Suc)
  qed
qed

lemma trim_end_printable:
  "printable c \<Longrightarrow> trim_end (c # s) = c # trim_end s"
proof (induction s rule: trim_end.induct)
  case (1 s)
  have c: "byte c < 128" "ws_len [c] = 0" using 1(2) by (auto simp: printable_def)
  show ?case
  proof (cases "s = []")
    case True
    with c show ?thesis by (simp add: trim_end.simps ws_end_len_def)
  next
    case False
    note ws = ws_end_len_Cons [OF c(1) False]
    show ?thesis
    proof (cases "ws_end_len s = 0")
      case True
      with ws show ?thesis by (simp add: trim_end.simps [of s] trim_end.simps [of "c # s"])
    next
      case n: False
      have "take (length (c # s) - ws_end_len s) (c # s) = c # take (length s - ws_end_len s) s"
        using ws_end_len_le [of s] by (simp add: Suc_diff_le)
      with n ws 1 show ?thesis by (simp add: trim_end.simps [of s] trim_end.simps [of "c # s"])
    qed
  qed
qed

lemma trim_printable: "printable c \<Longrightarrow> trim (c # s) = c # trim_end s"
  by (simp add: trim_def trim_end_printable)

text \<open>A trimmed text stays as it is behind an ASCII prefix.\<close>

lemma trim_end_ascii_prefix:
  assumes "\<forall>c \<in> set p. byte c < 128" "s \<noteq> []" "trim_end s = s"
  shows "trim_end (p @ s) = p @ s"
proof -
  have "ws_end_len s = 0"
  proof (rule ccontr)
    assume n: "ws_end_len s \<noteq> 0"
    then have "length (trim_end s) \<le> length s - ws_end_len s"
      using trim_end_prefix [of "take (length s - ws_end_len s) s"] trim_end.simps [of s]
      by (metis length_append le_add1 length_take min.cobounded2 order_trans min.coboundedI2 le_refl)
    with n assms(2,3) ws_end_len_le [of s] show False by (cases s) auto
  qed
  moreover have "ws_end_len (p @ s) = ws_end_len s"
    using assms(1) by (induction p) (simp_all add: ws_end_len_Cons assms(2))
  ultimately show ?thesis by (simp add: trim_end.simps [of "p @ s"])
qed

text \<open>Trimming is idempotent.\<close>

lemma trim_end_idem [simp]: "trim_end (trim_end s) = trim_end s"
proof (induction s rule: trim_end.induct)
  case (1 s)
  show ?case
  proof (cases "ws_end_len s = 0")
    case True
    then show ?thesis by (simp add: trim_end.simps [of s])
  next
    case False
    then have "trim_end s = trim_end (take (length s - ws_end_len s) s)" by (simp add: trim_end.simps [of s])
    with 1 False show ?thesis by simp
  qed
qed

lemma ws_len_append: "ws_len s \<noteq> 0 \<Longrightarrow> ws_len (s @ t) = ws_len s"
  by (cases s; cases "tl s"; cases "tl (tl s)"; auto simp: ws_len_def split: if_split_asm)

lemma ws_len_trim_start [simp]: "ws_len (trim_start s) = 0"
  by (induction s rule: trim_start.induct) (simp add: trim_start.simps)

lemma ws_len_trim [simp]: "ws_len (trim s) = 0"
  using trim_end_prefix [of "trim_start s"] ws_len_append ws_len_trim_start unfolding trim_def by metis

lemma trim_idem [simp]: "trim (trim s) = trim s"
proof -
  have "trim_start (trim s) = trim s" by (simp add: trim_start.simps [of "trim s"])
  then show ?thesis unfolding trim_def [of "trim s"] by (simp add: trim_def)
qed

lemma trim_no_leading_space: "\<not> starts_with '' '' (trim s)"
proof
  assume "starts_with '' '' (trim s)"
  then have "ws_len (trim s) = 1" by (auto simp: starts_with_iff ws_len_def byte_def)
  then show False by simp
qed

section \<open>Lines\<close>

definition write_lines :: "string list \<Rightarrow> string" where
  "write_lines ls = concat (map (\<lambda>l. l @ [newline]) ls)"

text \<open>A text that \<open>lines\<close> reads as one line.\<close>

definition is_line :: "string \<Rightarrow> bool" where
  "is_line l \<longleftrightarrow> newline \<notin> set l \<and> (l = [] \<or> last l \<noteq> carriage_return)"

lemma lines_from_line:
  "newline \<notin> set l \<Longrightarrow> lines_from acc (l @ newline # cs) = rev (drop_cr (rev l @ acc)) # lines_from [] cs"
  by (induction l arbitrary: acc) auto

lemma lines_write_lines: "list_all is_line ls \<Longrightarrow> lines (write_lines ls @ s) = ls @ lines s"
proof (induction ls)
  case Nil
  then show ?case by (simp add: write_lines_def)
next
  case (Cons l ls)
  have "rev (drop_cr (rev l)) = l"
    using Cons.prems by (cases l rule: rev_cases) (auto simp: drop_cr_def is_line_def)
  with Cons show ?case
    by (simp add: write_lines_def lines_def lines_from_line is_line_def)
qed

lemma join_write_lines: "ls \<noteq> [] \<Longrightarrow> join_strings [newline] ls @ [newline] = write_lines ls"
  by (induction ls rule: induct_list012) (simp_all add: write_lines_def)

end
