(* ===== verification/Splices.thy ===== *)
theory Splices
  imports Prelude
begin

text \<open>
  Replacing parts of a list or text. The editors of the source compute replacements in the
  order of their positions and apply them from the last to the first, so that a change does
  not move the positions that are still to come. The interface \<open>back_to_front\<close> says what
  that computes: what the replacements mean when they are read from left to right.

  A range that starts after its end or ends after the list makes the source panic: \<open>None\<close>.
\<close>

definition splice :: "nat \<Rightarrow> nat \<Rightarrow> 'a list \<Rightarrow> 'a list \<Rightarrow> 'a list option" where
  "splice start_idx end_idx new xs =
     (if start_idx \<le> end_idx \<and> end_idx \<le> length xs then Some (take start_idx xs @ new @ drop end_idx xs) else None)"

primrec run_steps :: "('r \<Rightarrow> 'a list \<Rightarrow> 'a list option) \<Rightarrow> 'r list \<Rightarrow> 'a list \<Rightarrow> 'a list option" where
  "run_steps step [] xs = Some xs"
| "run_steps step (r # rs) xs = Option.bind (step r xs) (run_steps step rs)"

lemma run_steps_append: "run_steps step (rs @ rs') xs = Option.bind (run_steps step rs xs) (run_steps step rs')"
proof (induction rs arbitrary: xs)
  case (Cons r rs)
  then show ?case by (cases "step r xs") simp_all
qed simp

text \<open>
  The meaning of a list of replacements, each a start, a length and the new elements: what
  is before the first one is kept, then come its new elements, and so on.
\<close>

fun rewrite_from :: "nat \<Rightarrow> (nat \<times> nat \<times> 'a list) list \<Rightarrow> 'a list \<Rightarrow> 'a list" where
  "rewrite_from k [] xs = drop k xs"
| "rewrite_from k ((i, n, new) # rs) xs = take (i - k) (drop k xs) @ new @ rewrite_from (i + n) rs xs"

fun placed :: "nat \<Rightarrow> (nat \<times> nat \<times> 'a list) list \<Rightarrow> nat \<Rightarrow> bool" where
  "placed k [] len \<longleftrightarrow> k \<le> len"
| "placed k ((i, n, new) # rs) len \<longleftrightarrow> k \<le> i \<and> placed (i + n) rs len"

lemma placed_bound: "placed k rs len \<Longrightarrow> k \<le> len"
  by (induction k rs len rule: placed.induct) auto

lemma rewrite_from_advance:
  "k \<le> k' \<Longrightarrow> placed k' rs (length xs) \<Longrightarrow> rewrite_from k rs xs = take (k' - k) (drop k xs) @ rewrite_from k' rs xs"
proof (cases rs)
  case Nil
  assume "k \<le> k'"
  with Nil show ?thesis using append_take_drop_id [of "k' - k" "drop k xs"] by simp
next
  case (Cons r rs')
  obtain i n new where r: "r = (i, n, new)" by (cases r)
  assume "k \<le> k'" "placed k' rs (length xs)"
  then have "k \<le> k'" "k' \<le> i" using Cons r by auto
  then have "i - k = (k' - k) + (i - k')" "drop (k' - k) (drop k xs) = drop k' xs" by simp_all
  then have "take (i - k) (drop k xs) = take (k' - k) (drop k xs) @ take (i - k') (drop k' xs)" by (metis take_add)
  with Cons r show ?thesis by simp
qed

locale back_to_front =
  fixes step :: "'r \<Rightarrow> 'a list \<Rightarrow> 'a list option" and meaning :: "'r \<Rightarrow> nat \<times> nat \<times> 'a list" and valid :: "'r \<Rightarrow> bool"
  assumes step_splice: "valid r \<Longrightarrow> meaning r = (i, n, new) \<Longrightarrow> i + n \<le> length xs \<Longrightarrow>
    step r xs = Some (take i xs @ new @ drop (i + n) xs)"
begin

lemma run_rewrite_from:
  "list_all valid rs \<Longrightarrow> placed k (map meaning rs) (length xs) \<Longrightarrow>
   run_steps step (rev rs) xs = Some (take k xs @ rewrite_from k (map meaning rs) xs)"
proof (induction rs arbitrary: k)
  case (Cons r rs)
  obtain i n new where r: "meaning r = (i, n, new)" by (cases "meaning r")
  with Cons have IH: "run_steps step (rev rs) xs = Some (take (i + n) xs @ rewrite_from (i + n) (map meaning rs) xs)"
    and k: "k \<le> i" and le: "i + n \<le> length xs" and v: "valid r" using placed_bound [of "i + n"] by auto
  have "take k xs @ take (i - k) (drop k xs) = take i xs" using k by (metis le_add_diff_inverse take_add)
  with IH le r step_splice [OF v r, of "take (i + n) xs @ rewrite_from (i + n) (map meaning rs) xs"] show ?case
    by (simp add: run_steps_append)
qed simp

lemma run_rewrite:
  "list_all valid rs \<Longrightarrow> placed 0 (map meaning rs) (length xs) \<Longrightarrow>
   run_steps step (rev rs) xs = Some (rewrite_from 0 (map meaning rs) xs)"
  using run_rewrite_from [of rs 0] by simp

end

end
