(* ===== verification/Patch.thy ===== *)
theory Patch
  imports Text_Lines Splices
begin

text \<open>
  Patches in the format of the \<open>apply_patch\<close> tool (\<open>refact-file-edit-core/src/openai_apply_patch.rs\<close>):
  the parser, the check of paths and the application of an update to a file's text.

  The parsing loops of the source run an index over the slice of all lines. Here the index
  comes with the lines from it on, so \<open>lines[i]\<close> is the head of the list and the loop ends
  with the list. A splice of a vector that would panic is \<open>None\<close>.
\<close>

section \<open>Operations and errors\<close>

record update_chunk =
  change_context :: "string list"
  old_lines :: "string list"
  new_lines :: "string list"
  is_end_of_file :: bool

datatype file_operation =
    AddFile string string
  | DeleteFile string
  | UpdateFile string "string option" "update_chunk list"

datatype parse_error =
    InvalidPatch string
  | InvalidHunk string nat

primrec parse_error_display :: "parse_error \<Rightarrow> string" where
  "parse_error_display (InvalidPatch msg) = ''Invalid patch: '' @ msg"
| "parse_error_display (InvalidHunk msg n) = ''Invalid hunk at line '' @ show_nat n @ '': '' @ msg"

section \<open>Parsing\<close>

definition header_path :: "string \<Rightarrow> string \<Rightarrow> string option" where
  "header_path prefix header = map_option trim (strip_prefix prefix (trim header))"

text \<open>\<open>parse_add_file\<close>: the lines of the new file.\<close>

fun add_lines :: "nat \<Rightarrow> string list \<Rightarrow> parse_error + string list \<times> nat \<times> string list" where
  "add_lines i [] = Inr ([], i, [])"
| "add_lines i (line # ls) =
     (if starts_with ''*** '' (trim line) then Inr ([], i, line # ls)
      else if starts_with ''+'' line
      then (case add_lines (i + 1) ls of
              Inl e \<Rightarrow> Inl e
            | Inr (content, j, rest) \<Rightarrow> Inr (drop 1 line # content, j, rest))
      else Inl (InvalidHunk (''Add File lines must start with '' @ single_quote @ ''+'' @ single_quote @ '', found: '' @
                             single_quote @ line @ single_quote) (i + 1)))"

definition parse_add_file :: "nat \<Rightarrow> string \<Rightarrow> string list \<Rightarrow> parse_error + file_operation \<times> nat \<times> string list" where
  "parse_add_file start header ls =
     (case header_path ''*** Add File:'' header of
        None \<Rightarrow> Inl (InvalidPatch ''Invalid Add File header'')
      | Some path \<Rightarrow>
          if path = [] then Inl (InvalidHunk ''Add File path cannot be empty'' (start + 1))
          else (case add_lines (start + 1) ls of
                  Inl e \<Rightarrow> Inl e
                | Inr (content, i, rest) \<Rightarrow>
                    Inr (AddFile path (if content = [] then [] else join_strings [newline] content @ [newline]), i, rest)))"

definition parse_delete_file :: "nat \<Rightarrow> string \<Rightarrow> string list \<Rightarrow> parse_error + file_operation \<times> nat \<times> string list" where
  "parse_delete_file start header ls =
     (case header_path ''*** Delete File:'' header of
        None \<Rightarrow> Inl (InvalidPatch ''Invalid Delete File header'')
      | Some path \<Rightarrow>
          if path = [] then Inl (InvalidHunk ''Delete File path cannot be empty'' (start + 1))
          else Inr (DeleteFile path, start + 1, ls))"

text \<open>\<open>parse_hunk\<close>: the context headers, then the diff lines.\<close>

fun hunk_contexts :: "nat \<Rightarrow> string list \<Rightarrow> string list \<times> nat \<times> string list" where
  "hunk_contexts i [] = ([], i, [])"
| "hunk_contexts i (line # ls) =
     (if starts_with ''@@'' (trim line)
      then (case hunk_contexts (i + 1) ls of (contexts, j, rest) \<Rightarrow>
              let ctx = trim (drop 2 (trim line))
              in (if ctx = [] then contexts else ctx # contexts, j, rest))
      else ([], i, line # ls))"

fun hunk_lines :: "nat \<Rightarrow> string list \<Rightarrow> parse_error + string list \<times> string list \<times> bool \<times> nat \<times> string list" where
  "hunk_lines i [] = Inr ([], [], False, i, [])"
| "hunk_lines i (line # ls) =
     (if starts_with ''*** End of File'' (trim line) then Inr ([], [], True, i + 1, ls)
      else if starts_with ''*** '' (trim line) \<or> starts_with ''@@'' (trim line) then Inr ([], [], False, i, line # ls)
      else if starts_with ''+'' line \<or> starts_with ''-'' line \<or> starts_with '' '' line \<or> line = []
      then (case hunk_lines (i + 1) ls of
              Inl e \<Rightarrow> Inl e
            | Inr (old, new, eof, j, rest) \<Rightarrow>
                if starts_with ''+'' line then Inr (old, drop 1 line # new, eof, j, rest)
                else if starts_with ''-'' line then Inr (drop 1 line # old, new, eof, j, rest)
                else Inr (drop 1 line # old, drop 1 line # new, eof, j, rest))
      else Inl (InvalidHunk (''Invalid diff line (must start with +, -, or space): '' @ single_quote @ line @ single_quote)
                  (i + 1)))"

definition parse_hunk :: "nat \<Rightarrow> string list \<Rightarrow> parse_error + update_chunk \<times> nat \<times> string list" where
  "parse_hunk start ls =
     (case hunk_contexts start ls of (contexts, i, body) \<Rightarrow>
        (case hunk_lines i body of
           Inl e \<Rightarrow> Inl e
         | Inr (old, new, eof, j, rest) \<Rightarrow>
             Inr (\<lparr>change_context = contexts, old_lines = old, new_lines = new, is_end_of_file = eof\<rparr>, j, rest)))"

definition opens_hunk :: "string \<Rightarrow> bool" where
  "opens_hunk line \<longleftrightarrow>
     starts_with ''@@'' line \<or> starts_with ''+'' line \<or> starts_with ''-'' line \<or> starts_with '' '' line"

definition ends_update :: "string \<Rightarrow> bool" where
  "ends_update line \<longleftrightarrow>
     starts_with ''*** Add File:'' line \<or> starts_with ''*** Delete File:'' line \<or>
     starts_with ''*** Update File:'' line \<or> starts_with ''*** End Patch'' line"

text \<open>A hunk takes at least the line that opens it, so the loop over hunks ends.\<close>

lemma hunk_contexts_length: "length (snd (snd (hunk_contexts i ls))) \<le> length ls"
  by (induction i ls rule: hunk_contexts.induct) (auto simp: Let_def split: prod.splits)

lemma hunk_lines_length: "hunk_lines i ls = Inr (old, new, eof, j, rest) \<Longrightarrow> length rest \<le> length ls"
proof (induction i ls arbitrary: old new eof j rest rule: hunk_lines.induct)
  case (2 i line ls)
  show ?case
  proof (cases "hunk_lines (i + 1) ls")
    case (Inl e)
    with "2.prems" show ?thesis by (auto split: if_splits)
  next
    case (Inr r)
    obtain old' new' eof' j' rest' where r: "r = (old', new', eof', j', rest')" by (cases r)
    have "length rest' \<le> length ls" if "hunk_lines i (line # ls) \<noteq> Inr ([], [], True, i + 1, ls)"
      "hunk_lines i (line # ls) \<noteq> Inr ([], [], False, i, line # ls)"
      using "2.IH" "2.prems" Inr r that by (auto split: if_splits)
    with "2.prems" Inr r show ?thesis by (auto split: if_splits)
  qed
qed simp

lemma parse_hunk_shorter:
  assumes "opens_hunk (trim line)" "parse_hunk i (line # ls) = Inr (chunk, j, rest)"
  shows "length rest < length (line # ls)"
proof (cases "starts_with ''@@'' (trim line)")
  case True
  with assms(2) show ?thesis
    using hunk_contexts_length [of "i + 1" ls]
    by (fastforce simp: parse_hunk_def Let_def dest: hunk_lines_length split: sum.splits prod.splits)
next
  case False
  then have "\<not> starts_with ''*** '' (trim line)" "\<not> starts_with ''*** End of File'' (trim line)"
    using assms(1) by (cases "trim line"; auto simp: opens_hunk_def)+
  with assms(2) False show ?thesis
    by (fastforce simp: parse_hunk_def dest: hunk_lines_length split: if_splits sum.splits prod.splits)
qed

function update_chunks :: "nat \<Rightarrow> string list \<Rightarrow> parse_error + update_chunk list \<times> nat \<times> string list" where
  "update_chunks i [] = Inr ([], i, [])"
| "update_chunks i (line # ls) =
     (if ends_update (trim line) then Inr ([], i, line # ls)
      else if opens_hunk (trim line)
      then (case parse_hunk i (line # ls) of
              Inl e \<Rightarrow> Inl e
            | Inr (chunk, j, rest) \<Rightarrow>
                (case update_chunks j rest of
                   Inl e \<Rightarrow> Inl e
                 | Inr (chunks, k, rest') \<Rightarrow> Inr (chunk # chunks, k, rest')))
      else if trim line = [] then update_chunks (i + 1) ls
      else Inl (InvalidHunk (''Unexpected line in Update File: '' @ single_quote @ trim line @ single_quote) (i + 1)))"
  by pat_completeness auto
termination
  by (relation "measure (\<lambda>(i, ls). length ls)") (auto dest: parse_hunk_shorter)

declare update_chunks.simps(2) [simp del]

definition parse_update_file :: "nat \<Rightarrow> string \<Rightarrow> string list \<Rightarrow> parse_error + file_operation \<times> nat \<times> string list" where
  "parse_update_file start header ls =
     (case header_path ''*** Update File:'' header of
        None \<Rightarrow> Inl (InvalidPatch ''Invalid Update File header'')
      | Some path \<Rightarrow>
          if path = [] then Inl (InvalidHunk ''Update File path cannot be empty'' (start + 1))
          else
            (let moves = (ls \<noteq> [] \<and> starts_with ''*** Move to:'' (trim (hd ls)));
                 move_path = trim (drop 12 (trim (hd ls)));
                 i = (if moves then start + 2 else start + 1);
                 body = (if moves then tl ls else ls)
             in if moves \<and> move_path = [] then Inl (InvalidHunk ''Move to path cannot be empty'' (start + 2))
                else case update_chunks i body of
                  Inl e \<Rightarrow> Inl e
                | Inr (chunks, j, rest) \<Rightarrow>
                    if chunks = [] then Inl (InvalidHunk ''Update File requires at least one hunk'' (start + 1))
                    else Inr (UpdateFile path (if moves then Some move_path else None) chunks, j, rest)))"

lemma add_lines_length: "add_lines i ls = Inr (content, j, rest) \<Longrightarrow> length rest \<le> length ls"
  by (induction i ls arbitrary: content j rest rule: add_lines.induct)
    (fastforce split: if_splits sum.splits)+

lemma update_chunks_length: "update_chunks i ls = Inr (chunks, j, rest) \<Longrightarrow> length rest \<le> length ls"
proof (induction i ls arbitrary: chunks j rest rule: update_chunks.induct)
  case (2 i line ls)
  then show ?case
    by (auto simp: update_chunks.simps split: if_splits sum.splits dest!: parse_hunk_shorter) (meson less_imp_le_nat order.trans not_less_eq_eq)+
qed simp

lemma parse_operation_length:
  "parse_add_file i line ls = Inr (op, j, rest) \<Longrightarrow> length rest \<le> length ls"
  "parse_delete_file i line ls = Inr (op, j, rest) \<Longrightarrow> length rest \<le> length ls"
  "parse_update_file i line ls = Inr (op, j, rest) \<Longrightarrow> length rest \<le> length ls"
  by (auto simp: parse_add_file_def parse_delete_file_def parse_update_file_def Let_def
      split: option.splits if_splits sum.splits dest: add_lines_length update_chunks_length)

text \<open>The main loop: the operations, and whether the end marker was found.\<close>

function parse_operations :: "nat \<Rightarrow> string list \<Rightarrow> parse_error + file_operation list \<times> bool" where
  "parse_operations i [] = Inr ([], False)"
| "parse_operations i (raw # ls) =
     (let line = trim raw in
      if starts_with ''*** End Patch'' line then Inr ([], True)
      else if line = [] then parse_operations (i + 1) ls
      else case (if starts_with ''*** Add File:'' line then parse_add_file i raw ls
                 else if starts_with ''*** Delete File:'' line then parse_delete_file i raw ls
                 else if starts_with ''*** Update File:'' line then parse_update_file i raw ls
                 else Inl (InvalidHunk (''Unexpected line: '' @ single_quote @ line @ single_quote) (i + 1))) of
             Inl e \<Rightarrow> Inl e
           | Inr (op, j, rest) \<Rightarrow>
               (case parse_operations j rest of
                  Inl e \<Rightarrow> Inl e
                | Inr (ops, found) \<Rightarrow> Inr (op # ops, found)))"
  by pat_completeness auto
termination
  by (relation "measure (\<lambda>(i, ls). length ls)")
    (auto split: if_splits dest!: parse_operation_length)

declare parse_operations.simps(2) [simp del]

fun skip_blank :: "nat \<Rightarrow> string list \<Rightarrow> nat \<times> string list" where
  "skip_blank i [] = (i, [])"
| "skip_blank i (line # ls) = (if trim line = [] then skip_blank (i + 1) ls else (i, line # ls))"

definition parse_patch :: "string \<Rightarrow> parse_error + file_operation list" where
  "parse_patch patch =
     (case skip_blank 0 (lines patch) of (i, ls) \<Rightarrow>
        if ls = [] \<or> \<not> starts_with ''*** Begin Patch'' (trim (hd ls))
        then Inl (InvalidPatch (''Patch must start with '' @ single_quote @ ''*** Begin Patch'' @ single_quote))
        else case parse_operations (i + 1) (tl ls) of
               Inl e \<Rightarrow> Inl e
             | Inr (ops, found_end_patch) \<Rightarrow>
                 if \<not> found_end_patch
                 then Inl (InvalidPatch (''Patch must end with '' @ single_quote @ ''*** End Patch'' @ single_quote))
                 else if ops = [] then Inl (InvalidPatch ''No file operations found'')
                 else Inr ops)"

section \<open>Paths\<close>

text \<open>
  \<open>Path::components\<close> of a path with no prefix: empty components are skipped, and so is a
  dot, except at the start of a relative path.
\<close>

datatype path_component = RootDir | CurDir | ParentDir | Normal string

definition component_of :: "string \<Rightarrow> path_component option" where
  "component_of s = (if s = [] \<or> s = ''.'' then None else if s = ''..'' then Some ParentDir else Some (Normal s))"

definition path_components :: "string \<Rightarrow> path_component list" where
  "path_components path =
     (if starts_with ''/'' path then [RootDir]
      else if path \<noteq> [] \<and> hd (split_on (CHR ''/'') path) = ''.'' then [CurDir] else []) @
     List.map_filter component_of (split_on (CHR ''/'') path)"

text \<open>The depth is an \<open>i32\<close>.\<close>

definition wrap_i32 :: "int \<Rightarrow> int" where
  "wrap_i32 x = signed_take_bit 31 x"

fun check_components :: "string \<Rightarrow> int \<Rightarrow> path_component list \<Rightarrow> string + unit" where
  "check_components path depth [] = Inr ()"
| "check_components path depth (c # cs) =
     (case c of
        ParentDir \<Rightarrow>
          let d = wrap_i32 (depth - 1)
          in if d < 0 then Inl (''Path escapes workspace: '' @ single_quote @ path @ single_quote)
             else check_components path d cs
      | Normal _ \<Rightarrow> check_components path (wrap_i32 (depth + 1)) cs
      | CurDir \<Rightarrow> check_components path depth cs
      | RootDir \<Rightarrow> Inl (''Invalid path component in: '' @ single_quote @ path @ single_quote))"

definition is_ascii_alphabetic :: "char \<Rightarrow> bool" where
  "is_ascii_alphabetic c \<longleftrightarrow> 65 \<le> byte c \<and> byte c \<le> 90 \<or> 97 \<le> byte c \<and> byte c \<le> 122"

abbreviation backslash :: char where
  "backslash \<equiv> CHR 0x5C"

definition validate_relative_path :: "string \<Rightarrow> string + string" where
  "validate_relative_path raw =
     (let path = trim raw in
      if path = [] then Inl ''Path cannot be empty''
      else if starts_with ''/'' path \<or> 2 \<le> length path \<and> path ! 1 = CHR '':'' \<and> is_ascii_alphabetic (path ! 0)
      then Inl (''Absolute paths not allowed: '' @ single_quote @ path @ single_quote)
      else if starts_with [backslash, backslash] path
      then Inl (''UNC paths not allowed: '' @ single_quote @ path @ single_quote)
      else if backslash \<in> set path
      then Inl (''Backslashes not allowed in paths: '' @ single_quote @ path @ single_quote)
      else case check_components path 0 (path_components path) of
             Inl e \<Rightarrow> Inl e
           | Inr _ \<Rightarrow> Inr path)"

section \<open>Applying an update\<close>

text \<open>\<open>normalize_line\<close>: dashes and quotation marks in their ASCII form, on UTF-8 bytes.\<close>

fun normalize_chars :: "string \<Rightarrow> string" where
  "normalize_chars (a # b # c # s) =
     (if byte a = 0xE2 \<and> (byte b = 0x80 \<and> byte c \<in> {0x93, 0x94, 0x91} \<or> byte b = 0x88 \<and> byte c = 0x92)
      then CHR ''-'' # normalize_chars s
      else if byte a = 0xE2 \<and> byte b = 0x80 \<and> byte c \<in> {0x98, 0x99} then CHR 0x27 # normalize_chars s
      else if byte a = 0xE2 \<and> byte b = 0x80 \<and> byte c \<in> {0x9C, 0x9D} then CHR 0x22 # normalize_chars s
      else a # normalize_chars (b # c # s))"
| "normalize_chars s = s"

definition normalize_line :: "string \<Rightarrow> string" where
  "normalize_line s = normalize_chars (trim_end s)"

definition lines_match_normalized :: "string \<Rightarrow> string \<Rightarrow> bool" where
  "lines_match_normalized a b \<longleftrightarrow> normalize_line a = normalize_line b"

definition matches_sequence :: "string list \<Rightarrow> string list \<Rightarrow> bool" where
  "matches_sequence haystack needle \<longleftrightarrow>
     length needle \<le> length haystack \<and> list_all (\<lambda>(h, n). h = n \<or> trim_end h = trim_end n) (zip haystack needle)"

definition matches_sequence_normalized :: "string list \<Rightarrow> string list \<Rightarrow> bool" where
  "matches_sequence_normalized haystack needle \<longleftrightarrow>
     length needle \<le> length haystack \<and> list_all (\<lambda>(h, n). lines_match_normalized h n) (zip haystack needle)"

definition seek_sequence :: "string list \<Rightarrow> string list \<Rightarrow> nat \<Rightarrow> bool \<Rightarrow> nat option" where
  "seek_sequence haystack needle start_from at_end =
     (if needle = [] then None
      else
        let max_idx = sat_sub (length haystack) (length needle);
            places = (if at_end then rev [start_from..<Suc max_idx] else [start_from..<Suc max_idx])
        in case List.find (\<lambda>i. matches_sequence (drop i haystack) needle) places of
             Some i \<Rightarrow> Some i
           | None \<Rightarrow> List.find (\<lambda>i. matches_sequence_normalized (drop i haystack) needle) places)"

text \<open>The lines of context move the index on; a missing one is an error.\<close>

fun seek_contexts :: "string list \<Rightarrow> nat \<Rightarrow> string list \<Rightarrow> string + nat" where
  "seek_contexts original line_index [] = Inr line_index"
| "seek_contexts original line_index (ctx # ctxs) =
     (case seek_sequence original [ctx] line_index False of
        None \<Rightarrow> Inl (''Failed to find context '' @ single_quote @ ctx @ single_quote @ '' in file'')
      | Some i \<Rightarrow> seek_contexts original (i + 1) ctxs)"

type_synonym replacement = "nat \<times> nat \<times> string list \<times> nat"

definition drop_empty_last :: "string list \<Rightarrow> string list" where
  "drop_empty_last xs = (if xs \<noteq> [] \<and> last xs = [] then butlast xs else xs)"

text \<open>Where the old lines of a chunk are, how many they are, and what replaces them.\<close>

definition find_old :: "string list \<Rightarrow> update_chunk \<Rightarrow> nat \<Rightarrow> nat option \<times> nat \<times> string list" where
  "find_old original chunk line_index =
     (let pattern = old_lines chunk; eof = is_end_of_file chunk in
      case seek_sequence original pattern line_index eof of
        Some i \<Rightarrow> (Some i, length pattern, new_lines chunk)
      | None \<Rightarrow>
          if pattern \<noteq> [] \<and> last pattern = []
          then (seek_sequence original (butlast pattern) line_index eof, length (butlast pattern), drop_empty_last (new_lines chunk))
          else (None, length pattern, new_lines chunk))"

fun place_chunks :: "string list \<Rightarrow> nat \<Rightarrow> nat \<Rightarrow> update_chunk list \<Rightarrow> string + replacement list" where
  "place_chunks original seq line_index [] = Inr []"
| "place_chunks original seq line_index (chunk # chunks) =
     (case seek_contexts original line_index (change_context chunk) of
        Inl e \<Rightarrow> Inl e
      | Inr here \<Rightarrow>
          if old_lines chunk = []
          then
            (let insertion_idx =
                   (if is_end_of_file chunk
                    then if original \<noteq> [] \<and> last original = [] then length original - 1 else length original
                    else here)
             in if new_lines chunk = [] then place_chunks original (seq + 1) here chunks
                else case place_chunks original (seq + 1) (insertion_idx + length (new_lines chunk)) chunks of
                       Inl e \<Rightarrow> Inl e
                     | Inr rs \<Rightarrow> Inr ((insertion_idx, 0, new_lines chunk, seq) # rs))
          else
            (case find_old original chunk here of
               (None, _, _) \<Rightarrow>
                 Inl (''Failed to find expected lines in file:'' @ [newline] @ join_strings [newline] (take 5 (old_lines chunk)))
             | (Some start_idx, pattern_len, new) \<Rightarrow>
                 (case place_chunks original (seq + 1) (start_idx + pattern_len) chunks of
                    Inl e \<Rightarrow> Inl e
                  | Inr rs \<Rightarrow> Inr ((start_idx, pattern_len, new, seq) # rs))))"

definition compute_replacements :: "string list \<Rightarrow> update_chunk list \<Rightarrow> string + (nat \<times> nat \<times> string list) list" where
  "compute_replacements original chunks =
     (case place_chunks original 0 0 chunks of
        Inl e \<Rightarrow> Inl e
      | Inr rs \<Rightarrow> Inr (map (\<lambda>(i, n, new, seq). (i, n, new)) (sort_key (\<lambda>(i, n, new, seq). (i, seq)) rs)))"

definition apply_replacement :: "nat \<times> nat \<times> string list \<Rightarrow> string list \<Rightarrow> string list option" where
  "apply_replacement r xs =
     (case r of (start_idx, old_len, new) \<Rightarrow> splice start_idx (min (start_idx + old_len) (length xs)) new xs)"

definition apply_update_chunks :: "string \<Rightarrow> update_chunk list \<Rightarrow> (string + string) option" where
  "apply_update_chunks original chunks =
     (case compute_replacements (lines original) chunks of
        Inl e \<Rightarrow> Some (Inl e)
      | Inr rs \<Rightarrow>
          map_option (\<lambda>ls. let result = join_strings [newline] ls
                           in Inr (if result \<noteq> [] \<or> ends_with [newline] original then result @ [newline] else result))
            (run_steps apply_replacement (rev rs) (lines original)))"

end
