(* ===== verification/Patch_Properties.thy ===== *)
theory Patch_Properties
  imports Patch
begin

text \<open>
  What the patch format and its application guarantee: every list of well-formed operations
  can be written as a patch that parses back to it, and a parsed patch is well formed; an
  accepted path stays inside the workspace; an update replaces exactly the matched lines
  and keeps all others.
\<close>

section \<open>Writing patches\<close>

text \<open>The documented form of a patch. A context line is written as a removed and an added one.\<close>

definition print_chunk :: "update_chunk \<Rightarrow> string list" where
  "print_chunk c =
     (if change_context c = [] then [''@@''] else map (\<lambda>ctx. ''@@ '' @ ctx) (change_context c)) @
     map (\<lambda>l. ''-'' @ l) (old_lines c) @ map (\<lambda>l. ''+'' @ l) (new_lines c) @
     (if is_end_of_file c then [''*** End of File''] else [])"

primrec print_operation :: "file_operation \<Rightarrow> string list" where
  "print_operation (AddFile path contents) = (''*** Add File: '' @ path) # map (\<lambda>l. ''+'' @ l) (lines contents)"
| "print_operation (DeleteFile path) = [''*** Delete File: '' @ path]"
| "print_operation (UpdateFile path move_to chunks) =
     (''*** Update File: '' @ path) #
     (case move_to of None \<Rightarrow> [] | Some p \<Rightarrow> [''*** Move to: '' @ p]) @ concat (map print_chunk chunks)"

definition print_patch :: "file_operation list \<Rightarrow> string" where
  "print_patch ops = write_lines (''*** Begin Patch'' # concat (map print_operation ops) @ [''*** End Patch''])"

definition name_ok :: "string \<Rightarrow> bool" where
  "name_ok s \<longleftrightarrow> s \<noteq> [] \<and> trim s = s \<and> is_line s"

definition chunk_ok :: "update_chunk \<Rightarrow> bool" where
  "chunk_ok c \<longleftrightarrow>
     list_all name_ok (change_context c) \<and> list_all is_line (old_lines c) \<and> list_all is_line (new_lines c) \<and>
     (old_lines c \<noteq> [] \<or> new_lines c \<noteq> [] \<or> is_end_of_file c)"

primrec operation_ok :: "file_operation \<Rightarrow> bool" where
  "operation_ok (AddFile path contents) \<longleftrightarrow>
     name_ok path \<and> list_all is_line (lines contents) \<and> contents = write_lines (lines contents)"
| "operation_ok (DeleteFile path) \<longleftrightarrow> name_ok path"
| "operation_ok (UpdateFile path move_to chunks) \<longleftrightarrow>
     name_ok path \<and> (case move_to of None \<Rightarrow> True | Some p \<Rightarrow> name_ok p) \<and> chunks \<noteq> [] \<and> list_all chunk_ok chunks"

section \<open>Printed lines and the parser\<close>

lemma printable_chars [simp]:
  "printable (CHR ''*'')" "printable (CHR ''@'')" "printable (CHR ''+'')" "printable (CHR ''-'')"
  by (simp_all add: printable_def byte_def)

lemma trim_diff_line [simp]: "trim (CHR ''+'' # l) = CHR ''+'' # trim_end l" "trim (CHR ''-'' # l) = CHR ''-'' # trim_end l"
  by (simp_all add: trim_printable)

lemma name_ok_trim_end: "name_ok s \<Longrightarrow> trim_end s = s"
  unfolding name_ok_def trim_def by (metis trim_end_idem)

lemma trim_before_name:
  assumes "name_ok s" "printable c" "\<forall>x \<in> set p. byte x < 128"
  shows "trim (c # p @ s) = c # p @ s"
proof -
  have "trim (c # p @ s) = c # trim_end (p @ s)" by (rule trim_printable [OF assms(2)])
  moreover have "trim_end (p @ s) = p @ s"
    using assms(1,3) name_ok_trim_end [OF assms(1)] by (intro trim_end_ascii_prefix) (auto simp: name_ok_def)
  ultimately show ?thesis by simp
qed

lemma trim_space_name: "name_ok s \<Longrightarrow> trim (CHR '' '' # s) = s"
  by (simp add: trim_def name_ok_def)

lemma trim_headers:
  "name_ok s \<Longrightarrow> trim (''*** Add File: '' @ s) = ''*** Add File: '' @ s"
  "name_ok s \<Longrightarrow> trim (''*** Delete File: '' @ s) = ''*** Delete File: '' @ s"
  "name_ok s \<Longrightarrow> trim (''*** Update File: '' @ s) = ''*** Update File: '' @ s"
  "name_ok s \<Longrightarrow> trim (''*** Move to: '' @ s) = ''*** Move to: '' @ s"
  "name_ok s \<Longrightarrow> trim (''@@ '' @ s) = ''@@ '' @ s"
  using trim_before_name [of s "CHR ''*''" "''** Add File: ''"] trim_before_name [of s "CHR ''*''" "''** Delete File: ''"]
    trim_before_name [of s "CHR ''*''" "''** Update File: ''"] trim_before_name [of s "CHR ''*''" "''** Move to: ''"]
    trim_before_name [of s "CHR ''@''" "''@ ''"]
  by (simp_all add: byte_def)

lemmas trim_header_lines [simp] = trim_headers [simplified]

lemma trim_markers [simp]:
  "trim ''@@'' = ''@@''" "trim ''*** End of File'' = ''*** End of File''"
  "trim ''*** Begin Patch'' = ''*** Begin Patch''" "trim ''*** End Patch'' = ''*** End Patch''"
  by (simp_all add: trim_def trim_end.simps ws_end_len_def ws_len_def byte_def)

text \<open>Where a group of diff lines stops: at the end, at a marker or at the next hunk.\<close>

definition stops :: "string list \<Rightarrow> bool" where
  "stops ls \<longleftrightarrow> ls = [] \<or> starts_with ''*** '' (trim (hd ls)) \<and> \<not> starts_with ''*** End of File'' (trim (hd ls)) \<or>
     starts_with ''@@'' (trim (hd ls))"

lemma add_lines_printed:
  assumes "rest = [] \<or> starts_with ''*** '' (trim (hd rest))"
  shows "add_lines i (map (\<lambda>l. ''+'' @ l) content @ rest) = Inr (content, i + length content, rest)"
proof (induction content arbitrary: i)
  case Nil
  then show ?case using assms by (cases rest) auto
qed simp

lemma hunk_contexts_printed:
  assumes "rest = [] \<or> \<not> starts_with ''@@'' (trim (hd rest))" "list_all name_ok ctxs"
  shows "hunk_contexts i (map (\<lambda>ctx. ''@@ '' @ ctx) ctxs @ rest) = (ctxs, i + length ctxs, rest)"
  using assms(2)
proof (induction ctxs arbitrary: i)
  case Nil
  then show ?case using assms(1) by (cases rest) auto
next
  case (Cons c cs)
  then have "trim (''@@ '' @ c) = ''@@ '' @ c" "trim (CHR '' '' # c) = c" "c \<noteq> []"
    using trim_headers(5) [of c] trim_space_name [of c] by (auto simp: name_ok_def)
  with Cons show ?case by (simp add: Let_def)
qed

lemma hunk_lines_stop: "stops rest \<Longrightarrow> hunk_lines i rest = Inr ([], [], False, i, rest)"
  by (cases rest) (auto simp: stops_def, (case_tac "trim a"; auto)+)

lemma hunk_lines_printed:
  assumes "hunk_lines (i + length old + length new) rest = Inr ([], [], eof, j, rest')"
  shows "hunk_lines i (map (\<lambda>l. ''-'' @ l) old @ map (\<lambda>l. ''+'' @ l) new @ rest) = Inr (old, new, eof, j, rest')"
  using assms
proof (induction old arbitrary: i)
  case Nil
  then show ?case by (induction new arbitrary: i) simp_all
qed simp

lemma parse_hunk_printed:
  assumes "chunk_ok c" "stops rest"
  shows "parse_hunk i (print_chunk c @ rest) = Inr (c, i + length (print_chunk c), rest)"
proof -
  define body where "body = map (\<lambda>l. ''-'' @ l) (old_lines c) @ map (\<lambda>l. ''+'' @ l) (new_lines c) @
    (if is_end_of_file c then [''*** End of File''] else []) @ rest"
  let ?n = "if change_context c = [] then 1 else length (change_context c)"
  let ?j = "i + ?n + length (old_lines c) + length (new_lines c)"
  have first: "body \<noteq> [] \<and> \<not> starts_with ''@@'' (trim (hd body))"
    using assms(1) by (auto simp: body_def chunk_ok_def hd_append hd_map)
  have "hunk_contexts i ((if change_context c = [] then [''@@''] else map (\<lambda>ctx. ''@@ '' @ ctx) (change_context c)) @ body) =
      (change_context c, i + ?n, body)"
  proof (cases "change_context c = []")
    case True
    have "hunk_contexts (i + 1) body = ([], i + 1, body)" using first by (cases body) auto
    with True show ?thesis by (simp add: Let_def)
  next
    case False
    with first assms(1) show ?thesis by (simp add: hunk_contexts_printed chunk_ok_def)
  qed
  moreover have "hunk_lines (i + ?n) body =
      Inr (old_lines c, new_lines c, is_end_of_file c, if is_end_of_file c then ?j + 1 else ?j, rest)"
    unfolding body_def by (rule hunk_lines_printed) (use hunk_lines_stop [OF assms(2)] in simp)
  ultimately show ?thesis
    unfolding print_chunk_def append_assoc body_def [symmetric] parse_hunk_def by simp
qed

lemma print_chunk_first:
  assumes "chunk_ok c" obtains line ls where "print_chunk c = line # ls" "starts_with ''@@'' (trim line)"
proof (cases "change_context c")
  case Nil
  then show thesis by (intro that [of "''@@''"]) (auto simp: print_chunk_def)
next
  case (Cons ctx ctxs)
  then have "name_ok ctx" using assms by (simp add: chunk_ok_def)
  then have "starts_with ''@@'' (trim (''@@ '' @ ctx))" by (subst trim_headers) auto
  with Cons show thesis by (intro that [of "''@@ '' @ ctx"]) (auto simp: print_chunk_def)
qed

lemma ends_update_line:
  "ends_update s \<Longrightarrow> starts_with ''*** '' s \<and> \<not> starts_with ''*** End of File'' s \<and> \<not> starts_with ''@@'' s \<and> \<not> starts_with ''*** Move to:'' s"
  by (auto simp: ends_update_def starts_with_iff)

lemma update_chunks_printed:
  assumes "list_all chunk_ok cs" "ends_update (trim r)"
  shows "update_chunks i (concat (map print_chunk cs) @ r # rest) =
    Inr (cs, i + length (concat (map print_chunk cs)), r # rest)"
  using assms(1)
proof (induction cs arbitrary: i)
  case Nil
  then show ?case using assms(2) by (simp add: update_chunks.simps)
next
  case (Cons c cs)
  let ?rest = "concat (map print_chunk cs) @ r # rest"
  from Cons.prems have c: "chunk_ok c" and cs: "list_all chunk_ok cs" by auto
  from c obtain line ls where first: "print_chunk c = line # ls" "starts_with ''@@'' (trim line)" by (rule print_chunk_first)
  have "stops ?rest"
  proof (cases cs)
    case Nil
    with ends_update_line [OF assms(2)] show ?thesis by (simp add: stops_def)
  next
    case (Cons d ds)
    with cs obtain l ls where "print_chunk d = l # ls" "starts_with ''@@'' (trim l)" by (auto elim: print_chunk_first)
    with Cons show ?thesis by (simp add: stops_def)
  qed
  then have hunk: "parse_hunk i (print_chunk c @ ?rest) = Inr (c, i + length (print_chunk c), ?rest)"
    by (rule parse_hunk_printed [OF c])
  have "\<not> ends_update (trim line)" "opens_hunk (trim line)"
    using first(2) by (cases "trim line"; auto simp: ends_update_def opens_hunk_def)+
  with hunk first(1) Cons.IH [OF cs] show ?case by (simp add: update_chunks.simps ac_simps)
qed

text \<open>A line that starts an operation or ends the patch, as the main loop sees it.\<close>

lemma operation_first:
  assumes "operation_ok op" obtains line ls where "print_operation op = line # ls" "ends_update (trim line)"
proof (cases op)
  case (AddFile path contents)
  with assms show thesis by (intro that [of "''*** Add File: '' @ path"]) (auto simp: ends_update_def)
next
  case (DeleteFile path)
  with assms show thesis by (intro that [of "''*** Delete File: '' @ path"]) (auto simp: ends_update_def)
next
  case (UpdateFile path move_to chunks)
  with assms show thesis by (intro that [of "''*** Update File: '' @ path"]) (auto simp: ends_update_def)
qed

lemma header_path_printed:
  "name_ok p \<Longrightarrow> header_path ''*** Add File:'' (''*** Add File: '' @ p) = Some p"
  "name_ok p \<Longrightarrow> header_path ''*** Delete File:'' (''*** Delete File: '' @ p) = Some p"
  "name_ok p \<Longrightarrow> header_path ''*** Update File:'' (''*** Update File: '' @ p) = Some p"
  by (simp_all add: header_path_def strip_prefix_starts trim_space_name)

lemma parse_add_printed:
  assumes "operation_ok (AddFile path contents)" "ends_update (trim r)"
  shows "parse_add_file i (''*** Add File: '' @ path) (map (\<lambda>l. ''+'' @ l) (lines contents) @ r # rest) =
    Inr (AddFile path contents, i + 1 + length (lines contents), r # rest)"
proof -
  have "add_lines (i + 1) (map (\<lambda>l. ''+'' @ l) (lines contents) @ r # rest) =
      Inr (lines contents, i + 1 + length (lines contents), r # rest)"
    using ends_update_line [OF assms(2)] by (intro add_lines_printed) simp
  moreover have "contents = (if lines contents = [] then [] else join_strings [newline] (lines contents) @ [newline])"
    using assms(1) join_write_lines [of "lines contents"] by (auto simp: write_lines_def)
  ultimately show ?thesis
    using assms(1) header_path_printed(1) [of path] by (simp add: parse_add_file_def name_ok_def)
qed

lemma parse_update_printed:
  assumes "operation_ok (UpdateFile path move_to chunks)" "ends_update (trim r)"
  shows "parse_update_file i (''*** Update File: '' @ path) (tl (print_operation (UpdateFile path move_to chunks)) @ r # rest) =
    Inr (UpdateFile path move_to chunks, i + length (print_operation (UpdateFile path move_to chunks)), r # rest)"
proof -
  let ?body = "concat (map print_chunk chunks) @ r # rest"
  from assms(1) have ok: "name_ok path" "chunks \<noteq> []" "list_all chunk_ok chunks" "path \<noteq> []" by (auto simp: name_ok_def)
  note chunks = update_chunks_printed [OF ok(3) assms(2), of _ rest]
  show ?thesis
  proof (cases move_to)
    case None
    obtain c cs where cs: "chunks = c # cs" "chunk_ok c" using ok(2,3) by (cases chunks) auto
    from cs(2) obtain l ls where "print_chunk c = l # ls" "starts_with ''@@'' (trim l)" by (rule print_chunk_first)
    with cs(1) have "\<not> starts_with ''*** Move to:'' (trim (hd ?body))" by (auto simp: starts_with_iff)
    with None ok header_path_printed(3) [OF ok(1)] chunks [of "i + 1"] show ?thesis
      by (simp add: parse_update_file_def Let_def)
  next
    case (Some p)
    with assms(1) have p: "name_ok p" by simp
    then have "trim (''*** Move to: '' @ p) = ''*** Move to: '' @ p" "trim (CHR '' '' # p) = p" "p \<noteq> []"
      using trim_space_name by (auto simp: name_ok_def)
    with Some ok header_path_printed(3) [OF ok(1)] chunks [of "i + 2"] show ?thesis
      by (simp add: parse_update_file_def Let_def)
  qed
qed

lemma parse_operations_printed:
  assumes "list_all operation_ok ops"
  shows "parse_operations i (concat (map print_operation ops) @ [''*** End Patch'']) = Inr (ops, True)"
  using assms
proof (induction ops arbitrary: i)
  case Nil
  show ?case by (simp add: parse_operations.simps Let_def)
next
  case (Cons op ops)
  let ?rest = "concat (map print_operation ops) @ [''*** End Patch'']"
  obtain r rest where r: "?rest = r # rest" "ends_update (trim r)"
  proof (cases ops)
    case Nil
    then show thesis by (intro that [of "''*** End Patch''"]) (auto simp: ends_update_def)
  next
    case (Cons op' ops')
    with \<open>list_all operation_ok (op # ops)\<close> obtain l ls where "print_operation op' = l # ls" "ends_update (trim l)"
      by (auto elim: operation_first)
    with Cons show thesis by (intro that [of l]) auto
  qed
  from Cons have ok: "operation_ok op" and IH: "\<And>i. parse_operations i ?rest = Inr (ops, True)" by auto
  show ?case
  proof (cases op)
    case (AddFile path contents)
    then show ?thesis using parse_add_printed [of path contents r i rest] ok r IH
      by (simp add: parse_operations.simps [of i] Let_def)
  next
    case (DeleteFile path)
    then show ?thesis using header_path_printed(2) [of path] ok r IH
      by (simp add: parse_operations.simps [of i] Let_def parse_delete_file_def name_ok_def)
  next
    case (UpdateFile path move_to chunks)
    then show ?thesis using parse_update_printed [of path move_to chunks r i rest] ok r IH
      by (simp add: parse_operations.simps [of i] Let_def)
  qed
qed

lemma is_line_prefix: "is_line p \<Longrightarrow> is_line s \<Longrightarrow> is_line (p @ s)"
  by (auto simp: is_line_def last_append)

lemma is_line_literals [simp]:
  "is_line ''@@''" "is_line ''@@ ''" "is_line ''+''" "is_line ''-''" "is_line ''*** End of File''" "is_line ''*** Begin Patch''"
  "is_line ''*** End Patch''" "is_line ''*** Add File: ''" "is_line ''*** Delete File: ''" "is_line ''*** Update File: ''"
  "is_line ''*** Move to: ''"
  by (simp_all add: is_line_def)

lemma name_is_line: "name_ok s \<Longrightarrow> is_line s"
  by (simp add: name_ok_def)

lemma print_chunk_lines: "chunk_ok c \<Longrightarrow> list_all is_line (print_chunk c)"
  by (auto simp: print_chunk_def chunk_ok_def list_all_iff name_is_line intro: is_line_prefix [of "''@@ ''", simplified]
      is_line_prefix [of "''+''", simplified] is_line_prefix [of "''-''", simplified])

lemma print_operation_lines:
  assumes "operation_ok op" shows "list_all is_line (print_operation op)"
proof (cases op)
  case (AddFile path contents)
  with assms show ?thesis
    using is_line_prefix [of "''*** Add File: ''" path]
    by (auto simp: list_all_iff name_is_line intro: is_line_prefix [of "''+''", simplified])
next
  case (DeleteFile path)
  with assms show ?thesis using is_line_prefix [of "''*** Delete File: ''" path] by (simp add: name_is_line)
next
  case (UpdateFile path move_to chunks)
  have "list_all is_line (concat (map print_chunk chunks))"
    using assms UpdateFile print_chunk_lines by (auto simp: list_all_iff)
  with assms UpdateFile show ?thesis
    using is_line_prefix [of "''*** Update File: ''" path] is_line_prefix [of "''*** Move to: ''"]
    by (auto simp: name_is_line split: option.splits)
qed

text \<open>
  C24: every nonempty list of well-formed operations has a patch text, its printed form, that
  the parser reads back as exactly these operations.
\<close>

theorem parse_print_patch:
  assumes "list_all operation_ok ops" "ops \<noteq> []"
  shows "parse_patch (print_patch ops) = Inr ops"
proof -
  let ?ls = "''*** Begin Patch'' # concat (map print_operation ops) @ [''*** End Patch'']"
  have "list_all is_line ?ls" using assms(1) print_operation_lines by (auto simp: list_all_iff)
  then have "lines (print_patch ops) = ?ls"
    using lines_write_lines [of ?ls "[]"] by (simp add: print_patch_def lines_def)
  then show ?thesis
    using parse_operations_printed [OF assms(1), of 1] assms(2) by (simp add: parse_patch_def)
qed

theorem parse_print_patch_witness:
  "parse_patch (print_patch [DeleteFile ''a.rs'',
      UpdateFile ''b.rs'' (Some ''c.rs'') [\<lparr>change_context = [''fn f''], old_lines = [''x''], new_lines = [], is_end_of_file = True\<rparr>]]) =
    Inr [DeleteFile ''a.rs'',
      UpdateFile ''b.rs'' (Some ''c.rs'') [\<lparr>change_context = [''fn f''], old_lines = [''x''], new_lines = [], is_end_of_file = True\<rparr>]]"
  by (rule parse_print_patch)
    (simp_all add: name_ok_def chunk_ok_def is_line_def trim_def trim_start.simps trim_end.simps ws_end_len_def ws_len_def byte_def)

section \<open>Accepted paths\<close>

text \<open>
  Where a path leads from the workspace: the directories below it, innermost first. \<open>None\<close>
  means that the path leaves the workspace on its way.
\<close>

fun descend :: "string list \<Rightarrow> path_component list \<Rightarrow> string list option" where
  "descend dirs [] = Some dirs"
| "descend dirs (Normal d # cs) = descend (d # dirs) cs"
| "descend dirs (CurDir # cs) = descend dirs cs"
| "descend dirs (ParentDir # cs) = (case dirs of [] \<Rightarrow> None | _ # up \<Rightarrow> descend up cs)"
| "descend dirs (RootDir # cs) = None"

lemma wrap_i32_small: "- (2 ^ 31) \<le> x \<Longrightarrow> x < 2 ^ 31 \<Longrightarrow> wrap_i32 x = x"
  by (simp add: wrap_i32_def signed_take_bit_int_eq_self)

lemma check_components_walk:
  assumes "length dirs + length cs < 2 ^ 31"
  shows "check_components path (int (length dirs)) cs = Inr () \<longleftrightarrow> descend dirs cs \<noteq> None"
  using assms
proof (induction dirs cs rule: descend.induct)
  case (2 dirs d cs)
  have "wrap_i32 (int (length dirs) + 1) = int (length (d # dirs))"
    using "2.prems" by (subst wrap_i32_small) auto
  with 2 show ?case by simp
next
  case (4 dirs cs)
  have "wrap_i32 (int (length dirs) - 1) = int (length dirs) - 1" using "4.prems" by (intro wrap_i32_small) auto
  with 4 show ?case by (cases dirs) (auto simp: Let_def)
qed (simp_all)

lemma split_on_length: "length (split_on c s) \<le> length s + 1"
  by (induction s) (auto split: list.split)

lemma path_components_length: "length (path_components path) \<le> length path + 2"
proof -
  have "length (List.map_filter component_of ps) \<le> length ps" for ps by (induction ps) (auto simp: map_filter_simps split: option.split)
  from this [of "split_on (CHR ''/'') path"] split_on_length [of "CHR ''/''" path] show ?thesis
    by (simp add: path_components_def)
qed

text \<open>
  C26: the paths a patch may touch. A path is accepted exactly when, without the white space
  around it, it is not empty, neither absolute nor with a drive, free of backslashes, and
  never leaves the workspace on its way; it is returned as it is. The \<open>i32\<close> depth does not
  overflow for any path below two gigabytes.
\<close>

theorem validate_relative_path_iff:
  assumes "length raw < 2 ^ 31 - 2"
  shows "validate_relative_path raw = Inr path \<longleftrightarrow>
    path = trim raw \<and> path \<noteq> [] \<and> \<not> starts_with ''/'' path \<and>
    \<not> (2 \<le> length path \<and> path ! 1 = CHR '':'' \<and> is_ascii_alphabetic (path ! 0)) \<and>
    backslash \<notin> set path \<and> descend [] (path_components path) \<noteq> None"
proof -
  have "length (trim raw) \<le> length raw"
    using trim_start_suffix [of raw] trim_end_prefix [of "trim_start raw"] unfolding trim_def
    by (metis le_add1 le_add2 length_append order_trans)
  then have "length (path_components (trim raw)) < 2 ^ 31"
    using path_components_length [of "trim raw"] assms by simp
  with check_components_walk [of "[]" "path_components (trim raw)" "trim raw"]
  have check: "check_components (trim raw) 0 (path_components (trim raw)) = Inr () \<longleftrightarrow> descend [] (path_components (trim raw)) \<noteq> None"
    by simp
  have "starts_with [backslash, backslash] (trim raw) \<Longrightarrow> backslash \<in> set (trim raw)" by (auto simp: starts_with_iff)
  then show ?thesis
    using check by (auto simp: validate_relative_path_def Let_def split: sum.splits)
qed

theorem validate_relative_path_iff_witness:
  "validate_relative_path '' src/../a.rs'' = Inr ''src/../a.rs'' \<and> validate_relative_path ''src/../../a.rs'' \<noteq> Inr ''src/../../a.rs''"
proof -
  have "trim '' src/../a.rs'' = ''src/../a.rs''" "trim ''src/../../a.rs'' = ''src/../../a.rs''"
    by (simp_all add: trim_def trim_start.simps trim_end.simps ws_end_len_def ws_len_def byte_def)
  moreover have "descend [] (path_components ''src/../a.rs'') \<noteq> None" "descend [] (path_components ''src/../../a.rs'') = None"
    by (simp_all add: path_components_def component_of_def map_filter_simps)
  ultimately show ?thesis
    by (subst (1 2) validate_relative_path_iff) simp_all
qed

section \<open>Applying updates\<close>

interpretation patch_lines: back_to_front apply_replacement "\<lambda>r. r" "\<lambda>r. True"
  by unfold_locales (simp add: apply_replacement_def splice_def)

text \<open>The lines from a position on agree with a pattern up to trailing white space, dashes and quotes.\<close>

definition similar_at :: "string list \<Rightarrow> nat \<Rightarrow> string list \<Rightarrow> bool" where
  "similar_at original i needle \<longleftrightarrow>
     i + length needle \<le> length original \<and> list_all2 lines_match_normalized (take (length needle) (drop i original)) needle"

text \<open>The same up to trailing white space only.\<close>

definition close_at :: "string list \<Rightarrow> nat \<Rightarrow> string list \<Rightarrow> bool" where
  "close_at original i needle \<longleftrightarrow>
     i + length needle \<le> length original \<and> list_all2 (\<lambda>h n. trim_end h = trim_end n) (take (length needle) (drop i original)) needle"

text \<open>
  Where a pattern is taken to be, from a position on: at the first place (or the last one, for
  a hunk at the end of the file) where it stands up to trailing white space; if there is none,
  at the first (or last) place where it stands up to dashes and quotes as well.
\<close>

definition first_of :: "bool \<Rightarrow> nat \<Rightarrow> (nat \<Rightarrow> bool) \<Rightarrow> nat \<Rightarrow> bool" where
  "first_of at_end start P i \<longleftrightarrow> start \<le> i \<and> P i \<and> (\<forall>j \<ge> start. P j \<longrightarrow> (if at_end then j \<le> i else i \<le> j))"

definition taken_at :: "string list \<Rightarrow> string list \<Rightarrow> nat \<Rightarrow> bool \<Rightarrow> nat \<Rightarrow> bool" where
  "taken_at original needle start at_end i \<longleftrightarrow>
     first_of at_end start (\<lambda>j. close_at original j needle) i \<or>
     (\<forall>j \<ge> start. \<not> close_at original j needle) \<and> first_of at_end start (\<lambda>j. similar_at original j needle) i"

definition nowhere :: "string list \<Rightarrow> string list \<Rightarrow> nat \<Rightarrow> bool" where
  "nowhere original needle start \<longleftrightarrow> (\<forall>i \<ge> start. \<not> similar_at original i needle)"

lemma close_similar: "close_at original i needle \<Longrightarrow> similar_at original i needle"
  unfolding close_at_def similar_at_def lines_match_normalized_def normalize_line_def
  by (elim conjE, intro conjI) (auto elim: list_all2_mono)

text \<open>A needle is taken at one place at most, and never somewhere else when it is nowhere.\<close>

lemma taken_at_unique: "taken_at original needle start at_end i \<Longrightarrow> taken_at original needle start at_end j \<Longrightarrow> i = j"
  by (auto simp: taken_at_def first_of_def split: if_splits intro: antisym)

lemma taken_at_not_nowhere: "taken_at original needle start at_end i \<Longrightarrow> \<not> nowhere original needle start"
  by (auto simp: taken_at_def first_of_def nowhere_def dest: close_similar)

lemma zip_pairs:
  assumes "needle \<noteq> []"
  shows "length needle \<le> length (drop i original) \<and> list_all (\<lambda>(h, n). R h n) (zip (drop i original) needle) \<longleftrightarrow>
    i + length needle \<le> length original \<and> list_all2 R (take (length needle) (drop i original)) needle"
proof -
  have "length needle \<le> length (drop i original) \<longleftrightarrow> i + length needle \<le> length original"
    using assms by (cases needle) auto
  moreover have "zip (drop i original) needle = zip (take (length needle) (drop i original)) needle"
    by (rule list_induct2' [of "\<lambda>xs ys. zip xs ys = zip (take (length ys) xs) ys"]) auto
  ultimately show ?thesis by (auto simp: list_all2_iff list_all_iff)
qed

lemma matches_places:
  assumes "needle \<noteq> []"
  shows "matches_sequence (drop i original) needle \<longleftrightarrow> close_at original i needle"
    "matches_sequence_normalized (drop i original) needle \<longleftrightarrow> similar_at original i needle"
proof -
  have eq: "(h = n \<or> trim_end h = trim_end n) = (trim_end h = trim_end n)" for h n by auto
  show "matches_sequence (drop i original) needle \<longleftrightarrow> close_at original i needle"
    unfolding matches_sequence_def close_at_def eq by (rule zip_pairs [OF assms])
  show "matches_sequence_normalized (drop i original) needle \<longleftrightarrow> similar_at original i needle"
    unfolding matches_sequence_normalized_def similar_at_def by (rule zip_pairs [OF assms])
qed

lemma find_first_of:
  assumes bound: "\<And>i. P i \<Longrightarrow> i < m"
  shows "List.find P (if at_end then rev [start..<m] else [start..<m]) = Some i \<longleftrightarrow> first_of at_end start P i"
    "List.find P (if at_end then rev [start..<m] else [start..<m]) = None \<longleftrightarrow> (\<forall>j \<ge> start. \<not> P j)"
proof -
  have up: "List.find P [start..<m] = Some i \<longleftrightarrow> first_of False start P i" for i
  proof
    assume "List.find P [start..<m] = Some i"
    then obtain k where k: "k < m - start" "P (start + k)" "i = start + k" "\<forall>j < k. \<not> P (start + j)"
      by (auto simp: find_Some_iff)
    then show "first_of False start P i"
      by (auto simp: first_of_def) (metis add_less_cancel_left le_Suc_ex not_le)
  next
    assume f: "first_of False start P i"
    with bound have "i < m" "start \<le> i" by (auto simp: first_of_def)
    with f show "List.find P [start..<m] = Some i"
      unfolding find_Some_iff by (intro exI [of _ "i - start"]) (auto simp: first_of_def dest: spec [of _ "start + _"])
  qed
  have down: "List.find P (rev [start..<m]) = Some i \<longleftrightarrow> first_of True start P i" for i
  proof
    assume "List.find P (rev [start..<m]) = Some i"
    then obtain k where k: "k < m - start" "P (m - Suc k)" "i = m - Suc k" "\<forall>j < k. \<not> P (m - Suc j)"
      by (auto simp: find_Some_iff rev_nth)
    have "j \<le> i" if "P j" for j
    proof (rule ccontr)
      assume "\<not> j \<le> i"
      moreover have "j < m" by (rule bound [OF that])
      ultimately have "m - Suc j < k" "m - Suc (m - Suc j) = j" using k(3) by auto
      with k(4) that show False by metis
    qed
    with k show "first_of True start P i" by (auto simp: first_of_def)
  next
    assume f: "first_of True start P i"
    with bound have i: "i < m" "start \<le> i" by (auto simp: first_of_def)
    have "\<not> P (m - Suc j)" if "j < m - Suc i" for j
    proof
      assume "P (m - Suc j)"
      moreover have "start \<le> m - Suc j" "i < m - Suc j" using that i by linarith+
      ultimately show False using f unfolding first_of_def by (metis not_le)
    qed
    with f i show "List.find P (rev [start..<m]) = Some i"
      unfolding find_Some_iff by (intro exI [of _ "m - Suc i"]) (auto simp: rev_nth first_of_def)
  qed
  show "List.find P (if at_end then rev [start..<m] else [start..<m]) = Some i \<longleftrightarrow> first_of at_end start P i"
    using up [of i] down [of i] by simp
  show "List.find P (if at_end then rev [start..<m] else [start..<m]) = None \<longleftrightarrow> (\<forall>j \<ge> start. \<not> P j)"
    using bound by (auto simp: find_None_iff)
qed

lemma seek_sequence_exact:
  assumes "needle \<noteq> []"
  shows "seek_sequence original needle start at_end = Some i \<longleftrightarrow> taken_at original needle start at_end i"
    "seek_sequence original needle start at_end = None \<longleftrightarrow> nowhere original needle start"
proof -
  let ?m = "Suc (sat_sub (length original) (length needle))"
  have b: "close_at original i needle \<Longrightarrow> i < ?m" "similar_at original i needle \<Longrightarrow> i < ?m" for i
    by (auto simp: close_at_def similar_at_def sat_sub_def)
  have n1: "List.find (\<lambda>i. close_at original i needle) (if at_end then rev [start..<?m] else [start..<?m]) = None \<longleftrightarrow>
      (\<forall>j \<ge> start. \<not> close_at original j needle)" by (rule find_first_of(2)) (rule b(1))
  have n2: "List.find (\<lambda>i. similar_at original i needle) (if at_end then rev [start..<?m] else [start..<?m]) = None \<longleftrightarrow>
      nowhere original needle start" unfolding nowhere_def by (rule find_first_of(2)) (rule b(2))
  have s1: "List.find (\<lambda>i. close_at original i needle) (if at_end then rev [start..<?m] else [start..<?m]) = Some i \<longleftrightarrow>
      first_of at_end start (\<lambda>j. close_at original j needle) i" for i by (rule find_first_of(1)) (rule b(1))
  have s2: "List.find (\<lambda>i. similar_at original i needle) (if at_end then rev [start..<?m] else [start..<?m]) = Some i \<longleftrightarrow>
      first_of at_end start (\<lambda>j. similar_at original j needle) i" for i by (rule find_first_of(1)) (rule b(2))
  have seek: "seek_sequence original needle start at_end =
      (case List.find (\<lambda>i. close_at original i needle) (if at_end then rev [start..<?m] else [start..<?m]) of
         Some i \<Rightarrow> Some i
       | None \<Rightarrow> List.find (\<lambda>i. similar_at original i needle) (if at_end then rev [start..<?m] else [start..<?m]))"
    using assms unfolding seek_sequence_def Let_def matches_places [OF assms] by simp
  have excl: "\<not> first_of at_end start (\<lambda>j. close_at original j needle) i" if "\<forall>j \<ge> start. \<not> close_at original j needle" for i
    using that by (auto simp: first_of_def)
  show "seek_sequence original needle start at_end = Some i \<longleftrightarrow> taken_at original needle start at_end i"
  proof (cases "List.find (\<lambda>i. close_at original i needle) (if at_end then rev [start..<?m] else [start..<?m])")
    case None
    with n1 have none: "\<forall>j \<ge> start. \<not> close_at original j needle" by blast
    with excl [OF none] show ?thesis unfolding seek None option.case s2 taken_at_def by blast
  next
    case (Some j)
    then have j: "first_of at_end start (\<lambda>j. close_at original j needle) j" using s1 by blast
    then have "\<not> (\<forall>j \<ge> start. \<not> close_at original j needle)" by (auto simp: first_of_def)
    moreover have "Some j = Some i \<longleftrightarrow> first_of at_end start (\<lambda>j. close_at original j needle) i"
      using s1 [of i] Some by simp
    ultimately show ?thesis unfolding seek Some option.case taken_at_def by blast
  qed
  show "seek_sequence original needle start at_end = None \<longleftrightarrow> nowhere original needle start"
  proof (cases "List.find (\<lambda>i. close_at original i needle) (if at_end then rev [start..<?m] else [start..<?m])")
    case None
    then show ?thesis unfolding seek None option.case n2 by simp
  next
    case (Some j)
    then have "first_of at_end start (\<lambda>j. close_at original j needle) j" using s1 by blast
    then have "\<not> nowhere original needle start" by (auto simp: first_of_def nowhere_def dest: close_similar)
    then show ?thesis unfolding seek Some option.case by simp
  qed
qed

lemma seek_sequence_Some:
  assumes "seek_sequence original needle start at_end = Some i"
  shows "needle \<noteq> []" "start \<le> i" "similar_at original i needle" "taken_at original needle start at_end i"
proof -
  show n: "needle \<noteq> []" using assms by (auto simp: seek_sequence_def)
  show t: "taken_at original needle start at_end i" using seek_sequence_exact(1) [OF n] assms by simp
  then show "start \<le> i" "similar_at original i needle" by (auto simp: taken_at_def first_of_def dest: close_similar)
qed

lemma seek_contexts_ge:
  "seek_contexts original k ctxs = Inr j \<Longrightarrow> k \<le> length original \<Longrightarrow> k \<le> j \<and> j \<le> length original"
proof (induction original k ctxs arbitrary: j rule: seek_contexts.induct)
  case (2 original k ctx ctxs)
  then obtain i where i: "seek_sequence original [ctx] k False = Some i" "seek_contexts original (i + 1) ctxs = Inr j"
    by (auto split: option.splits)
  with seek_sequence_Some [OF i(1)] 2 show ?case by (fastforce simp: similar_at_def)
qed simp

text \<open>
  Where a chunk belongs, from a position on: each of its lines of context is taken in turn
  and leads behind itself; there the old lines are taken, or, if they are nowhere and their last line is
  empty, the old lines without it. A replacement \<open>(i, n, new)\<close> of a chunk puts \<open>new\<close> in the place of the
  \<open>n\<close> lines from \<open>i\<close> on, and the next chunk is looked for behind them.
\<close>

fun contexts_reach :: "string list \<Rightarrow> nat \<Rightarrow> string list \<Rightarrow> nat \<Rightarrow> bool" where
  "contexts_reach original k [] j \<longleftrightarrow> j = k"
| "contexts_reach original k (ctx # ctxs) j \<longleftrightarrow>
     (\<exists>i. taken_at original [ctx] k False i \<and> contexts_reach original (i + 1) ctxs j)"

definition old_located :: "string list \<Rightarrow> nat \<Rightarrow> update_chunk \<Rightarrow> nat \<times> nat \<times> string list \<Rightarrow> bool" where
  "old_located original j c r \<longleftrightarrow>
     (case r of (i, n, new) \<Rightarrow>
        taken_at original (old_lines c) j (is_end_of_file c) i \<and> n = length (old_lines c) \<and> new = new_lines c \<or>
        nowhere original (old_lines c) j \<and> last (old_lines c) = [] \<and> butlast (old_lines c) \<noteq> [] \<and>
        taken_at original (butlast (old_lines c)) j (is_end_of_file c) i \<and> n = length (butlast (old_lines c)) \<and>
        new = drop_empty_last (new_lines c))"

fun chunks_located :: "string list \<Rightarrow> nat \<Rightarrow> update_chunk list \<Rightarrow> (nat \<times> nat \<times> string list) list \<Rightarrow> bool" where
  "chunks_located original k [] [] \<longleftrightarrow> True"
| "chunks_located original k (c # cs) ((i, n, new) # rs) \<longleftrightarrow>
     (\<exists>j. contexts_reach original k (change_context c) j \<and> old_located original j c (i, n, new)) \<and>
     chunks_located original (i + n) cs rs"
| "chunks_located original k _ _ \<longleftrightarrow> False"

fun reached :: "nat \<Rightarrow> (nat \<times> nat \<times> string list) list \<Rightarrow> nat" where
  "reached k [] = k"
| "reached k ((i, n, new) # rs) = reached (i + n) rs"

text \<open>
  A chunk is stuck at a position: a line of context is nowhere behind the lines of context
  before it, or the old lines are nowhere behind the context, not even without an empty last line.
\<close>

definition stuck :: "string list \<Rightarrow> nat \<Rightarrow> update_chunk \<Rightarrow> bool" where
  "stuck original k c \<longleftrightarrow>
     (\<exists>before ctx after j. change_context c = before @ ctx # after \<and> contexts_reach original k before j \<and> nowhere original [ctx] j) \<or>
     (\<exists>j. contexts_reach original k (change_context c) j \<and> nowhere original (old_lines c) j \<and>
        (last (old_lines c) \<noteq> [] \<or> butlast (old_lines c) = [] \<or> nowhere original (butlast (old_lines c)) j))"

lemma contexts_reach_unique: "contexts_reach original k ctxs i \<Longrightarrow> contexts_reach original k ctxs j \<Longrightarrow> i = j"
  by (induction ctxs arbitrary: k) (auto dest: taken_at_unique)

lemma seek_contexts_reach: "seek_contexts original k ctxs = Inr j \<Longrightarrow> contexts_reach original k ctxs j"
  by (induction original k ctxs rule: seek_contexts.induct) (auto split: option.splits dest: seek_sequence_Some(4))

lemma seek_contexts_stuck:
  "seek_contexts original k ctxs = Inl e \<Longrightarrow>
    \<exists>before ctx after j. ctxs = before @ ctx # after \<and> contexts_reach original k before j \<and> nowhere original [ctx] j"
proof (induction original k ctxs rule: seek_contexts.induct)
  case (2 original k ctx ctxs)
  show ?case
  proof (cases "seek_sequence original [ctx] k False")
    case None
    then have "nowhere original [ctx] k" using seek_sequence_exact(2) [of "[ctx]"] by blast
    then show ?thesis by (intro exI [of _ "[]"] exI [of _ ctx] exI [of _ ctxs] exI [of _ k]) simp
  next
    case (Some i)
    with 2 obtain before ctx' after j where
      "ctxs = before @ ctx' # after" "contexts_reach original (i + 1) before j" "nowhere original [ctx'] j" by auto
    with seek_sequence_Some(4) [OF Some] show ?thesis by (intro exI [of _ "ctx # before"]) auto
  qed
qed simp

lemma find_old_located:
  assumes "find_old original c k = (Some i, n, new)" "old_lines c \<noteq> []"
  shows "old_located original k c (i, n, new)"
proof (cases "seek_sequence original (old_lines c) k (is_end_of_file c)")
  case None
  with assms have "seek_sequence original (butlast (old_lines c)) k (is_end_of_file c) = Some i"
    "last (old_lines c) = []" "n = length (butlast (old_lines c))" "new = drop_empty_last (new_lines c)"
    by (auto simp: find_old_def Let_def split: if_splits)
  with None assms(2) seek_sequence_exact(2) [OF assms(2)] show ?thesis
    using seek_sequence_Some(1,4) unfolding old_located_def by blast
next
  case (Some i')
  with assms show ?thesis using seek_sequence_Some(4) [OF Some] by (simp add: find_old_def old_located_def)
qed

lemma find_old_stuck:
  assumes "fst (find_old original c k) = None" "old_lines c \<noteq> []"
  shows "nowhere original (old_lines c) k"
    "last (old_lines c) \<noteq> [] \<or> butlast (old_lines c) = [] \<or> nowhere original (butlast (old_lines c)) k"
proof -
  from assms have none: "seek_sequence original (old_lines c) k (is_end_of_file c) = None"
    by (auto simp: find_old_def Let_def split: option.splits)
  then show "nowhere original (old_lines c) k" using seek_sequence_exact(2) [OF assms(2)] by blast
  show "last (old_lines c) \<noteq> [] \<or> butlast (old_lines c) = [] \<or> nowhere original (butlast (old_lines c)) k"
    using none assms seek_sequence_exact(2) [of "butlast (old_lines c)" original k "is_end_of_file c"]
    by (auto simp: find_old_def Let_def split: if_splits)
qed

text \<open>
  A chunk with old lines was applied by a replacement: the lines replaced are its old lines,
  by its new ones. When they are only found without an empty last line, that line is
  dropped from both.
\<close>

definition chunk_applied :: "string list \<Rightarrow> update_chunk \<Rightarrow> nat \<times> nat \<times> string list \<Rightarrow> bool" where
  "chunk_applied original c r \<longleftrightarrow>
     (case r of (i, n, new) \<Rightarrow>
        n = length (old_lines c) \<and> similar_at original i (old_lines c) \<and> new = new_lines c \<or>
        Suc n = length (old_lines c) \<and> last (old_lines c) = [] \<and> similar_at original i (butlast (old_lines c)) \<and>
        new = drop_empty_last (new_lines c))"

lemma find_old_Some:
  assumes "find_old original c k = (Some i, n, new)" "old_lines c \<noteq> []"
  shows "k \<le> i" "i + n \<le> length original" "0 < n" "chunk_applied original c (i, n, new)"
proof -
  have len: "length (butlast (old_lines c)) = length (old_lines c) - 1" by simp
  from assms(1) consider
    "seek_sequence original (old_lines c) k (is_end_of_file c) = Some i" "n = length (old_lines c)" "new = new_lines c"
  | "seek_sequence original (butlast (old_lines c)) k (is_end_of_file c) = Some i" "n = length (butlast (old_lines c))"
    "new = drop_empty_last (new_lines c)" "last (old_lines c) = []"
    unfolding find_old_def Let_def by (auto split: option.splits if_splits)
  then have "k \<le> i \<and> i + n \<le> length original \<and> 0 < n \<and> chunk_applied original c (i, n, new)"
  proof cases
    case 1
    with seek_sequence_Some [OF 1(1)] assms(2) show ?thesis by (auto simp: chunk_applied_def similar_at_def)
  next
    case 2
    with seek_sequence_Some [OF 2(1)] assms(2) show ?thesis
      by (cases "old_lines c" rule: rev_cases) (auto simp: chunk_applied_def similar_at_def)
  qed
  then show "k \<le> i" "i + n \<le> length original" "0 < n" "chunk_applied original c (i, n, new)" by auto
qed

definition plain :: "replacement \<Rightarrow> nat \<times> nat \<times> string list" where
  "plain = (\<lambda>(i, n, new, seq). (i, n, new))"

lemma place_chunks_Inr:
  assumes "list_all (\<lambda>c. old_lines c \<noteq> []) chunks" "place_chunks original seq k chunks = Inr rs" "k \<le> length original"
  shows "placed k (map plain rs) (length original) \<and> list_all2 (chunk_applied original) chunks (map plain rs) \<and>
    sorted (map fst rs) \<and> list_all (\<lambda>r. k \<le> fst r) rs \<and> distinct (map fst rs)"
  using assms
proof (induction original seq k chunks arbitrary: rs rule: place_chunks.induct)
  case (2 original seq k c chunks)
  from "2.prems" have old: "old_lines c \<noteq> []" by simp
  with "2.prems" obtain here i n new rs' where here: "seek_contexts original k (change_context c) = Inr here"
    and found: "find_old original c here = (Some i, n, new)"
    and rest: "place_chunks original (seq + 1) (i + n) chunks = Inr rs'" and rs: "rs = (i, n, new, seq) # rs'"
    by (auto split: sum.splits prod.splits option.splits)
  have k: "k \<le> here" "here \<le> length original" using seek_contexts_ge [OF here "2.prems"(3)] by auto
  note f = find_old_Some [OF found old]
  have IH: "placed (i + n) (map plain rs') (length original) \<and> list_all2 (chunk_applied original) chunks (map plain rs') \<and>
    sorted (map fst rs') \<and> list_all (\<lambda>r. i + n \<le> fst r) rs' \<and> distinct (map fst rs')"
    using "2.IH"(3) [OF here old] found rest f(2) "2.prems"(1) by simp
  with rs k f show ?case by (fastforce simp: plain_def list_all_iff)
qed simp

lemma place_chunks_located:
  assumes "list_all (\<lambda>c. old_lines c \<noteq> []) chunks" "place_chunks original seq k chunks = Inr rs"
  shows "chunks_located original k chunks (map plain rs)"
  using assms
proof (induction original seq k chunks arbitrary: rs rule: place_chunks.induct)
  case (2 original seq k c chunks)
  from "2.prems" have old: "old_lines c \<noteq> []" by simp
  with "2.prems" obtain here i n new rs' where here: "seek_contexts original k (change_context c) = Inr here"
    and found: "find_old original c here = (Some i, n, new)"
    and rest: "place_chunks original (seq + 1) (i + n) chunks = Inr rs'" and rs: "rs = (i, n, new, seq) # rs'"
    by (auto split: sum.splits prod.splits option.splits)
  have "chunks_located original (i + n) chunks (map plain rs')"
    using "2.IH"(3) [OF here old] found rest "2.prems"(1) by simp
  with seek_contexts_reach [OF here] find_old_located [OF found old] rs show ?case by (auto simp: plain_def)
qed simp

text \<open>When a chunk is refused, the ones before it were located and it is stuck behind them.\<close>

lemma place_chunks_stuck:
  assumes "list_all (\<lambda>c. old_lines c \<noteq> []) chunks" "place_chunks original seq k chunks = Inl e"
  shows "\<exists>before c after rs. chunks = before @ c # after \<and> chunks_located original k before rs \<and> stuck original (reached k rs) c"
  using assms
proof (induction original seq k chunks rule: place_chunks.induct)
  case (2 original seq k c chunks)
  from "2.prems" have old: "old_lines c \<noteq> []" by simp
  have now: ?case if "stuck original k c"
    using that by (intro exI [of _ "[]"] exI [of _ c] exI [of _ chunks]) simp
  show ?case
  proof (cases "seek_contexts original k (change_context c)")
    case (Inl e')
    from seek_contexts_stuck [OF this] show ?thesis by (intro now) (auto simp: stuck_def)
  next
    case (Inr here)
    obtain found n new where f: "find_old original c here = (found, n, new)" by (metis prod_cases3)
    show ?thesis
    proof (cases found)
      case None
      with f find_old_stuck [of original c here] old seek_contexts_reach [OF Inr]
      show ?thesis by (intro now) (auto simp: stuck_def)
    next
      case (Some i)
      from f Some "2.prems" Inr old have "place_chunks original (seq + 1) (i + n) chunks = Inl e" by (auto split: sum.splits)
      then have "\<exists>before c' after rs. chunks = before @ c' # after \<and> chunks_located original (i + n) before rs \<and>
          stuck original (reached (i + n) rs) c'"
        using "2.IH"(3) [OF Inr old] f Some "2.prems"(1) by simp
      then obtain before c' after rs where
        "chunks = before @ c' # after" "chunks_located original (i + n) before rs" "stuck original (reached (i + n) rs) c'"
        by blast
      with seek_contexts_reach [OF Inr] find_old_located [of original c here i n new] f Some old show ?thesis
        by (intro exI [of _ "c # before"] exI [of _ c'] exI [of _ after] exI [of _ "(i, n, new) # rs"]) auto
    qed
  qed
qed simp

text \<open>
  C25: applying an update whose hunks all have old lines never panics. It fails only if some
  hunk is stuck: with every hunk before it located, one of its lines of context, or its old lines, stand nowhere
  behind the place reached so far, not even up to trailing white space, dashes and quotes. Otherwise every
  hunk was applied once, in order and without overlap, at the first such place (the last one for a hunk at the end of the
  file; a place that agrees up to trailing white space is preferred): its old lines
  gave way to its new lines, all other lines are kept in their order, and the
  text ends with a line feed unless nothing is left of a text that had none.
\<close>

theorem apply_update_correct:
  assumes "list_all (\<lambda>c. old_lines c \<noteq> []) chunks"
  shows "case apply_update_chunks original chunks of
      None \<Rightarrow> False
    | Some (Inl e) \<Rightarrow>
        \<exists>before c after rs. chunks = before @ c # after \<and> chunks_located (lines original) 0 before rs \<and>
          stuck (lines original) (reached 0 rs) c
    | Some (Inr result) \<Rightarrow>
        \<exists>rs. chunks_located (lines original) 0 chunks rs \<and>
          list_all2 (chunk_applied (lines original)) chunks rs \<and> placed 0 rs (length (lines original)) \<and>
          (let ls = rewrite_from 0 rs (lines original); out = join_strings [newline] ls
           in result = (if out \<noteq> [] \<or> ends_with [newline] original then out @ [newline] else out))"
proof (cases "place_chunks (lines original) 0 0 chunks")
  case (Inl e)
  with place_chunks_stuck [OF assms Inl] show ?thesis by (simp add: apply_update_chunks_def compute_replacements_def)
next
  case (Inr rs)
  note p = place_chunks_Inr [OF assms Inr]
  note located = place_chunks_located [OF assms Inr]
  have "sorted (map (\<lambda>(i, n, new, seq). (i, seq)) rs)"
  proof (rule sorted_wrt_mono_rel [THEN sorted_wrt_map [THEN iffD2]])
    show "sorted_wrt (\<lambda>r r'. fst r < fst r') rs"
      using p by (simp add: sorted_wrt_map [symmetric] strict_sorted_iff)
  qed (auto simp: less_eq_prod_def)
  then have "sort_key (\<lambda>(i, n, new, seq). (i, seq)) rs = rs" by (rule sort_key_id_if_sorted)
  with Inr have "compute_replacements (lines original) chunks = Inr (map plain rs)"
    by (simp add: compute_replacements_def plain_def)
  moreover have "list_all (\<lambda>r. True) (map plain rs)" by (simp add: list_all_iff)
  ultimately show ?thesis using located p patch_lines.run_rewrite [of "map plain rs" "lines original"]
    by (auto simp: apply_update_chunks_def Let_def)
qed

text \<open>A small file, and an update that replaces its second line.\<close>

definition swap_line :: update_chunk where
  "swap_line = \<lparr>change_context = [''a''], old_lines = [''b''], new_lines = [''x'', ''y''], is_end_of_file = False\<rparr>"

definition three_lines :: "string list" where
  "three_lines = [''a'', ''b  '', ''c'']"

lemma three_lines_read: "lines (write_lines three_lines) = three_lines"
  using lines_write_lines [of three_lines "[]"] by (simp add: is_line_def lines_def three_lines_def)

lemma swap_line_result: "apply_update_chunks (write_lines three_lines) [swap_line] = Some (Inr (write_lines [''a'', ''x'', ''y'', ''c'']))"
  unfolding apply_update_chunks_def three_lines_read
  by (simp add: three_lines_def compute_replacements_def swap_line_def find_old_def Let_def seek_sequence_def sat_sub_def
      matches_sequence_def trim_end.simps ws_end_len_def ws_len_def byte_def apply_replacement_def splice_def write_lines_def
      upt_rec numeral_eq_Suc)

theorem apply_update_correct_witness:
  "\<exists>rs. chunks_located three_lines 0 [swap_line] rs \<and> list_all2 (chunk_applied three_lines) [swap_line] rs \<and>
     apply_update_chunks (write_lines three_lines) [swap_line] = Some (Inr (write_lines [''a'', ''x'', ''y'', ''c''])) \<and>
     write_lines [''a'', ''x'', ''y'', ''c''] = join_strings [newline] (rewrite_from 0 rs three_lines) @ [newline]"
proof -
  have "ends_with [newline] (write_lines three_lines)" by (simp add: ends_with_def write_lines_def three_lines_def)
  moreover have "list_all (\<lambda>c. old_lines c \<noteq> []) [swap_line]" by (simp add: swap_line_def)
  ultimately show ?thesis
    using apply_update_correct [of "[swap_line]" "write_lines three_lines"]
    by (auto simp: swap_line_result three_lines_read Let_def simp del: rewrite_from.simps chunks_located.simps)
qed

text \<open>
  C39: insertions can crash the patch tool. Without old lines the index moves on by the number of \<^emph>\<open>new\<close> lines, although it counts
  lines of the original text. Two insertions in a row, the first longer than the text,
  start the second splice behind the end of the text: the code panics.
\<close>

theorem stacked_insertions_panic:
  assumes "length (lines original) < length new" "new' \<noteq> []"
  shows "apply_update_chunks original
    [\<lparr>change_context = [], old_lines = [], new_lines = new, is_end_of_file = False\<rparr>,
     \<lparr>change_context = [], old_lines = [], new_lines = new', is_end_of_file = False\<rparr>] = None"
  using assms by (auto simp: apply_update_chunks_def compute_replacements_def less_eq_prod_def apply_replacement_def splice_def)

theorem stacked_insertions_panic_witness:
  "apply_update_chunks ''a''
    [\<lparr>change_context = [], old_lines = [], new_lines = [''x'', ''y''], is_end_of_file = False\<rparr>,
     \<lparr>change_context = [], old_lines = [], new_lines = [''z''], is_end_of_file = False\<rparr>] = None"
  by (rule stacked_insertions_panic) (simp_all add: lines_def)

text \<open>
  An insertion at the end of a text whose last line is empty goes before that line, even
  if an earlier hunk has replaced it: the inserted line is lost and an old line comes back.
\<close>

lemma end_insertion_lost:
  "apply_update_chunks (write_lines [''a'', []])
     [\<lparr>change_context = [], old_lines = [''a'', []], new_lines = [''b''], is_end_of_file = False\<rparr>,
      \<lparr>change_context = [], old_lines = [], new_lines = [''c''], is_end_of_file = True\<rparr>] =
   Some (Inr (write_lines [''b'', []]))"
proof -
  have "lines (write_lines [''a'', []]) = [''a'', []]"
    using lines_write_lines [of "[''a'', []]" "[]"] by (simp add: is_line_def lines_def)
  then show ?thesis
    by (simp add: apply_update_chunks_def compute_replacements_def find_old_def Let_def seek_sequence_def sat_sub_def
        matches_sequence_def apply_replacement_def splice_def write_lines_def numeral_eq_Suc less_eq_prod_def)
qed

text \<open>
  The test for a leading space is made after trimming, where it cannot hold: a hunk that
  starts with a line of context and has no \<open>@@\<close> header is refused.
\<close>

lemma context_first_hunk_refused:
  assumes "is_ascii_alphabetic c"
  shows "update_chunks i ((CHR '' '' # c # s) # ls) =
    Inl (InvalidHunk (''Unexpected line in Update File: '' @ single_quote @ (c # trim_end s) @ single_quote) (i + 1))"
proof -
  have "printable c" "c \<noteq> CHR ''*''" "c \<noteq> CHR ''@''" "c \<noteq> CHR ''+''" "c \<noteq> CHR ''-''" "c \<noteq> CHR '' ''"
    using assms by (auto simp: is_ascii_alphabetic_def printable_def byte_def)
  moreover from this have "trim (CHR '' '' # c # s) = c # trim_end s"
    by (simp add: trim_def trim_end_printable)
  ultimately show ?thesis
    by (simp add: update_chunks.simps ends_update_def opens_hunk_def)
qed

text \<open>Old lines that stand in the text, after the place reached so far, are found.\<close>

lemma seek_sequence_finds:
  assumes "needle \<noteq> []" "start \<le> i" "i + length needle \<le> length original" "take (length needle) (drop i original) = needle"
  shows "seek_sequence original needle start at_end \<noteq> None"
proof -
  have eq: "drop i original = needle @ drop (length needle) (drop i original)" using assms(4) by (metis append_take_drop_id)
  have "zip (drop i original) needle = zip needle needle" by (subst eq) (simp add: zip_append1)
  then have "matches_sequence (drop i original) needle"
    using assms(3) by (auto simp: matches_sequence_def list_all_iff set_zip)
  moreover have "i \<in> set [start..<Suc (sat_sub (length original) (length needle))]" using assms(2,3) by (auto simp: sat_sub_def)
  ultimately show ?thesis using assms(1)
    by (auto simp: seek_sequence_def Let_def find_None_iff split: option.split)
qed

end
