(* ===== verification/Text_Edit.thy ===== *)
theory Text_Edit
  imports Text_Lines Splices
begin

text \<open>
  The editing tools for file texts: line endings, anchors and line ranges
  (\<open>refact-file-edit-core/src/text_edit.rs\<close>) and the three edits built from them
  (\<open>engine/src/tools/file_edit/auxiliary.rs\<close>).

  An edit reads the file and writes the result through its arguments \<open>read_file\<close> and
  \<open>write_file\<close>, which stand for the reader and writer of the engine (\<open>write_file\<close> refuses to
  write over a file that changed since it was read). The removal of line-number prefixes
  rests on a regular expression of another library and is an argument too. Slices outside
  of a string make the source panic: \<open>None\<close>.
\<close>

section \<open>Searching\<close>

text \<open>\<open>str::find\<close>, \<open>str::match_indices\<close>, \<open>str::replace\<close> and \<open>str::split\<close> of a nonempty pattern.\<close>

fun find_str :: "string \<Rightarrow> string \<Rightarrow> nat option" where
  "find_str pat [] = (if pat = [] then Some 0 else None)"
| "find_str pat (c # s) = (if starts_with pat (c # s) then Some 0 else map_option Suc (find_str pat s))"

function match_from :: "nat \<Rightarrow> string \<Rightarrow> string \<Rightarrow> nat list" where
  "match_from pos pat s =
     (if pat = [] then []
      else case find_str pat s of
             None \<Rightarrow> []
           | Some i \<Rightarrow> (pos + i) # match_from (pos + i + length pat) pat (drop (i + length pat) s))"
  by pat_completeness auto

lemma find_str_Some: "find_str pat s = Some i \<Longrightarrow> i + length pat \<le> length s \<and> take (length pat) (drop i s) = pat"
proof (induction pat s arbitrary: i rule: find_str.induct)
  case (2 pat c s)
  have "length pat \<le> length (c # s)" if "starts_with pat (c # s)"
    using that by (metis le_add1 length_append starts_with_iff)
  with 2 show ?case by (auto simp: starts_with_def split: if_splits)
qed (auto split: if_splits)

lemma find_str_shorter: "find_str pat s = Some i \<Longrightarrow> pat \<noteq> [] \<Longrightarrow> length (drop (i + length pat) s) < length s"
  using find_str_Some [of pat s i] by (cases pat) auto

termination match_from
  by (relation "measure (\<lambda>(pos, pat, s). length s)") (auto dest: find_str_shorter)

definition match_indices :: "string \<Rightarrow> string \<Rightarrow> nat list" where
  "match_indices pat s = match_from 0 pat s"

function replace_str :: "string \<Rightarrow> string \<Rightarrow> string \<Rightarrow> string" where
  "replace_str pat new s =
     (if pat = [] then s
      else case find_str pat s of
             None \<Rightarrow> s
           | Some i \<Rightarrow> take i s @ new @ replace_str pat new (drop (i + length pat) s))"
  by pat_completeness auto
termination
  by (relation "measure (\<lambda>(pat, new, s). length s)") (auto dest: find_str_shorter)

function split_str :: "string \<Rightarrow> string \<Rightarrow> string list" where
  "split_str pat s =
     (if pat = [] then [s]
      else case find_str pat s of
             None \<Rightarrow> [s]
           | Some i \<Rightarrow> take i s # split_str pat (drop (i + length pat) s))"
  by pat_completeness auto
termination
  by (relation "measure (\<lambda>(pat, s). length s)") (auto dest: find_str_shorter)

declare match_from.simps [simp del] replace_str.simps [simp del] split_str.simps [simp del]

definition replace_first :: "string \<Rightarrow> string \<Rightarrow> string \<Rightarrow> string" where
  "replace_first pat new s =
     (case find_str pat s of None \<Rightarrow> s | Some i \<Rightarrow> take i s @ new @ drop (i + length pat) s)"

definition replace_char :: "char \<Rightarrow> string \<Rightarrow> string \<Rightarrow> string" where
  "replace_char c new s = concat (map (\<lambda>x. if x = c then new else [x]) s)"

section \<open>Line endings\<close>

abbreviation crlf :: string where
  "crlf \<equiv> [carriage_return, newline]"

definition normalize_all_line_endings :: "string \<Rightarrow> string" where
  "normalize_all_line_endings content = replace_char carriage_return [newline] (replace_str crlf [newline] content)"

definition normalize_line_endings :: "string \<Rightarrow> string" where
  "normalize_line_endings content = normalize_all_line_endings content"

definition restore_line_endings :: "string \<Rightarrow> bool \<Rightarrow> string" where
  "restore_line_endings content original_had_crlf =
     (if original_had_crlf then replace_char newline crlf (normalize_all_line_endings content) else content)"

section \<open>Messages\<close>

definition warning_mark :: string where
  "warning_mark = [CHR 0xE2, CHR 0x9A, CHR 0xA0, CHR 0xEF, CHR 0xB8, CHR 0x8F, CHR 0x20]"

definition hint_mark :: string where
  "hint_mark = [CHR 0xF0, CHR 0x9F, CHR 0x92, CHR 0xA1, CHR 0x20]"

definition message :: "string \<Rightarrow> string \<Rightarrow> string" where
  "message problem hint = warning_mark @ problem @ '' '' @ hint_mark @ hint"

definition show_nats :: "nat list \<Rightarrow> string" where
  "show_nats ns = ''['' @ join_strings '', '' (map show_nat ns) @ '']''"

definition line_at :: "string \<Rightarrow> nat \<Rightarrow> nat" where
  "line_at content i = length (lines (take i content)) + 1"

definition find_match_lines :: "string \<Rightarrow> string \<Rightarrow> nat list" where
  "find_match_lines content pat = (if pat = [] then [] else map (line_at content) (match_indices pat content))"

section \<open>Anchors\<close>

datatype anchor_mode = ReplaceBetween | InsertAfter | InsertBefore

definition anchor_pairs :: "string \<Rightarrow> string \<Rightarrow> string \<Rightarrow> (nat \<times> nat) list" where
  "anchor_pairs content before after =
     List.map_filter (\<lambda>b. map_option (\<lambda>rel. (b, b + length before + rel)) (find_str after (drop (b + length before) content)))
       (match_indices before content)"

fun overlapping_pair :: "nat \<Rightarrow> (nat \<times> nat) list \<Rightarrow> (nat \<times> nat) option" where
  "overlapping_pair after_len (p # q # ps) =
     (if fst q < snd p + after_len then Some (fst p, fst q) else overlapping_pair after_len (q # ps))"
| "overlapping_pair after_len ps = None"

definition replace_pair :: "string \<Rightarrow> string \<Rightarrow> string \<Rightarrow> nat \<times> nat \<Rightarrow> string \<Rightarrow> string option" where
  "replace_pair before after replacement p result =
     (case p of (b_start, a_start) \<Rightarrow>
        let b_end = b_start + length before; a_end = a_start + length after
        in if b_end \<le> length result \<and> a_end \<le> length result
           then Some (take b_end result @ replacement @ after @ drop a_end result) else None)"

definition replace_between_anchors :: "string \<Rightarrow> string \<Rightarrow> string \<Rightarrow> string \<Rightarrow> bool \<Rightarrow> (string + string) option" where
  "replace_between_anchors content before after replacement multiple =
     (if before = [] then Some (Inl (message ''anchor_before cannot be empty.'' ''Provide unique text before the replacement''))
      else if after = [] then Some (Inl (message ''anchor_after cannot be empty.'' ''Provide unique text after the replacement''))
      else if match_indices before content = []
      then Some (Inl (message ''anchor_before not found.'' ''Use cat() to verify text exists''))
      else
        let pairs = anchor_pairs content before after in
        if pairs = [] then Some (Inl (message ''anchor_after not found after anchor_before.'' ''Check anchor order''))
        else if \<not> multiple \<and> length pairs > 1
        then Some (Inl (message (show_nat (length pairs) @ '' anchor pairs at lines '' @
                                 show_nats (map (\<lambda>p. line_at content (fst p)) pairs) @ ''.'')
                          ''Use more specific anchors, or set multiple:true''))
        else
          let sorted_pairs = sort_key fst pairs in
          case overlapping_pair (length after) sorted_pairs of
            Some (i, j) \<Rightarrow>
              Some (Inl (message (''Overlapping anchor regions at lines '' @ show_nat (line_at content i) @ '' and '' @
                                  show_nat (line_at content j) @ ''.'') ''Use more specific anchors''))
          | None \<Rightarrow> map_option Inr (run_steps (replace_pair before after replacement) (rev sorted_pairs) content))"

definition insert_at :: "string \<Rightarrow> nat \<Rightarrow> string \<Rightarrow> string option" where
  "insert_at new pos result = splice pos pos new result"

definition insert_at_anchor :: "string \<Rightarrow> string \<Rightarrow> string \<Rightarrow> bool \<Rightarrow> bool \<Rightarrow> (string + string) option" where
  "insert_at_anchor content anchor new multiple after =
     (if anchor = [] then Some (Inl (message ''Anchor cannot be empty.'' ''Provide unique text to locate edit position''))
      else
        let positions = match_indices anchor content in
        if positions = [] then Some (Inl (message ''Anchor not found.'' ''Use cat() to verify text exists''))
        else if \<not> multiple \<and> length positions > 1
        then Some (Inl (message (show_nat (length positions) @ '' anchor occurrences at lines '' @
                                 show_nats (map (line_at content) positions) @ ''.'')
                          ''Use more specific anchor, or set multiple:true''))
        else map_option Inr
               (run_steps (\<lambda>pos. insert_at new (if after then pos + length anchor else pos)) (rev positions) content))"

section \<open>Line ranges\<close>

record line_range =
  lr_start :: nat
  lr_end :: nat

text \<open>\<open>str::parse::<usize>\<close>: an optional plus sign and at least one digit, without overflow.\<close>

definition digits_value :: "string \<Rightarrow> nat" where
  "digits_value s = foldl (\<lambda>n c. 10 * n + (byte c - 48)) 0 s"

definition parse_usize :: "string \<Rightarrow> nat option" where
  "parse_usize s =
     (let t = (if starts_with ''+'' s then drop 1 s else s)
      in if t \<noteq> [] \<and> list_all is_digit t \<and> digits_value t \<le> u64_max then Some (digits_value t) else None)"

text \<open>One comma-separated part, already trimmed: its range, before the checks.\<close>

definition read_range :: "nat \<Rightarrow> string \<Rightarrow> string + line_range" where
  "read_range total_lines part =
     (if CHR '':'' \<in> set part
      then
        let start_str = trim (takeWhile (\<lambda>c. c \<noteq> CHR '':'') part); end_str = trim (drop 1 (dropWhile (\<lambda>c. c \<noteq> CHR '':'') part)) in
        case (if start_str = [] then Some 1 else parse_usize start_str) of
          None \<Rightarrow> Inl (message (''Invalid start '' @ single_quote @ start_str @ single_quote @ '' in '' @ single_quote @ part @ single_quote @ ''.'')
                    (''Use numbers like '' @ single_quote @ ''10:20'' @ single_quote))
        | Some s \<Rightarrow>
            (case (if end_str = [] then Some total_lines else parse_usize end_str) of
               None \<Rightarrow> Inl (message (''Invalid end '' @ single_quote @ end_str @ single_quote @ '' in '' @ single_quote @ part @ single_quote @ ''.'')
                         (''Use numbers like '' @ single_quote @ ''10:20'' @ single_quote))
             | Some e \<Rightarrow> Inr \<lparr>lr_start = s, lr_end = e\<rparr>)
      else case parse_usize part of
             None \<Rightarrow> Inl (message (''Invalid line '' @ single_quote @ part @ single_quote @ ''.'')
                       (''Use number like '' @ single_quote @ ''10'' @ single_quote @ '' or range '' @ single_quote @ ''10:20'' @ single_quote))
           | Some n \<Rightarrow> Inr \<lparr>lr_start = n, lr_end = n\<rparr>)"

definition check_range :: "nat \<Rightarrow> string \<Rightarrow> line_range \<Rightarrow> string + line_range" where
  "check_range total_lines part r =
     (if lr_start r = 0 then Inl (message ''Line numbers are 1-based, got 0.'' ''Use 1 for first line'')
      else if lr_end r < lr_start r
      then Inl (message (''Invalid range '' @ single_quote @ part @ single_quote @ '': end ('' @ show_nat (lr_end r) @ '') < start ('' @
                         show_nat (lr_start r) @ '').'') ''Use start:end format'')
      else if lr_start r > total_lines \<and> \<not> (total_lines = 0 \<and> lr_start r = 1)
      then Inl (message (''Line '' @ show_nat (lr_start r) @ '' beyond EOF ('' @ show_nat total_lines @ '' lines).'')
                  ''Use cat() to check file length'')
      else Inr r)"

fun read_ranges :: "nat \<Rightarrow> string list \<Rightarrow> string + line_range list" where
  "read_ranges total_lines [] = Inr []"
| "read_ranges total_lines (raw # parts) =
     (let part = trim raw in
      if part = [] then read_ranges total_lines parts
      else case read_range total_lines part of
        Inl e \<Rightarrow> Inl e
      | Inr r \<Rightarrow>
          (case check_range total_lines part r of
             Inl e \<Rightarrow> Inl e
           | Inr r' \<Rightarrow> (case read_ranges total_lines parts of Inl e \<Rightarrow> Inl e | Inr rs \<Rightarrow> Inr (r' # rs))))"

fun overlapping_ranges :: "line_range list \<Rightarrow> (line_range \<times> line_range) option" where
  "overlapping_ranges (p # q # rs) = (if lr_start q \<le> lr_end p then Some (p, q) else overlapping_ranges (q # rs))"
| "overlapping_ranges rs = None"

definition parse_line_ranges :: "string \<Rightarrow> nat \<Rightarrow> string + line_range list" where
  "parse_line_ranges ranges_str total_lines =
     (case read_ranges total_lines (split_on (CHR '','') ranges_str) of
        Inl e \<Rightarrow> Inl e
      | Inr rs \<Rightarrow>
          if rs = []
          then Inl (message ''No ranges provided.'' (''Use format '' @ single_quote @ ''10:20'' @ single_quote @ '' or '' @
                      single_quote @ ''5'' @ single_quote @ '' or '' @ single_quote @ '':10,20:'' @ single_quote))
          else case overlapping_ranges (sort_key lr_start rs) of
                 Some (p, q) \<Rightarrow>
                   Inl (message (''Overlapping ranges '' @ show_nat (lr_start p) @ '':'' @ show_nat (lr_end p) @ '' and '' @
                                 show_nat (lr_start q) @ '':'' @ show_nat (lr_end q) @ ''.'') ''Ranges must not overlap'')
               | None \<Rightarrow> Inr rs)"

section \<open>Edits of a file\<close>

type_synonym edit_result = "(string + string \<times> string) option"

text \<open>The end of every edit: the new text is written, and returned beside the old one.\<close>

definition commit :: "(string \<Rightarrow> string + unit) \<Rightarrow> string \<Rightarrow> string \<Rightarrow> string + string \<times> string" where
  "commit write_file file_content new_content =
     (case write_file new_content of Inl e \<Rightarrow> Inl e | Inr _ \<Rightarrow> Inr (file_content, new_content))"

definition has_crlf :: "string \<Rightarrow> bool" where
  "has_crlf content \<longleftrightarrow> find_str crlf content \<noteq> None"

definition str_replace ::
  "(string \<Rightarrow> string) \<Rightarrow> string \<Rightarrow> string + string \<Rightarrow> (string \<Rightarrow> string + unit) \<Rightarrow> string \<Rightarrow> string \<Rightarrow> bool
   \<Rightarrow> string + string \<times> string" where
  "str_replace strip path_debug read_file write_file old_str new_str replace_multiple =
     (if old_str = [] then Inl (message ''old_str cannot be empty.'' ''Provide the exact text to replace'')
      else case read_file of
        Inl e \<Rightarrow> Inl e
      | Inr file_content \<Rightarrow>
          let content = normalize_line_endings file_content; old = strip (normalize_line_endings old_str) in
          if old = []
          then Inl (message ''old_str is empty after stripping line-number prefixes.'' ''Provide actual source content, not just line numbers'')
          else
            let occurrences = length (match_indices old content) in
            if occurrences = 0
            then Inl (warning_mark @ ''old_str not found in '' @ path_debug @ ''. '' @
                      (if find_str (trim old) content \<noteq> None \<and> trim old \<noteq> []
                       then ''Whitespace mismatch detected. '' @ hint_mark @ ''Check leading/trailing spaces, or use update_textdoc_anchored()''
                       else hint_mark @ ''Use cat() to verify content, or try update_textdoc_anchored() with shorter anchors''))
            else if \<not> replace_multiple \<and> occurrences > 1
            then Inl (message (show_nat occurrences @ '' occurrences at lines '' @ show_nats (find_match_lines content old) @ ''.'')
                        ''Add surrounding context to make unique, or set multiple:true'')
            else
              let new = normalize_line_endings new_str;
                  new_content = (if replace_multiple then replace_str old new content else replace_first old new content)
              in commit write_file file_content (restore_line_endings new_content (has_crlf file_content)))"

definition str_replace_anchored ::
  "string + string \<Rightarrow> (string \<Rightarrow> string + unit) \<Rightarrow> anchor_mode \<Rightarrow> string \<Rightarrow> string option \<Rightarrow> string \<Rightarrow> bool \<Rightarrow> edit_result" where
  "str_replace_anchored read_file write_file mode anchor1 anchor2 content multiple =
     (if anchor1 = [] then Some (Inl (message ''Anchor cannot be empty.'' ''Provide unique text to locate edit position''))
      else case read_file of
        Inl e \<Rightarrow> Some (Inl e)
      | Inr file_content \<Rightarrow>
          let normalized = normalize_line_endings file_content; anchor1_n = normalize_line_endings anchor1;
              content_n = normalize_line_endings content;
              result = (case mode of
                  ReplaceBetween \<Rightarrow>
                    (case anchor2 of
                       None \<Rightarrow> Some (Inl (warning_mark @ ''anchor_after required for replace_between mode''))
                     | Some a \<Rightarrow>
                         if a = [] then Some (Inl (warning_mark @ ''anchor_after cannot be empty''))
                         else replace_between_anchors normalized anchor1_n (normalize_line_endings a) content_n multiple)
                | InsertAfter \<Rightarrow> insert_at_anchor normalized anchor1_n content_n multiple True
                | InsertBefore \<Rightarrow> insert_at_anchor normalized anchor1_n content_n multiple False)
          in map_option (\<lambda>r. case r of
                            Inl e \<Rightarrow> Inl e
                          | Inr t \<Rightarrow> commit write_file file_content (restore_line_endings t (has_crlf file_content))) result)"

text \<open>\<open>str_replace_lines\<close>: one range takes all of the new text, several take its parts.\<close>

definition separator :: string where
  "separator = ''---RANGE_SEPARATOR---''"

definition replace_one_range :: "nat \<Rightarrow> line_range \<Rightarrow> string list \<Rightarrow> string list \<Rightarrow> (string + string list) option" where
  "replace_one_range total_lines r new ls =
     (if lr_end r > total_lines \<and> \<not> (total_lines = 0 \<and> lr_start r = 1)
      then Some (Inl (message (''Range end '' @ show_nat (lr_end r) @ '' exceeds file length ('' @ show_nat total_lines @ '' lines).'')
                        (''Use cat() to check file, or '' @ single_quote @ '':'' @ single_quote @ '' for end'')))
      else map_option Inr (splice (lr_start r - 1) (min (lr_end r) total_lines) new ls))"

fun replace_ranges :: "(line_range \<times> string list) list \<Rightarrow> string list \<Rightarrow> (string + string list) option" where
  "replace_ranges [] ls = Some (Inr ls)"
| "replace_ranges ((r, new) # rs) ls =
     (if lr_end r > length ls
      then Some (Inl (message (''Range '' @ show_nat (lr_start r) @ '':'' @ show_nat (lr_end r) @ '' exceeds current length ('' @
                               show_nat (length ls) @ '' lines).'') ''Check ranges''))
      else Option.bind (splice (lr_start r - 1) (lr_end r) new ls) (replace_ranges rs))"

definition replace_line_ranges :: "line_range list \<Rightarrow> string \<Rightarrow> string list \<Rightarrow> (string + string list) option" where
  "replace_line_ranges ranges new_content ls =
     (if length ranges = 1 then replace_one_range (length ls) (ranges ! 0) (lines new_content) ls
      else
        let parts = split_str separator new_content in
        if length parts \<noteq> length ranges
        then Some (Inl (message (show_nat (length parts) @ '' content parts but '' @ show_nat (length ranges) @ '' ranges.'')
                          (''Separate content with '' @ single_quote @ separator @ single_quote)))
        else replace_ranges (rev (sort_key (\<lambda>(r, new). lr_start r) (rev (zip ranges (map lines parts))))) ls)"

definition str_replace_lines :: "string + string \<Rightarrow> (string \<Rightarrow> string + unit) \<Rightarrow> string \<Rightarrow> string \<Rightarrow> edit_result" where
  "str_replace_lines read_file write_file new_content ranges_str =
     (case read_file of
        Inl e \<Rightarrow> Some (Inl e)
      | Inr file_content \<Rightarrow>
          let content = normalize_line_endings file_content; ls = lines content in
          case parse_line_ranges ranges_str (length ls) of
            Inl e \<Rightarrow> Some (Inl e)
          | Inr ranges \<Rightarrow>
              map_option (\<lambda>r. case r of
                    Inl e \<Rightarrow> Inl e
                  | Inr ls' \<Rightarrow>
                      let joined = join_strings [newline] ls'
                      in commit write_file file_content
                           (restore_line_endings (if ends_with [newline] content then joined @ [newline] else joined)
                              (has_crlf file_content)))
                (replace_line_ranges ranges (normalize_line_endings new_content) ls))"

end
