(* ===== verification/Text_Edit_Properties.thy ===== *)
theory Text_Edit_Properties
  imports Text_Edit
begin

text \<open>
  What the editing tools guarantee: the text outside of the edited parts is kept, the
  edited parts are exactly the occurrences, regions or lines named by the caller, no edit
  touches a part twice, and the text is written back with the line ending the file used.
\<close>

section \<open>Occurrences\<close>

lemma find_str_first: "find_str pat s = Some i \<Longrightarrow> j < i \<Longrightarrow> \<not> starts_with pat (drop j s)"
proof (induction pat s arbitrary: i j rule: find_str.induct)
  case (2 pat c s)
  then show ?case by (cases j) (auto split: if_splits)
qed (auto split: if_splits)

lemma find_str_None: "find_str pat s = None \<Longrightarrow> \<not> starts_with pat (drop j s)"
proof (induction pat s arbitrary: j rule: find_str.induct)
  case (1 pat)
  then show ?case by (cases pat) (auto split: if_splits)
next
  case (2 pat c s)
  then show ?case by (cases j) (auto split: if_splits)
qed

text \<open>An occurrence of a pattern at a position.\<close>

definition occurs_at :: "string \<Rightarrow> string \<Rightarrow> nat \<Rightarrow> bool" where
  "occurs_at pat s i \<longleftrightarrow> i + length pat \<le> length s \<and> take (length pat) (drop i s) = pat"

lemma match_from_occurs:
  "i \<in> set (match_from pos pat s) \<Longrightarrow> pos \<le> i \<and> occurs_at pat s (i - pos)"
proof (induction pos pat s rule: match_from.induct)
  case (1 pos pat s)
  then obtain j where j: "pat \<noteq> []" "find_str pat s = Some j"
    "i = pos + j \<or> i \<in> set (match_from (pos + j + length pat) pat (drop (j + length pat) s))"
    by (simp add: match_from.simps [of pos pat s] split: if_splits option.splits) metis
  note f = find_str_Some [OF j(2)]
  from j(3) show ?case
  proof
    assume "i = pos + j"
    with f show ?thesis by (simp add: occurs_at_def)
  next
    assume "i \<in> set (match_from (pos + j + length pat) pat (drop (j + length pat) s))"
    with 1 j have *: "pos + j + length pat \<le> i" "occurs_at pat (drop (j + length pat) s) (i - (pos + j + length pat))" by auto
    then have "i - (pos + j + length pat) + (j + length pat) = i - pos" by simp
    with * f show ?thesis by (auto simp: occurs_at_def)
  qed
qed

lemma match_from_sorted: "sorted_wrt (\<lambda>i j. i + length pat \<le> j) (match_from pos pat s)"
proof (induction pos pat s rule: match_from.induct)
  case (1 pos pat s)
  then show ?case
    using match_from_occurs by (subst match_from.simps) (fastforce split: option.split)
qed

lemmas match_indices_sorted = match_from_sorted [where pos = 0, folded match_indices_def]

lemma match_indices_occurs: "i \<in> set (match_indices pat s) \<Longrightarrow> occurs_at pat s i"
  using match_from_occurs [of i 0 pat s] by (simp add: match_indices_def)

lemma placed_sorted:
  assumes "sorted_wrt (\<lambda>i j. i + w \<le> j) is" "\<forall>i \<in> set is. k \<le> f i \<and> f i + n \<le> len" "k \<le> len"
    and "\<And>i j. i \<in> set is \<Longrightarrow> i + w \<le> j \<Longrightarrow> f i + n \<le> f j"
  shows "placed k (map (\<lambda>i. (f i, n, new)) is) len"
  using assms
proof (induction "is" arbitrary: k)
  case (Cons i "is")
  have "placed (f i + n) (map (\<lambda>i. (f i, n, new)) is) len"
    using Cons.prems by (intro Cons.IH) auto
  with Cons.prems show ?case by simp
qed simp

section \<open>Regions between anchors\<close>

lemma anchor_pair:
  assumes "(b, a) \<in> set (anchor_pairs content before after)"
  shows "occurs_at before content b" "b + length before \<le> a" "occurs_at after content a"
    "b + length before \<le> j \<Longrightarrow> j < a \<Longrightarrow> \<not> starts_with after (drop j content)"
proof -
  let ?e = "b + length before"
  from assms obtain rel where rel: "b \<in> set (match_indices before content)" "find_str after (drop ?e content) = Some rel" "a = ?e + rel"
    by (auto simp: anchor_pairs_def map_filter_def split: option.splits)
  show "occurs_at before content b" using rel(1) by (rule match_indices_occurs)
  show "?e \<le> a" using rel by simp
  show "occurs_at after content a"
    using find_str_Some [OF rel(2)] \<open>occurs_at before content b\<close> rel(3) by (auto simp: occurs_at_def add.commute)
  show "\<not> starts_with after (drop j content)" if "?e \<le> j" "j < a"
    using find_str_first [OF rel(2), of "j - ?e"] that rel(3) by (simp add: add.commute)
qed

lemma map_filter_sorted:
  assumes "\<And>x y. f x = Some y \<Longrightarrow> fst y = x" "sorted xs"
  shows "sorted (map fst (List.map_filter f xs))"
  using assms(2)
proof (induction xs)
  case (Cons x xs)
  have "fst ` set (List.map_filter f xs) \<subseteq> set xs" using assms(1) by (force simp: map_filter_def)
  with Cons assms(1) show ?case by (fastforce simp: map_filter_simps split: option.split)
qed (simp add: map_filter_simps)

lemma anchor_pairs_sorted: "sorted (map fst (anchor_pairs content before after))"
  unfolding anchor_pairs_def
proof (rule map_filter_sorted)
  show "sorted (match_indices before content)"
    by (rule sorted_wrt_mono_rel [OF _ match_indices_sorted [of before content]]) simp
qed auto

definition between :: "string \<Rightarrow> string \<Rightarrow> nat \<times> nat \<Rightarrow> nat \<times> nat \<times> string" where
  "between before replacement p = (fst p + length before, snd p - (fst p + length before), replacement)"

definition region :: "string \<Rightarrow> string \<Rightarrow> string \<Rightarrow> nat \<times> nat \<Rightarrow> nat \<times> nat \<times> string" where
  "region before after replacement p =
     (fst p + length before, snd p + length after - (fst p + length before), replacement @ after)"

interpretation anchors: back_to_front "replace_pair before after replacement" "region before after replacement"
    "\<lambda>p. fst p + length before \<le> snd p + length after" for before after replacement
  by unfold_locales (auto simp: replace_pair_def region_def)

text \<open>Replacing the region with the anchor at its end keeps that anchor.\<close>

lemma region_between:
  assumes "list_all (\<lambda>p. fst p + length before \<le> snd p \<and> occurs_at after xs (snd p)) ps"
    and "placed k (map (region before after replacement) ps) (length xs)"
  shows "placed k (map (between before replacement) ps) (length xs) \<and>
    rewrite_from k (map (region before after replacement) ps) xs = rewrite_from k (map (between before replacement) ps) xs"
  using assms
proof (induction ps arbitrary: k)
  case (Cons p ps)
  let ?e = "fst p + length before" and ?a = "snd p" and ?a' = "snd p + length after"
  from Cons.prems have p: "?e \<le> ?a" "occurs_at after xs ?a" "k \<le> ?e" and rest: "placed ?a' (map (region before after replacement) ps) (length xs)"
    by (auto simp: region_def [of before after replacement p])
  from Cons.IH [OF _ rest] Cons.prems have IH: "placed ?a' (map (between before replacement) ps) (length xs)"
    "rewrite_from ?a' (map (region before after replacement) ps) xs = rewrite_from ?a' (map (between before replacement) ps) xs"
    by auto
  have "rewrite_from ?a (map (between before replacement) ps) xs = after @ rewrite_from ?a' (map (between before replacement) ps) xs"
    using rewrite_from_advance [of ?a ?a', OF _ IH(1)] p(2) by (simp add: occurs_at_def)
  moreover have "placed ?a (map (between before replacement) ps) (length xs)"
    using IH(1) p(2) by (cases ps) (auto simp: between_def occurs_at_def)
  ultimately show ?case using p IH(2)
    by (simp add: region_def [of before after replacement p] between_def [of before replacement p])
qed simp

lemma no_overlap_placed:
  assumes "overlapping_pair (length after) ps = None" "ps \<noteq> [] \<Longrightarrow> k \<le> fst (hd ps) + length before" "k \<le> len"
    and "list_all (\<lambda>p. fst p + length before \<le> snd p \<and> snd p + length after \<le> len) ps"
  shows "placed k (map (region before after replacement) ps) len"
  using assms
proof (induction "length after" ps arbitrary: k rule: overlapping_pair.induct)
  case (1 p q ps)
  then have "placed (snd p + length after) (map (region before after replacement) (q # ps)) len" by (auto split: if_splits)
  with 1 show ?case by (auto simp: region_def)
qed (auto simp: region_def)

lemma overlapping_pair_None:
  "list_all (\<lambda>p. fst p \<le> snd p) ps \<Longrightarrow> overlapping_pair n ps = None \<longleftrightarrow> sorted_wrt (\<lambda>p q. snd p + n \<le> fst q) ps"
proof (induction n ps rule: overlapping_pair.induct)
  case (1 n p q ps)
  have "snd p + n \<le> fst r" if "snd p + n \<le> fst q" "snd q + n \<le> fst r" for r
    using that "1.prems" by auto
  with 1 show ?case by auto
qed simp_all

text \<open>The anchors name regions that can be replaced: at least one, only one unless several are allowed, apart from each other.\<close>

definition regions_ok :: "string \<Rightarrow> string \<Rightarrow> string \<Rightarrow> bool \<Rightarrow> bool" where
  "regions_ok content before after multiple \<longleftrightarrow>
     (let pairs = anchor_pairs content before after in
      before \<noteq> [] \<and> after \<noteq> [] \<and> pairs \<noteq> [] \<and> (multiple \<or> length pairs = 1) \<and>
      sorted_wrt (\<lambda>p q. snd p + length after \<le> fst q) pairs)"

text \<open>
  C28: replacing between anchors. When the regions are usable, the text from the end of each
  opening anchor to the first closing anchor after it is replaced and every other byte, the
  anchors included, is kept; otherwise the edit is refused with a message. Slicing never
  fails.
\<close>

theorem replace_between_correct:
  "if regions_ok content before after multiple
   then replace_between_anchors content before after replacement multiple =
     Some (Inr (rewrite_from 0 (map (between before replacement) (anchor_pairs content before after)) content))
   else \<exists>e. replace_between_anchors content before after replacement multiple = Some (Inl e)"
proof -
  let ?pairs = "anchor_pairs content before after"
  have sort: "sort_key fst ?pairs = ?pairs" using anchor_pairs_sorted by (rule sort_key_id_if_sorted)
  have ok: "list_all (\<lambda>p. fst p + length before \<le> snd p \<and> occurs_at after content (snd p)) ?pairs"
    using anchor_pair(2,3) by (fastforce simp: list_all_iff)
  then have "list_all (\<lambda>p. fst p \<le> snd p) ?pairs" by (auto simp: list_all_iff)
  note overlap = overlapping_pair_None [OF this, of "length after"]
  have none: "match_indices before content = [] \<Longrightarrow> ?pairs = []" by (simp add: anchor_pairs_def map_filter_simps)
  show ?thesis
  proof (cases "regions_ok content before after multiple")
    case True
    then have r: "before \<noteq> []" "after \<noteq> []" "?pairs \<noteq> []" "multiple \<or> length ?pairs = 1"
      "overlapping_pair (length after) ?pairs = None"
      using overlap by (auto simp: regions_ok_def Let_def)
    have placed: "placed 0 (map (region before after replacement) ?pairs) (length content)"
      using ok r(5) by (intro no_overlap_placed) (auto simp: list_all_iff occurs_at_def)
    have "run_steps (replace_pair before after replacement) (rev ?pairs) content =
        Some (rewrite_from 0 (map (region before after replacement) ?pairs) content)"
      using ok by (intro anchors.run_rewrite placed) (auto simp: list_all_iff)
    with True r none sort region_between [OF ok placed] show ?thesis
      by (auto simp: replace_between_anchors_def Let_def)
  next
    case False
    have "length ?pairs = 1 \<or> length ?pairs > 1" if "?pairs \<noteq> []" using that by (cases ?pairs) auto
    with False show ?thesis
      using overlap sort
      by (cases "overlapping_pair (length after) ?pairs")
        (auto simp: replace_between_anchors_def Let_def regions_ok_def)
  qed
qed

section \<open>Insertions at an anchor\<close>

interpretation insertions: back_to_front "\<lambda>pos. insert_at new (f pos)" "\<lambda>pos. (f pos, 0, new)" "\<lambda>pos. True" for new and f :: "nat \<Rightarrow> nat"
  by unfold_locales (auto simp: insert_at_def splice_def)

text \<open>
  Inserting at an anchor puts the new text right before, or right after, every
  occurrence of the anchor -- the only one, unless several are allowed -- and keeps every
  byte of the text; otherwise the edit is refused with a message.
\<close>

lemma insert_at_anchor_correct:
  "let positions = match_indices anchor content in
   if anchor \<noteq> [] \<and> positions \<noteq> [] \<and> (multiple \<or> length positions = 1)
   then insert_at_anchor content anchor new multiple after =
     Some (Inr (rewrite_from 0 (map (\<lambda>i. (if after then i + length anchor else i, 0, new)) positions) content))
   else \<exists>e. insert_at_anchor content anchor new multiple after = Some (Inl e)"
proof -
  let ?ps = "match_indices anchor content" and ?f = "\<lambda>i. if after then i + length anchor else i"
  have "placed 0 (map (\<lambda>i. (?f i, 0, new)) ?ps) (length content)"
    using match_indices_occurs [of _ anchor content]
    by (intro placed_sorted [OF match_indices_sorted]) (auto simp: occurs_at_def intro: add_leD1)
  then have "run_steps (\<lambda>pos. insert_at new (?f pos)) (rev ?ps) content =
      Some (rewrite_from 0 (map (\<lambda>i. (?f i, 0, new)) ?ps) content)"
    by (intro insertions.run_rewrite) (simp_all add: list_all_iff)
  moreover have "length ?ps = 1 \<or> length ?ps > 1" if "?ps \<noteq> []" using that by (cases ?ps) auto
  ultimately show ?thesis by (auto simp: insert_at_anchor_def Let_def)
qed

section \<open>Line endings\<close>

text \<open>
  What the line endings of a text are, said without the functions of the code: every CR LF
  and every other CR stands for one line feed; a text is written for Windows by a CR before
  every line feed; a text that has a CR LF anywhere counts as such.
\<close>

primrec lf_from :: "bool \<Rightarrow> string \<Rightarrow> string" where
  "lf_from after_cr [] = []"
| "lf_from after_cr (c # s) =
     (if c = carriage_return then newline # lf_from True s
      else if c = newline \<and> after_cr then lf_from False s
      else c # lf_from False s)"

definition to_lf :: "string \<Rightarrow> string" where
  "to_lf s = lf_from False s"

primrec to_crlf :: "string \<Rightarrow> string" where
  "to_crlf [] = []"
| "to_crlf (c # s) = (if c = newline then carriage_return # newline # to_crlf s else c # to_crlf s)"

definition uses_crlf :: "string \<Rightarrow> bool" where
  "uses_crlf s \<longleftrightarrow> (\<exists>p q. s = p @ crlf @ q)"

lemma replace_str_Nil [simp]: "pat \<noteq> [] \<Longrightarrow> replace_str pat new [] = []"
  by (simp add: replace_str.simps)

lemma replace_str_Cons:
  assumes "pat \<noteq> []"
  shows "replace_str pat new (c # s) =
    (if starts_with pat (c # s) then new @ replace_str pat new (drop (length pat) (c # s)) else c # replace_str pat new s)"
  using assms
  by (simp add: replace_str.simps [of pat new "c # s"] replace_str.simps [of pat new s] split: option.split)

lemma lf_from_True: "lf_from True s = (case s of [] \<Rightarrow> [] | c # t \<Rightarrow> if c = newline then lf_from False t else lf_from False s)"
  by (cases s) auto

lemma normalize_to_lf: "normalize_line_endings s = to_lf s"
proof -
  have "replace_char carriage_return [newline] (replace_str crlf [newline] s) = lf_from False s"
  proof (induction s rule: length_induct)
    case (1 s)
    show ?case
    proof (cases s)
      case (Cons c t)
      have "replace_char carriage_return [newline] (replace_str crlf [newline] (tl t)) = lf_from False (tl t)"
        "replace_char carriage_return [newline] (replace_str crlf [newline] t) = lf_from False t"
        using 1 Cons by (cases t, auto)+
      then show ?thesis unfolding Cons
        by (cases t) (auto simp: replace_str_Cons replace_char_def lf_from_True)
    qed (simp add: replace_char_def)
  qed
  then show ?thesis by (simp add: normalize_line_endings_def normalize_all_line_endings_def to_lf_def)
qed

lemma lf_from_no_cr [simp]: "carriage_return \<notin> set (lf_from b s)"
  by (induction s arbitrary: b) auto

lemma to_lf_no_cr [simp]: "carriage_return \<notin> set (to_lf s)"
  by (simp add: to_lf_def)

lemma lf_from_id: "carriage_return \<notin> set t \<Longrightarrow> lf_from False t = t"
  by (induction t) auto

lemma to_lf_id: "carriage_return \<notin> set t \<Longrightarrow> to_lf t = t"
  by (simp add: to_lf_def lf_from_id)

lemma replace_char_crlf: "replace_char newline crlf t = to_crlf t"
  by (induction t) (auto simp: replace_char_def)

text \<open>A text without CR is written as it is, or with CR LF for every line feed.\<close>

lemma restore_no_cr: "carriage_return \<notin> set t \<Longrightarrow> restore_line_endings t windows = (if windows then to_crlf t else t)"
  using normalize_to_lf [of t] by (simp add: restore_line_endings_def normalize_line_endings_def replace_char_crlf to_lf_id)

lemma has_uses_crlf: "has_crlf s \<longleftrightarrow> uses_crlf s"
proof
  assume "has_crlf s"
  then obtain i where "find_str crlf s = Some i" by (auto simp: has_crlf_def)
  from find_str_Some [OF this] have "s = take i s @ crlf @ drop 2 (drop i s)"
    by (metis append_take_drop_id length_Cons list.size(3) numeral_2_eq_2)
  then show "uses_crlf s" unfolding uses_crlf_def by blast
next
  assume "uses_crlf s"
  then obtain p q where "s = p @ crlf @ q" by (auto simp: uses_crlf_def)
  then have "starts_with crlf (drop (length p) s)" by (simp add: starts_with_def)
  then show "has_crlf s" using find_str_None [of crlf s] by (auto simp: has_crlf_def)
qed

text \<open>
  A file whose lines all end alike, in LF or in CRLF, reads as its LF text, and writing that
  text back with the ending that was found gives the file again, byte for byte. A file with both gets
  CR LF everywhere.
\<close>

lemma to_lf_to_crlf: "carriage_return \<notin> set t \<Longrightarrow> to_lf (to_crlf t) = t"
  unfolding to_lf_def by (induction t) auto

lemma uses_crlf_to_crlf: "newline \<in> set t \<Longrightarrow> uses_crlf (to_crlf t)"
proof (induction t)
  case (Cons c t)
  show ?case
  proof (cases "c = newline")
    case True
    then show ?thesis by (auto simp: uses_crlf_def intro: exI [of _ "[]"])
  next
    case False
    with Cons obtain p q where "to_crlf t = p @ crlf @ q" by (auto simp: uses_crlf_def)
    then have "to_crlf (c # t) = (c # p) @ crlf @ q" using False by simp
    then show ?thesis unfolding uses_crlf_def by blast
  qed
qed simp

lemma not_uses_crlf: "carriage_return \<notin> set t \<Longrightarrow> \<not> uses_crlf t"
  by (auto simp: uses_crlf_def)

lemma uniform_endings_survive:
  assumes "carriage_return \<notin> set t"
  shows "to_lf t = t \<and> \<not> uses_crlf t"
    "newline \<in> set t \<Longrightarrow> to_lf (to_crlf t) = t \<and> uses_crlf (to_crlf t)"
  using assms by (simp_all add: to_lf_id not_uses_crlf to_lf_to_crlf uses_crlf_to_crlf)

text \<open>Edits of a text without CR by texts without CR leave it without CR.\<close>

lemma set_rewrite_from: "set (rewrite_from k rs xs) \<subseteq> set xs \<union> (\<Union>(i, n, new) \<in> set rs. set new)"
proof (induction rs arbitrary: k)
  case (Cons r rs)
  obtain i n new where r: "r = (i, n, new)" by (metis prod_cases3)
  have "set (take (i - k) (drop k xs)) \<subseteq> set xs" by (auto dest: in_set_takeD in_set_dropD)
  with Cons [of "i + n"] show ?case by (auto simp: r)
qed (auto dest: in_set_dropD)

lemma rewrite_from_no_cr:
  assumes "carriage_return \<notin> set s" "list_all (\<lambda>(i, n, new). carriage_return \<notin> set new) rs"
  shows "carriage_return \<notin> set (rewrite_from k rs s)"
  using set_rewrite_from [of k rs s] assms by (auto simp: list_all_iff)

lemma join_no_cr: "list_all (\<lambda>l. c \<notin> set l) ls \<Longrightarrow> c \<notin> set sep \<Longrightarrow> c \<notin> set (join_strings sep ls)"
  by (induction sep ls rule: join_strings.induct) auto

lemma lines_no_cr: "c \<notin> set s \<Longrightarrow> list_all (\<lambda>l. c \<notin> set l) (lines s)"
proof -
  have "c \<notin> set acc \<Longrightarrow> c \<notin> set s \<Longrightarrow> list_all (\<lambda>l. c \<notin> set l) (lines_from acc s)" for acc
    by (induction acc s rule: lines_from.induct) (auto simp: drop_cr_def split: list.splits)
  then show "c \<notin> set s \<Longrightarrow> list_all (\<lambda>l. c \<notin> set l) (lines s)" by (simp add: lines_def)
qed

lemma split_str_no_cr: "c \<notin> set s \<Longrightarrow> list_all (\<lambda>l. c \<notin> set l) (split_str pat s)"
proof (induction pat s rule: split_str.induct)
  case (1 pat s)
  then show ?case
    by (subst split_str.simps) (auto split: option.split dest: in_set_takeD in_set_dropD)
qed

section \<open>Replacing occurrences\<close>

lemma replace_str_rewrite_from:
  assumes "pat \<noteq> []" "k \<le> length xs"
  shows "replace_str pat new (drop k xs) = rewrite_from k (map (\<lambda>i. (i, length pat, new)) (match_from k pat (drop k xs))) xs"
  using assms(2)
proof (induction "length xs - k" arbitrary: k rule: less_induct)
  case less
  show ?case
  proof (cases "find_str pat (drop k xs)")
    case None
    then show ?thesis using assms(1) by (simp add: replace_str.simps [of pat new "drop k xs"] match_from.simps [of k])
  next
    case (Some i)
    let ?k = "k + i + length pat"
    have k: "?k \<le> length xs" "k < ?k" using find_str_Some [OF Some] assms(1) less.prems by auto
    have "drop (i + length pat) (drop k xs) = drop ?k xs" by (simp add: ac_simps)
    moreover have "length xs - ?k < length xs - k" using k by (simp only: diff_less_mono2)
    ultimately show ?thesis using less.hyps [of ?k] k Some assms(1)
      by (simp add: replace_str.simps [of pat new "drop k xs"] match_from.simps [of k] ac_simps)
  qed
qed

lemma replace_str_rewrite:
  "pat \<noteq> [] \<Longrightarrow> replace_str pat new s = rewrite_from 0 (map (\<lambda>i. (i, length pat, new)) (match_indices pat s)) s"
  using replace_str_rewrite_from [of pat 0 s new] by (simp add: match_indices_def)

lemma replace_first_rewrite:
  assumes "length (match_indices pat s) = 1"
  shows "replace_first pat new s = rewrite_from 0 (map (\<lambda>i. (i, length pat, new)) (match_indices pat s)) s"
proof -
  from assms obtain i where i: "match_indices pat s = [i]" by (metis One_nat_def length_0_conv length_Suc_conv)
  then have "find_str pat s = Some i"
    unfolding match_indices_def by (subst (asm) match_from.simps) (auto split: if_splits option.splits)
  then show ?thesis by (simp add: i replace_first_def)
qed

text \<open>
  C29: replacing a text in a file. A successful edit read the file, found the old text -- in
  exactly one place, unless several are allowed -- and replaced every non-overlapping
  occurrence, keeping all other text. The file, the old and the new text are taken with LF line endings (every
  CR LF and every other CR is a line feed); the result is written with CR LF
  endings throughout if the file had a CR LF anywhere, and with LF endings if not. What the edit returns is what it
  read and what it wrote.
\<close>

theorem str_replace_correct:
  assumes "str_replace strip path_debug read_file write_file old_str new_str multiple = Inr (before, after)"
  shows "read_file = Inr before \<and> write_file after = Inr () \<and>
    (let content = to_lf before; old = strip (to_lf old_str); places = match_indices old content;
         result = rewrite_from 0 (map (\<lambda>i. (i, length old, to_lf new_str)) places) content
     in old \<noteq> [] \<and> places \<noteq> [] \<and> (multiple \<or> length places = 1) \<and>
        after = (if uses_crlf before then to_crlf result else result))"
proof -
  from assms obtain original where rd: "read_file = Inr original"
    by (auto simp: str_replace_def split: if_splits sum.splits)
  define content where "content = to_lf original"
  define old where "old = strip (to_lf old_str)"
  define result where "result = rewrite_from 0 (map (\<lambda>i. (i, length old, to_lf new_str)) (match_indices old content)) content"
  let ?places = "match_indices old content" and ?new = "to_lf new_str"
  have one: "length ?places = 1 \<or> length ?places > 1" if "?places \<noteq> []" using that by (cases ?places) auto
  from assms have c: "commit write_file original (restore_line_endings
      (if multiple then replace_str old ?new content else replace_first old ?new content) (uses_crlf original)) = Inr (before, after)"
    and ok: "old \<noteq> []" "?places \<noteq> []" "multiple \<or> length ?places = 1"
    using one by (auto simp: str_replace_def rd normalize_to_lf has_uses_crlf content_def [symmetric] old_def [symmetric] Let_def
        split: if_splits sum.splits)
  have "(if multiple then replace_str old ?new content else replace_first old ?new content) = result"
    using ok replace_str_rewrite replace_first_rewrite by (auto simp: result_def)
  moreover have "carriage_return \<notin> set result"
    unfolding result_def by (rule rewrite_from_no_cr) (auto simp: content_def list_all_iff)
  ultimately have "write_file after = Inr ()" "before = original" "after = (if uses_crlf original then to_crlf result else result)"
    using c by (auto simp: commit_def restore_no_cr split: sum.splits)
  with rd ok show ?thesis by (auto simp: content_def old_def result_def Let_def)
qed

section \<open>Line ranges\<close>

lemma read_ranges_checked:
  "read_ranges total_lines parts = Inr rs \<Longrightarrow>
   list_all (\<lambda>r. 1 \<le> lr_start r \<and> lr_start r \<le> lr_end r \<and> lr_start r \<le> max 1 total_lines) rs"
proof (induction total_lines parts arbitrary: rs rule: read_ranges.induct)
  case (2 total_lines raw parts)
  show ?case
  proof (cases "trim raw = []")
    case True
    with 2 show ?thesis by simp
  next
    case False
    with "2.prems" obtain r r' rs' where r: "read_range total_lines (trim raw) = Inr r" "check_range total_lines (trim raw) r = Inr r'"
      "read_ranges total_lines parts = Inr rs'" "rs = r' # rs'"
      by (auto simp: Let_def split: sum.splits)
    have "1 \<le> lr_start r' \<and> lr_start r' \<le> lr_end r' \<and> lr_start r' \<le> max 1 total_lines"
      using r(2) by (auto simp: check_range_def split: if_splits)
    with "2.IH"(2) [OF refl False r(1,2)] r show ?thesis by simp
  qed
qed simp

lemma overlapping_ranges_None:
  "list_all (\<lambda>r. lr_start r \<le> lr_end r) rs \<Longrightarrow> overlapping_ranges rs = None \<Longrightarrow> sorted_wrt (\<lambda>p q. lr_end p < lr_start q) rs"
proof (induction rs rule: overlapping_ranges.induct)
  case (1 p q rs)
  then have *: "sorted_wrt (\<lambda>p q. lr_end p < lr_start q) (q # rs)" "lr_end p < lr_start q" "lr_start q \<le> lr_end q"
    by (auto split: if_splits)
  then have "\<forall>r \<in> set rs. lr_end p < lr_start r" by fastforce
  with * show ?case by simp
qed simp_all

text \<open>
  The line ranges that are accepted are not empty, start at a line of the text (or at line 1
  of an empty one), and no two of them share a line.
\<close>

lemma parse_line_ranges_disjoint:
  assumes "parse_line_ranges ranges_str total_lines = Inr rs"
  shows "rs \<noteq> [] \<and> list_all (\<lambda>r. 1 \<le> lr_start r \<and> lr_start r \<le> lr_end r \<and> lr_start r \<le> max 1 total_lines) rs \<and>
    sorted_wrt (\<lambda>p q. lr_end p < lr_start q) (sort_key lr_start rs)"
proof -
  from assms have rs: "read_ranges total_lines (split_on (CHR '','') ranges_str) = Inr rs" "rs \<noteq> []"
    "overlapping_ranges (sort_key lr_start rs) = None"
    by (auto simp: parse_line_ranges_def split: sum.splits if_splits option.splits)
  have c: "list_all (\<lambda>r. 1 \<le> lr_start r \<and> lr_start r \<le> lr_end r \<and> lr_start r \<le> max 1 total_lines) rs"
    using rs(1) by (rule read_ranges_checked)
  then have "list_all (\<lambda>r. lr_start r \<le> lr_end r) (sort_key lr_start rs)" by (auto simp: list_all_iff)
  from overlapping_ranges_None [OF this rs(3)] c rs(2) show ?thesis by blast
qed

section \<open>Editing by lines\<close>

definition line_edit :: "nat \<Rightarrow> line_range \<times> string list \<Rightarrow> nat \<times> nat \<times> string list" where
  "line_edit n x = (lr_start (fst x) - 1, min (lr_end (fst x)) n - (lr_start (fst x) - 1), snd x)"

definition apart :: "(line_range \<times> string list) list \<Rightarrow> bool" where
  "apart xs \<longleftrightarrow> sorted_wrt (\<lambda>x y. lr_end (fst x) < lr_start (fst y)) xs \<and>
     list_all (\<lambda>x. 1 \<le> lr_start (fst x) \<and> lr_start (fst x) \<le> lr_end (fst x)) xs"

lemma replace_ranges_append:
  "replace_ranges (rs @ rs') ls = (case replace_ranges rs ls of
     None \<Rightarrow> None | Some (Inl e) \<Rightarrow> Some (Inl e) | Some (Inr ls') \<Rightarrow> replace_ranges rs' ls')"
proof (induction rs ls rule: replace_ranges.induct)
  case (2 r new rs ls)
  then show ?case by (cases "splice (lr_start r - 1) (lr_end r) new ls") auto
qed simp

lemma replace_ranges_in_range:
  assumes "apart xs" "list_all (\<lambda>x. k < lr_start (fst x) \<and> lr_end (fst x) \<le> length ls) xs" "k \<le> length ls"
  shows "placed k (map (line_edit (length ls)) xs) (length ls) \<and>
    replace_ranges (rev xs) ls = Some (Inr (take k ls @ rewrite_from k (map (line_edit (length ls)) xs) ls))"
  using assms
proof (induction xs arbitrary: k)
  case (Cons x xs)
  obtain r new where x: "x = (r, new)" by (cases x)
  let ?n = "length ls"
  from Cons.prems have r: "1 \<le> lr_start r" "lr_start r \<le> lr_end r" "k < lr_start r" "lr_end r \<le> ?n"
    and xs: "apart xs" "list_all (\<lambda>x. lr_end r < lr_start (fst x) \<and> lr_end (fst x) \<le> ?n) xs"
    by (auto simp: x apart_def list_all_iff)
  note IH = Cons.IH [OF xs r(4)]
  let ?rest = "rewrite_from (lr_end r) (map (line_edit ?n) xs) ls"
  have e: "line_edit ?n x = (lr_start r - 1, lr_end r - (lr_start r - 1), new)" "lr_start r - 1 + (lr_end r - (lr_start r - 1)) = lr_end r"
    using r by (auto simp: line_edit_def x)
  have "take k ls @ take (lr_start r - 1 - k) (drop k ls) = take (lr_start r - 1) ls"
    using r(3) by (metis Suc_pred' le_add_diff_inverse less_Suc_eq_le less_imp_Suc_add take_add zero_less_Suc)
  moreover have "splice (lr_start r - 1) (lr_end r) new (take (lr_end r) ls @ ?rest) = Some (take (lr_start r - 1) ls @ new @ ?rest)"
    using r by (simp add: splice_def min_def)
  ultimately show ?case
    using IH r e by (simp add: replace_ranges_append x [symmetric]) (simp add: x)
qed simp

lemma replace_ranges_too_long:
  assumes "apart xs" "\<not> list_all (\<lambda>x. lr_end (fst x) \<le> length ls) xs"
  shows "\<exists>e. replace_ranges (rev xs) ls = Some (Inl e)"
proof (cases xs rule: rev_cases)
  case (snoc ys y)
  obtain r new where y: "y = (r, new)" by (cases y)
  from assms(2) obtain x where x: "x \<in> set xs" "length ls < lr_end (fst x)" by (auto simp: list_all_iff not_le)
  then have "length ls < lr_end r" using assms(1) by (fastforce simp: apart_def snoc y sorted_wrt_append list_all_iff)
  then show ?thesis by (simp add: snoc y)
qed (use assms in simp)

text \<open>The parts of the new text, one for each range.\<close>

definition range_parts :: "line_range list \<Rightarrow> string \<Rightarrow> string list list" where
  "range_parts rs new_content = (if length rs = 1 then [lines new_content] else map lines (split_str separator new_content))"

lemma sorted_edits_apart:
  assumes "sorted_wrt (\<lambda>p q. lr_end p < lr_start q) (sort_key lr_start rs)"
    "list_all (\<lambda>r. 1 \<le> lr_start r \<and> lr_start r \<le> lr_end r \<and> lr_start r \<le> m) rs" "length parts = length rs"
  shows "apart (sort_key (\<lambda>(r, new). lr_start r) (rev (zip rs parts)))" (is "apart ?edits")
proof -
  have key: "(\<lambda>(r, new). lr_start r) = lr_start \<circ> (fst :: line_range \<times> string list \<Rightarrow> line_range)" by auto
  have "mset (map fst ?edits) = mset (map fst (zip rs parts))" by simp
  then have ms: "mset (map fst ?edits) = mset rs" using assms(3) by (simp del: mset_map)
  have "sorted_wrt (\<lambda>p q. lr_start p < lr_start q) (sort_key lr_start rs)"
    by (rule sorted_wrt_mono_rel [OF _ assms(1)]) (use assms(2) in \<open>fastforce simp: list_all_iff\<close>)
  then have "distinct (map lr_start (sort_key lr_start rs))" by (simp add: strict_sorted_iff sorted_wrt_map [symmetric])
  then have "distinct (map lr_start rs)" by (metis distinct_sort mset_eq_imp_distinct_iff mset_map mset_sort)
  then have inj: "inj_on lr_start (set rs)" by (simp add: distinct_map)
  have "map lr_start (map fst ?edits) = sort (map lr_start rs)"
  proof (rule properties_for_sort [symmetric])
    show "sorted (map lr_start (map fst ?edits))" using sorted_sort_key [of "\<lambda>(r, new). lr_start r" "rev (zip rs parts)"]
      by (simp add: key comp_def)
    show "mset (map lr_start (map fst ?edits)) = mset (map lr_start rs)"
      using arg_cong [OF ms, of "image_mset lr_start"] by (simp only: mset_map)
  qed
  also have "\<dots> = map lr_start (sort_key lr_start rs)" by (rule properties_for_sort) simp_all
  finally have eq: "map fst ?edits = sort_key lr_start rs"
    using inj mset_eq_setD [OF ms] by (intro map_inj_on [of lr_start]) (simp_all only: set_sort Un_absorb)
  have "list_all (\<lambda>r. 1 \<le> lr_start r \<and> lr_start r \<le> lr_end r) (map fst ?edits)"
    unfolding eq using assms(2) by (auto simp: list_all_iff)
  moreover have "sorted_wrt (\<lambda>p q. lr_end p < lr_start q) (map fst ?edits)" unfolding eq by (rule assms(1))
  ultimately show ?thesis by (simp only: apart_def sorted_wrt_map list.pred_map comp_def simp_thms)
qed

lemma replace_line_ranges_correct:
  assumes "parse_line_ranges ranges_str (length ls) = Inr rs"
  shows "case replace_line_ranges rs new ls of
      None \<Rightarrow> False
    | Some (Inl e) \<Rightarrow> True
    | Some (Inr out) \<Rightarrow> length (range_parts rs new) = length rs \<and>
        (\<exists>edits. mset edits = mset (zip rs (range_parts rs new)) \<and>
          placed 0 (map (line_edit (length ls)) edits) (length ls) \<and>
          out = rewrite_from 0 (map (line_edit (length ls)) edits) ls)"
proof -
  note ranges = parse_line_ranges_disjoint [OF assms]
  show ?thesis
  proof (cases "length rs = 1")
    case True
    then obtain r where rs: "rs = [r]" by (metis One_nat_def length_0_conv length_Suc_conv)
    with ranges have r: "1 \<le> lr_start r" "lr_start r \<le> lr_end r" "lr_start r \<le> max 1 (length ls)" by auto
    then have le: "lr_start r - 1 \<le> min (lr_end r) (length ls)" by auto
    show ?thesis
      by (rule disjE [OF excluded_middle, of "lr_end r > length ls \<and> \<not> (length ls = 0 \<and> lr_start r = 1)"])
        (use le in \<open>auto simp: rs replace_line_ranges_def replace_one_range_def splice_def range_parts_def line_edit_def
          intro!: exI [of _ "[(r, lines new)]"]\<close>)
  next
    case False
    let ?parts = "map lines (split_str separator new)"
    let ?edits = "sort_key (\<lambda>(r, new). lr_start r) (rev (zip rs ?parts))"
    show ?thesis
    proof (cases "length ?parts = length rs")
      case parts: True
      from ranges sorted_edits_apart [of rs _ ?parts] parts have ap: "apart ?edits" by blast
      have ms: "mset ?edits = mset (zip rs ?parts)" by simp
      show ?thesis
      proof (cases "list_all (\<lambda>x. lr_end (fst x) \<le> length ls) ?edits")
        case True
        with ap have "list_all (\<lambda>x. 0 < lr_start (fst x) \<and> lr_end (fst x) \<le> length ls) ?edits"
          by (auto simp: apart_def list_all_iff)
        from replace_ranges_in_range [OF ap this] show ?thesis
          using False parts ms by (auto simp: replace_line_ranges_def range_parts_def Let_def simp del: mset_sort)
      next
        case False
        with replace_ranges_too_long [OF ap this] \<open>length rs \<noteq> 1\<close> parts show ?thesis
          by (auto simp: replace_line_ranges_def Let_def)
      qed
    qed (use False in \<open>simp add: replace_line_ranges_def Let_def\<close>)
  qed
qed

lemma edited_lines_no_cr:
  assumes "mset edits = mset (zip rs (range_parts rs new))"
    and "list_all (\<lambda>l. c \<notin> set l) ls" "c \<notin> set new"
  shows "list_all (\<lambda>l. c \<notin> set l) (rewrite_from 0 (map (line_edit n) edits) ls)"
proof -
  have parts: "list_all (list_all (\<lambda>l. c \<notin> set l)) (range_parts rs new)"
    using lines_no_cr split_str_no_cr [OF assms(3), of separator] assms(3) by (auto simp: range_parts_def list_all_iff)
  have "snd x \<in> set (range_parts rs new)" if "x \<in> set edits" for x
    using that mset_eq_setD [OF assms(1)] by (metis prod.collapse set_zip_rightD)
  with parts have "c \<notin> set l" if "x \<in> set edits" "l \<in> set (snd x)" for x l
    using that unfolding list_all_iff by blast
  then have "(\<Union>(i, k, new) \<in> set (map (line_edit n) edits). set new) \<subseteq> {l. c \<notin> set l}" by (auto simp: line_edit_def)
  moreover have "set ls \<subseteq> {l. c \<notin> set l}" using assms(2) by (auto simp: list_all_iff)
  ultimately show ?thesis
    using set_rewrite_from [of 0 "map (line_edit n) edits" ls] unfolding list_all_iff by blast
qed

text \<open>
  C27: replacing lines of a file. The edit never panics. If it succeeds, it read the file and
  wrote back the one in which each range of lines, no two of which overlap, gave way to its
  part of the new text -- all of it for a single range, the parts between separators for
  several -- with every other line kept in place and the final line feed as before. The
  lines are those of the file with LF endings (every CR LF and every other CR ends a line); the result is
  written with CR LF endings throughout if the file had a CR LF anywhere, and with LF endings if not.
\<close>

theorem str_replace_lines_correct:
  "case str_replace_lines (Inr original) write_file new_content ranges_str of
     None \<Rightarrow> False
   | Some (Inl e) \<Rightarrow> True
   | Some (Inr (before, after)) \<Rightarrow>
       before = original \<and> write_file after = Inr () \<and>
       (\<exists>rs edits. let content = to_lf original; ls = lines content; parts = range_parts rs (to_lf new_content);
              joined = join_strings [newline] (rewrite_from 0 (map (line_edit (length ls)) edits) ls);
              result = (if ends_with [newline] content then joined @ [newline] else joined) in
          parse_line_ranges ranges_str (length ls) = Inr rs \<and>
          length parts = length rs \<and> mset edits = mset (zip rs parts) \<and>
          placed 0 (map (line_edit (length ls)) edits) (length ls) \<and>
          after = (if uses_crlf original then to_crlf result else result))"
proof -
  define content where "content = to_lf original"
  define new where "new = to_lf new_content"
  let ?ls = "lines content"
  show ?thesis
  proof (cases "parse_line_ranges ranges_str (length ?ls)")
    case (Inl e)
    then show ?thesis by (simp add: str_replace_lines_def normalize_to_lf content_def Let_def)
  next
    case (Inr rs)
    note key = replace_line_ranges_correct [OF Inr, of new]
    show ?thesis
    proof (cases "replace_line_ranges rs new ?ls")
      case None
      with key show ?thesis by simp
    next
      case (Some r)
      show ?thesis
      proof (cases r)
        case (Inl e)
        with Some Inr show ?thesis
          by (simp add: str_replace_lines_def normalize_to_lf content_def [symmetric] new_def [symmetric] Let_def)
      next
        fix out assume "r = Inr out"
        with key Some obtain edits where len: "length (range_parts rs new) = length rs"
            and edits: "mset edits = mset (zip rs (range_parts rs new))"
            and placed: "placed 0 (map (line_edit (length ?ls)) edits) (length ?ls)"
            and out: "out = rewrite_from 0 (map (line_edit (length ?ls)) edits) ?ls"
          by auto
        define result where
          "result = (if ends_with [newline] content then join_strings [newline] out @ [newline] else join_strings [newline] out)"
        have "carriage_return \<notin> set result"
          unfolding result_def out using edited_lines_no_cr [OF edits, of carriage_return ?ls] lines_no_cr [of carriage_return content]
          by (simp add: content_def new_def join_no_cr)
        with Some \<open>r = Inr out\<close> Inr have "str_replace_lines (Inr original) write_file new_content ranges_str =
            Some (commit write_file original (if uses_crlf original then to_crlf result else result))"
          by (simp add: str_replace_lines_def normalize_to_lf has_uses_crlf restore_no_cr content_def [symmetric] new_def [symmetric]
              result_def [symmetric] Let_def)
        with len edits placed Inr show ?thesis
          by (cases "write_file (if uses_crlf original then to_crlf result else result)")
            (unfold content_def new_def result_def out Let_def, simp_all add: commit_def, blast)
      qed
    qed
  qed
qed

text \<open>A small replacement, for the hypotheses of the replacement property.\<close>

lemma small_file:
  "to_lf (to_crlf (write_lines [''a=1'', ''b''])) = write_lines [''a=1'', ''b'']" "to_lf ''1'' = ''1''"
  "to_lf (write_lines [''2'', ''3'']) = write_lines [''2'', ''3'']" "uses_crlf (to_crlf (write_lines [''a=1'', ''b'']))"
  "match_indices ''1'' (write_lines [''a=1'', ''b'']) = [2]"
  by (rule to_lf_to_crlf to_lf_id uses_crlf_to_crlf, simp add: write_lines_def)+
    (simp add: match_indices_def match_from.simps write_lines_def)

lemma small_replacement:
  "str_replace (\<lambda>s. s) ''f'' (Inr (to_crlf (write_lines [''a=1'', ''b'']))) (\<lambda>_. Inr ()) ''1'' (write_lines [''2'', ''3'']) False =
   Inr (to_crlf (write_lines [''a=1'', ''b'']), to_crlf (write_lines [''a=2'', ''3'', [], ''b'']))"
proof -
  have m: "replace_first ''1'' (write_lines [''2'', ''3'']) (write_lines [''a=1'', ''b'']) = write_lines [''a=2'', ''3'', [], ''b'']"
    by (simp add: replace_first_def write_lines_def)
  have "carriage_return \<notin> set (write_lines [''a=2'', ''3'', [], ''b''])" by (simp add: write_lines_def)
  from restore_no_cr [OF this] m show ?thesis
    by (simp add: small_file str_replace_def normalize_to_lf has_uses_crlf commit_def Let_def)
qed

theorem str_replace_correct_witness:
  "\<exists>before after. str_replace (\<lambda>s. s) ''f'' (Inr before) (\<lambda>_. Inr ()) ''1'' (write_lines [''2'', ''3'']) False = Inr (before, after) \<and>
     before = to_crlf (write_lines [''a=1'', ''b'']) \<and>
     after = to_crlf (rewrite_from 0 [(2, 1, write_lines [''2'', ''3''])] (write_lines [''a=1'', ''b'']))"
  using str_replace_correct [OF small_replacement] small_replacement by (simp add: small_file Let_def)

section \<open>Reported lines\<close>

text \<open>
  The line reported for a match counts the text before it with \<open>lines\<close>, which counts a
  started line as a line: a match that is not at the start of its line is reported on the
  next one.
\<close>

lemma match_line_off_by_one:
  assumes "p \<noteq> []" "newline \<notin> set p"
  shows "line_at (p @ s) (length p) = 2"
proof -
  have "lines_from acc p = [rev acc @ p]" if "acc \<noteq> [] \<or> p \<noteq> []" for acc
    using assms(2) that by (induction p arbitrary: acc) auto
  from this [of "[]"] assms(1) show ?thesis by (simp add: line_at_def lines_def)
qed

section \<open>An edit by lines\<close>

lemma small_line_edit:
  "str_replace_lines (Inr (write_lines [''a'', ''b'', ''c''])) (\<lambda>_. Inr ()) ''x'' ''2:3'' =
   Some (Inr (write_lines [''a'', ''b'', ''c''], write_lines [''a'', ''x'']))"
proof -
  have ls: "lines (write_lines [''a'', ''b'', ''c'']) = [''a'', ''b'', ''c'']"
    using lines_write_lines [of "[''a'', ''b'', ''c'']" "[]"] by (simp add: is_line_def lines_def)
  have n: "normalize_line_endings (write_lines [''a'', ''b'', ''c'']) = write_lines [''a'', ''b'', ''c'']" "normalize_line_endings ''x'' = ''x''"
    by (simp_all add: normalize_to_lf to_lf_id write_lines_def)
  have r: "parse_line_ranges ''2:3'' (Suc (Suc (Suc 0))) = Inr [\<lparr>lr_start = 2, lr_end = 3\<rparr>]"
    by (simp add: parse_line_ranges_def read_range_def check_range_def trim_def trim_start.simps trim_end.simps ws_end_len_def
        ws_len_def byte_def parse_usize_def digits_value_def is_digit_def u64_max_def Let_def)
  have c: "\<not> has_crlf (write_lines [''a'', ''b'', ''c''])" by (simp add: has_uses_crlf not_uses_crlf write_lines_def)
  have e: "replace_line_ranges [\<lparr>lr_start = 2, lr_end = 3\<rparr>] ''x'' [''a'', ''b'', ''c''] = Some (Inr [''a'', ''x''])"
    by (simp add: replace_line_ranges_def replace_one_range_def splice_def lines_def)
  have "ends_with [newline] (write_lines [''a'', ''b'', ''c''])" by (simp add: write_lines_def ends_with_def)
  then show ?thesis
    unfolding str_replace_lines_def sum.case Let_def n ls using r e c
    by (simp add: commit_def restore_line_endings_def) (simp add: write_lines_def)
qed

end
