(* ===== verification/Transcript.thy ===== *)
theory Transcript
  imports Rust_Text
begin

text \<open>
  The output of a process (\<open>refact-exec/src/transcript.rs\<close>): the bounded transcript that
  readers poll by sequence number, the capped raw captures with their byte-offset cursor,
  and the log that output spills to. Texts are UTF-8 byte strings, the time is an argument.
  Counters of bytes and chunks are natural numbers; a subtraction the source makes on
  them is shown to be exact.
\<close>

section \<open>Texts\<close>

definition default_max_bytes :: nat where
  "default_max_bytes = 512 * 1024"

definition default_spill_threshold_bytes :: nat where
  "default_spill_threshold_bytes = 256 * 1024"

definition default_spill_max_bytes :: nat where
  "default_spill_max_bytes = 100 * 1024 * 1024"

definition foreground_stdout_capture_max_bytes :: nat where
  "foreground_stdout_capture_max_bytes = 16 * 1024 * 1024"

definition foreground_stderr_capture_max_bytes :: nat where
  "foreground_stderr_capture_max_bytes = 4 * 1024 * 1024"

text \<open>\<open>str::is_char_boundary\<close>: not in front of a continuation byte.\<close>

definition continuation :: "char \<Rightarrow> bool" where
  "continuation c \<longleftrightarrow> 128 \<le> byte c \<and> byte c < 192"

definition is_char_boundary :: "string \<Rightarrow> nat \<Rightarrow> bool" where
  "is_char_boundary s i \<longleftrightarrow> i = 0 \<or> i = length s \<or> i < length s \<and> \<not> continuation (s ! i)"

fun boundary_before :: "string \<Rightarrow> nat \<Rightarrow> nat" where
  "boundary_before s i = (if i > 0 \<and> \<not> is_char_boundary s i then boundary_before s (i - 1) else i)"

function boundary_after :: "string \<Rightarrow> nat \<Rightarrow> nat" where
  "boundary_after s i = (if i < length s \<and> \<not> is_char_boundary s i then boundary_after s (i + 1) else i)"
  by pat_completeness auto
termination
  by (relation "measure (\<lambda>(s, i). length s - i)") auto

declare boundary_before.simps [simp del] boundary_after.simps [simp del]

definition truncate_to_char_boundary :: "string \<Rightarrow> nat \<Rightarrow> string" where
  "truncate_to_char_boundary s max_bytes = (if length s \<le> max_bytes then s else take (boundary_before s max_bytes) s)"

datatype exec_output_stream = Stdout | Stderr | Combined

record exec_output_chunk =
  ch_process_id :: string
  ch_seq :: nat
  ch_stream :: exec_output_stream
  ch_text :: string
  ch_timestamp_ms :: nat

section \<open>Raw captures\<close>

record raw_stream_capture =
  rc_text :: string
  rc_max_bytes :: nat
  rc_elided_bytes :: nat
  rc_hit_limit :: bool

definition raw_stream_new :: "nat \<Rightarrow> raw_stream_capture" where
  "raw_stream_new max_bytes = \<lparr>rc_text = [], rc_max_bytes = max max_bytes 1, rc_elided_bytes = 0, rc_hit_limit = False\<rparr>"

definition raw_stream_append :: "raw_stream_capture \<Rightarrow> string \<Rightarrow> raw_stream_capture" where
  "raw_stream_append c s =
     (if s = [] then c
      else if rc_hit_limit c then c\<lparr>rc_elided_bytes := sat_add64 (rc_elided_bytes c) (length s)\<rparr>
      else
        let remaining = sat_sub (rc_max_bytes c) (length (rc_text c)) in
        if remaining = 0 then c\<lparr>rc_hit_limit := True, rc_elided_bytes := sat_add64 (rc_elided_bytes c) (length s)\<rparr>
        else
          let captured = truncate_to_char_boundary s remaining
          in c\<lparr>rc_text := rc_text c @ captured,
               rc_hit_limit := length captured < length s,
               rc_elided_bytes := sat_add64 (rc_elided_bytes c) (sat_sub (length s) (length captured))\<rparr>)"

definition text_with_marker :: "raw_stream_capture \<Rightarrow> string" where
  "text_with_marker c =
     (if rc_elided_bytes c > 0
      then rc_text c @ (if rc_text c \<noteq> [] \<and> last (rc_text c) \<noteq> newline then [newline] else []) @
           ''['' @ show_nat (rc_elided_bytes c) @ '' bytes elided]'' @ [newline]
      else rc_text c)"

record raw_capture =
  rw_process_id :: string
  rw_stdout :: raw_stream_capture
  rw_stderr :: raw_stream_capture
  rw_combined :: "raw_stream_capture option"

definition raw_capture_foreground :: "string \<Rightarrow> raw_capture" where
  "raw_capture_foreground pid =
     \<lparr>rw_process_id = pid, rw_stdout = raw_stream_new foreground_stdout_capture_max_bytes,
      rw_stderr = raw_stream_new foreground_stderr_capture_max_bytes, rw_combined = None\<rparr>"

definition with_combined_capture :: "raw_capture \<Rightarrow> raw_capture" where
  "with_combined_capture w = w\<lparr>rw_combined := Some (raw_stream_new foreground_stdout_capture_max_bytes)\<rparr>"

definition raw_capture_append :: "exec_output_stream \<Rightarrow> string \<Rightarrow> raw_capture \<Rightarrow> raw_capture" where
  "raw_capture_append stream s w =
     (if stream = Stderr then w\<lparr>rw_stderr := raw_stream_append (rw_stderr w) s\<rparr>
      else w\<lparr>rw_stdout := raw_stream_append (rw_stdout w) s\<rparr>)"

definition append_combined_raw :: "string \<Rightarrow> raw_capture \<Rightarrow> raw_capture" where
  "append_combined_raw s w = w\<lparr>rw_combined := map_option (\<lambda>c. raw_stream_append c s) (rw_combined w)\<rparr>"

record raw_read =
  rr_process_id :: string
  rr_start_offset :: nat
  rr_new_offset :: nat
  rr_text :: string

definition read_combined_since :: "nat \<Rightarrow> nat option \<Rightarrow> raw_capture \<Rightarrow> raw_read option" where
  "read_combined_since offset max_bytes w =
     map_option (\<lambda>c.
       let s = rc_text c; len = length s; start = boundary_before s (min offset len);
           start' = (case max_bytes of
                       None \<Rightarrow> start
                     | Some m \<Rightarrow>
                         let cap_start = sat_sub len m
                         in if cap_start > start then boundary_after s cap_start else start)
       in \<lparr>rr_process_id = rw_process_id w, rr_start_offset = start', rr_new_offset = len, rr_text = drop start' s\<rparr>)
     (rw_combined w)"

record raw_output =
  ro_process_id :: string
  ro_stdout :: string
  ro_stderr :: string
  ro_stdout_captured_bytes :: nat
  ro_stderr_captured_bytes :: nat
  ro_stdout_elided_bytes :: nat
  ro_stderr_elided_bytes :: nat
  ro_stdout_max_bytes :: nat
  ro_stderr_max_bytes :: nat

definition raw_capture_read :: "raw_capture \<Rightarrow> raw_output" where
  "raw_capture_read w =
     \<lparr>ro_process_id = rw_process_id w, ro_stdout = text_with_marker (rw_stdout w), ro_stderr = text_with_marker (rw_stderr w),
      ro_stdout_captured_bytes = length (rc_text (rw_stdout w)), ro_stderr_captured_bytes = length (rc_text (rw_stderr w)),
      ro_stdout_elided_bytes = rc_elided_bytes (rw_stdout w), ro_stderr_elided_bytes = rc_elided_bytes (rw_stderr w),
      ro_stdout_max_bytes = rc_max_bytes (rw_stdout w), ro_stderr_max_bytes = rc_max_bytes (rw_stderr w)\<rparr>"

definition raw_output_is_truncated :: "raw_output \<Rightarrow> bool" where
  "raw_output_is_truncated r \<longleftrightarrow> ro_stdout_elided_bytes r > 0 \<or> ro_stderr_elided_bytes r > 0"

section \<open>The transcript\<close>

text \<open>\<open>tr_spill\<close> says whether there is a spill target; its file is the business of the spill writer below.\<close>

record transcript =
  tr_process_id :: string
  tr_chunks :: "exec_output_chunk list"
  tr_next_seq :: nat
  tr_total_bytes_appended :: nat
  tr_total_lines_appended :: nat
  tr_dropped_chunks :: nat
  tr_dropped_bytes :: nat
  tr_truncated_chunks :: nat
  tr_current_bytes :: nat
  tr_max_bytes :: nat
  tr_spill_threshold_bytes :: nat
  tr_spill :: bool
  tr_disk_log_path :: "string option"
  tr_last_spill_error :: "string option"
  tr_pre_spill_buffer :: string
  tr_spill_started :: bool
  tr_spill_bytes :: nat
  tr_spill_max_bytes :: nat
  tr_spill_truncated :: bool

definition transcript_new_with_spill :: "string \<Rightarrow> nat \<Rightarrow> bool \<Rightarrow> nat \<Rightarrow> transcript" where
  "transcript_new_with_spill pid max_bytes spill threshold =
     \<lparr>tr_process_id = pid, tr_chunks = [], tr_next_seq = 0, tr_total_bytes_appended = 0, tr_total_lines_appended = 0,
      tr_dropped_chunks = 0, tr_dropped_bytes = 0, tr_truncated_chunks = 0, tr_current_bytes = 0,
      tr_max_bytes = max max_bytes 1, tr_spill_threshold_bytes = threshold, tr_spill = spill,
      tr_disk_log_path = None, tr_last_spill_error = None, tr_pre_spill_buffer = [], tr_spill_started = False,
      tr_spill_bytes = 0, tr_spill_max_bytes = default_spill_max_bytes, tr_spill_truncated = False\<rparr>"

definition transcript_new :: "string \<Rightarrow> nat \<Rightarrow> transcript" where
  "transcript_new pid max_bytes = transcript_new_with_spill pid max_bytes False default_spill_threshold_bytes"

definition transcript_with_default_max :: "string \<Rightarrow> transcript" where
  "transcript_with_default_max pid = transcript_new pid default_max_bytes"

text \<open>The loop that makes room: oldest chunks go until the new one fits.\<close>

fun evict_chunks :: "nat \<Rightarrow> nat \<Rightarrow> exec_output_chunk list \<Rightarrow> nat \<Rightarrow> nat \<Rightarrow> nat \<Rightarrow> exec_output_chunk list \<times> nat \<times> nat \<times> nat" where
  "evict_chunks cap new_bytes [] current dropped dropped_bytes = ([], current, dropped, dropped_bytes)"
| "evict_chunks cap new_bytes (c # cs) current dropped dropped_bytes =
     (if current + new_bytes > cap
      then evict_chunks cap new_bytes cs (current - length (ch_text c)) (dropped + 1) (dropped_bytes + length (ch_text c))
      else (c # cs, current, dropped, dropped_bytes))"

definition append_chunk_to_ring ::
  "exec_output_stream \<Rightarrow> string \<Rightarrow> nat \<Rightarrow> transcript \<Rightarrow> transcript \<times> exec_output_chunk" where
  "append_chunk_to_ring stream s now t =
     (let chunk = \<lparr>ch_process_id = tr_process_id t, ch_seq = tr_next_seq t, ch_stream = stream, ch_text = s, ch_timestamp_ms = now\<rparr> in
      if s = [] then (t, chunk)
      else
        let final_text = (if length s > tr_max_bytes t then truncate_to_char_boundary s (tr_max_bytes t) else s);
            stored = chunk\<lparr>ch_text := final_text\<rparr>;
            (kept, current, dropped, dropped_bytes) =
              evict_chunks (tr_max_bytes t) (length final_text) (tr_chunks t) (tr_current_bytes t) (tr_dropped_chunks t) (tr_dropped_bytes t)
        in (t\<lparr>tr_chunks := kept @ [stored],
              tr_next_seq := tr_next_seq t + 1,
              tr_total_bytes_appended := tr_total_bytes_appended t + length s,
              tr_total_lines_appended := tr_total_lines_appended t + max (length (lines s)) 1,
              tr_dropped_chunks := dropped, tr_dropped_bytes := dropped_bytes,
              tr_truncated_chunks := (if length s > tr_max_bytes t then tr_truncated_chunks t + 1 else tr_truncated_chunks t),
              tr_current_bytes := current + length final_text\<rparr>, stored))"

definition transcript_append :: "exec_output_stream \<Rightarrow> string \<Rightarrow> nat \<Rightarrow> transcript \<Rightarrow> transcript \<times> nat" where
  "transcript_append stream s now t = (case append_chunk_to_ring stream s now t of (t', c) \<Rightarrow> (t', ch_seq c))"

definition prepare_spill_append :: "string \<Rightarrow> transcript \<Rightarrow> transcript \<times> string option" where
  "prepare_spill_append s t =
     (if s = [] \<or> tr_spill_truncated t \<or> \<not> tr_spill t then (t, None)
      else if tr_spill_started t
      then
        (let remaining = sat_sub (tr_spill_max_bytes t) (tr_spill_bytes t) in
         if remaining = 0 then (t\<lparr>tr_spill_truncated := True\<rparr>, None)
         else
           let kept = truncate_to_char_boundary s remaining
           in (t\<lparr>tr_spill_bytes := sat_add64 (tr_spill_bytes t) (length kept),
                 tr_spill_truncated := length kept < length s\<rparr>, Some kept))
      else if sat_add64 (tr_total_bytes_appended t) (length s) \<le> tr_spill_threshold_bytes t
      then (t\<lparr>tr_pre_spill_buffer := tr_pre_spill_buffer t @ s\<rparr>, None)
      else
        (let full_text = tr_pre_spill_buffer t @ s; kept = truncate_to_char_boundary full_text (tr_spill_max_bytes t)
         in (t\<lparr>tr_spill_started := True, tr_pre_spill_buffer := [], tr_spill_bytes := length kept,
               tr_spill_truncated := length kept < length full_text\<rparr>, Some kept)))"

definition append_chunk ::
  "exec_output_stream \<Rightarrow> string \<Rightarrow> nat \<Rightarrow> transcript \<Rightarrow> transcript \<times> exec_output_chunk \<times> string option" where
  "append_chunk stream s now t =
     (case prepare_spill_append s t of (t1, spill_append) \<Rightarrow>
        (case append_chunk_to_ring stream s now t1 of (t2, chunk) \<Rightarrow> (t2, chunk, spill_append)))"

definition record_spill_result :: "string + string \<Rightarrow> transcript \<Rightarrow> transcript" where
  "record_spill_result result t =
     (case result of
        Inr path \<Rightarrow> t\<lparr>tr_disk_log_path := Some path, tr_last_spill_error := None\<rparr>
      | Inl error \<Rightarrow> t\<lparr>tr_last_spill_error := Some error\<rparr>)"

definition read_since :: "nat \<Rightarrow> transcript \<Rightarrow> exec_output_chunk list" where
  "read_since since_seq t = filter (\<lambda>c. ch_seq c \<ge> since_seq) (tr_chunks t)"

definition transcript_is_truncated :: "transcript \<Rightarrow> bool" where
  "transcript_is_truncated t \<longleftrightarrow> tr_dropped_chunks t > 0 \<or> tr_truncated_chunks t > 0"

record read_result =
  re_process_id :: string
  re_found :: bool
  re_since_seq :: nat
  re_next_seq :: nat
  re_latest_seq :: nat
  re_chunks :: "exec_output_chunk list"
  re_total_bytes_appended :: nat
  re_total_lines_appended :: nat
  re_dropped_chunks :: nat
  re_dropped_bytes :: nat
  re_truncated_chunks :: nat
  re_current_bytes :: nat
  re_max_bytes :: nat
  re_chunk_count :: nat
  re_is_truncated :: bool
  re_disk_log_path :: "string option"

definition transcript_read :: "nat \<Rightarrow> nat option \<Rightarrow> transcript \<Rightarrow> read_result" where
  "transcript_read since_seq limit t =
     (let all = read_since since_seq t; chunks = (case limit of None \<Rightarrow> all | Some n \<Rightarrow> take n all)
      in \<lparr>re_process_id = tr_process_id t, re_found = True, re_since_seq = since_seq,
          re_next_seq = (if chunks = [] then since_seq else ch_seq (last chunks) + 1),
          re_latest_seq = tr_next_seq t, re_chunks = chunks,
          re_total_bytes_appended = tr_total_bytes_appended t, re_total_lines_appended = tr_total_lines_appended t,
          re_dropped_chunks = tr_dropped_chunks t, re_dropped_bytes = tr_dropped_bytes t,
          re_truncated_chunks = tr_truncated_chunks t, re_current_bytes = tr_current_bytes t, re_max_bytes = tr_max_bytes t,
          re_chunk_count = length (tr_chunks t), re_is_truncated = transcript_is_truncated t,
          re_disk_log_path = tr_disk_log_path t\<rparr>)"

section \<open>The spill writer\<close>

text \<open>
  \<open>SpillAppend::write\<close>. Creating the file and writing to it are arguments: the path, or an
  error. The state is the target's: no writer yet, a writer, or disabled after a failure.
\<close>

record spill_state =
  ss_writer :: "string option"
  ss_disabled :: bool

definition spill_write ::
  "(string + string) \<Rightarrow> (string \<Rightarrow> string + unit) \<Rightarrow> string \<Rightarrow> spill_state \<Rightarrow> spill_state \<times> (string + string)" where
  "spill_write create write_line s st =
     (if ss_disabled st then (st, Inl ''exec spill disabled after previous failure'')
      else
        (let opened = (case ss_writer st of Some path \<Rightarrow> Inr path | None \<Rightarrow> create) in
         case opened of
           Inl error \<Rightarrow> (st\<lparr>ss_disabled := True\<rparr>, Inl error)
         | Inr path \<Rightarrow>
             (case write_line s of
                Inl error \<Rightarrow> (st\<lparr>ss_writer := Some path, ss_disabled := True\<rparr>, Inl error)
              | Inr _ \<Rightarrow> (st\<lparr>ss_writer := Some path\<rparr>, Inr path))))"

end
