(* ===== verification/Transcript_Properties.thy ===== *)
theory Transcript_Properties
  imports Transcript
begin

text \<open>
  What readers of a process's output may rely on: the transcript is the longest recent part
  of the output that fits, a reader who polls by sequence number gets every chunk once and
  in order and can tell when it missed some, a raw capture and the spilled log are
  beginnings of the output, and a byte-offset cursor neither skips nor repeats a byte.
\<close>

section \<open>Boundaries\<close>

lemma boundary_before_le: "boundary_before s i \<le> i"
  by (induction s i rule: boundary_before.induct) (subst boundary_before.simps, auto)

lemma boundary_before_boundary: "i \<le> length s \<Longrightarrow> is_char_boundary s (boundary_before s i)"
proof (induction s i rule: boundary_before.induct)
  case (1 s i)
  show ?case
  proof (cases "i > 0 \<and> \<not> is_char_boundary s i")
    case True
    then have "boundary_before s i = boundary_before s (i - 1)" by (subst boundary_before.simps) simp
    with 1 True show ?thesis by simp
  next
    case False
    then have "boundary_before s i = i" by (subst boundary_before.simps) auto
    with False show ?thesis by (auto simp: is_char_boundary_def)
  qed
qed

lemma boundary_before_self: "is_char_boundary s i \<Longrightarrow> boundary_before s i = i"
  by (simp add: boundary_before.simps)

lemma truncate_prefix:
  obtains k where "truncate_to_char_boundary s m = take k s" "k \<le> length s" "k \<le> m \<or> k = length s" "length s \<le> m \<longrightarrow> k = length s"
    "is_char_boundary s k"
proof (cases "length s \<le> m")
  case True
  then show thesis by (intro that [of "length s"]) (auto simp: truncate_to_char_boundary_def is_char_boundary_def)
next
  case False
  then show thesis
    using boundary_before_le [of s m] boundary_before_boundary [of m s]
    by (intro that [of "boundary_before s m"]) (auto simp: truncate_to_char_boundary_def)
qed

lemma truncate_length: "length (truncate_to_char_boundary s m) \<le> m"
  using boundary_before_le [of s m] by (auto simp: truncate_to_char_boundary_def min_def)

section \<open>The window\<close>

type_synonym exec_output = "exec_output_stream \<times> string \<times> nat"

text \<open>Everything a process ever wrote, chunk by chunk; a chunk larger than the transcript is cut.\<close>

definition stored_chunk :: "string \<Rightarrow> nat \<Rightarrow> nat \<Rightarrow> exec_output \<Rightarrow> exec_output_chunk" where
  "stored_chunk pid cap n out =
     (case out of (stream, s, now) \<Rightarrow>
        \<lparr>ch_process_id = pid, ch_seq = n, ch_stream = stream, ch_text = truncate_to_char_boundary s cap, ch_timestamp_ms = now\<rparr>)"

definition output_log :: "string \<Rightarrow> nat \<Rightarrow> exec_output list \<Rightarrow> exec_output_chunk list" where
  "output_log pid cap outs = map (\<lambda>(n, out). stored_chunk pid cap n out) (enumerate 0 (filter (\<lambda>(_, s, _). s \<noteq> []) outs))"

definition bytes_of :: "exec_output_chunk list \<Rightarrow> nat" where
  "bytes_of cs = sum_list (map (\<lambda>c. length (ch_text c)) cs)"

lemma bytes_of_simps [simp]: "bytes_of [] = 0" "bytes_of (c # cs) = length (ch_text c) + bytes_of cs"
  "bytes_of (cs @ ds) = bytes_of cs + bytes_of ds"
  by (simp_all add: bytes_of_def)

lemma output_log_snoc:
  "output_log pid cap (outs @ [(stream, s, now)]) =
     (if s = [] then output_log pid cap outs
      else output_log pid cap outs @ [stored_chunk pid cap (length (output_log pid cap outs)) (stream, s, now)])"
  by (simp add: output_log_def enumerate_append_eq)

lemma output_log_seq: "i < length (output_log pid cap outs) \<Longrightarrow> ch_seq (output_log pid cap outs ! i) = i"
  by (simp add: output_log_def nth_enumerate_eq stored_chunk_def split_def)

definition run_output :: "transcript \<Rightarrow> exec_output list \<Rightarrow> transcript" where
  "run_output t outs = foldl (\<lambda>t (stream, s, now). fst (append_chunk stream s now t)) t outs"

definition window :: "exec_output_chunk list \<Rightarrow> transcript \<Rightarrow> bool" where
  "window log t \<longleftrightarrow>
     (let d = tr_dropped_chunks t in
      d \<le> length log \<and> tr_chunks t = drop d log \<and> tr_next_seq t = length log \<and>
      tr_current_bytes t = bytes_of (drop d log) \<and> tr_dropped_bytes t = bytes_of (take d log) \<and>
      bytes_of (drop d log) \<le> tr_max_bytes t \<and> (\<forall>i < d. tr_max_bytes t < bytes_of (drop i log)))"

lemma evict_chunks_window:
  "\<exists>k. evict_chunks cap n cs (bytes_of cs) d b = (drop k cs, bytes_of (drop k cs), d + k, b + bytes_of (take k cs)) \<and>
     k \<le> length cs \<and> (bytes_of (drop k cs) + n \<le> cap \<or> k = length cs) \<and> (\<forall>i < k. cap < bytes_of (drop i cs) + n)"
proof (induction cs arbitrary: d b)
  case (Cons c cs)
  show ?case
  proof (cases "bytes_of (c # cs) + n > cap")
    case True
    from Cons.IH [of "d + 1" "b + length (ch_text c)"] obtain k where
      k: "evict_chunks cap n cs (bytes_of cs) (d + 1) (b + length (ch_text c)) =
        (drop k cs, bytes_of (drop k cs), d + 1 + k, b + length (ch_text c) + bytes_of (take k cs))"
      "k \<le> length cs" "bytes_of (drop k cs) + n \<le> cap \<or> k = length cs" "\<forall>i < k. cap < bytes_of (drop i cs) + n"
      by blast
    have "\<forall>i < Suc k. cap < bytes_of (drop i (c # cs)) + n" using k(4) True by (auto simp: drop_Cons' less_Suc_eq_0_disj)
    with k True show ?thesis by (intro exI [of _ "Suc k"]) simp
  next
    case False
    then show ?thesis by (intro exI [of _ 0]) simp
  qed
qed simp

lemma window_append:
  assumes w: "window log t" and c: "length (ch_text c) \<le> tr_max_bytes t"
    and e: "evict_chunks (tr_max_bytes t) (length (ch_text c)) (tr_chunks t) (tr_current_bytes t) (tr_dropped_chunks t) (tr_dropped_bytes t) =
      (kept, current, dropped, dropped_bytes)"
    and t': "tr_chunks t' = kept @ [c]" "tr_next_seq t' = tr_next_seq t + 1" "tr_dropped_chunks t' = dropped"
      "tr_dropped_bytes t' = dropped_bytes" "tr_current_bytes t' = current + length (ch_text c)" "tr_max_bytes t' = tr_max_bytes t"
  shows "window (log @ [c]) t'"
proof -
  let ?d = "tr_dropped_chunks t" and ?m = "tr_max_bytes t" and ?n = "length (ch_text c)"
  from w have old: "?d \<le> length log" "tr_chunks t = drop ?d log" "tr_next_seq t = length log"
    "tr_current_bytes t = bytes_of (drop ?d log)" "tr_dropped_bytes t = bytes_of (take ?d log)"
    "bytes_of (drop ?d log) \<le> ?m" "\<And>i. i < ?d \<Longrightarrow> ?m < bytes_of (drop i log)"
    by (auto simp: window_def Let_def)
  obtain k where k: "evict_chunks ?m ?n (drop ?d log) (bytes_of (drop ?d log)) ?d (tr_dropped_bytes t) =
      (drop k (drop ?d log), bytes_of (drop k (drop ?d log)), ?d + k, tr_dropped_bytes t + bytes_of (take k (drop ?d log)))"
    "k \<le> length (drop ?d log)" "bytes_of (drop k (drop ?d log)) + ?n \<le> ?m \<or> k = length (drop ?d log)"
    "\<And>i. i < k \<Longrightarrow> ?m < bytes_of (drop i (drop ?d log)) + ?n"
    using evict_chunks_window [of ?m ?n "drop ?d log" ?d "tr_dropped_bytes t"] by blast
  with e old have r: "kept = drop k (drop ?d log)" "current = bytes_of (drop k (drop ?d log))" "dropped = ?d + k"
    "dropped_bytes = bytes_of (take ?d log) + bytes_of (take k (drop ?d log))" by auto
  have dk: "?d + k \<le> length log" using k(2) old(1) by auto
  have "?m < bytes_of (drop i (log @ [c]))" if "i < ?d + k" for i
  proof (cases "i < ?d")
    case True
    with old(7) dk show ?thesis by (simp add: trans_less_add1)
  next
    case False
    with that k(4) [of "i - ?d"] dk show ?thesis by simp
  qed
  moreover have "bytes_of (take (?d + k) log) = bytes_of (take ?d log) + bytes_of (take k (drop ?d log))"
    by (simp add: take_add)
  moreover have "bytes_of (drop (?d + k) (log @ [c])) \<le> ?m" using k(3) c dk by (auto simp: add.commute)
  ultimately show ?thesis
    using r t' old(3) dk by (simp add: window_def Let_def add.commute)
qed

lemma prepare_spill_ring:
  "tr_chunks (fst (prepare_spill_append s t)) = tr_chunks t" "tr_next_seq (fst (prepare_spill_append s t)) = tr_next_seq t"
  "tr_dropped_chunks (fst (prepare_spill_append s t)) = tr_dropped_chunks t"
  "tr_dropped_bytes (fst (prepare_spill_append s t)) = tr_dropped_bytes t"
  "tr_current_bytes (fst (prepare_spill_append s t)) = tr_current_bytes t"
  "tr_max_bytes (fst (prepare_spill_append s t)) = tr_max_bytes t"
  "tr_process_id (fst (prepare_spill_append s t)) = tr_process_id t"
  "tr_total_bytes_appended (fst (prepare_spill_append s t)) = tr_total_bytes_appended t"
  by (simp_all add: prepare_spill_append_def Let_def)

lemma truncate_if: "(if m < length s then truncate_to_char_boundary s m else s) = truncate_to_char_boundary s m"
  by (simp add: truncate_to_char_boundary_def)

lemma ring_append:
  fixes stream :: exec_output_stream and s :: string and now :: nat and t :: transcript
  assumes "s \<noteq> []" and "evict_chunks (tr_max_bytes t) (length (truncate_to_char_boundary s (tr_max_bytes t))) (tr_chunks t)
      (tr_current_bytes t) (tr_dropped_chunks t) (tr_dropped_bytes t) = (kept, current, dropped, dropped_bytes)"
  defines "t' \<equiv> fst (append_chunk_to_ring stream s now t)"
  shows "tr_chunks t' = kept @ [stored_chunk (tr_process_id t) (tr_max_bytes t) (tr_next_seq t) (stream, s, now)]"
    "tr_next_seq t' = tr_next_seq t + 1" "tr_dropped_chunks t' = dropped" "tr_dropped_bytes t' = dropped_bytes"
    "tr_current_bytes t' = current + length (truncate_to_char_boundary s (tr_max_bytes t))" "tr_max_bytes t' = tr_max_bytes t"
  using assms(1,2) by (simp_all add: t'_def append_chunk_to_ring_def Let_def truncate_if stored_chunk_def)

lemma window_append_chunk:
  assumes "window (output_log (tr_process_id t) (tr_max_bytes t) outs) t"
  shows "window (output_log (tr_process_id t) (tr_max_bytes t) (outs @ [(stream, s, now)])) (fst (append_chunk stream s now t))"
    "tr_process_id (fst (append_chunk stream s now t)) = tr_process_id t"
    "tr_max_bytes (fst (append_chunk stream s now t)) = tr_max_bytes t"
proof -
  define t1 where "t1 = fst (prepare_spill_append s t)"
  note same = prepare_spill_ring [of s t, folded t1_def]
  let ?log = "output_log (tr_process_id t) (tr_max_bytes t) outs"
  let ?c = "stored_chunk (tr_process_id t) (tr_max_bytes t) (length ?log) (stream, s, now)"
  have eq: "fst (append_chunk stream s now t) = fst (append_chunk_to_ring stream s now t1)"
    by (simp add: append_chunk_def t1_def split_def)
  have w1: "window ?log t1" using assms same by (simp add: window_def)
  show "window (output_log (tr_process_id t) (tr_max_bytes t) (outs @ [(stream, s, now)])) (fst (append_chunk stream s now t))"
  proof (cases "s = []")
    case True
    with w1 show ?thesis unfolding eq by (simp add: append_chunk_to_ring_def output_log_snoc)
  next
    case False
    have c: "ch_text ?c = truncate_to_char_boundary s (tr_max_bytes t1)" by (simp add: stored_chunk_def same)
    have seq: "tr_next_seq t1 = length ?log" using w1 by (simp add: window_def Let_def)
    obtain kept current dropped dropped_bytes where e:
      "evict_chunks (tr_max_bytes t1) (length (ch_text ?c)) (tr_chunks t1) (tr_current_bytes t1) (tr_dropped_chunks t1) (tr_dropped_bytes t1) =
        (kept, current, dropped, dropped_bytes)" by (metis prod_cases4)
    note ring = ring_append [OF False e [unfolded c], of stream now]
    have "window (?log @ [?c]) (fst (append_chunk_to_ring stream s now t1))"
      by (rule window_append [OF w1 _ e]) (use ring same seq c truncate_length in simp_all)
    with False show ?thesis by (simp add: eq output_log_snoc)
  qed
qed (simp_all add: append_chunk_def append_chunk_to_ring_def split_def Let_def prepare_spill_ring)

lemma run_output_snoc: "run_output t (outs @ [(stream, s, now)]) = fst (append_chunk stream s now (run_output t outs))"
  by (simp add: run_output_def)

lemma window_run:
  fixes pid :: string and max_bytes threshold :: nat and spill :: bool
  defines "start \<equiv> transcript_new_with_spill pid max_bytes spill threshold"
  shows "window (output_log pid (max max_bytes 1) outs) (run_output start outs) \<and>
    tr_process_id (run_output start outs) = pid \<and> tr_max_bytes (run_output start outs) = max max_bytes 1"
proof (induction outs rule: rev_induct)
  case Nil
  show ?case by (simp add: run_output_def start_def transcript_new_with_spill_def window_def output_log_def)
next
  case (snoc out outs)
  obtain stream s now where "out = (stream, s, now)" by (cases out)
  with snoc window_append_chunk [of "run_output start outs" outs stream s now] show ?case
    by (simp add: run_output_snoc)
qed

text \<open>
  C30: the transcript is a window on the output. Whatever a process writes, the transcript
  holds the end of the full log of its output, starting at the first chunk from which on
  everything fits into the cap -- nothing is dropped without need, and nothing in the
  middle; the counters say exactly how many chunks and bytes were dropped and are held.
\<close>

theorem transcript_window:
  "let t = run_output (transcript_new_with_spill pid max_bytes spill threshold) outs; cap = max max_bytes 1;
       log = output_log pid cap outs; d = (LEAST d. bytes_of (drop d log) \<le> cap)
   in tr_chunks t = drop d log \<and> tr_dropped_chunks t = d \<and> tr_next_seq t = length log \<and>
      tr_dropped_bytes t = bytes_of (take d log) \<and> tr_current_bytes t = bytes_of (drop d log) \<and> tr_current_bytes t \<le> cap"
proof -
  define t where "t = run_output (transcript_new_with_spill pid max_bytes spill threshold) outs"
  let ?cap = "max max_bytes 1" and ?log = "output_log pid (max max_bytes 1) outs"
  have w: "window ?log t" "tr_max_bytes t = ?cap" using window_run t_def by blast+
  then have "(LEAST d. bytes_of (drop d ?log) \<le> ?cap) = tr_dropped_chunks t"
    by (intro Least_equality) (auto simp: window_def Let_def not_le [symmetric])
  with w show ?thesis unfolding t_def [symmetric] by (simp add: window_def Let_def)
qed

section \<open>Readers\<close>

lemma filter_seq_drop:
  assumes "\<And>i. i < length log \<Longrightarrow> ch_seq (log ! i) = i"
  shows "filter (\<lambda>c. k \<le> ch_seq c) (drop d log) = drop (max d k) log"
proof (induction "length log - d" arbitrary: d)
  case 0
  then show ?case by simp
next
  case (Suc n)
  then have d: "d < length log" "drop d log = log ! d # drop (Suc d) log" by (auto simp: Cons_nth_drop_Suc)
  have IH: "filter (\<lambda>c. k \<le> ch_seq c) (drop (Suc d) log) = drop (max (Suc d) k) log" using Suc by simp
  show ?case
  proof (cases "k \<le> d")
    case True
    then show ?thesis using d IH assms [OF d(1)] by (simp add: max_absorb1)
  next
    case False
    then have "max (Suc d) k = max d k" by simp
    with False show ?thesis using d IH assms [OF d(1)] by simp
  qed
qed

lemma read_since_log:
  assumes "window log t" "\<And>i. i < length log \<Longrightarrow> ch_seq (log ! i) = i"
  shows "read_since k t = drop (max (tr_dropped_chunks t) k) log"
  using assms filter_seq_drop [of log k] by (simp add: read_since_def window_def Let_def)

text \<open>A reader keeps the sequence number to go on from, what it got, and whether it was told that chunks before it are gone.\<close>

record reader =
  cursor :: nat
  received :: "exec_output_chunk list"
  missed :: bool

datatype exec_event = Write exec_output | Poll "nat option"

fun poll_step :: "transcript \<times> reader \<Rightarrow> exec_event \<Rightarrow> transcript \<times> reader" where
  "poll_step (t, r) (Write out) = (run_output t [out], r)"
| "poll_step (t, r) (Poll limit) =
     (let result = transcript_read (cursor r) limit t
      in (t, \<lparr>cursor = re_next_seq result, received = received r @ re_chunks result,
              missed = (missed r \<or> re_dropped_chunks result > cursor r)\<rparr>))"

definition written :: "exec_event list \<Rightarrow> exec_output list" where
  "written es = concat (map (\<lambda>e. case e of Write out \<Rightarrow> [out] | Poll _ \<Rightarrow> []) es)"

definition reader_ok :: "exec_output_chunk list \<Rightarrow> reader \<Rightarrow> bool" where
  "reader_ok log r \<longleftrightarrow>
     cursor r \<le> length log \<and> sorted_wrt (<) (map ch_seq (received r)) \<and>
     (\<forall>c \<in> set (received r). c \<in> set log \<and> ch_seq c < cursor r) \<and> (\<not> missed r \<longrightarrow> received r = take (cursor r) log)"

lemma reader_ok_grow: "reader_ok log r \<Longrightarrow> reader_ok (log @ rest) r"
  by (auto simp: reader_ok_def)

lemma reader_ok_poll:
  assumes "window log t" and seq: "\<And>i. i < length log \<Longrightarrow> ch_seq (log ! i) = i" and ok: "reader_ok log r"
  shows "reader_ok log (snd (poll_step (t, r) (Poll limit)))"
proof -
  let ?d = "max (tr_dropped_chunks t) (cursor r)"
  define n where "n = (case limit of None \<Rightarrow> length log | Some n \<Rightarrow> n)"
  define got where "got = take n (drop ?d log)"
  have chunks: "re_chunks (transcript_read (cursor r) limit t) = got"
    using read_since_log [OF assms(1) seq] by (simp add: transcript_read_def got_def n_def Let_def split: option.split)
  have got_seq: "ch_seq (got ! i) = ?d + i" if "i < length got" for i
  proof -
    have "?d + i < length log" using that by (auto simp: got_def)
    then have "drop ?d log ! i = log ! (?d + i)" by (intro nth_drop) linarith
    with that seq [OF \<open>?d + i < length log\<close>] show ?thesis by (simp add: got_def)
  qed
  have next_cursor: "re_next_seq (transcript_read (cursor r) limit t) = (if got = [] then cursor r else ?d + length got)"
    using chunks got_seq [of "length got - 1"] by (simp add: transcript_read_def Let_def last_conv_nth)
  have len: "?d + length got \<le> length log" if "got \<noteq> []" using that by (auto simp: got_def min_def not_le)
  have sub: "set got \<subseteq> set log" by (auto simp: got_def dest!: in_set_takeD in_set_dropD)
  have rng: "cursor r \<le> ch_seq c \<and> ch_seq c < ?d + length got" if "c \<in> set got" for c
    using that got_seq by (auto simp: in_set_conv_nth)
  have "sorted_wrt (<) (map ch_seq got)" using got_seq by (simp add: sorted_wrt_iff_nth_less)
  moreover have "take (cursor r) log @ got = take (cursor r + length got) log" if "tr_dropped_chunks t \<le> cursor r"
    using that by (cases "n \<le> length log - cursor r") (simp_all add: got_def max_absorb2 take_add min_def)
  ultimately show ?thesis
    using ok chunks next_cursor len sub rng
    by (fastforce simp: reader_ok_def Let_def sorted_wrt_append transcript_read_def max_absorb2 split: if_splits)
qed

definition run_events :: "string \<Rightarrow> nat \<Rightarrow> exec_event list \<Rightarrow> transcript \<times> reader" where
  "run_events pid max_bytes es =
     foldl poll_step (transcript_new pid max_bytes, \<lparr>cursor = 0, received = [], missed = False\<rparr>) es"

lemma written_snoc [simp]: "written (es @ [Write out]) = written es @ [out]" "written (es @ [Poll limit]) = written es"
  by (simp_all add: written_def)

lemma run_events_transcript: "fst (run_events pid max_bytes es) = run_output (transcript_new pid max_bytes) (written es)"
proof (induction es rule: rev_induct)
  case Nil
  show ?case by (simp add: run_events_def run_output_def written_def)
next
  case (snoc e es)
  then show ?case
    by (cases "run_events pid max_bytes es"; cases e) (simp_all add: run_events_def run_output_def Let_def)
qed

lemma run_events_reader: "reader_ok (output_log pid (max max_bytes 1) (written es)) (snd (run_events pid max_bytes es))"
proof (induction es rule: rev_induct)
  case Nil
  show ?case by (simp add: run_events_def reader_ok_def)
next
  case (snoc e es)
  obtain t r where tr: "run_events pid max_bytes es = (t, r)" by fastforce
  let ?log = "output_log pid (max max_bytes 1) (written es)"
  have step: "run_events pid max_bytes (es @ [e]) = poll_step (t, r) e" using tr by (simp add: run_events_def)
  have w: "window ?log t"
    using run_events_transcript [of pid max_bytes es] tr 
      window_run [where pid = pid and max_bytes = max_bytes and spill = False and threshold = default_spill_threshold_bytes
        and outs = "written es"]
    by (simp add: transcript_new_def)
  show ?case
  proof (cases e)
    case (Write out)
    obtain stream s now where "out = (stream, s, now)" by (cases out)
    with Write snoc tr step show ?thesis by (auto simp: output_log_snoc reader_ok_grow)
  next
    case (Poll limit)
    with reader_ok_poll [OF w output_log_seq, of r limit] snoc tr step show ?thesis by simp
  qed
qed

text \<open>
  C31: polling by sequence number. However writes and polls interleave, a reader that goes on
  from the sequence number it was given gets chunks of the output in order and none twice;
  and as long as no poll reports more dropped chunks than its cursor, what it got is exactly
  the output up to its cursor, without a gap.
\<close>

theorem reader_exactly_once:
  "let r = snd (run_events pid max_bytes es); log = output_log pid (max max_bytes 1) (written es) in
   sorted_wrt (<) (map ch_seq (received r)) \<and> set (received r) \<subseteq> set log \<and>
   (\<not> missed r \<longrightarrow> received r = take (cursor r) log)"
  using run_events_reader [of pid max_bytes es] by (auto simp: reader_ok_def Let_def)

theorem reader_exactly_once_witness:
  "let r = snd (run_events ''p'' 8 [Write (Stdout, ''ab'', 1), Poll (Some 1), Write (Stderr, ''c'', 2)])
   in map ch_text (received r) = [''ab''] \<and> \<not> missed r"
proof -
  let ?es = "[Write (Stdout, ''ab'', 1), Poll (Some 1), Write (Stderr, ''c'', 2)]"
  have r: "cursor (snd (run_events ''p'' 8 ?es)) = 1" "\<not> missed (snd (run_events ''p'' 8 ?es))"
    by (simp_all add: run_events_def transcript_new_def transcript_new_with_spill_def run_output_def append_chunk_def
        prepare_spill_append_def append_chunk_to_ring_def transcript_read_def read_since_def Let_def)
  have "output_log ''p'' (max 8 1) (written ?es) ! 0 = stored_chunk ''p'' 8 0 (Stdout, ''ab'', 1)" "length (output_log ''p'' (max 8 1) (written ?es)) = 2"
    by (simp_all add: output_log_def written_def)
  then have "take 1 (output_log ''p'' (max 8 1) (written ?es)) = [stored_chunk ''p'' 8 0 (Stdout, ''ab'', 1)]"
    by (simp add: take_Suc_conv_app_nth)
  then show ?thesis
    using reader_exactly_once [of "''p''" 8 ?es] r by (simp add: Let_def stored_chunk_def truncate_to_char_boundary_def)
qed

section \<open>Raw captures\<close>

definition capture_run :: "nat \<Rightarrow> string list \<Rightarrow> raw_stream_capture" where
  "capture_run max_bytes ss = foldl raw_stream_append (raw_stream_new max_bytes) ss"

definition capture_ok :: "string \<Rightarrow> raw_stream_capture \<Rightarrow> bool" where
  "capture_ok all c \<longleftrightarrow>
     length (rc_text c) \<le> rc_max_bytes c \<and> rc_text c = take (length (rc_text c)) all \<and>
     rc_elided_bytes c = min (length all - length (rc_text c)) u64_max \<and> (\<not> rc_hit_limit c \<longrightarrow> rc_text c = all) \<and>
     (rc_hit_limit c \<longrightarrow> rc_max_bytes c < length all)"

lemma capture_ok_append:
  assumes "capture_ok all c" shows "capture_ok (all @ s) (raw_stream_append c s)"
proof -
  let ?n = "length (rc_text c)" and ?m = "rc_max_bytes c"
  from assms have c: "?n \<le> ?m" "rc_text c = take ?n all" "rc_elided_bytes c = min (length all - ?n) u64_max"
    "\<not> rc_hit_limit c \<Longrightarrow> rc_text c = all" "rc_hit_limit c \<Longrightarrow> ?m < length all"
    by (auto simp: capture_ok_def)
  have le: "?n \<le> length all" using c(2) by (metis length_take min.cobounded1)
  show ?thesis
  proof (cases "s = [] \<or> rc_hit_limit c \<or> ?n = ?m")
    case True
    then consider "s = []" | "s \<noteq> []" "rc_hit_limit c" | "s \<noteq> []" "\<not> rc_hit_limit c" "?n = ?m" by blast
    then show ?thesis
    proof cases
      case 1
      with assms show ?thesis by (simp add: raw_stream_append_def)
    next
      case 2
      with c le show ?thesis by (auto simp: capture_ok_def raw_stream_append_def sat_add64_def min_def)
    next
      case 3
      with c le show ?thesis
        by (auto simp: capture_ok_def raw_stream_append_def sat_add64_def sat_sub_def min_def)
    qed
  next
    case False
    then have all: "rc_text c = all" "s \<noteq> []" "\<not> rc_hit_limit c" "?n < ?m" using c by auto
    obtain k where k: "truncate_to_char_boundary s (?m - ?n) = take k s" "k \<le> length s" "k \<le> ?m - ?n \<or> k = length s"
      "length s \<le> ?m - ?n \<longrightarrow> k = length s"
      by (rule truncate_prefix [of s "?m - ?n"]) blast
    moreover have "length (take k s) \<le> ?m - ?n" using truncate_length [of s "?m - ?n"] k(1) by simp
    ultimately show ?thesis
      using all c by (auto simp: capture_ok_def raw_stream_append_def sat_add64_def sat_sub_def Let_def)
  qed
qed

lemma raw_stream_append_max: "rc_max_bytes (raw_stream_append c s) = rc_max_bytes c"
  by (simp add: raw_stream_append_def Let_def)

lemma capture_run_ok:
  "capture_ok (concat ss) (capture_run max_bytes ss) \<and> rc_max_bytes (capture_run max_bytes ss) = max max_bytes 1"
proof (induction ss rule: rev_induct)
  case Nil
  show ?case by (simp add: capture_run_def raw_stream_new_def capture_ok_def)
next
  case (snoc s ss)
  then show ?case using capture_ok_append [of "concat ss" "capture_run max_bytes ss" s]
    by (simp add: capture_run_def raw_stream_append_max)
qed

text \<open>
  C32: a raw capture is the beginning of the output, of at most the cap. All of it is held
  unless the output is larger than the cap; and what was captured and what is reported as
  elided together are the whole output.
\<close>

theorem capture_prefix:
  "let c = capture_run max_bytes ss; all = concat ss; cap = max max_bytes 1 in
   rc_text c = take (length (rc_text c)) all \<and> length (rc_text c) \<le> cap \<and>
   (if length all \<le> cap then rc_text c = all \<and> rc_elided_bytes c = 0
    else rc_elided_bytes c = min (length all - length (rc_text c)) u64_max)"
  using capture_run_ok [of ss max_bytes] by (auto simp: capture_ok_def Let_def)

section \<open>The byte cursor\<close>

text \<open>A Rust string does not start with a continuation byte.\<close>

definition starts_char :: "string \<Rightarrow> bool" where
  "starts_char s \<longleftrightarrow> s = [] \<or> \<not> continuation (hd s)"

lemma raw_stream_append_text:
  assumes "starts_char s"
  shows "\<exists>x. rc_text (raw_stream_append c s) = rc_text c @ x \<and> starts_char x"
proof -
  obtain k where k: "truncate_to_char_boundary s (rc_max_bytes c - length (rc_text c)) = take k s" by (rule truncate_prefix) blast
  have "starts_char (take k s)" using assms by (cases s; cases k) (auto simp: starts_char_def)
  moreover have "starts_char []" by (simp add: starts_char_def)
  ultimately show ?thesis using k by (auto simp: raw_stream_append_def sat_sub_def Let_def)
qed

lemma append_run_text:
  assumes "list_all starts_char ss"
  shows "\<exists>x. rc_text (foldl raw_stream_append c ss) = rc_text c @ x \<and> starts_char x"
  using assms
proof (induction ss arbitrary: c)
  case (Cons s ss)
  from Cons.prems obtain x where "rc_text (raw_stream_append c s) = rc_text c @ x" "starts_char x"
    using raw_stream_append_text [of s c] by auto
  moreover from Cons obtain y where
    "rc_text (foldl raw_stream_append (raw_stream_append c s) ss) = rc_text (raw_stream_append c s) @ y" "starts_char y"
    by force
  ultimately show ?case by (cases x) (auto simp: starts_char_def)
qed (simp add: starts_char_def)

text \<open>
  Streaming by byte offset. A reader that asks from the offset it was last given gets
  exactly the bytes captured since: no byte is skipped or repeated, whatever was written in
  between.
\<close>

lemma offset_reader_exact:
  assumes "rw_combined w = Some c" "list_all starts_char ss"
    and "w' = foldl (\<lambda>w s. append_combined_raw s w) w ss"
    and "read_combined_since (length (rc_text c)) None w' = Some r" "rw_combined w' = Some c'"
  shows "rc_text c @ rr_text r = rc_text c' \<and> rr_start_offset r = length (rc_text c) \<and> rr_new_offset r = length (rc_text c')"
proof -
  have "rw_combined (foldl (\<lambda>w s. append_combined_raw s w) w ss) = Some (foldl raw_stream_append c ss)"
    using assms(1) by (induction ss arbitrary: w c) (auto simp: append_combined_raw_def)
  then have c': "c' = foldl raw_stream_append c ss" using assms(3,5) by simp
  with append_run_text [OF assms(2), of c] obtain x where x: "rc_text c' = rc_text c @ x" "starts_char x" by blast
  then have "is_char_boundary (rc_text c') (length (rc_text c))"
    by (cases x) (auto simp: is_char_boundary_def starts_char_def)
  with x assms(4,5) show ?thesis by (auto simp: read_combined_since_def Let_def boundary_before_self)
qed

lemma offset_reader_exact_example:
  "\<exists>r. read_combined_since 2 None (append_combined_raw ''cd'' (append_combined_raw ''ab'' (with_combined_capture (raw_capture_foreground ''p'')))) = Some r \<and>
     ''ab'' @ rr_text r = ''abcd''"
proof -
  define w where "w = append_combined_raw ''ab'' (with_combined_capture (raw_capture_foreground ''p''))"
  have *: "raw_stream_append (raw_stream_append (raw_stream_new m) ''ab'') ''cd'' = \<lparr>rc_text = ''abcd'', rc_max_bytes = m, rc_elided_bytes = 0, rc_hit_limit = False\<rparr>"
    "raw_stream_append (raw_stream_new m) ''ab'' = \<lparr>rc_text = ''ab'', rc_max_bytes = m, rc_elided_bytes = 0, rc_hit_limit = False\<rparr>"
    if "m > 4" for m using that by (auto simp: raw_stream_append_def raw_stream_new_def truncate_to_char_boundary_def sat_sub_def sat_add64_def Let_def)
  have m: "foreground_stdout_capture_max_bytes > 4" by (simp add: foreground_stdout_capture_max_bytes_def)
  have w: "rw_combined w = Some (raw_stream_append (raw_stream_new foreground_stdout_capture_max_bytes) ''ab'')"
    "rw_combined (append_combined_raw ''cd'' w) =
      Some (raw_stream_append (raw_stream_append (raw_stream_new foreground_stdout_capture_max_bytes) ''ab'') ''cd'')"
    by (simp_all add: w_def append_combined_raw_def with_combined_capture_def)
  obtain r where r: "read_combined_since 2 None (append_combined_raw ''cd'' w) = Some r"
    using w(2) by (simp add: read_combined_since_def)
  with offset_reader_exact [OF w(1), of "[''cd'']" "append_combined_raw ''cd'' w" r] w(2) * [OF m] show ?thesis
    by (simp add: w_def [symmetric] starts_char_def continuation_def byte_def numeral_2_eq_2)
qed

section \<open>The spilled log\<close>

text \<open>The texts handed to the spill writer, in order.\<close>

definition run_spill :: "transcript \<Rightarrow> exec_output list \<Rightarrow> transcript \<times> string" where
  "run_spill t outs =
     foldl (\<lambda>(t, log) (stream, s, now). case append_chunk stream s now t of (t', _, spill) \<Rightarrow> (t', log @ get_or [] spill)) (t, []) outs"

definition spill_ok :: "string \<Rightarrow> string \<Rightarrow> transcript \<Rightarrow> bool" where
  "spill_ok all log t \<longleftrightarrow>
     tr_spill t \<and> tr_spill_max_bytes t \<le> u64_max \<and> tr_total_bytes_appended t = length all \<and>
     (if tr_spill_started t
      then (\<exists>rest. all = log @ rest) \<and> tr_spill_bytes t = length log \<and> length log \<le> tr_spill_max_bytes t \<and>
           (\<not> tr_spill_truncated t \<longrightarrow> log = all)
      else log = [] \<and> tr_pre_spill_buffer t = all \<and> \<not> tr_spill_truncated t)"

lemma spill_ok_append:
  assumes "spill_ok all log t"
  shows "spill_ok (all @ s) (log @ get_or [] (snd (snd (append_chunk stream s now t)))) (fst (append_chunk stream s now t))"
proof -
  let ?p = "prepare_spill_append s t"
  have ring: "tr_spill (fst (append_chunk_to_ring stream s now u)) = tr_spill u"
    "tr_spill_max_bytes (fst (append_chunk_to_ring stream s now u)) = tr_spill_max_bytes u"
    "tr_spill_started (fst (append_chunk_to_ring stream s now u)) = tr_spill_started u"
    "tr_spill_bytes (fst (append_chunk_to_ring stream s now u)) = tr_spill_bytes u"
    "tr_spill_truncated (fst (append_chunk_to_ring stream s now u)) = tr_spill_truncated u"
    "tr_pre_spill_buffer (fst (append_chunk_to_ring stream s now u)) = tr_pre_spill_buffer u"
    "tr_total_bytes_appended (fst (append_chunk_to_ring stream s now u)) = tr_total_bytes_appended u + length s" for u
    by (simp_all add: append_chunk_to_ring_def Let_def split_def)
  have "spill_ok (all @ s) (log @ get_or [] (snd ?p)) (fst (append_chunk_to_ring stream s now (fst ?p)))"
  proof (cases "s = [] \<or> tr_spill_truncated t")
    case True
    with assms show ?thesis unfolding spill_ok_def ring prepare_spill_ring
      by (auto simp: prepare_spill_append_def split: if_splits)
  next
    case False
    from assms have t: "tr_spill t" "tr_spill_max_bytes t \<le> u64_max" "tr_total_bytes_appended t = length all" by (auto simp: spill_ok_def)
    show ?thesis
    proof (cases "tr_spill_started t")
      case True
      with False assms have log: "log = all" "tr_spill_bytes t = length all" "length all \<le> tr_spill_max_bytes t" by (auto simp: spill_ok_def)
      obtain k where k: "truncate_to_char_boundary s (tr_spill_max_bytes t - length all) = take k s" "k \<le> length s"
        by (rule truncate_prefix [of s "tr_spill_max_bytes t - length all"]) blast
      moreover have "length (take k s) \<le> tr_spill_max_bytes t - length all" using truncate_length k(1) by metis
      ultimately show ?thesis using True False t log unfolding spill_ok_def ring prepare_spill_ring
        by (auto simp: prepare_spill_append_def sat_sub_def sat_add64_def Let_def intro: exI [of _ "drop k s"])
    next
      case not_started: False
      with assms have log: "log = []" "tr_pre_spill_buffer t = all" by (auto simp: spill_ok_def)
      obtain kept rest where kept: "truncate_to_char_boundary (all @ s) (tr_spill_max_bytes t) = kept" "all @ s = kept @ rest"
        by (metis append_take_drop_id truncate_prefix)
      moreover have "length kept \<le> tr_spill_max_bytes t" using truncate_length kept(1) by metis
      moreover have "length all + length s = length kept + length rest" using arg_cong [OF kept(2), of length] by simp
      ultimately show ?thesis using not_started False t log unfolding spill_ok_def ring prepare_spill_ring
        by (auto simp: prepare_spill_append_def Let_def not_less)
    qed
  qed
  then show ?thesis by (simp add: append_chunk_def split_def)
qed

text \<open>
  The spilled log. With a spill target, what was handed to the spill writer is the
  beginning of everything the process wrote, at most the cap of the log. Once spilling has
  started and as long as it is not marked as truncated, it is all of the output; before it
  has started, all output is still in the buffer.
\<close>

lemma spilled_log_prefix:
  "case run_spill (transcript_new_with_spill pid max_bytes True threshold) outs of (t, log) \<Rightarrow>
     (\<exists>rest. concat (map (\<lambda>(_, s, _). s) outs) = log @ rest) \<and> length log \<le> default_spill_max_bytes \<and>
     (if tr_spill_started t then tr_spill_truncated t \<or> log = concat (map (\<lambda>(_, s, _). s) outs)
      else log = [] \<and> tr_pre_spill_buffer t = concat (map (\<lambda>(_, s, _). s) outs))"
proof -
  let ?start = "transcript_new_with_spill pid max_bytes True threshold" and ?all = "\<lambda>outs. concat (map (\<lambda>(_, s, _). s) outs)"
  have "case run_spill ?start outs of (t, log) \<Rightarrow> spill_ok (?all outs) log t \<and> tr_spill_max_bytes t = default_spill_max_bytes"
  proof (induction outs rule: rev_induct)
    case Nil
    show ?case by (simp add: run_spill_def spill_ok_def transcript_new_with_spill_def default_spill_max_bytes_def u64_max_def)
  next
    case (snoc out outs)
    obtain t log where tl: "run_spill ?start outs = (t, log)" by fastforce
    obtain stream s now where out: "out = (stream, s, now)" by (cases out)
    have "tr_spill_max_bytes (fst (append_chunk stream s now t)) = tr_spill_max_bytes t"
      by (simp add: append_chunk_def append_chunk_to_ring_def prepare_spill_append_def split_def Let_def)
    with snoc tl out spill_ok_append [of "?all outs" log t s stream now] show ?case
      by (simp add: run_spill_def split_def)
  qed
  then show ?thesis by (auto simp: spill_ok_def split: if_splits prod.splits)
qed

end
