(* ===== verification/Sub_Goal.thy ===== *)
theory Sub_Goal
  imports Rust_Text
begin

text \<open>
  The lanes under a goal (\<open>refact-chat-api/src/sub_goal.rs\<close>): declarations of nodes and
  edges with their check, the graph that replaying the goal ledger builds, and the rollup
  that decides whether a parent may proceed. The verdicts of criteria are those of the
  crate's \<open>lib.rs\<close>.
\<close>

section \<open>Verdicts of criteria\<close>

datatype verdict_source = Judged | Measured

definition is_measured :: "verdict_source \<Rightarrow> bool" where
  "is_measured s \<longleftrightarrow> s = Measured"

primrec verdict_source_label :: "verdict_source \<Rightarrow> string" where
  "verdict_source_label Judged = ''judged''"
| "verdict_source_label Measured = ''measured''"

record criterion_evidence =
  ce_spec_id :: string
  ce_command :: string
  ce_exit_code :: "int option"
  ce_verdict :: string

record criterion_verdict =
  cv_id :: string
  cv_met :: bool
  cv_note :: string
  cv_source :: verdict_source
  cv_evidence :: "criterion_evidence option"

section \<open>Nodes, edges, reports\<close>

definition root_sub_goal_id :: string where
  "root_sub_goal_id = ''goal''"

definition default_sub_goal_max_depth :: nat where
  "default_sub_goal_max_depth = 4"

definition default_sub_goal_max_fan_out :: nat where
  "default_sub_goal_max_fan_out = 16"

record sub_goal_owner =
  so_runtime :: string
  so_id :: string

definition owner_trajectory :: "string \<Rightarrow> sub_goal_owner" where
  "owner_trajectory i = \<lparr>so_runtime = ''trajectory'', so_id = i\<rparr>"

definition owner_background_agent :: "string \<Rightarrow> sub_goal_owner" where
  "owner_background_agent i = \<lparr>so_runtime = ''background_agent'', so_id = i\<rparr>"

definition owner_display :: "sub_goal_owner \<Rightarrow> string" where
  "owner_display w = so_runtime w @ '':'' @ so_id w"

datatype edge_kind = Required | Optional

definition is_required :: "edge_kind \<Rightarrow> bool" where
  "is_required k \<longleftrightarrow> k = Required"

primrec edge_kind_label :: "edge_kind \<Rightarrow> string" where
  "edge_kind_label Required = ''required''"
| "edge_kind_label Optional = ''optional''"

datatype sub_goal_outcome = NotRun | Dispatched | Met | Failed | Blocked | Superseded

definition is_met :: "sub_goal_outcome \<Rightarrow> bool" where
  "is_met x \<longleftrightarrow> x = Met"

primrec sub_goal_outcome_label :: "sub_goal_outcome \<Rightarrow> string" where
  "sub_goal_outcome_label NotRun = ''not_run''"
| "sub_goal_outcome_label Dispatched = ''dispatched''"
| "sub_goal_outcome_label Met = ''met''"
| "sub_goal_outcome_label Failed = ''failed''"
| "sub_goal_outcome_label Blocked = ''blocked''"
| "sub_goal_outcome_label Superseded = ''superseded''"

record sub_goal_node =
  sn_id :: string
  sn_title :: string
  sn_owner :: "sub_goal_owner option"
  sn_criterion_ids :: "string list"

definition sub_goal_node_new :: "string \<Rightarrow> string \<Rightarrow> sub_goal_node" where
  "sub_goal_node_new i title = \<lparr>sn_id = i, sn_title = title, sn_owner = None, sn_criterion_ids = []\<rparr>"

definition node_with_owner :: "sub_goal_owner \<Rightarrow> sub_goal_node \<Rightarrow> sub_goal_node" where
  "node_with_owner w n = n\<lparr>sn_owner := Some w\<rparr>"

definition node_with_criteria :: "string list \<Rightarrow> sub_goal_node \<Rightarrow> sub_goal_node" where
  "node_with_criteria ids n = n\<lparr>sn_criterion_ids := ids\<rparr>"

record sub_goal_edge =
  se_parent :: string
  se_child :: string
  se_kind :: edge_kind

definition edge_required :: "string \<Rightarrow> string \<Rightarrow> sub_goal_edge" where
  "edge_required p c = \<lparr>se_parent = p, se_child = c, se_kind = Required\<rparr>"

definition edge_optional :: "string \<Rightarrow> string \<Rightarrow> sub_goal_edge" where
  "edge_optional p c = \<lparr>se_parent = p, se_child = c, se_kind = Optional\<rparr>"

record sub_goal_report =
  sr_claimed :: sub_goal_outcome
  sr_verdicts :: "criterion_verdict list"
  sr_summary :: string
  sr_reported_at_ms :: nat

definition met_verdict :: "sub_goal_report \<Rightarrow> string \<Rightarrow> bool" where
  "met_verdict r i \<longleftrightarrow> (\<exists>v \<in> set (sr_verdicts r). cv_id v = i \<and> cv_met v)"

record sub_goal_declaration =
  sd_nodes :: "sub_goal_node list"
  sd_edges :: "sub_goal_edge list"

datatype declaration_error =
    EmptyNodeId
  | ReservedNodeId string
  | DuplicateNode string
  | UnknownNode string string string
  | SelfEdge string
  | Cycle "string list"
  | DepthExceeded string nat nat
  | FanOutExceeded string nat nat

primrec declaration_error_display :: "declaration_error \<Rightarrow> string" where
  "declaration_error_display EmptyNodeId = ''sub-goal id must not be empty''"
| "declaration_error_display (ReservedNodeId i) =
     ''sub-goal id '' @ single_quote @ i @ single_quote @ '' is reserved for the top-level goal''"
| "declaration_error_display (DuplicateNode i) = ''sub-goal '' @ single_quote @ i @ single_quote @ '' is already declared''"
| "declaration_error_display (UnknownNode p c missing) =
     ''edge '' @ p @ '' -> '' @ c @ '' names undeclared sub-goal '' @ single_quote @ missing @ single_quote"
| "declaration_error_display (SelfEdge i) = ''sub-goal '' @ single_quote @ i @ single_quote @ '' cannot depend on itself''"
| "declaration_error_display (Cycle participants) = ''sub-goal cycle rejected: '' @ join_strings '' -> '' participants"
| "declaration_error_display (DepthExceeded i depth max_depth) =
     ''sub-goal '' @ single_quote @ i @ single_quote @ '' sits at depth '' @ show_nat depth @ '', over the limit of '' @ show_nat max_depth"
| "declaration_error_display (FanOutExceeded p fan_out max_fan_out) =
     ''sub-goal '' @ single_quote @ p @ single_quote @ '' would own '' @ show_nat fan_out @
     '' children, over the limit of '' @ show_nat max_fan_out"

record sub_goal_limits =
  lm_max_depth :: nat
  lm_max_fan_out :: nat

definition default_sub_goal_limits :: sub_goal_limits where
  "default_sub_goal_limits = \<lparr>lm_max_depth = default_sub_goal_max_depth, lm_max_fan_out = default_sub_goal_max_fan_out\<rparr>"

section \<open>The graph\<close>

record node_state =
  ns_node :: sub_goal_node
  ns_dispatched :: bool
  ns_superseded :: "string option"
  ns_report :: "sub_goal_report option"

record sub_goal_graph =
  sg_nodes :: "node_state list"
  sg_edges :: "sub_goal_edge list"

abbreviation ns_id :: "node_state \<Rightarrow> string" where
  "ns_id s \<equiv> sn_id (ns_node s)"

definition empty_graph :: sub_goal_graph where
  "empty_graph = \<lparr>sg_nodes = [], sg_edges = []\<rparr>"

definition graph_is_empty :: "sub_goal_graph \<Rightarrow> bool" where
  "graph_is_empty g \<longleftrightarrow> sg_nodes g = [] \<and> sg_edges g = []"

definition graph_node :: "sub_goal_graph \<Rightarrow> string \<Rightarrow> node_state option" where
  "graph_node g i = List.find (\<lambda>s. ns_id s = i) (sg_nodes g)"

text \<open>\<open>if let Some(state) = self.node_mut(id) { ... }\<close>: the first node with the id.\<close>

fun modify_node :: "string \<Rightarrow> (node_state \<Rightarrow> node_state) \<Rightarrow> node_state list \<Rightarrow> node_state list" where
  "modify_node i f [] = []"
| "modify_node i f (s # ss) = (if ns_id s = i then f s # ss else s # modify_node i f ss)"

section \<open>The check of a declaration\<close>

fun check_nodes :: "string list \<Rightarrow> sub_goal_node list \<Rightarrow> declaration_error + string list" where
  "check_nodes known [] = Inr known"
| "check_nodes known (n # ns) =
     (if sn_id n = [] then Inl EmptyNodeId
      else if sn_id n = root_sub_goal_id then Inl (ReservedNodeId (sn_id n))
      else if sn_id n \<in> set known then Inl (DuplicateNode (sn_id n))
      else check_nodes (sn_id n # known) ns)"

type_synonym lane_map = "(string, string list) amap"

definition children_of :: "lane_map \<Rightarrow> string \<Rightarrow> string list" where
  "children_of adj p = get_or [] (map_of adj p)"

definition add_lane :: "lane_map \<Rightarrow> sub_goal_edge \<Rightarrow> lane_map" where
  "add_lane adj e =
     (let children = children_of adj (se_parent e)
      in AList.update (se_parent e) (if se_child e \<in> set children then children else children @ [se_child e]) adj)"

fun collect_lanes :: "string list \<Rightarrow> lane_map \<Rightarrow> sub_goal_edge list \<Rightarrow> declaration_error + lane_map" where
  "collect_lanes known adj [] = Inr adj"
| "collect_lanes known adj (e # es) =
     (if se_parent e = se_child e then Inl (SelfEdge (se_parent e))
      else if se_parent e \<notin> set known then Inl (UnknownNode (se_parent e) (se_child e) (se_parent e))
      else if se_child e \<notin> set known then Inl (UnknownNode (se_parent e) (se_child e) (se_child e))
      else collect_lanes known (add_lane adj e) es)"

subsection \<open>The search for a cycle\<close>

datatype mark = Open | Done

type_synonym marks = "(string, mark) amap"

definition stack_position :: "string \<Rightarrow> string list \<Rightarrow> nat" where
  "stack_position x xs = (if x \<in> set xs then length (takeWhile (\<lambda>y. y \<noteq> x) xs) else 0)"

text \<open>The parents left to mark bound the recursion.\<close>

definition unmarked :: "lane_map \<Rightarrow> marks \<Rightarrow> nat" where
  "unmarked adj marks = card (dom (map_of adj) - dom (map_of marks))"

lemma unmarked_mono: "dom (map_of marks) \<subseteq> dom (map_of marks') \<Longrightarrow> unmarked adj marks' \<le> unmarked adj marks"
  unfolding unmarked_def by (intro card_mono) (auto simp: finite_dom_map_of)

lemma unmarked_update:
  assumes "map_of marks node = None" "children_of adj node \<noteq> []"
  shows "unmarked adj (AList.update node m marks) < unmarked adj marks"
proof -
  have "node \<in> dom (map_of adj)" using assms(2) by (cases "map_of adj node") (auto simp: children_of_def)
  with assms(1) have "dom (map_of adj) - dom (map_of (AList.update node m marks)) \<subset> dom (map_of adj) - dom (map_of marks)"
    by (auto simp: update_conv')
  then show ?thesis unfolding unmarked_def by (rule psubset_card_mono [rotated]) (simp add: finite_dom_map_of)
qed

text \<open>
  \<open>walk\<close> of \<open>first_cycle\<close> and its loop over children. The stack is an argument: a call that
  returns without a cycle pops what it pushed. The left side of the result is a cycle.
\<close>

function walk :: "lane_map \<Rightarrow> string \<Rightarrow> marks \<Rightarrow> string list \<Rightarrow> string list + marks"
  and walk_all :: "lane_map \<Rightarrow> string list \<Rightarrow> marks \<Rightarrow> string list \<Rightarrow> string list + marks" where
  "walk adj node marks stack =
     (case map_of marks node of
        Some Done \<Rightarrow> Inr marks
      | Some Open \<Rightarrow> Inl (drop (stack_position node stack) stack @ [node])
      | None \<Rightarrow>
          (case walk_all adj (children_of adj node) (AList.update node Open marks) (stack @ [node]) of
             Inl cycle \<Rightarrow> Inl cycle
           | Inr marks' \<Rightarrow> Inr (AList.update node Done marks')))"
| "walk_all adj [] marks stack = Inr marks"
| "walk_all adj (c # cs) marks stack =
     (case walk adj c marks stack of
        Inl cycle \<Rightarrow> Inl cycle
      | Inr marks' \<Rightarrow> walk_all adj cs marks' stack)"
  by pat_completeness auto

termination
proof -
  have grow:
    "walk_walk_all_dom (Inl (adj, node, marks, stack)) \<Longrightarrow> walk adj node marks stack = Inr marks' \<Longrightarrow>
      dom (map_of marks) \<subseteq> dom (map_of marks')"
    "walk_walk_all_dom (Inr (adj, cs, marks, stack)) \<Longrightarrow> walk_all adj cs marks stack = Inr marks' \<Longrightarrow>
      dom (map_of marks) \<subseteq> dom (map_of marks')" for adj node cs marks marks' stack
  proof (induction adj node marks stack and adj cs marks stack arbitrary: marks' and marks' rule: walk_walk_all.pinduct)
    case (1 adj node marks stack)
    show ?case
    proof (cases "map_of marks node")
      case None
      with 1(1,3) obtain marks'' where
        r: "walk_all adj (children_of adj node) (AList.update node Open marks) (stack @ [node]) = Inr marks''"
        "marks' = AList.update node Done marks''"
        by (auto simp: walk.psimps split: sum.splits)
      from 1(2) [OF None r(1)] have "dom (map_of (AList.update node Open marks)) \<subseteq> dom (map_of marks'')" .
      then show ?thesis by (auto simp: r(2) update_conv')
    next
      case (Some m)
      with 1(1,3) show ?thesis by (cases m) (auto simp: walk.psimps)
    qed
  next
    case (2 adj marks stack)
    then show ?case by (simp add: walk_all.psimps)
  next
    case (3 adj c cs marks stack)
    from 3(1,4) obtain marks1 where r: "walk adj c marks stack = Inr marks1" "walk_all adj cs marks1 stack = Inr marks'"
      by (auto simp: walk_all.psimps split: sum.splits)
    from 3(2) [OF r(1)] 3(3) [OF r(1,2)] show ?case by blast
  qed
  show ?thesis
  proof (relation "measures [\<lambda>x. case x of Inl (adj, node, marks, stack) \<Rightarrow> unmarked adj marks
                                 | Inr (adj, cs, marks, stack) \<Rightarrow> unmarked adj marks,
                             \<lambda>x. case x of Inl _ \<Rightarrow> 1 | Inr (adj, cs, marks, stack) \<Rightarrow> 2 * length cs]", goal_cases)
    case (2 adj node marks stack)
    have "unmarked adj (AList.update node Open marks) \<le> unmarked adj marks" by (rule unmarked_mono) (auto simp: update_conv')
    with 2 unmarked_update [of marks node adj Open] show ?case
      by (cases "children_of adj node = []") (auto simp: le_less)
  next
    case (4 adj c cs marks stack marks')
    then have "dom (map_of marks) \<subseteq> dom (map_of marks')" by (intro grow(1)) auto
    from unmarked_mono [OF this] show ?case by (auto simp: le_less)
  qed auto
qed

definition first_cycle :: "lane_map \<Rightarrow> string list option" where
  "first_cycle adj =
     (case walk_all adj (map fst (btree_iter adj)) [] [] of Inl cycle \<Rightarrow> Some cycle | Inr _ \<Rightarrow> None)"

subsection \<open>Depths\<close>

type_synonym depth_map = "(string, nat) amap"

definition relax_child :: "nat \<Rightarrow> depth_map \<times> bool \<Rightarrow> string \<Rightarrow> depth_map \<times> bool" where
  "relax_child parent_depth st child =
     (case st of (depths, changed) \<Rightarrow>
        let candidate = parent_depth + 1 in
        case map_of depths child of
          Some existing \<Rightarrow> if existing < candidate then (AList.update child candidate depths, True) else (depths, changed)
        | None \<Rightarrow> (AList.update child candidate depths, True))"

definition relax_parent :: "depth_map \<times> bool \<Rightarrow> string \<times> string list \<Rightarrow> depth_map \<times> bool" where
  "relax_parent st entry =
     (case entry of (parent, children) \<Rightarrow>
        case map_of (fst st) parent of
          None \<Rightarrow> st
        | Some parent_depth \<Rightarrow> foldl (relax_child parent_depth) st children)"

definition relax_round :: "lane_map \<Rightarrow> depth_map \<Rightarrow> depth_map \<times> bool" where
  "relax_round adj depths = foldl relax_parent (depths, False) (btree_iter adj)"

fun relax_rounds :: "lane_map \<Rightarrow> nat \<Rightarrow> depth_map \<Rightarrow> depth_map" where
  "relax_rounds adj 0 depths = depths"
| "relax_rounds adj (Suc n) depths =
     (case relax_round adj depths of (depths', changed) \<Rightarrow> if changed then relax_rounds adj n depths' else depths')"

definition total_edges :: "lane_map \<Rightarrow> nat" where
  "total_edges adj = sum_list (map length (amap_values adj))"

definition longest_depths :: "lane_map \<Rightarrow> depth_map" where
  "longest_depths adj = AList.delete root_sub_goal_id (relax_rounds adj (total_edges adj + 1) [(root_sub_goal_id, 0)])"

subsection \<open>The whole check\<close>

definition fan_out_error :: "sub_goal_limits \<Rightarrow> lane_map \<Rightarrow> declaration_error option" where
  "fan_out_error limits adj =
     map_option (\<lambda>(p, cs). FanOutExceeded p (length cs) (lm_max_fan_out limits))
       (List.find (\<lambda>(p, cs). length cs > lm_max_fan_out limits) (btree_iter adj))"

definition depth_error :: "sub_goal_limits \<Rightarrow> depth_map \<Rightarrow> declaration_error option" where
  "depth_error limits depths =
     map_option (\<lambda>(i, d). DepthExceeded i d (lm_max_depth limits))
       (List.find (\<lambda>(i, d). d > lm_max_depth limits) (btree_iter depths))"

definition validate_declaration ::
  "sub_goal_graph \<Rightarrow> sub_goal_declaration \<Rightarrow> sub_goal_limits \<Rightarrow> declaration_error + unit" where
  "validate_declaration g d limits =
     (case check_nodes (root_sub_goal_id # map ns_id (sg_nodes g)) (sd_nodes d) of
        Inl e \<Rightarrow> Inl e
      | Inr known \<Rightarrow>
          (case collect_lanes known [] (sg_edges g @ sd_edges d) of
             Inl e \<Rightarrow> Inl e
           | Inr adj \<Rightarrow>
               (case first_cycle adj of
                  Some participants \<Rightarrow> Inl (Cycle participants)
                | None \<Rightarrow>
                    (case fan_out_error limits adj of
                       Some e \<Rightarrow> Inl e
                     | None \<Rightarrow>
                         (case depth_error limits (longest_depths adj) of
                            Some e \<Rightarrow> Inl e
                          | None \<Rightarrow> Inr ())))))"

section \<open>Operations\<close>

definition declare_node :: "node_state list \<Rightarrow> sub_goal_node \<Rightarrow> node_state list" where
  "declare_node ss n =
     (if sn_id n = [] \<or> sn_id n = root_sub_goal_id \<or> (\<exists>s \<in> set ss. ns_id s = sn_id n) then ss
      else ss @ [\<lparr>ns_node = n, ns_dispatched = False, ns_superseded = None, ns_report = None\<rparr>])"

definition declare_edge :: "sub_goal_edge list \<Rightarrow> sub_goal_edge \<Rightarrow> sub_goal_edge list" where
  "declare_edge es e =
     (if \<exists>x \<in> set es. se_parent x = se_parent e \<and> se_child x = se_child e then es else es @ [e])"

definition apply_declaration :: "sub_goal_declaration \<Rightarrow> sub_goal_graph \<Rightarrow> sub_goal_graph" where
  "apply_declaration d g =
     g\<lparr>sg_nodes := foldl declare_node (sg_nodes g) (sd_nodes d), sg_edges := foldl declare_edge (sg_edges g) (sd_edges d)\<rparr>"

definition mark_dispatched :: "string \<Rightarrow> sub_goal_owner option \<Rightarrow> sub_goal_graph \<Rightarrow> sub_goal_graph" where
  "mark_dispatched i owner g =
     g\<lparr>sg_nodes := modify_node i (\<lambda>s. (case owner of
            None \<Rightarrow> s\<lparr>ns_dispatched := True\<rparr>
          | Some w \<Rightarrow> s\<lparr>ns_dispatched := True, ns_node := (ns_node s)\<lparr>sn_owner := Some w\<rparr>\<rparr>)) (sg_nodes g)\<rparr>"

definition record_report :: "string \<Rightarrow> sub_goal_report \<Rightarrow> sub_goal_graph \<Rightarrow> sub_goal_graph" where
  "record_report i r g =
     g\<lparr>sg_nodes := modify_node i (\<lambda>s. s\<lparr>ns_dispatched := True, ns_report := Some r\<rparr>) (sg_nodes g)\<rparr>"

definition supersede :: "string \<Rightarrow> string \<Rightarrow> sub_goal_graph \<Rightarrow> sub_goal_graph" where
  "supersede i reason g = g\<lparr>sg_nodes := modify_node i (\<lambda>s. s\<lparr>ns_superseded := Some reason\<rparr>) (sg_nodes g)\<rparr>"

section \<open>The rollup\<close>

record sub_goal_lane =
  sl_node_id :: string
  sl_title :: string
  sl_kind :: edge_kind
  sl_owner :: "sub_goal_owner option"
  sl_outcome :: sub_goal_outcome
  sl_dispatched :: bool
  sl_unmet_criteria :: "string list"
  sl_reason :: string

record sub_goal_rollup =
  ru_required_total :: nat
  ru_required_met :: nat
  ru_lanes :: "sub_goal_lane list"

definition blocking :: "sub_goal_rollup \<Rightarrow> sub_goal_lane list" where
  "blocking r = filter (\<lambda>l. is_required (sl_kind l) \<and> \<not> is_met (sl_outcome l)) (ru_lanes r)"

definition parent_may_proceed :: "sub_goal_rollup \<Rightarrow> bool" where
  "parent_may_proceed r \<longleftrightarrow> blocking r = []"

definition rollup_reasons :: "sub_goal_rollup \<Rightarrow> string list" where
  "rollup_reasons r = map sl_reason (blocking r)"

definition optional_lanes :: "sub_goal_rollup \<Rightarrow> sub_goal_lane list" where
  "optional_lanes r = filter (\<lambda>l. \<not> is_required (sl_kind l)) (ru_lanes r)"

definition push_new :: "string list \<Rightarrow> string \<Rightarrow> string list" where
  "push_new xs x = (if x \<in> set xs then xs else xs @ [x])"

definition sub_goal_effective_outcome :: "node_state \<Rightarrow> sub_goal_outcome \<times> string list" where
  "sub_goal_effective_outcome s =
     (if ns_superseded s \<noteq> None then (Superseded, [])
      else
        case ns_report s of
          None \<Rightarrow> (if ns_dispatched s then Dispatched else NotRun, sn_criterion_ids (ns_node s))
        | Some report \<Rightarrow>
            let failed = foldl push_new [] (map cv_id (filter (\<lambda>v. \<not> cv_met v) (sr_verdicts report)));
                unmet = foldl push_new failed (filter (\<lambda>i. \<not> met_verdict report i) (sn_criterion_ids (ns_node s)))
            in if unmet \<noteq> [] then (Failed, unmet)
               else ((case sr_claimed report of
                        NotRun \<Rightarrow> Dispatched | Dispatched \<Rightarrow> Dispatched | other \<Rightarrow> other), []))"

definition lane_reason :: "string \<Rightarrow> string \<Rightarrow> edge_kind \<Rightarrow> sub_goal_outcome \<Rightarrow> string list \<Rightarrow> string" where
  "lane_reason title node_id kind x unmet =
     (let name = (if title = [] then node_id else title);
          lane = edge_kind_label kind @ '' sub-goal '' @ single_quote @ name @ single_quote in
      case x of
        Met \<Rightarrow> lane @ '' is met''
      | NotRun \<Rightarrow> lane @ '' was never dispatched [not_run] '' @ em_dash @ '' this is not a result''
      | Dispatched \<Rightarrow> lane @ '' is still running and has reported no verdict''
      | Blocked \<Rightarrow> lane @ '' reported blocked''
      | Superseded \<Rightarrow> lane @ '' was superseded''
      | Failed \<Rightarrow> if unmet = [] then lane @ '' reported failed'' else lane @ '' failed criteria: '' @ join_strings '', '' unmet)"

definition add_to_rollup :: "sub_goal_graph \<Rightarrow> sub_goal_rollup \<Rightarrow> sub_goal_edge \<Rightarrow> sub_goal_rollup" where
  "add_to_rollup g r e =
     (case graph_node g (se_child e) of
        None \<Rightarrow> r
      | Some s \<Rightarrow>
          (case sub_goal_effective_outcome s of (x, unmet) \<Rightarrow>
             \<lparr>ru_required_total = ru_required_total r + (if is_required (se_kind e) then 1 else 0),
              ru_required_met = ru_required_met r + (if is_required (se_kind e) \<and> is_met x then 1 else 0),
              ru_lanes = ru_lanes r @
                [\<lparr>sl_node_id = ns_id s, sl_title = sn_title (ns_node s), sl_kind = se_kind e, sl_owner = sn_owner (ns_node s),
                  sl_outcome = x, sl_dispatched = ns_dispatched s, sl_unmet_criteria = unmet,
                  sl_reason = lane_reason (sn_title (ns_node s)) (ns_id s) (se_kind e) x unmet\<rparr>]\<rparr>))"

definition aggregate_sub_goals :: "sub_goal_graph \<Rightarrow> string \<Rightarrow> sub_goal_rollup" where
  "aggregate_sub_goals g parent_id =
     foldl (add_to_rollup g) \<lparr>ru_required_total = 0, ru_required_met = 0, ru_lanes = []\<rparr>
       (filter (\<lambda>e. se_parent e = parent_id) (sg_edges g))"

end
