(* ===== verification/Goal.thy ===== *)
theory Goal
  imports Sub_Goal
begin

text \<open>
  Goals: their budget, progress, waits and snapshot (\<open>refact-chat-api/src/lib.rs\<close>), the ledger
  of operations with its replay (\<open>refact-chat-api/src/goal_ledger.rs\<close>), and the operations on
  a live snapshot (\<open>src/chat/types.rs\<close>). Clock readings are arguments, one for each place
  where the source reads the clock. The plan of a goal is data carried along, a type
  parameter.
\<close>

section \<open>Data\<close>

datatype goal_status = Active | Verifying | Paused | Completed | Stopped | BudgetExhausted | NoProgress | Transferred

record goal_budget =
  gb_max_turns :: "nat option"
  gb_max_minutes :: "nat option"
  gb_max_tokens :: "nat option"
  gb_max_cost_cents :: "nat option"
  gb_cooldown_ms :: nat
  gb_no_progress_token_threshold :: nat
  gb_no_progress_turns :: "nat option"
  gb_explicit :: bool

definition default_goal_budget_cooldown_ms :: nat where
  "default_goal_budget_cooldown_ms = 30000"

definition legacy_goal_budget_cooldown_ms :: nat where
  "legacy_goal_budget_cooldown_ms = 1500"

definition default_goal_no_progress_token_threshold :: nat where
  "default_goal_no_progress_token_threshold = 50"

definition default_goal_budget :: goal_budget where
  "default_goal_budget =
     \<lparr>gb_max_turns = None, gb_max_minutes = None, gb_max_tokens = None, gb_max_cost_cents = None,
      gb_cooldown_ms = default_goal_budget_cooldown_ms,
      gb_no_progress_token_threshold = default_goal_no_progress_token_threshold,
      gb_no_progress_turns = None, gb_explicit = False\<rparr>"

definition legacy_default_hard_limits :: goal_budget where
  "legacy_default_hard_limits =
     \<lparr>gb_max_turns = Some 10, gb_max_minutes = Some 15, gb_max_tokens = Some 200000, gb_max_cost_cents = None,
      gb_cooldown_ms = default_goal_budget_cooldown_ms,
      gb_no_progress_token_threshold = default_goal_no_progress_token_threshold,
      gb_no_progress_turns = Some 2, gb_explicit = False\<rparr>"

definition migrate_legacy_default_hard_limits :: "goal_budget \<Rightarrow> goal_budget" where
  "migrate_legacy_default_hard_limits b =
     (if gb_explicit b then b
      else
        let b1 = (if gb_max_turns b = Some 10 \<and> gb_max_minutes b = Some 15 \<and> gb_max_tokens b = Some 200000 \<and>
                     gb_no_progress_turns b = Some 2
                  then default_goal_budget\<lparr>gb_cooldown_ms := gb_cooldown_ms b,
                         gb_no_progress_token_threshold := gb_no_progress_token_threshold b\<rparr>
                  else b)
        in if gb_cooldown_ms b1 = legacy_goal_budget_cooldown_ms \<and> gb_max_turns b1 = None \<and> gb_max_minutes b1 = None \<and>
              gb_max_tokens b1 = None \<and> gb_max_cost_cents b1 = None \<and> gb_no_progress_turns b1 = None
           then b1\<lparr>gb_cooldown_ms := default_goal_budget_cooldown_ms\<rparr>
           else b1)"

record goal_progress =
  gp_turns_used :: nat
  gp_tokens_used :: nat
  gp_started_at_ms :: nat
  gp_no_progress_turns :: nat
  gp_last_nudge_at_ms :: nat
  gp_cost_used_cents :: nat

definition default_goal_progress :: goal_progress where
  "default_goal_progress = \<lparr>gp_turns_used = 0, gp_tokens_used = 0, gp_started_at_ms = 0, gp_no_progress_turns = 0,
     gp_last_nudge_at_ms = 0, gp_cost_used_cents = 0\<rparr>"

record goal_attempt =
  ga_at_ms :: nat
  ga_trigger :: string
  ga_verdict :: string
  ga_gaps :: "string list"
  ga_verifier_reply :: string
  ga_criteria_verdicts :: "criterion_verdict list"

record goal_criterion =
  gc_id :: string
  gc_text :: string
  gc_verify_hint :: "string option"
  gc_verify_command :: "string option"

record goal_event =
  ge_at_ms :: nat
  ge_kind :: string
  ge_text :: string

datatype goal_wait_subject = Process string | Child string | Event string | Deadline nat

primrec wait_subject_label :: "goal_wait_subject \<Rightarrow> string" where
  "wait_subject_label (Process i) = ''process '' @ i"
| "wait_subject_label (Child i) = ''child run '' @ i"
| "wait_subject_label (Event n) = ''event '' @ n"
| "wait_subject_label (Deadline t) = ''deadline '' @ show_nat t"

definition own_deadline_ms :: "goal_wait_subject \<Rightarrow> nat option" where
  "own_deadline_ms s = (case s of Deadline t \<Rightarrow> Some t | _ \<Rightarrow> None)"

record goal_wait =
  gw_subject :: goal_wait_subject
  gw_since_ms :: nat
  gw_deadline_ms :: "nat option"

definition goal_wait_new :: "goal_wait_subject \<Rightarrow> nat option \<Rightarrow> goal_wait" where
  "goal_wait_new s deadline =
     \<lparr>gw_subject = s, gw_since_ms = 0, gw_deadline_ms = (case deadline of Some t \<Rightarrow> Some t | None \<Rightarrow> own_deadline_ms s)\<rparr>"

definition wait_expired_at :: "nat \<Rightarrow> goal_wait \<Rightarrow> bool" where
  "wait_expired_at now w \<longleftrightarrow> (case gw_deadline_ms w of None \<Rightarrow> False | Some until \<Rightarrow> now \<ge> until)"

definition wait_matches :: "goal_wait_subject \<Rightarrow> goal_wait \<Rightarrow> bool" where
  "wait_matches s w \<longleftrightarrow> gw_subject w = s"

datatype goal_owner = Chat string | Task string

record 'p goal_snapshot =
  gn_owner :: "goal_owner option"
  gn_revision :: nat
  gn_plan :: "'p option"
  gn_content :: string
  gn_version :: nat
  gn_active :: bool
  gn_status :: goal_status
  gn_budget :: goal_budget
  gn_progress :: goal_progress
  gn_attempts :: "goal_attempt list"
  gn_events :: "goal_event list"
  gn_criteria :: "goal_criterion list"
  gn_snoozed_until_ms :: "nat option"
  gn_wait :: "goal_wait option"
  gn_stop_reason :: "string option"
  gn_transferred_from :: "string option"
  gn_transferred_to :: "string option"
  gn_sub_goals :: sub_goal_graph

section \<open>Budgets\<close>

definition limit_reached :: "nat option \<Rightarrow> nat \<Rightarrow> bool" where
  "limit_reached limit used \<longleftrightarrow> (case limit of None \<Rightarrow> False | Some m \<Rightarrow> m > 0 \<and> used \<ge> m)"

definition goal_budget_exhaustion_status :: "goal_budget \<Rightarrow> goal_progress \<Rightarrow> nat \<Rightarrow> goal_status option" where
  "goal_budget_exhaustion_status b p now =
     (if limit_reached (gb_no_progress_turns b) (gp_no_progress_turns p) then Some NoProgress
      else if limit_reached (gb_max_turns b) (gp_turns_used p) then Some BudgetExhausted
      else if limit_reached (gb_max_tokens b) (gp_tokens_used p) then Some BudgetExhausted
      else if limit_reached (gb_max_cost_cents b) (gp_cost_used_cents p) then Some BudgetExhausted
      else case gb_max_minutes b of
             None \<Rightarrow> None
           | Some m \<Rightarrow>
               if m > 0 \<and> gp_started_at_ms p > 0 \<and> sat_sub now (gp_started_at_ms p) \<ge> sat_mul64 m 60000
               then Some BudgetExhausted else None)"

text \<open>The status after accounting, shared by the ledger and the live snapshot.\<close>

definition status_after_accounting :: "goal_status \<Rightarrow> goal_status option \<Rightarrow> goal_status" where
  "status_after_accounting status exhaustion =
     (case exhaustion of
        Some x \<Rightarrow> x
      | None \<Rightarrow> if status = BudgetExhausted \<or> status = NoProgress then Active else status)"

definition start_clock :: "nat \<Rightarrow> goal_progress \<Rightarrow> goal_progress" where
  "start_clock at p = (if gp_started_at_ms p = 0 then p\<lparr>gp_started_at_ms := at\<rparr> else p)"

definition add_turn :: "nat \<Rightarrow> goal_progress \<Rightarrow> goal_progress" where
  "add_turn tokens p = p\<lparr>gp_turns_used := sat_add32 (gp_turns_used p) 1, gp_tokens_used := sat_add64 (gp_tokens_used p) tokens\<rparr>"

definition count_progress :: "bool \<Rightarrow> goal_progress \<Rightarrow> goal_progress" where
  "count_progress made p = p\<lparr>gp_no_progress_turns := (if made then 0 else sat_add32 (gp_no_progress_turns p) 1)\<rparr>"

definition add_cost :: "nat \<Rightarrow> goal_progress \<Rightarrow> goal_progress" where
  "add_cost cents p = p\<lparr>gp_cost_used_cents := sat_add64 (gp_cost_used_cents p) cents\<rparr>"

section \<open>The ledger\<close>

datatype goal_ledger_op =
    Installed nat bool goal_budget "goal_criterion list"
  | StatusChanged goal_status goal_status string
  | ProgressRecorded nat bool nat
  | VerifierAttemptRecorded nat
  | NoProgressNoted
  | NudgeRecorded
  | ProgressReset string
  | AttemptPushed goal_attempt
  | EventPushed goal_event
  | BudgetSet goal_budget
  | CriteriaSet "goal_criterion list"
  | SnoozeSet "nat option"
  | WaitSet "goal_wait option"
  | TransferredOut string
  | TransferredIn string goal_progress
  | SubGoalsDeclared sub_goal_declaration
  | SubGoalDispatched string "sub_goal_owner option"
  | SubGoalReported string sub_goal_report
  | SubGoalSuperseded string string

record goal_ledger_entry =
  le_seq :: nat
  le_at_ms :: nat
  le_op :: goal_ledger_op

record goal_ledger_state =
  ls_version :: nat
  ls_active :: bool
  ls_status :: goal_status
  ls_budget :: goal_budget
  ls_progress :: goal_progress
  ls_attempts :: "goal_attempt list"
  ls_events :: "goal_event list"
  ls_criteria :: "goal_criterion list"
  ls_snoozed_until_ms :: "nat option"
  ls_wait :: "goal_wait option"
  ls_stop_reason :: "string option"
  ls_transferred_from :: "string option"
  ls_transferred_to :: "string option"
  ls_sub_goals :: sub_goal_graph
  ls_last_seq :: nat

definition ledger_state_new :: "nat \<Rightarrow> bool \<Rightarrow> goal_budget \<Rightarrow> goal_criterion list \<Rightarrow> goal_ledger_state" where
  "ledger_state_new version active budget criteria =
     \<lparr>ls_version = version, ls_active = active, ls_status = (if active then Active else Paused), ls_budget = budget,
      ls_progress = default_goal_progress, ls_attempts = [], ls_events = [], ls_criteria = criteria,
      ls_snoozed_until_ms = None, ls_wait = None, ls_stop_reason = None, ls_transferred_from = None,
      ls_transferred_to = None, ls_sub_goals = empty_graph, ls_last_seq = 0\<rparr>"

definition or_else :: "'a option \<Rightarrow> 'a option \<Rightarrow> 'a option" where
  "or_else x y = (case x of Some v \<Rightarrow> Some v | None \<Rightarrow> y)"

definition apply_to_snapshot :: "goal_ledger_state \<Rightarrow> 'p goal_snapshot \<Rightarrow> 'p goal_snapshot" where
  "apply_to_snapshot st g =
     g\<lparr>gn_active := ls_active st, gn_status := ls_status st, gn_progress := ls_progress st, gn_attempts := ls_attempts st,
       gn_criteria := ls_criteria st, gn_snoozed_until_ms := ls_snoozed_until_ms st, gn_wait := ls_wait st,
       gn_stop_reason := ls_stop_reason st, gn_transferred_from := or_else (ls_transferred_from st) (gn_transferred_from g),
       gn_transferred_to := or_else (ls_transferred_to st) (gn_transferred_to g), gn_sub_goals := ls_sub_goals st\<rparr>"

definition account :: "nat \<Rightarrow> (goal_progress \<Rightarrow> goal_progress) \<Rightarrow> goal_ledger_state \<Rightarrow> goal_ledger_state" where
  "account at f st =
     (let p = f (start_clock at (ls_progress st))
      in st\<lparr>ls_progress := p,
            ls_status := status_after_accounting (ls_status st) (goal_budget_exhaustion_status (ls_budget st) p at)\<rparr>)"

definition reason_of :: "string \<Rightarrow> string option" where
  "reason_of r = (if r = [] then None else Some r)"

primrec apply_op :: "nat \<Rightarrow> goal_ledger_op \<Rightarrow> goal_ledger_state \<Rightarrow> goal_ledger_state" where
  "apply_op at (Installed version active budget criteria) st = st"
| "apply_op at (StatusChanged _ new reason) st =
     st\<lparr>ls_status := new,
        ls_stop_reason := (if new = Stopped then reason_of reason
                           else if new = Active \<or> new = Verifying then None else ls_stop_reason st)\<rparr>"
| "apply_op at (ProgressRecorded tokens made cents) st =
     account at (count_progress made \<circ> add_cost cents \<circ> add_turn tokens) st"
| "apply_op at (VerifierAttemptRecorded tokens) st = account at (add_turn tokens) st"
| "apply_op at NoProgressNoted st = account at (count_progress False) st"
| "apply_op at NudgeRecorded st = st\<lparr>ls_progress := (ls_progress st)\<lparr>gp_last_nudge_at_ms := at\<rparr>\<rparr>"
| "apply_op at (ProgressReset reason) st =
     (let p = (ls_progress st)\<lparr>gp_no_progress_turns := 0\<rparr>
      in st\<lparr>ls_progress := p, ls_snoozed_until_ms := None, ls_wait := None,
            ls_status := (if ls_status st = BudgetExhausted \<or> ls_status st = NoProgress
                          then get_or Active (goal_budget_exhaustion_status (ls_budget st) p at) else ls_status st)\<rparr>)"
| "apply_op at (AttemptPushed a) st = st\<lparr>ls_attempts := ls_attempts st @ [a]\<rparr>"
| "apply_op at (EventPushed e) st = st\<lparr>ls_events := ls_events st @ [e]\<rparr>"
| "apply_op at (BudgetSet b) st = st\<lparr>ls_budget := b\<rparr>"
| "apply_op at (CriteriaSet cs) st = st\<lparr>ls_criteria := cs\<rparr>"
| "apply_op at (SnoozeSet until) st = st\<lparr>ls_snoozed_until_ms := until\<rparr>"
| "apply_op at (WaitSet w) st = st\<lparr>ls_wait := w\<rparr>"
| "apply_op at (TransferredOut target) st = st\<lparr>ls_active := False, ls_status := Transferred, ls_transferred_to := Some target\<rparr>"
| "apply_op at (TransferredIn source p) st =
     st\<lparr>ls_active := True, ls_status := Active, ls_progress := p, ls_transferred_from := Some source, ls_transferred_to := None\<rparr>"
| "apply_op at (SubGoalsDeclared d) st = st\<lparr>ls_sub_goals := apply_declaration d (ls_sub_goals st)\<rparr>"
| "apply_op at (SubGoalDispatched i w) st = st\<lparr>ls_sub_goals := mark_dispatched i w (ls_sub_goals st)\<rparr>"
| "apply_op at (SubGoalReported i r) st = st\<lparr>ls_sub_goals := record_report i r (ls_sub_goals st)\<rparr>"
| "apply_op at (SubGoalSuperseded i reason) st = st\<lparr>ls_sub_goals := supersede i reason (ls_sub_goals st)\<rparr>"

definition reduce_entry :: "goal_ledger_state option \<Rightarrow> goal_ledger_entry \<Rightarrow> goal_ledger_state option" where
  "reduce_entry state e =
     map_option (\<lambda>st. st\<lparr>ls_last_seq := le_seq e\<rparr>)
       (case le_op e of
          Installed version active budget criteria \<Rightarrow> Some (ledger_state_new version active budget criteria)
        | other \<Rightarrow> map_option (apply_op (le_at_ms e) other) state)"

definition reduce_goal_ledger :: "goal_ledger_entry list \<Rightarrow> goal_ledger_state option" where
  "reduce_goal_ledger entries = foldl reduce_entry None entries"

definition seed_transferred_goal_ledger :: "'p goal_snapshot \<Rightarrow> string \<Rightarrow> nat \<Rightarrow> goal_ledger_entry list" where
  "seed_transferred_goal_ledger g source at =
     [\<lparr>le_seq = 1, le_at_ms = at, le_op = Installed (gn_version g) True (gn_budget g) (gn_criteria g)\<rparr>,
      \<lparr>le_seq = 2, le_at_ms = at, le_op = TransferredIn source (gn_progress g)\<rparr>] @
     (if gn_status g \<noteq> Active
      then [\<lparr>le_seq = 3, le_at_ms = at, le_op = StatusChanged Active (gn_status g) (get_or [] (gn_stop_reason g))\<rparr>]
      else [])"

definition status_changed_since :: "goal_ledger_entry list \<Rightarrow> nat \<Rightarrow> bool" where
  "status_changed_since entries seq \<longleftrightarrow>
     (\<exists>e \<in> set entries. le_seq e > seq \<and>
        (case le_op e of StatusChanged _ _ _ \<Rightarrow> True | TransferredOut _ \<Rightarrow> True | TransferredIn _ _ \<Rightarrow> True | _ \<Rightarrow> False))"

section \<open>The live snapshot\<close>

definition goal_nudge_backoff_shift_cap :: nat where
  "goal_nudge_backoff_shift_cap = 8"

definition goal_nudge_max_backoff_ms :: nat where
  "goal_nudge_max_backoff_ms = 300000"

definition budget_exhaustion_status_at :: "nat \<Rightarrow> 'p goal_snapshot \<Rightarrow> goal_status option" where
  "budget_exhaustion_status_at now g = goal_budget_exhaustion_status (gn_budget g) (gn_progress g) now"

definition goal_can_pursue_at :: "nat \<Rightarrow> 'p goal_snapshot \<Rightarrow> bool" where
  "goal_can_pursue_at now g \<longleftrightarrow> gn_active g \<and> gn_status g = Active \<and> budget_exhaustion_status_at now g = None"

definition goal_nudge_ready_at :: "nat \<Rightarrow> 'p goal_snapshot \<Rightarrow> bool" where
  "goal_nudge_ready_at now g \<longleftrightarrow>
     gp_last_nudge_at_ms (gn_progress g) = 0 \<or>
     now \<ge> sat_add64 (gp_last_nudge_at_ms (gn_progress g)) (gb_cooldown_ms (gn_budget g))"

definition goal_nudge_ready_at_with_backoff :: "nat \<Rightarrow> 'p goal_snapshot \<Rightarrow> bool" where
  "goal_nudge_ready_at_with_backoff now g \<longleftrightarrow>
     gp_last_nudge_at_ms (gn_progress g) = 0 \<or>
     (let shift = min (gp_no_progress_turns (gn_progress g)) goal_nudge_backoff_shift_cap;
          effective_cooldown_ms = min (sat_mul64 (gb_cooldown_ms (gn_budget g)) (2 ^ shift)) goal_nudge_max_backoff_ms
      in now \<ge> sat_add64 (gp_last_nudge_at_ms (gn_progress g)) effective_cooldown_ms)"

text \<open>The first reading starts the clock of the goal, the second one checks the budget.\<close>

definition live_account ::
  "nat \<Rightarrow> nat \<Rightarrow> (goal_progress \<Rightarrow> goal_progress) \<Rightarrow> 'p goal_snapshot \<Rightarrow> 'p goal_snapshot" where
  "live_account t1 t2 f g =
     (let p = f (start_clock t1 (gn_progress g))
      in g\<lparr>gn_progress := p,
           gn_status := status_after_accounting (gn_status g) (goal_budget_exhaustion_status (gn_budget g) p t2)\<rparr>)"

definition snapshot_record_progress :: "nat \<Rightarrow> nat \<Rightarrow> nat \<Rightarrow> bool \<Rightarrow> nat \<Rightarrow> 'p goal_snapshot \<Rightarrow> 'p goal_snapshot" where
  "snapshot_record_progress t1 t2 tokens made cents = live_account t1 t2 (count_progress made \<circ> add_cost cents \<circ> add_turn tokens)"

definition snapshot_record_verifier_attempt :: "nat \<Rightarrow> nat \<Rightarrow> nat \<Rightarrow> 'p goal_snapshot \<Rightarrow> 'p goal_snapshot" where
  "snapshot_record_verifier_attempt t1 t2 tokens = live_account t1 t2 (add_turn tokens)"

definition snapshot_note_no_progress_turn :: "nat \<Rightarrow> nat \<Rightarrow> 'p goal_snapshot \<Rightarrow> 'p goal_snapshot" where
  "snapshot_note_no_progress_turn t1 t2 = live_account t1 t2 (count_progress False)"

definition snapshot_record_nudge :: "nat \<Rightarrow> 'p goal_snapshot \<Rightarrow> 'p goal_snapshot" where
  "snapshot_record_nudge at g = g\<lparr>gn_progress := (gn_progress g)\<lparr>gp_last_nudge_at_ms := at\<rparr>\<rparr>"

definition snapshot_reset_no_progress :: "nat \<Rightarrow> 'p goal_snapshot \<Rightarrow> 'p goal_snapshot" where
  "snapshot_reset_no_progress t g =
     (let p = (gn_progress g)\<lparr>gp_no_progress_turns := 0\<rparr>
      in g\<lparr>gn_progress := p, gn_snoozed_until_ms := None, gn_wait := None,
           gn_status := (if gn_status g = BudgetExhausted \<or> gn_status g = NoProgress
                         then get_or Active (goal_budget_exhaustion_status (gn_budget g) p t) else gn_status g)\<rparr>)"

definition snapshot_push_attempt :: "goal_attempt \<Rightarrow> 'p goal_snapshot \<Rightarrow> 'p goal_snapshot" where
  "snapshot_push_attempt a g = g\<lparr>gn_attempts := gn_attempts g @ [a]\<rparr>"

definition snapshot_push_event :: "goal_event \<Rightarrow> 'p goal_snapshot \<Rightarrow> 'p goal_snapshot" where
  "snapshot_push_event e g = g\<lparr>gn_events := gn_events g @ [e]\<rparr>"

end
