(* ===== verification/Goal_Session.thy ===== *)
theory Goal_Session
  imports Goal
begin

text \<open>
  The goal of a chat session (\<open>src/chat/session.rs\<close>): the live snapshot, its mirrors in the
  session and in the runtime, the ledger, the memo of the sub-goal graph, and every method
  that changes them; with the settling of waits (\<open>src/chat/goal_wait.rs\<close>) and the command
  that sets a budget (\<open>src/chat/queue.rs\<close>). What the messages of the chat say about the goal
  is an argument (\<open>projection\<close>), as are the clock readings and the settings. Events for
  clients, the stamp of the last activity and the chat's messages are not part of the state.
\<close>

section \<open>State\<close>

record goal_mirror =
  gm_active :: bool
  gm_status :: "goal_status option"
  gm_turns_used :: nat
  gm_tokens_used :: nat
  gm_no_progress_turns :: nat

record graph_cache_entry =
  gce_ledger_seq :: nat
  gce_ledger_len :: nat
  gce_graph :: sub_goal_graph

record 'p goal_session =
  gs_chat_id :: string
  gs_goal :: "'p goal_snapshot option"
  gs_mirror :: goal_mirror
  gs_runtime_mirror :: goal_mirror
  gs_ledger :: "goal_ledger_entry list"
  gs_graph_cache :: "graph_cache_entry option"
  gs_graph_reductions :: nat
  gs_stopped_by_abort :: bool
  gs_turn_evidence :: bool
  gs_verification_generation :: nat
  gs_trajectory_version :: nat
  gs_trajectory_dirty :: bool
  gs_save_in_flight :: bool
  gs_save_queued :: bool

definition goal_runtime_projection :: "'p goal_snapshot option \<Rightarrow> goal_mirror" where
  "goal_runtime_projection g =
     (case g of
        Some goal \<Rightarrow> \<lparr>gm_active = gn_active goal, gm_status = Some (gn_status goal), gm_turns_used = gp_turns_used (gn_progress goal),
                      gm_tokens_used = gp_tokens_used (gn_progress goal), gm_no_progress_turns = gp_no_progress_turns (gn_progress goal)\<rparr>
      | None \<Rightarrow> \<lparr>gm_active = False, gm_status = None, gm_turns_used = 0, gm_tokens_used = 0, gm_no_progress_turns = 0\<rparr>)"

definition goal_session_new :: "string \<Rightarrow> 'p goal_session" where
  "goal_session_new chat_id =
     \<lparr>gs_chat_id = chat_id, gs_goal = None, gs_mirror = goal_runtime_projection (None :: 'p goal_snapshot option),
      gs_runtime_mirror = goal_runtime_projection (None :: 'p goal_snapshot option),
      gs_ledger = [], gs_graph_cache = None, gs_graph_reductions = 0, gs_stopped_by_abort = False, gs_turn_evidence = False,
      gs_verification_generation = 0, gs_trajectory_version = 0, gs_trajectory_dirty = False, gs_save_in_flight = False,
      gs_save_queued = False\<rparr>"

definition increment_version :: "'p goal_session \<Rightarrow> 'p goal_session" where
  "increment_version s =
     s\<lparr>gs_trajectory_version := gs_trajectory_version s + 1, gs_trajectory_dirty := True,
       gs_save_queued := (gs_save_in_flight s \<or> gs_save_queued s)\<rparr>"

definition mark_persisted_runtime_changed :: "'p goal_session \<Rightarrow> 'p goal_session" where
  "mark_persisted_runtime_changed s = increment_version s"

definition refresh_goal_runtime_mirror :: "'p goal_session \<Rightarrow> 'p goal_session" where
  "refresh_goal_runtime_mirror s =
     s\<lparr>gs_mirror := goal_runtime_projection (gs_goal s), gs_runtime_mirror := goal_runtime_projection (gs_goal s)\<rparr>"

definition emit_goal_status :: "'p goal_session \<Rightarrow> 'p goal_session" where
  "emit_goal_status s = refresh_goal_runtime_mirror s"

definition set_goal_projection :: "'p goal_snapshot option \<Rightarrow> 'p goal_session \<Rightarrow> 'p goal_session" where
  "set_goal_projection g s = refresh_goal_runtime_mirror (s\<lparr>gs_goal := g\<rparr>)"

definition goal_ledger_append_at :: "goal_ledger_op \<Rightarrow> nat \<Rightarrow> 'p goal_session \<Rightarrow> 'p goal_session \<times> nat" where
  "goal_ledger_append_at op at s =
     (let seq = (if gs_ledger s = [] then 1 else le_seq (last (gs_ledger s)) + 1)
      in (s\<lparr>gs_ledger := gs_ledger s @ [\<lparr>le_seq = seq, le_at_ms = at, le_op = op\<rparr>], gs_graph_cache := None\<rparr>, seq))"

definition goal_ledger_last_seq :: "'p goal_session \<Rightarrow> nat" where
  "goal_ledger_last_seq s = (if gs_ledger s = [] then 0 else le_seq (last (gs_ledger s)))"

definition set_goal_ledger :: "goal_ledger_entry list \<Rightarrow> 'p goal_session \<Rightarrow> 'p goal_session" where
  "set_goal_ledger ledger s = s\<lparr>gs_ledger := ledger, gs_graph_cache := None\<rparr>"

text \<open>How nearly every method ends: the new snapshot, its ledger entry, a dirty trajectory, the status sent out.\<close>

definition commit_goal :: "'p goal_snapshot \<Rightarrow> goal_ledger_op \<Rightarrow> nat \<Rightarrow> 'p goal_session \<Rightarrow> 'p goal_session" where
  "commit_goal g op at s =
     emit_goal_status (mark_persisted_runtime_changed (fst (goal_ledger_append_at op at (s\<lparr>gs_goal := Some g\<rparr>))))"

section \<open>Accounting\<close>

definition goal_record_progress_with_cost ::
  "nat \<Rightarrow> nat \<Rightarrow> nat \<Rightarrow> nat \<Rightarrow> bool \<Rightarrow> nat \<Rightarrow> 'p goal_session \<Rightarrow> 'p goal_session \<times> bool" where
  "goal_record_progress_with_cost t1 t2 t3 tokens made cents s =
     (case gs_goal s of
        None \<Rightarrow> (s, False)
      | Some g \<Rightarrow> (commit_goal (snapshot_record_progress t1 t2 tokens made cents g) (ProgressRecorded tokens made cents) t3 s, True))"

definition goal_record_progress :: "nat \<Rightarrow> nat \<Rightarrow> nat \<Rightarrow> nat \<Rightarrow> bool \<Rightarrow> 'p goal_session \<Rightarrow> 'p goal_session \<times> bool" where
  "goal_record_progress t1 t2 t3 tokens made = goal_record_progress_with_cost t1 t2 t3 tokens made 0"

text \<open>The cost in cents, a rounded float of the provider's metering, is an argument.\<close>

definition goal_record_progress_from_usage ::
  "nat \<Rightarrow> nat \<Rightarrow> nat \<Rightarrow> nat \<Rightarrow> nat \<Rightarrow> nat \<Rightarrow> 'p goal_session \<Rightarrow> 'p goal_session \<times> bool" where
  "goal_record_progress_from_usage t1 t2 t3 completion_tokens total_tokens cents s =
     (case gs_goal s of
        None \<Rightarrow> (s, False)
      | Some g \<Rightarrow>
          let made = gs_turn_evidence s \<or> completion_tokens \<ge> gb_no_progress_token_threshold (gn_budget g)
          in goal_record_progress_with_cost t1 t2 t3 total_tokens made cents (s\<lparr>gs_turn_evidence := False\<rparr>))"

definition goal_record_verifier_attempt :: "nat \<Rightarrow> nat \<Rightarrow> nat \<Rightarrow> nat \<Rightarrow> 'p goal_session \<Rightarrow> 'p goal_session \<times> bool" where
  "goal_record_verifier_attempt t1 t2 t3 tokens s =
     (case gs_goal s of
        None \<Rightarrow> (s, False)
      | Some g \<Rightarrow> (commit_goal (snapshot_record_verifier_attempt t1 t2 tokens g) (VerifierAttemptRecorded tokens) t3 s, True))"

definition goal_note_no_progress_turn :: "nat \<Rightarrow> nat \<Rightarrow> nat \<Rightarrow> 'p goal_session \<Rightarrow> 'p goal_session \<times> bool" where
  "goal_note_no_progress_turn t1 t2 t3 s =
     (case gs_goal s of
        None \<Rightarrow> (s, False)
      | Some g \<Rightarrow> (commit_goal (snapshot_note_no_progress_turn t1 t2 g) NoProgressNoted t3 s, True))"

text \<open>A nudge right after a nudge moves the last entry of the ledger instead of adding one.\<close>

definition goal_record_nudge :: "nat \<Rightarrow> 'p goal_session \<Rightarrow> 'p goal_session \<times> bool" where
  "goal_record_nudge at s =
     (case gs_goal s of
        None \<Rightarrow> (s, False)
      | Some g \<Rightarrow>
          let s1 = s\<lparr>gs_goal := Some (snapshot_record_nudge at g)\<rparr>;
              s2 = (if gs_ledger s \<noteq> [] \<and> le_op (last (gs_ledger s)) = NudgeRecorded
                    then s1\<lparr>gs_ledger := butlast (gs_ledger s) @ [(last (gs_ledger s))\<lparr>le_at_ms := at\<rparr>]\<rparr>
                    else fst (goal_ledger_append_at NudgeRecorded at s1))
          in (emit_goal_status (mark_persisted_runtime_changed s2), True))"

definition reset_key :: "'p goal_snapshot \<Rightarrow> nat \<times> goal_status \<times> nat option \<times> bool" where
  "reset_key g = (gp_no_progress_turns (gn_progress g), gn_status g, gn_snoozed_until_ms g, gn_wait g \<noteq> None)"

definition goal_reset_no_progress :: "nat \<Rightarrow> nat \<Rightarrow> 'p goal_session \<Rightarrow> 'p goal_session \<times> bool" where
  "goal_reset_no_progress t1 t2 s =
     (case gs_goal s of
        None \<Rightarrow> (s, False)
      | Some g \<Rightarrow>
          let g' = snapshot_reset_no_progress t1 g
          in if reset_key g = reset_key g' then (s\<lparr>gs_goal := Some g'\<rparr>, False)
             else (commit_goal g' (ProgressReset ''user_message'') t2 s, True))"

section \<open>Status\<close>

definition goal_set_status_reason :: "nat \<Rightarrow> goal_status \<Rightarrow> string \<Rightarrow> 'p goal_session \<Rightarrow> 'p goal_session \<times> bool" where
  "goal_set_status_reason t status reason s =
     (case gs_goal s of
        None \<Rightarrow> (s, False)
      | Some g \<Rightarrow>
          if gn_status g = status \<and> \<not> (status = Stopped \<and> reason \<noteq> [] \<and> gn_stop_reason g \<noteq> Some reason)
          then (emit_goal_status s, True)
          else (commit_goal (g\<lparr>gn_status := status,
                  gn_stop_reason := (if status = Stopped then reason_of reason
                                     else if status = Active \<or> status = Verifying then None else gn_stop_reason g)\<rparr>)
                  (StatusChanged (gn_status g) status reason) t s, True))"

definition goal_set_status :: "nat \<Rightarrow> goal_status \<Rightarrow> 'p goal_session \<Rightarrow> 'p goal_session \<times> bool" where
  "goal_set_status t status = goal_set_status_reason t status []"

definition goal_set_snooze :: "nat \<Rightarrow> nat option \<Rightarrow> 'p goal_session \<Rightarrow> 'p goal_session \<times> bool" where
  "goal_set_snooze t until s =
     (case gs_goal s of
        None \<Rightarrow> (s, False)
      | Some g \<Rightarrow> (commit_goal (g\<lparr>gn_snoozed_until_ms := until\<rparr>) (SnoozeSet until) t s, True))"

definition supersede_goal_verification :: "'p goal_session \<Rightarrow> 'p goal_session \<times> nat" where
  "supersede_goal_verification s =
     (let n = sat_add64 (gs_verification_generation s) 1 in (s\<lparr>gs_verification_generation := n\<rparr>, n))"

definition goal_status_changed_since :: "nat \<Rightarrow> 'p goal_session \<Rightarrow> bool" where
  "goal_status_changed_since seq s = status_changed_since (gs_ledger s) seq"

definition goal_push_attempt :: "nat \<Rightarrow> goal_attempt \<Rightarrow> 'p goal_session \<Rightarrow> 'p goal_session \<times> bool" where
  "goal_push_attempt t a s =
     (case gs_goal s of
        None \<Rightarrow> (s, False)
      | Some g \<Rightarrow> (commit_goal (snapshot_push_attempt a g) (AttemptPushed a) t s, True))"

definition goal_push_event :: "nat \<Rightarrow> goal_event \<Rightarrow> 'p goal_session \<Rightarrow> 'p goal_session \<times> bool" where
  "goal_push_event t e s =
     (case gs_goal s of
        None \<Rightarrow> (s, False)
      | Some g \<Rightarrow> (commit_goal (snapshot_push_event e g) (EventPushed e) t s, True))"

section \<open>Waits\<close>

definition goal_begin_wait :: "goal_wait \<Rightarrow> nat \<Rightarrow> 'p goal_session \<Rightarrow> 'p goal_session \<times> bool" where
  "goal_begin_wait w at s =
     (case gs_goal s of
        None \<Rightarrow> (s, False)
      | Some g \<Rightarrow>
          if gn_wait g \<noteq> None then (s, False)
          else let w' = w\<lparr>gw_since_ms := at\<rparr> in (commit_goal (g\<lparr>gn_wait := Some w'\<rparr>) (WaitSet (Some w')) at s, True))"

definition goal_settle_wait :: "goal_wait_subject option \<Rightarrow> nat \<Rightarrow> 'p goal_session \<Rightarrow> 'p goal_session \<times> goal_wait option" where
  "goal_settle_wait subject at s =
     (case gs_goal s of
        None \<Rightarrow> (s, None)
      | Some g \<Rightarrow>
          (case gn_wait g of
             None \<Rightarrow> (s, None)
           | Some waiting \<Rightarrow>
               if (case subject of None \<Rightarrow> False | Some x \<Rightarrow> \<not> wait_matches x waiting) then (s, None)
               else (commit_goal (g\<lparr>gn_wait := None\<rparr>) (WaitSet None) at s, Some waiting)))"

datatype goal_wait_resume = Settled | Expired | Cancelled

primrec goal_wait_resume_label :: "goal_wait_resume \<Rightarrow> string" where
  "goal_wait_resume_label Settled = ''settled''"
| "goal_wait_resume_label Expired = ''expired''"
| "goal_wait_resume_label Cancelled = ''cancelled''"

text \<open>The second component says whether the resume delivery wakes the chat.\<close>

definition settle_goal_wait_in_session ::
  "goal_wait_subject option \<Rightarrow> goal_wait_resume \<Rightarrow> nat \<Rightarrow> 'p goal_session \<Rightarrow> 'p goal_session \<times> (goal_wait \<times> bool) option" where
  "settle_goal_wait_in_session subject resume at s =
     (case goal_settle_wait subject at s of
        (s', None) \<Rightarrow> (s', None)
      | (s', Some settled) \<Rightarrow>
          (s', Some (settled, resume \<noteq> Cancelled \<and>
             (case gs_goal s' of None \<Rightarrow> False | Some g \<Rightarrow> gn_active g \<and> gn_status g = Active))))"

section \<open>Sub-goals\<close>

definition reduced_graph :: "goal_ledger_entry list \<Rightarrow> sub_goal_graph" where
  "reduced_graph ledger = (case reduce_goal_ledger ledger of None \<Rightarrow> empty_graph | Some st \<Rightarrow> ls_sub_goals st)"

definition cache_hit :: "'p goal_session \<Rightarrow> graph_cache_entry \<Rightarrow> bool" where
  "cache_hit s e \<longleftrightarrow> gce_ledger_seq e = goal_ledger_last_seq s \<and> gce_ledger_len e = length (gs_ledger s)"

definition sub_goal_graph_of :: "'p goal_session \<Rightarrow> sub_goal_graph \<times> 'p goal_session" where
  "sub_goal_graph_of s =
     (let reduced = (let graph = reduced_graph (gs_ledger s)
            in (graph, s\<lparr>gs_graph_cache := Some \<lparr>gce_ledger_seq = goal_ledger_last_seq s, gce_ledger_len = length (gs_ledger s), gce_graph = graph\<rparr>,
                         gs_graph_reductions := gs_graph_reductions s + 1\<rparr>))
      in case gs_graph_cache s of
           Some e \<Rightarrow> if cache_hit s e then (gce_graph e, s) else reduced
         | None \<Rightarrow> reduced)"

definition sub_goal_rollup_of :: "'p goal_session \<Rightarrow> sub_goal_rollup \<times> 'p goal_session" where
  "sub_goal_rollup_of s = (case sub_goal_graph_of s of (graph, s') \<Rightarrow> (aggregate_sub_goals graph root_sub_goal_id, s'))"

definition lane_for_owner :: "sub_goal_owner \<Rightarrow> sub_goal_graph \<Rightarrow> string option" where
  "lane_for_owner w graph = map_option ns_id (List.find (\<lambda>n. sn_owner (ns_node n) = Some w) (sg_nodes graph))"

definition sub_goal_lane_for_owner :: "sub_goal_owner \<Rightarrow> 'p goal_session \<Rightarrow> string option \<times> 'p goal_session" where
  "sub_goal_lane_for_owner w s = (case sub_goal_graph_of s of (graph, s') \<Rightarrow> (lane_for_owner w graph, s'))"

definition declare_sub_goals ::
  "sub_goal_limits \<Rightarrow> nat \<Rightarrow> sub_goal_declaration \<Rightarrow> 'p goal_session \<Rightarrow> 'p goal_session \<times> (declaration_error + nat)" where
  "declare_sub_goals limits t d s =
     (case sub_goal_graph_of s of (graph, s1) \<Rightarrow>
        case validate_declaration graph d limits of
          Inl e \<Rightarrow> (s1, Inl e)
        | Inr _ \<Rightarrow>
            (case goal_ledger_append_at (SubGoalsDeclared d) t s1 of (s2, seq) \<Rightarrow> (mark_persisted_runtime_changed s2, Inr seq)))"

text \<open>The three operations on a declared lane: refused when the graph has no such node.\<close>

definition lane_operation :: "string \<Rightarrow> goal_ledger_op \<Rightarrow> nat \<Rightarrow> 'p goal_session \<Rightarrow> 'p goal_session \<times> bool" where
  "lane_operation i op t s =
     (case sub_goal_graph_of s of (graph, s1) \<Rightarrow>
        if graph_node graph i = None then (s1, False)
        else (mark_persisted_runtime_changed (fst (goal_ledger_append_at op t s1)), True))"

definition dispatch_sub_goal :: "nat \<Rightarrow> string \<Rightarrow> sub_goal_owner option \<Rightarrow> 'p goal_session \<Rightarrow> 'p goal_session \<times> bool" where
  "dispatch_sub_goal t i w = lane_operation i (SubGoalDispatched i w) t"

definition record_sub_goal_report :: "nat \<Rightarrow> string \<Rightarrow> sub_goal_report \<Rightarrow> 'p goal_session \<Rightarrow> 'p goal_session \<times> bool" where
  "record_sub_goal_report t i r = lane_operation i (SubGoalReported i r) t"

definition supersede_sub_goal :: "nat \<Rightarrow> string \<Rightarrow> string \<Rightarrow> 'p goal_session \<Rightarrow> 'p goal_session \<times> bool" where
  "supersede_sub_goal t i reason = lane_operation i (SubGoalSuperseded i reason) t"

definition auto_sub_goal_lane_prefix :: string where
  "auto_sub_goal_lane_prefix = ''agent:''"

datatype auto_lane_refusal = NoGoal | CapReached nat nat | Rejected declaration_error

definition is_no_goal :: "auto_lane_refusal \<Rightarrow> bool" where
  "is_no_goal r \<longleftrightarrow> r = NoGoal"

primrec auto_lane_refusal_display :: "auto_lane_refusal \<Rightarrow> string" where
  "auto_lane_refusal_display NoGoal = ''chat is not pursuing a goal''"
| "auto_lane_refusal_display (CapReached n cap) =
     ''goal already tracks '' @ show_nat n @ '' automatic sub-goal lanes, at the cap of '' @ show_nat cap @ ''; the child runs untracked''"
| "auto_lane_refusal_display (Rejected e) = declaration_error_display e"

definition is_auto_lane :: "node_state \<Rightarrow> bool" where
  "is_auto_lane n \<longleftrightarrow> strip_prefix auto_sub_goal_lane_prefix (ns_id n) \<noteq> None"

definition auto_declaration :: "sub_goal_owner \<Rightarrow> string \<Rightarrow> sub_goal_declaration" where
  "auto_declaration w title =
     (let i = auto_sub_goal_lane_prefix @ so_id w
      in \<lparr>sd_nodes = [node_with_owner w (sub_goal_node_new i title)], sd_edges = [edge_optional root_sub_goal_id i]\<rparr>)"

definition ensure_and_dispatch_sub_goal_lane ::
  "sub_goal_limits \<Rightarrow> nat \<Rightarrow> nat \<Rightarrow> nat \<Rightarrow> sub_goal_owner \<Rightarrow> string \<Rightarrow> 'p goal_session \<Rightarrow> 'p goal_session \<times> (auto_lane_refusal + string)" where
  "ensure_and_dispatch_sub_goal_lane limits cap t1 t2 w title s =
     (case sub_goal_lane_for_owner w s of
        (Some i, s1) \<Rightarrow> (fst (dispatch_sub_goal t1 i (Some w) s1), Inr i)
      | (None, s1) \<Rightarrow>
          if gs_goal s1 = None then (s1, Inl NoGoal)
          else
            (case sub_goal_graph_of s1 of (graph, s2) \<Rightarrow>
               let n = length (filter is_auto_lane (sg_nodes graph)) in
               if n \<ge> cap then (s2, Inl (CapReached n cap))
               else
                 (case declare_sub_goals limits t1 (auto_declaration w title) s2 of
                    (s3, Inl e) \<Rightarrow> (s3, Inl (Rejected e))
                  | (s3, Inr _) \<Rightarrow>
                      let i = auto_sub_goal_lane_prefix @ so_id w
                      in (fst (dispatch_sub_goal t2 i (Some w) s3), Inr i))))"

section \<open>The projection of the chat's messages\<close>

text \<open>
  What the newest goal message of the active context says: its version, the fields of its
  metadata that parse, and what is derived from the messages after it. The events of the
  metadata count only without a prior snapshot.
\<close>

record 'p goal_meta =
  me_version :: nat
  me_active :: "bool option"
  me_status :: "goal_status option"
  me_budget :: "goal_budget option"
  me_progress :: "goal_progress option"
  me_events :: "goal_event list option"
  me_owner :: "goal_owner option"
  me_attempts :: "goal_attempt list option"
  me_criteria :: "goal_criterion list option"
  me_transferred_from :: "string option"
  me_transferred_to :: "string option"
  me_revision :: nat
  me_plan :: "'p option"
  me_content :: string
  me_derived_events :: "goal_event list"

datatype 'p projection = Unreadable | NoGoalMessage | GoalMessage "'p goal_meta"

definition max_goal_snapshot_events :: nat where
  "max_goal_snapshot_events = 100"

definition push_event_once :: "goal_event list \<Rightarrow> goal_event \<Rightarrow> goal_event list" where
  "push_event_once es e =
     (if \<exists>x \<in> set es. ge_kind x = ge_kind e \<and> ge_at_ms x = ge_at_ms e \<and> ge_text x = ge_text e then es else es @ [e])"

definition merge_goal_events :: "goal_event list \<Rightarrow> goal_event list option \<Rightarrow> goal_event list" where
  "merge_goal_events derived extras =
     (let merged = foldl push_event_once derived (get_or [] extras)
      in if length merged > max_goal_snapshot_events then drop (length merged - max_goal_snapshot_events) merged else merged)"

definition goal_budget_has_hard_limits :: "goal_budget \<Rightarrow> bool" where
  "goal_budget_has_hard_limits b \<longleftrightarrow>
     (\<exists>limit \<in> {gb_max_turns b, gb_max_minutes b, gb_max_tokens b, gb_max_cost_cents b, gb_no_progress_turns b}.
        case limit of None \<Rightarrow> False | Some m \<Rightarrow> m > 0)"

definition project_goal :: "'p goal_meta \<Rightarrow> 'p goal_snapshot option \<Rightarrow> 'p goal_snapshot" where
  "project_goal m existing =
     (let prior = (case existing of Some g \<Rightarrow> if gn_version g = me_version m then Some g else None | None \<Rightarrow> None);
          active = get_or True (or_else (map_option gn_active prior) (me_active m));
          status = get_or (if active then Active else Paused) (or_else (map_option gn_status prior) (me_status m));
          budget = migrate_legacy_default_hard_limits
                     (get_or default_goal_budget (or_else (me_budget m) (map_option gn_budget prior)));
          status' = (if prior = None \<and> (status = BudgetExhausted \<or> status = NoProgress) \<and> \<not> goal_budget_has_hard_limits budget
                     then (if active then Active else Paused) else status)
      in \<lparr>gn_owner = or_else (Option.bind prior gn_owner) (me_owner m),
          gn_revision = (case prior of
                           Some g \<Rightarrow> (case gn_owner g of Some (Task _) \<Rightarrow> gn_revision g | _ \<Rightarrow> me_revision m)
                         | None \<Rightarrow> me_revision m),
          gn_plan = me_plan m, gn_content = me_content m, gn_version = me_version m, gn_active = active, gn_status = status',
          gn_budget = budget,
          gn_progress = get_or default_goal_progress (or_else (map_option gn_progress prior) (me_progress m)),
          gn_attempts = get_or [] (or_else (map_option gn_attempts prior) (me_attempts m)),
          gn_events = merge_goal_events (me_derived_events m) (or_else (map_option gn_events prior) (me_events m)),
          gn_criteria = get_or [] (or_else (map_option gn_criteria prior) (me_criteria m)),
          gn_snoozed_until_ms = Option.bind prior gn_snoozed_until_ms, gn_wait = Option.bind prior gn_wait,
          gn_stop_reason = Option.bind prior gn_stop_reason,
          gn_transferred_from = or_else (Option.bind prior gn_transferred_from) (me_transferred_from m),
          gn_transferred_to = or_else (Option.bind prior gn_transferred_to) (me_transferred_to m),
          gn_sub_goals = get_or empty_graph (map_option gn_sub_goals prior)\<rparr>)"

definition goal_snapshot_from_messages :: "'p projection \<Rightarrow> 'p goal_snapshot option \<Rightarrow> 'p goal_snapshot option" where
  "goal_snapshot_from_messages pr existing =
     (case pr of Unreadable \<Rightarrow> existing | NoGoalMessage \<Rightarrow> None | GoalMessage m \<Rightarrow> Some (project_goal m existing))"

definition is_installed :: "nat \<Rightarrow> goal_ledger_entry list \<Rightarrow> bool" where
  "is_installed version ledger \<longleftrightarrow>
     (\<exists>e \<in> set ledger. case le_op e of Installed v _ _ _ \<Rightarrow> v = version | _ \<Rightarrow> False)"

definition ensure_goal_ledger_installed :: "nat \<Rightarrow> nat \<Rightarrow> 'p goal_session \<Rightarrow> 'p goal_session" where
  "ensure_goal_ledger_installed t1 t2 s =
     (case gs_goal s of
        None \<Rightarrow> s
      | Some g \<Rightarrow>
          if is_installed (gn_version g) (gs_ledger s) then s
          else
            let initial_status = (if gn_active g then Active else Paused);
                s1 = fst (goal_ledger_append_at (Installed (gn_version g) (gn_active g) (gn_budget g) (gn_criteria g)) t1 s)
            in if gn_status g \<noteq> initial_status
               then fst (goal_ledger_append_at (StatusChanged initial_status (gn_status g) (get_or [] (gn_stop_reason g))) t2 s1)
               else s1)"

definition stamp_owner :: "string \<Rightarrow> 'p goal_snapshot option \<Rightarrow> 'p goal_snapshot \<Rightarrow> 'p goal_snapshot" where
  "stamp_owner chat_id existing g =
     (let g1 = (if gn_owner g = None then g\<lparr>gn_owner := Some (Chat chat_id)\<rparr> else g)
      in case (gn_owner g1, existing) of
           (Some (Task _), Some old) \<Rightarrow> g1\<lparr>gn_revision := gn_revision old\<rparr>
         | _ \<Rightarrow> g1)"

definition rebuild_goal_projection_from_messages :: "nat \<Rightarrow> nat \<Rightarrow> 'p projection \<Rightarrow> 'p goal_session \<Rightarrow> 'p goal_session" where
  "rebuild_goal_projection_from_messages t1 t2 pr s =
     (let existing = gs_goal s;
          g = map_option (stamp_owner (gs_chat_id s) existing) (goal_snapshot_from_messages pr existing)
      in ensure_goal_ledger_installed t1 t2 (refresh_goal_runtime_mirror (s\<lparr>gs_goal := g\<rparr>)))"

text \<open>The end of an installation, after the goal message has been added to the chat.\<close>

definition finish_install :: "nat \<Rightarrow> nat \<Rightarrow> nat \<Rightarrow> 'p projection \<Rightarrow> goal_criterion list \<Rightarrow> 'p goal_session \<Rightarrow> 'p goal_session" where
  "finish_install t1 t2 t3 pr criteria s =
     (let s1 = rebuild_goal_projection_from_messages t1 t2 pr s;
          s2 = (if criteria \<noteq> []
                then fst (goal_ledger_append_at (CriteriaSet criteria) t3
                       (s1\<lparr>gs_goal := map_option (\<lambda>g. g\<lparr>gn_criteria := criteria\<rparr>) (gs_goal s1)\<rparr>))
                else s1)
      in emit_goal_status (s2\<lparr>gs_stopped_by_abort := False\<rparr>))"

text \<open>
  The end of \<open>handle_set_goal_budget_command\<close>, once the budget is written into the goal
  message: \<open>pr\<close> is what the changed messages say.
\<close>

definition finish_set_budget :: "nat \<Rightarrow> nat \<Rightarrow> nat \<Rightarrow> nat \<Rightarrow> nat \<Rightarrow> 'p projection \<Rightarrow> goal_budget \<Rightarrow> 'p goal_session \<Rightarrow> 'p goal_session" where
  "finish_set_budget t1 t2 t3 t4 t5 pr budget s =
     (let s1 = fst (goal_ledger_append_at (BudgetSet budget) t3 (rebuild_goal_projection_from_messages t1 t2 pr s));
          change = Option.bind (gs_goal s1) (\<lambda>g.
            case budget_exhaustion_status_at t4 g of
              Some status \<Rightarrow> if gn_active g \<and> gn_status g \<noteq> status then Some status else None
            | None \<Rightarrow> if gn_status g = BudgetExhausted \<or> gn_status g = NoProgress
                      then Some (if gn_active g then Active else Paused) else None);
          s2 = (case change of Some status \<Rightarrow> fst (goal_set_status_reason t5 status ''budget_set'' s1) | None \<Rightarrow> s1)
      in emit_goal_status (mark_persisted_runtime_changed s2))"

text \<open>
  Adding a goal event to the chat: at a message boundary it changes the projection
  (\<open>Some\<close>), otherwise it is queued as a delivery.
\<close>

definition add_goal_event :: "nat \<Rightarrow> nat \<Rightarrow> 'p projection option \<Rightarrow> 'p goal_session \<Rightarrow> 'p goal_session" where
  "add_goal_event t1 t2 pr s =
     increment_version (case pr of None \<Rightarrow> s | Some p \<Rightarrow> rebuild_goal_projection_from_messages t1 t2 p s)"

text \<open>
  The result of a tool joins the chat and counts as evidence of progress unless it failed or
  came from a tool that only watches the goal. The history lists the tool calls of each
  earlier message, by identifier and name.
\<close>

definition goal_evidence_exempt_tools :: "string list" where
  "goal_evidence_exempt_tools = [''wait'', ''get_goal'', ''pause'', ''resume'']"

record tool_result =
  tr_tool_failed :: "bool option"
  tr_tool_call_id :: string

primrec called_tool :: "string \<Rightarrow> (string \<times> string) list list \<Rightarrow> string option" where
  "called_tool i [] = None"
| "called_tool i (calls # earlier) = (case map_of calls i of Some name \<Rightarrow> Some name | None \<Rightarrow> called_tool i earlier)"

definition tool_result_counts_as_goal_evidence :: "tool_result \<Rightarrow> (string \<times> string) list list \<Rightarrow> bool" where
  "tool_result_counts_as_goal_evidence r history \<longleftrightarrow>
     tr_tool_failed r \<noteq> Some True \<and>
     (tr_tool_call_id r = [] \<or>
      (case called_tool (tr_tool_call_id r) (rev history) of Some name \<Rightarrow> name \<notin> set goal_evidence_exempt_tools | None \<Rightarrow> True))"

definition add_tool_result :: "tool_result \<Rightarrow> (string \<times> string) list list \<Rightarrow> 'p goal_session \<Rightarrow> 'p goal_session" where
  "add_tool_result r history s =
     increment_version (if gs_goal s \<noteq> None \<and> tool_result_counts_as_goal_evidence r history then s\<lparr>gs_turn_evidence := True\<rparr> else s)"

definition stop_goal_on_manual_abort :: "nat \<Rightarrow> nat \<Rightarrow> nat \<Rightarrow> 'p projection option \<Rightarrow> 'p goal_session \<Rightarrow> 'p goal_session \<times> bool" where
  "stop_goal_on_manual_abort t t1 t2 pr s =
     (case gs_goal s of
        Some g \<Rightarrow>
          if gn_active g \<and> gn_status g \<in> {Active, Verifying, BudgetExhausted, NoProgress}
          then (add_goal_event t1 t2 pr ((fst (goal_set_status_reason t Stopped ''manual_abort'' s))\<lparr>gs_stopped_by_abort := True\<rparr>), True)
          else (s, False)
      | None \<Rightarrow> (s, False))"

definition reactivate_goal_stopped_by_manual_abort ::
  "nat \<Rightarrow> nat \<Rightarrow> nat \<Rightarrow> 'p projection option \<Rightarrow> 'p goal_session \<Rightarrow> 'p goal_session \<times> bool" where
  "reactivate_goal_stopped_by_manual_abort t t1 t2 pr s =
     (if \<not> gs_stopped_by_abort s \<and> Option.bind (gs_goal s) gn_stop_reason \<noteq> Some ''manual_abort'' then (s, False)
      else
        let s1 = s\<lparr>gs_stopped_by_abort := False\<rparr> in
        case gs_goal s1 of
          Some g \<Rightarrow>
            if gn_active g \<and> gn_status g = Stopped
            then (add_goal_event t1 t2 pr (fst (goal_set_status t Active s1)), True)
            else (s1, False)
        | None \<Rightarrow> (s1, False))"

definition clear_goal_stopped_by_abort_marker :: "nat \<Rightarrow> 'p goal_session \<Rightarrow> 'p goal_session" where
  "clear_goal_stopped_by_abort_marker t s =
     (let s1 = s\<lparr>gs_stopped_by_abort := False\<rparr> in
      case gs_goal s1 of
        Some g \<Rightarrow> if gn_status g = Stopped \<and> gn_stop_reason g = Some ''manual_abort''
                   then fst (goal_set_status_reason t Stopped ''goal_control'' s1) else s1
      | None \<Rightarrow> s1)"

text \<open>\<open>note_user_turn_resets_goal_pursuit\<close> of the command queue.\<close>

definition note_user_turn_resets_goal_pursuit ::
  "nat \<Rightarrow> nat \<Rightarrow> nat \<Rightarrow> nat \<Rightarrow> nat \<Rightarrow> 'p projection option \<Rightarrow> 'p goal_session \<Rightarrow> 'p goal_session" where
  "note_user_turn_resets_goal_pursuit t1 t2 t3 t4 t5 pr s =
     fst (reactivate_goal_stopped_by_manual_abort t3 t4 t5 pr (fst (goal_reset_no_progress t1 t2 s)))"

end
