(* ===== verification/Sub_Goal_Properties.thy ===== *)
theory Sub_Goal_Properties
  imports Sub_Goal
begin

text \<open>
  Correctness of the lanes under a goal: the search for a cycle decides acyclicity and
  reports real cycles, the relaxation loop computes the longest distances from the root,
  a declaration is accepted exactly when the graph it makes keeps the limits, applying it
  keeps them, and the rollup lets a parent proceed exactly when every required lane is met
  by its structured verdicts.
\<close>

section \<open>The search for a cycle\<close>

definition lane_rel :: "lane_map \<Rightarrow> (string \<times> string) set" where
  "lane_rel adj = {(p, c). c \<in> set (children_of adj p)}"

abbreviation lane_path :: "lane_map \<Rightarrow> string list \<Rightarrow> bool" where
  "lane_path adj \<equiv> successively (\<lambda>p c. (p, c) \<in> lane_rel adj)"

definition lane_cycle :: "lane_map \<Rightarrow> string list \<Rightarrow> bool" where
  "lane_cycle adj cs \<longleftrightarrow> 2 \<le> length cs \<and> hd cs = last cs \<and> lane_path adj cs"

definition walk_inv :: "lane_map \<Rightarrow> marks \<Rightarrow> string list \<Rightarrow> bool" where
  "walk_inv adj marks stack \<longleftrightarrow>
     (\<forall>n. map_of marks n = Some Open \<longleftrightarrow> n \<in> set stack) \<and> lane_path adj stack \<and>
     closed_acyclic (lane_rel adj) {n. map_of marks n = Some Done}"

lemma position_split:
  assumes "x \<in> set xs"
  obtains ys zs where "xs = ys @ x # zs" "drop (stack_position x xs) xs = x # zs"
proof -
  from split_list_first [OF assms] obtain ys zs where s: "xs = ys @ x # zs" "x \<notin> set ys" by blast
  then have "takeWhile (\<lambda>y. y \<noteq> x) xs = ys" by (metis (mono_tags, lifting) takeWhile_append2 takeWhile.simps(2) append_Nil2)
  with s have "drop (stack_position x xs) xs = x # zs" by (simp add: stack_position_def)
  with s that show thesis by blast
qed

lemma open_node_cycle:
  assumes "lane_path adj stack" "node \<in> set stack" "(last stack, node) \<in> lane_rel adj"
  shows "lane_cycle adj (drop (stack_position node stack) stack @ [node])"
proof -
  from position_split [OF assms(2)] obtain ys zs where s: "stack = ys @ node # zs"
    "drop (stack_position node stack) stack = node # zs" by blast
  from assms(1) have "lane_path adj (node # zs)" unfolding s(1) by (simp add: successively_append_iff)
  with assms(3) s(1) have "lane_path adj ((node # zs) @ [node])"
    by (subst successively_append_iff) auto
  then show ?thesis unfolding s(2) by (simp add: lane_cycle_def)
qed

lemma walk_inv_finish:
  assumes "walk_inv adj marks (stack @ [node])" "node \<notin> set stack"
    and "\<And>c. c \<in> set (children_of adj node) \<Longrightarrow> map_of marks c = Some Done"
  shows "walk_inv adj (AList.update node Done marks) stack"
proof -
  let ?D = "{n. map_of marks n = Some Done}"
  from assms(1) have opn: "\<And>n. map_of marks n = Some Open \<longleftrightarrow> n \<in> set stack \<or> n = node"
    and ca: "closed_acyclic (lane_rel adj) ?D" and p: "lane_path adj stack"
    by (auto simp: walk_inv_def successively_append_iff)
  have "node \<notin> ?D" using opn [of node] by auto
  with assms(3) have "closed_acyclic (lane_rel adj) (insert node ?D)"
    by (intro closed_acyclic_insert [OF ca]) (auto simp: lane_rel_def)
  moreover have "{n. map_of (AList.update node Done marks) n = Some Done} = insert node ?D"
    by (auto simp: update_conv')
  ultimately show ?thesis using p opn assms(2) by (auto simp: walk_inv_def update_conv')
qed

definition leads_to :: "lane_map \<Rightarrow> string list \<Rightarrow> string list \<Rightarrow> bool" where
  "leads_to adj stack cs \<longleftrightarrow> stack = [] \<or> (\<forall>c \<in> set cs. (last stack, c) \<in> lane_rel adj)"

definition walk_result :: "lane_map \<Rightarrow> string list \<Rightarrow> marks \<Rightarrow> string list \<Rightarrow> string list + marks \<Rightarrow> bool" where
  "walk_result adj cs marks stack r \<longleftrightarrow>
     (case r of
        Inl cycle \<Rightarrow> lane_cycle adj cycle
      | Inr marks' \<Rightarrow> walk_inv adj marks' stack \<and> (\<forall>c \<in> set cs. map_of marks' c = Some Done) \<and>
          (\<forall>n. map_of marks n = Some Done \<longrightarrow> map_of marks' n = Some Done))"

lemma walk_correct:
  "walk_inv adj marks stack \<Longrightarrow> leads_to adj stack [node] \<Longrightarrow> walk_result adj [node] marks stack (walk adj node marks stack)"
  "walk_inv adj marks stack \<Longrightarrow> leads_to adj stack cs \<Longrightarrow> walk_result adj cs marks stack (walk_all adj cs marks stack)"
proof (induction adj node marks stack and adj cs marks stack rule: walk_walk_all.induct)
  case (1 adj node marks stack)
  show ?case
  proof (cases "map_of marks node")
    case (Some m)
    show ?thesis
    proof (cases m)
      case Open
      with Some 1(2) have "node \<in> set stack" by (simp add: walk_inv_def)
      moreover from this 1(3) have "(last stack, node) \<in> lane_rel adj" by (auto simp: leads_to_def)
      moreover have "lane_path adj stack" using 1(2) by (simp add: walk_inv_def)
      ultimately have "lane_cycle adj (drop (stack_position node stack) stack @ [node])" by (intro open_node_cycle)
      with Some Open show ?thesis by (simp add: walk_result_def)
    next
      case Done
      with Some 1(2) show ?thesis by (simp add: walk_result_def)
    qed
  next
    case None
    let ?marks = "AList.update node Open marks"
    have fresh: "node \<notin> set stack" using None 1(2) by (auto simp: walk_inv_def dest: spec [of _ node])
    have D: "{n. map_of ?marks n = Some Done} = {n. map_of marks n = Some Done}" using None by (auto simp: update_conv')
    have "walk_inv adj ?marks (stack @ [node])"
      using 1(2,3) D by (auto simp: walk_inv_def successively_append_iff leads_to_def update_conv')
    moreover have "leads_to adj (stack @ [node]) (children_of adj node)" by (auto simp: leads_to_def lane_rel_def)
    ultimately have "walk_result adj (children_of adj node) ?marks (stack @ [node])
        (walk_all adj (children_of adj node) ?marks (stack @ [node]))" using 1(1) [OF None] by blast
    with None fresh show ?thesis
      by (auto simp: walk_result_def update_conv' intro: walk_inv_finish split: sum.splits)
  qed
next
  case (2 adj marks stack)
  then show ?case by (simp add: walk_result_def)
next
  case (3 adj c cs marks stack)
  have "walk_result adj [c] marks stack (walk adj c marks stack)" using 3 by (auto simp: leads_to_def)
  moreover have "leads_to adj stack cs" using 3(4) by (auto simp: leads_to_def)
  ultimately show ?case using 3(2) by (fastforce simp: walk_result_def split: sum.splits)
qed

lemma lane_cycle_not_acyclic: "lane_cycle adj cs \<Longrightarrow> \<not> acyclic (lane_rel adj)"
  using successively_trancl [of "lane_rel adj" cs] by (auto simp: lane_cycle_def acyclic_def)

lemma first_cycle_Some: "first_cycle adj = Some cs \<Longrightarrow> lane_cycle adj cs"
  and first_cycle_None: "first_cycle adj = None \<longleftrightarrow> acyclic (lane_rel adj)"
proof -
  let ?keys = "map fst (btree_iter adj)"
  have "closed_acyclic (lane_rel adj) {}" by (simp add: closed_acyclic_def acyclic_def)
  then have r: "walk_result adj ?keys [] [] (walk_all adj ?keys [] [])"
    by (intro walk_correct(2)) (simp_all add: walk_inv_def leads_to_def)
  then show some: "lane_cycle adj cs" if "first_cycle adj = Some cs" for cs
    using that by (auto simp: first_cycle_def walk_result_def split: sum.splits)
  show "first_cycle adj = None \<longleftrightarrow> acyclic (lane_rel adj)"
  proof
    assume "first_cycle adj = None"
    with r obtain marks where inv: "walk_inv adj marks []" and fin: "\<forall>n \<in> set ?keys. map_of marks n = Some Done"
      by (auto simp: first_cycle_def walk_result_def split: sum.splits)
    have "p \<in> set ?keys" if "(p, c) \<in> lane_rel adj" for p c
      using that by (cases "map_of adj p") (force simp: lane_rel_def children_of_def dest: map_of_SomeD)+
    with fin have "{(a, b) \<in> lane_rel adj. a \<in> {n. map_of marks n = Some Done}} = lane_rel adj" by auto
    with inv show "acyclic (lane_rel adj)" by (simp add: walk_inv_def closed_acyclic_def)
  next
    assume "acyclic (lane_rel adj)"
    then show "first_cycle adj = None" using some lane_cycle_not_acyclic by (cases "first_cycle adj") blast+
  qed
qed

section \<open>Collecting the edges\<close>

definition edge_rel :: "sub_goal_edge list \<Rightarrow> (string \<times> string) set" where
  "edge_rel es = (\<lambda>e. (se_parent e, se_child e)) ` set es"

lemma edge_rel_simps [simp]: "edge_rel [] = {}" "edge_rel (e # es) = insert (se_parent e, se_child e) (edge_rel es)"
  "edge_rel (es @ es') = edge_rel es \<union> edge_rel es'"
  by (auto simp: edge_rel_def)

definition lanes_ok :: "lane_map \<Rightarrow> bool" where
  "lanes_ok adj \<longleftrightarrow> amap_wf adj \<and> (\<forall>p. distinct (children_of adj p)) \<and> (\<forall>p cs. map_of adj p = Some cs \<longrightarrow> cs \<noteq> [])"

lemma children_of_update [simp]: "children_of (AList.update p cs adj) q = (if q = p then cs else children_of adj q)"
  by (simp add: children_of_def update_conv')

lemma add_lane:
  assumes "lanes_ok adj"
  shows "lanes_ok (add_lane adj e)" "lane_rel (add_lane adj e) = insert (se_parent e, se_child e) (lane_rel adj)"
  using assms by (auto simp: lanes_ok_def add_lane_def lane_rel_def update_conv' Let_def split: if_splits)

lemma collect_lanes_ok:
  "(\<exists>adj'. collect_lanes known adj es = Inr adj') \<longleftrightarrow>
     (\<forall>e \<in> set es. se_parent e \<noteq> se_child e \<and> se_parent e \<in> set known \<and> se_child e \<in> set known)"
  by (induction known adj es rule: collect_lanes.induct) auto

lemma collect_lanes_Inr:
  "lanes_ok adj \<Longrightarrow> collect_lanes known adj es = Inr adj' \<Longrightarrow> lanes_ok adj' \<and> lane_rel adj' = lane_rel adj \<union> edge_rel es"
proof (induction es arbitrary: adj)
  case (Cons e es)
  from Cons.prems(2) have "collect_lanes known (add_lane adj e) es = Inr adj'" by (auto split: if_splits)
  from Cons.IH [OF add_lane(1) this] Cons.prems(1) show ?case by (simp add: add_lane(2))
qed simp

lemma check_nodes_Inr:
  "check_nodes known ns = Inr known' \<longleftrightarrow>
     known' = rev (map sn_id ns) @ known \<and> distinct (map sn_id ns) \<and> set (map sn_id ns) \<inter> set known = {} \<and>
     [] \<notin> set (map sn_id ns) \<and> root_sub_goal_id \<notin> set (map sn_id ns)"
  by (induction known ns rule: check_nodes.induct) auto

section \<open>Longest distances\<close>

lemma lane_rel_finite: "finite (lane_rel adj)" and lane_rel_card: "amap_wf adj \<Longrightarrow> card (lane_rel adj) \<le> total_edges adj"
proof -
  have eq: "lane_rel adj \<subseteq> (\<Union>(p, cs) \<in> set adj. Pair p ` set cs)"
  proof (rule subrelI)
    fix p c assume "(p, c) \<in> lane_rel adj"
    then obtain cs where "map_of adj p = Some cs" "c \<in> set cs" by (cases "map_of adj p") (auto simp: lane_rel_def children_of_def)
    then show "(p, c) \<in> (\<Union>(p, cs) \<in> set adj. Pair p ` set cs)" using map_of_SomeD by fast
  qed
  then show "finite (lane_rel adj)" by (rule finite_subset) auto
  show "card (lane_rel adj) \<le> total_edges adj" if "amap_wf adj"
  proof -
    have "card (\<Union>(p, cs) \<in> set adj. Pair p ` set cs) \<le> sum_list (map length (map snd adj))"
    proof (induction adj)
      case (Cons e adj)
      have "card (Pair (fst e) ` set (snd e)) \<le> length (snd e)"
        by (metis card_image_le card_length finite_set le_trans)
      with Cons show ?case
        by (auto simp: split_def intro!: order_trans [OF card_Un_le] add_mono)
    qed simp
    with card_mono [OF _ eq] show ?thesis by (fastforce simp: total_edges_def amap_values_def)
  qed
qed

text \<open>In an acyclic relation a path uses every edge at most once.\<close>

lemma acyclic_path_bound:
  assumes "acyclic R" "finite R" "(a, b) \<in> R ^^ k"
  shows "k \<le> card R"
proof -
  from assms(3) obtain f where f: "\<And>i. i < k \<Longrightarrow> (f i, f (Suc i)) \<in> R" by (auto simp: relpow_fun_conv)
  have up: "(f i, f j) \<in> R\<^sup>+" if "i < j" "j \<le> k" for i j
    using that
  proof (induction j)
    case (Suc j)
    show ?case
    proof (cases "i = j")
      case True
      with f [of j] Suc show ?thesis by auto
    next
      case False
      with Suc have "(f i, f j) \<in> R\<^sup>+" by simp
      with f [of j] Suc show ?thesis by (auto intro: trancl_into_trancl)
    qed
  qed simp
  have "inj_on (\<lambda>i. (f i, f (Suc i))) {..<k}"
  proof (rule linorder_inj_onI)
    fix i j assume "i < j" "i \<in> {..<k}" "j \<in> {..<k}"
    with up [of i j] assms(1) show "(f i, f (Suc i)) \<noteq> (f j, f (Suc j))" by (auto simp: acyclic_def)
  qed auto
  then have "card ((\<lambda>i. (f i, f (Suc i))) ` {..<k}) = k" by (simp add: card_image)
  moreover have "(\<lambda>i. (f i, f (Suc i))) ` {..<k} \<subseteq> R" using f by auto
  ultimately show ?thesis using card_mono [OF assms(2)] by metis
qed

text \<open>Depths are lengths of paths, and a round raises every child above the depth its parent had.\<close>

definition depths_sound :: "lane_map \<Rightarrow> depth_map \<Rightarrow> bool" where
  "depths_sound adj ds \<longleftrightarrow> (\<forall>n d. map_of ds n = Some d \<longrightarrow> (root_sub_goal_id, n) \<in> lane_rel adj ^^ d)"

definition deeper :: "depth_map \<Rightarrow> depth_map \<Rightarrow> bool" where
  "deeper ds ds' \<longleftrightarrow> (\<forall>n d. map_of ds n = Some d \<longrightarrow> (\<exists>d' \<ge> d. map_of ds' n = Some d'))"

lemma deeper_refl: "deeper ds ds" and deeper_trans: "deeper a b \<Longrightarrow> deeper b c \<Longrightarrow> deeper a c"
  by (auto simp: deeper_def) (meson order_trans)

lemma relax_child:
  assumes "relax_child pd (ds, ch) c = (ds', ch')"
  shows "deeper ds ds'" "\<exists>d \<ge> pd + 1. map_of ds' c = Some d" "\<not> ch' \<Longrightarrow> ds' = ds \<and> \<not> ch"
    "depths_sound adj ds \<Longrightarrow> (root_sub_goal_id, c) \<in> lane_rel adj ^^ (pd + 1) \<Longrightarrow> depths_sound adj ds'"
  using assms
  by (auto simp: relax_child_def Let_def deeper_def depths_sound_def update_conv' simp del: relpow.simps split: option.splits if_splits)

lemma relax_children:
  assumes "foldl (relax_child pd) (ds, ch) cs = (ds', ch')"
  shows "deeper ds ds' \<and> (\<forall>c \<in> set cs. \<exists>d \<ge> pd + 1. map_of ds' c = Some d) \<and> (\<not> ch' \<longrightarrow> ds' = ds \<and> \<not> ch) \<and>
    (depths_sound adj ds \<and> (\<forall>c \<in> set cs. (root_sub_goal_id, c) \<in> lane_rel adj ^^ (pd + 1)) \<longrightarrow> depths_sound adj ds')"
  using assms
proof (induction cs arbitrary: ds ch)
  case (Cons c cs)
  obtain ds1 ch1 where r: "relax_child pd (ds, ch) c = (ds1, ch1)" by fastforce
  note one = relax_child [OF r]
  from Cons.prems r have "foldl (relax_child pd) (ds1, ch1) cs = (ds', ch')" by simp
  note rest = Cons.IH [OF this]
  have "\<exists>d \<ge> pd + 1. map_of ds' c = Some d" using one(2) rest unfolding deeper_def by (meson order_trans)
  with one rest deeper_trans show ?case by (auto simp del: relpow.simps)
qed (simp add: deeper_refl)

lemma relax_parents:
  assumes "foldl relax_parent (ds, ch) es = (ds', ch')"
  shows "deeper ds ds' \<and> (\<not> ch' \<longrightarrow> ds' = ds \<and> \<not> ch) \<and>
    (\<forall>p cs d c. (p, cs) \<in> set es \<longrightarrow> map_of ds p = Some d \<longrightarrow> c \<in> set cs \<longrightarrow> (\<exists>d' \<ge> d + 1. map_of ds' c = Some d')) \<and>
    (depths_sound adj ds \<and> (\<forall>(p, cs) \<in> set es. \<forall>c \<in> set cs. (p, c) \<in> lane_rel adj) \<longrightarrow> depths_sound adj ds')"
  using assms
proof (induction es arbitrary: ds ch)
  case (Cons e es)
  obtain p cs where e: "e = (p, cs)" by (cases e)
  obtain ds1 ch1 where r: "relax_parent (ds, ch) e = (ds1, ch1)" by fastforce
  from Cons.prems r have "foldl relax_parent (ds1, ch1) es = (ds', ch')" by simp
  note rest = Cons.IH [OF this]
  have one: "deeper ds ds1 \<and> (\<not> ch1 \<longrightarrow> ds1 = ds \<and> \<not> ch) \<and>
      (\<forall>d c. map_of ds p = Some d \<longrightarrow> c \<in> set cs \<longrightarrow> (\<exists>d' \<ge> d + 1. map_of ds1 c = Some d')) \<and>
      (depths_sound adj ds \<and> (\<forall>c \<in> set cs. (p, c) \<in> lane_rel adj) \<longrightarrow> depths_sound adj ds1)"
  proof (cases "map_of ds p")
    case None
    with r e show ?thesis by (simp add: relax_parent_def deeper_refl)
  next
    case (Some d)
    with r e have "foldl (relax_child d) (ds, ch) cs = (ds1, ch1)" by (simp add: relax_parent_def)
    note kids = relax_children [OF this, of adj]
    have "(root_sub_goal_id, c) \<in> lane_rel adj ^^ (d + 1)" if "depths_sound adj ds" "(p, c) \<in> lane_rel adj" for c
      using that Some relpow_Suc_I [of root_sub_goal_id p d "lane_rel adj" c] by (simp add: depths_sound_def)
    with kids Some show ?thesis by (simp del: relpow.simps)
  qed
  have raise: "\<exists>d' \<ge> d + 1. map_of ds' c = Some d'"
    if q: "(q, cs') \<in> set (e # es)" "map_of ds q = Some d" "c \<in> set cs'" for q cs' d c
  proof (cases "(q, cs') = e")
    case True
    with e q one obtain d1 where "d1 \<ge> d + 1" "map_of ds1 c = Some d1" by blast
    with rest show ?thesis unfolding deeper_def by (meson order_trans)
  next
    case False
    with q have "(q, cs') \<in> set es" by simp
    moreover from one q obtain d1 where d1: "d1 \<ge> d" "map_of ds1 q = Some d1" unfolding deeper_def by blast
    ultimately obtain d2 where "d2 \<ge> d1 + 1" "map_of ds' c = Some d2" using rest q(3) by blast
    with d1(1) show ?thesis by (intro exI [of _ d2]) simp
  qed
  have "deeper ds ds'" using one rest by (blast intro: deeper_trans)
  moreover have "\<not> ch' \<longrightarrow> ds' = ds \<and> \<not> ch" using one rest by blast
  moreover have "depths_sound adj ds'" if "depths_sound adj ds" "\<forall>(p, cs) \<in> set (e # es). \<forall>c \<in> set cs. (p, c) \<in> lane_rel adj"
  proof -
    have "depths_sound adj ds1" using one that by (simp add: e)
    with rest that(2) show ?thesis by simp
  qed
  ultimately show ?case using raise by blast
qed (simp add: deeper_refl)

definition depths_cover :: "lane_map \<Rightarrow> nat \<Rightarrow> depth_map \<Rightarrow> bool" where
  "depths_cover adj k ds \<longleftrightarrow> (\<forall>j \<le> k. \<forall>n. (root_sub_goal_id, n) \<in> lane_rel adj ^^ j \<longrightarrow> (\<exists>d \<ge> j. map_of ds n = Some d))"

lemma relax_round:
  assumes "amap_wf adj" "relax_round adj ds = (ds', ch)"
  shows "depths_cover adj k ds \<Longrightarrow> depths_cover adj (Suc k) ds'" "depths_sound adj ds \<Longrightarrow> depths_sound adj ds'" "\<not> ch \<Longrightarrow> ds' = ds"
proof -
  have lane: "(\<exists>cs. (p, cs) \<in> set adj \<and> c \<in> set cs) \<longleftrightarrow> (p, c) \<in> lane_rel adj" for p c
    unfolding amap_mem_iff [OF assms(1)] by (cases "map_of adj p") (simp_all add: lane_rel_def children_of_def)
  note r = relax_parents [OF assms(2) [unfolded relax_round_def], of adj]
  show "\<not> ch \<Longrightarrow> ds' = ds" using r by blast
  have "\<forall>(p, cs) \<in> set (btree_iter adj). \<forall>c \<in> set cs. (p, c) \<in> lane_rel adj" using lane by auto
  with r show "depths_sound adj ds \<Longrightarrow> depths_sound adj ds'" by blast
  assume cov: "depths_cover adj k ds"
  show "depths_cover adj (Suc k) ds'"
    unfolding depths_cover_def
  proof (intro allI impI)
    fix j n assume j: "j \<le> Suc k" "(root_sub_goal_id, n) \<in> lane_rel adj ^^ j"
    show "\<exists>d \<ge> j. map_of ds' n = Some d"
    proof (cases "j \<le> k")
      case True
      with cov j obtain d where "d \<ge> j" "map_of ds n = Some d" unfolding depths_cover_def by blast
      with r show ?thesis unfolding deeper_def by (meson order_trans)
    next
      case False
      with j have "j = Suc k" by simp
      with j obtain p where p: "(root_sub_goal_id, p) \<in> lane_rel adj ^^ k" "(p, n) \<in> lane_rel adj" by auto
      with cov obtain d where d: "d \<ge> k" "map_of ds p = Some d" unfolding depths_cover_def by blast
      from p(2) lane obtain cs where "(p, cs) \<in> set adj" "n \<in> set cs" by blast
      then have "(p, cs) \<in> set (btree_iter adj)" "n \<in> set cs" by simp_all
      then obtain d' where "d' \<ge> d + 1" "map_of ds' n = Some d'" using r d(2) by blast
      with d \<open>j = Suc k\<close> show ?thesis by (intro exI [of _ d']) simp
    qed
  qed
qed

lemma relax_rounds_sound: "amap_wf adj \<Longrightarrow> depths_sound adj ds \<Longrightarrow> depths_sound adj (relax_rounds adj n ds)"
  by (induction adj n ds rule: relax_rounds.induct) (auto dest: relax_round(2) split: prod.splits)

lemma relax_rounds_covers:
  assumes "amap_wf adj" "depths_cover adj k ds"
  shows "depths_cover adj (k + n) (relax_rounds adj n ds)"
  using assms(2)
proof (induction n arbitrary: k ds)
  case (Suc n)
  obtain ds' ch where r: "relax_round adj ds = (ds', ch)" by fastforce
  note step = relax_round [OF assms(1) r]
  show ?case
  proof (cases ch)
    case True
    with r Suc.IH [OF step(1) [OF Suc.prems]] show ?thesis by simp
  next
    case False
    then have "ds' = ds" using step(3) by simp
    have "depths_cover adj (k + m) ds" for m
      by (induction m) (use Suc.prems relax_round(1) [OF assms(1) r] \<open>ds' = ds\<close> in auto)
    from this [of "Suc n"] r False \<open>ds' = ds\<close> show ?thesis by simp
  qed
qed simp

text \<open>On an acyclic graph the loop ends with the length of the longest path from the root to every node it reaches.\<close>

lemma longest_depths_correct:
  assumes "amap_wf adj" "acyclic (lane_rel adj)"
  shows "map_of (longest_depths adj) n = Some d \<longleftrightarrow>
    n \<noteq> root_sub_goal_id \<and> (root_sub_goal_id, n) \<in> lane_rel adj ^^ d \<and> (\<forall>k. (root_sub_goal_id, n) \<in> lane_rel adj ^^ k \<longrightarrow> k \<le> d)"
proof -
  let ?ds = "relax_rounds adj (total_edges adj + 1) [(root_sub_goal_id, 0)]"
  have "depths_cover adj 0 [(root_sub_goal_id, 0)]" by (simp add: depths_cover_def)
  from relax_rounds_covers [OF assms(1) this, of "total_edges adj + 1"] have cov: "depths_cover adj (total_edges adj + 1) ?ds" by simp
  have sound: "depths_sound adj ?ds" by (rule relax_rounds_sound [OF assms(1)]) (simp add: depths_sound_def)
  have le: "k \<le> total_edges adj" if "(root_sub_goal_id, n) \<in> lane_rel adj ^^ k" for k n
    using acyclic_path_bound [OF assms(2) lane_rel_finite that] lane_rel_card [OF assms(1)] by simp
  have "\<exists>d' \<ge> k. map_of ?ds n = Some d'" if "(root_sub_goal_id, n) \<in> lane_rel adj ^^ k" for k
    using cov le [OF that] that unfolding depths_cover_def by (meson le_SucI Suc_eq_plus1 le_add1 order_trans)
  with sound have "map_of ?ds n = Some d \<longleftrightarrow>
      (root_sub_goal_id, n) \<in> lane_rel adj ^^ d \<and> (\<forall>k. (root_sub_goal_id, n) \<in> lane_rel adj ^^ k \<longrightarrow> k \<le> d)"
    unfolding depths_sound_def by (metis option.inject order_antisym)
  then show ?thesis by (auto simp: longest_depths_def delete_conv')
qed

section \<open>Declarations\<close>

text \<open>A graph within the limits.\<close>

definition nodes_ok :: "sub_goal_graph \<Rightarrow> bool" where
  "nodes_ok g \<longleftrightarrow> distinct (map ns_id (sg_nodes g)) \<and> [] \<notin> ns_id ` set (sg_nodes g) \<and> root_sub_goal_id \<notin> ns_id ` set (sg_nodes g)"

definition known_ids :: "sub_goal_graph \<Rightarrow> string set" where
  "known_ids g = insert root_sub_goal_id (ns_id ` set (sg_nodes g))"

definition graph_within :: "sub_goal_limits \<Rightarrow> sub_goal_graph \<Rightarrow> bool" where
  "graph_within limits g \<longleftrightarrow>
     nodes_ok g \<and> edge_rel (sg_edges g) \<subseteq> known_ids g \<times> known_ids g \<and> acyclic (edge_rel (sg_edges g)) \<and>
     (\<forall>p. card {c. (p, c) \<in> edge_rel (sg_edges g)} \<le> lm_max_fan_out limits) \<and>
     (\<forall>n k. (root_sub_goal_id, n) \<in> edge_rel (sg_edges g) ^^ k \<longrightarrow> k \<le> lm_max_depth limits)"

definition fresh_ids :: "sub_goal_graph \<Rightarrow> sub_goal_declaration \<Rightarrow> bool" where
  "fresh_ids g d \<longleftrightarrow>
     distinct (map sn_id (sd_nodes d)) \<and> set (map sn_id (sd_nodes d)) \<inter> known_ids g = {} \<and> [] \<notin> set (map sn_id (sd_nodes d))"

lemma declare_nodes_ids:
  assumes "distinct (map sn_id ns)" "set (map sn_id ns) \<inter> ns_id ` set ss = {}" "[] \<notin> set (map sn_id ns)" "root_sub_goal_id \<notin> set (map sn_id ns)"
  shows "map ns_id (foldl declare_node ss ns) = map ns_id ss @ map sn_id ns"
  using assms
proof (induction ns arbitrary: ss)
  case (Cons n ns)
  have "\<not> (\<exists>s \<in> set ss. ns_id s = sn_id n)" using Cons.prems(2) by (force simp: image_iff)
  with Cons.prems have "map ns_id (declare_node ss n) = map ns_id ss @ [sn_id n]"
    by (auto simp: declare_node_def)
  moreover from this have "ns_id ` set (declare_node ss n) = insert (sn_id n) (ns_id ` set ss)"
    by (metis list.set(1,2) list.set_map set_append Un_insert_right sup_bot_right)
  ultimately show ?case using Cons by auto
qed simp

lemma declare_edges_rel: "edge_rel (foldl declare_edge es ds) = edge_rel es \<union> edge_rel ds"
proof (induction ds arbitrary: es)
  case (Cons e ds)
  have "edge_rel (declare_edge es e) = insert (se_parent e, se_child e) (edge_rel es)"
    by (auto simp: declare_edge_def edge_rel_def image_iff) metis
  with Cons show ?case by simp
qed simp

lemma apply_declaration_ids:
  assumes "fresh_ids g d"
  shows "map ns_id (sg_nodes (apply_declaration d g)) = map ns_id (sg_nodes g) @ map sn_id (sd_nodes d)"
  using assms by (auto simp: apply_declaration_def fresh_ids_def known_ids_def intro!: declare_nodes_ids)

lemma apply_declaration_rel: "edge_rel (sg_edges (apply_declaration d g)) = edge_rel (sg_edges g @ sd_edges d)"
  by (simp add: apply_declaration_def declare_edges_rel)

lemma find_btree_None:
  assumes "amap_wf m"
  shows "List.find (\<lambda>(k, v). P v) (btree_iter m) = None \<longleftrightarrow> (\<forall>k v. map_of m k = Some v \<longrightarrow> \<not> P v)"
proof -
  have "List.find (\<lambda>(k, v). P v) (btree_iter m) = None \<longleftrightarrow> (\<forall>k v. (k, v) \<in> set m \<longrightarrow> \<not> P v)"
    unfolding find_None_iff by auto
  then show ?thesis by (simp add: amap_mem_iff [OF assms])
qed

lemma relax_rounds_wf:
  assumes "amap_wf ds"
  shows "amap_wf (relax_rounds adj n ds)"
proof -
  have child: "amap_wf (fst (foldl (relax_child pd) st cs))" if "amap_wf (fst st)" for pd st cs
    using that by (induction cs arbitrary: st)
      (auto simp: relax_child_def Let_def split: prod.splits option.splits)
  have parents: "amap_wf (fst (foldl relax_parent st es))" if "amap_wf (fst st)" for st es
    using that by (induction es arbitrary: st) (auto simp: relax_parent_def child split: prod.splits option.splits)
  have "amap_wf (fst (relax_round adj ds))" if "amap_wf ds" for ds
    using parents [of "(ds, False)"] that by (simp add: relax_round_def)
  then show ?thesis
    using assms by (induction n arbitrary: ds) (auto simp: split_def)
qed

lemma fan_out_ok:
  assumes "lanes_ok adj"
  shows "fan_out_error limits adj = None \<longleftrightarrow> (\<forall>p. card {c. (p, c) \<in> lane_rel adj} \<le> lm_max_fan_out limits)"
proof -
  have card: "card {c. (p, c) \<in> lane_rel adj} = length (children_of adj p)" for p
    using assms by (auto simp: lane_rel_def lanes_ok_def distinct_card)
  have "fan_out_error limits adj = None \<longleftrightarrow> (\<forall>p cs. map_of adj p = Some cs \<longrightarrow> \<not> lm_max_fan_out limits < length cs)"
    using find_btree_None [of adj "\<lambda>cs. lm_max_fan_out limits < length cs"] assms by (simp add: fan_out_error_def lanes_ok_def)
  also have "\<dots> \<longleftrightarrow> (\<forall>p. length (children_of adj p) \<le> lm_max_fan_out limits)"
    by (auto simp: children_of_def get_or_def not_less split: option.splits)
  finally show ?thesis by (simp add: card)
qed

lemma depth_ok:
  assumes "lanes_ok adj" "acyclic (lane_rel adj)"
  shows "depth_error limits (longest_depths adj) = None \<longleftrightarrow>
    (\<forall>n k. (root_sub_goal_id, n) \<in> lane_rel adj ^^ k \<longrightarrow> k \<le> lm_max_depth limits)"
proof -
  have wf: "amap_wf adj" using assms(1) by (simp add: lanes_ok_def)
  have "amap_wf (longest_depths adj)" by (simp add: longest_depths_def relax_rounds_wf del: relax_rounds.simps)
  then have "depth_error limits (longest_depths adj) = None \<longleftrightarrow> (\<forall>n d. map_of (longest_depths adj) n = Some d \<longrightarrow> d \<le> lm_max_depth limits)"
    using find_btree_None [of "longest_depths adj" "\<lambda>d. lm_max_depth limits < d"] by (simp add: depth_error_def not_less)
  also have "\<dots> \<longleftrightarrow> (\<forall>n k. (root_sub_goal_id, n) \<in> lane_rel adj ^^ k \<longrightarrow> k \<le> lm_max_depth limits)"
  proof (intro iffI allI impI)
    fix n k
    assume ok: "\<forall>n d. map_of (longest_depths adj) n = Some d \<longrightarrow> d \<le> lm_max_depth limits" and path: "(root_sub_goal_id, n) \<in> lane_rel adj ^^ k"
    show "k \<le> lm_max_depth limits"
    proof (cases "n = root_sub_goal_id")
      case True
      then have "k = 0"
        using path assms(2) by (metis acyclic_def gr0I trancl_power)
      then show ?thesis by simp
    next
      case False
      let ?P = "\<lambda>k. (root_sub_goal_id, n) \<in> lane_rel adj ^^ k"
      have "\<forall>k. ?P k \<longrightarrow> k \<le> card (lane_rel adj)" using acyclic_path_bound [OF assms(2) lane_rel_finite] by blast
      then have "?P (Greatest ?P)" "\<forall>k. ?P k \<longrightarrow> k \<le> Greatest ?P"
        using path GreatestI_nat [of ?P k] Greatest_le_nat [of ?P] by blast+
      with False have "map_of (longest_depths adj) n = Some (Greatest ?P)" by (simp add: longest_depths_correct [OF wf assms(2)])
      with ok path \<open>\<forall>k. ?P k \<longrightarrow> k \<le> Greatest ?P\<close> show ?thesis by (meson order_trans)
    qed
  qed (use longest_depths_correct [OF wf assms(2)] in blast)
  finally show ?thesis .
qed

lemma validate_Inr:
  "validate_declaration g d limits = Inr () \<longleftrightarrow>
     fresh_ids g d \<and>
     edge_rel (sg_edges g @ sd_edges d) \<subseteq> (known_ids g \<union> set (map sn_id (sd_nodes d))) \<times> (known_ids g \<union> set (map sn_id (sd_nodes d))) \<and>
     acyclic (edge_rel (sg_edges g @ sd_edges d)) \<and>
     (\<forall>p. card {c. (p, c) \<in> edge_rel (sg_edges g @ sd_edges d)} \<le> lm_max_fan_out limits) \<and>
     (\<forall>n k. (root_sub_goal_id, n) \<in> edge_rel (sg_edges g @ sd_edges d) ^^ k \<longrightarrow> k \<le> lm_max_depth limits)"
proof -
  define es where "es = sg_edges g @ sd_edges d"
  define known where "known = rev (map sn_id (sd_nodes d)) @ root_sub_goal_id # map ns_id (sg_nodes g)"
  have set_known: "set known = known_ids g \<union> set (map sn_id (sd_nodes d))" by (auto simp: known_def known_ids_def)
  have nodes: "check_nodes (root_sub_goal_id # map ns_id (sg_nodes g)) (sd_nodes d) = Inr k \<longleftrightarrow> k = known \<and> fresh_ids g d" for k
    unfolding check_nodes_Inr by (auto simp: known_def fresh_ids_def known_ids_def)
  have empty: "lanes_ok []" "lane_rel [] = {}" by (simp_all add: lanes_ok_def lane_rel_def children_of_def)
  have ends: "edge_rel es \<subseteq> set known \<times> set known \<longleftrightarrow> (\<forall>e \<in> set es. se_parent e \<in> set known \<and> se_child e \<in> set known)"
    by (auto simp: edge_rel_def)
  have self: "acyclic (edge_rel es) \<Longrightarrow> \<forall>e \<in> set es. se_parent e \<noteq> se_child e"
    by (force simp: edge_rel_def acyclic_def)
  have edges: "validate_declaration g d limits = Inr () \<longleftrightarrow> fresh_ids g d \<and>
      (\<exists>adj. collect_lanes known [] es = Inr adj \<and> first_cycle adj = None \<and> fan_out_error limits adj = None \<and>
        depth_error limits (longest_depths adj) = None)"
  proof (cases "check_nodes (root_sub_goal_id # map ns_id (sg_nodes g)) (sd_nodes d)")
    case (Inl e)
    with nodes [of known] show ?thesis by (simp add: validate_declaration_def)
  next
    case (Inr k)
    with nodes have "k = known" "fresh_ids g d" by blast+
    with Inr show ?thesis
      unfolding validate_declaration_def es_def [symmetric] by (simp split: sum.split option.split)
  qed
  have "(\<exists>adj. collect_lanes known [] es = Inr adj \<and> first_cycle adj = None \<and> fan_out_error limits adj = None \<and>
        depth_error limits (longest_depths adj) = None) \<longleftrightarrow>
      (\<exists>adj. collect_lanes known [] es = Inr adj) \<and> acyclic (edge_rel es) \<and>
      (\<forall>p. card {c. (p, c) \<in> edge_rel es} \<le> lm_max_fan_out limits) \<and>
      (\<forall>n k. (root_sub_goal_id, n) \<in> edge_rel es ^^ k \<longrightarrow> k \<le> lm_max_depth limits)"
  proof -
    have "first_cycle adj = None \<and> fan_out_error limits adj = None \<and> depth_error limits (longest_depths adj) = None \<longleftrightarrow>
        acyclic (edge_rel es) \<and> (\<forall>p. card {c. (p, c) \<in> edge_rel es} \<le> lm_max_fan_out limits) \<and>
        (\<forall>n k. (root_sub_goal_id, n) \<in> edge_rel es ^^ k \<longrightarrow> k \<le> lm_max_depth limits)"
      if "collect_lanes known [] es = Inr adj" for adj
    proof -
      have adj: "lanes_ok adj" "lane_rel adj = edge_rel es" using collect_lanes_Inr [OF empty(1) that] empty(2) by auto
      from depth_ok [OF adj(1), of limits] show ?thesis
        unfolding first_cycle_None fan_out_ok [OF adj(1)] adj(2) by blast
    qed
    then show ?thesis by blast
  qed
  with edges ends self show ?thesis
    unfolding collect_lanes_ok es_def [symmetric] set_known [symmetric] by blast
qed

lemma check_nodes_no_cycle: "check_nodes known ns \<noteq> Inl (Cycle ps)"
  by (induction known ns rule: check_nodes.induct) auto

lemma collect_lanes_no_cycle: "collect_lanes known adj es \<noteq> Inl (Cycle ps)"
  by (induction known adj es rule: collect_lanes.induct) auto

lemma graph_within_apply:
  assumes "nodes_ok g" "fresh_ids g d"
  shows "graph_within limits (apply_declaration d g) \<longleftrightarrow> validate_declaration g d limits = Inr ()"
proof -
  let ?g = "apply_declaration d g"
  note ids = apply_declaration_ids [OF assms(2)]
  have ids': "ns_id ` set (sg_nodes ?g) = ns_id ` set (sg_nodes g) \<union> set (map sn_id (sd_nodes d))"
    using arg_cong [OF ids, of set] by simp
  then have k: "known_ids ?g = known_ids g \<union> set (map sn_id (sd_nodes d))" by (auto simp: known_ids_def)
  have "nodes_ok ?g"
    unfolding nodes_ok_def ids ids'
    using assms by (auto simp: nodes_ok_def fresh_ids_def known_ids_def)
  with assms(2) show ?thesis by (simp add: graph_within_def validate_Inr apply_declaration_rel k del: edge_rel_simps)
qed

text \<open>
  C12: the check of a declaration is exact. On a graph with proper identifiers a declaration
  is accepted exactly when its identifiers are new and the graph it makes is within the
  limits: edges between known lanes, no cycle, at most \<open>max_fan_out\<close> children each, and no
  path from the goal longer than \<open>max_depth\<close>. A reported cycle is a cycle of the edges.
\<close>

theorem declaration_check_exact:
  assumes "nodes_ok g"
  shows "(validate_declaration g d limits = Inr () \<longleftrightarrow> fresh_ids g d \<and> graph_within limits (apply_declaration d g)) \<and>
    (\<forall>ps. validate_declaration g d limits = Inl (Cycle ps) \<longrightarrow>
       2 \<le> length ps \<and> hd ps = last ps \<and> successively (\<lambda>p c. (p, c) \<in> edge_rel (sg_edges g @ sd_edges d)) ps)"
proof (intro conjI allI impI)
  show "validate_declaration g d limits = Inr () \<longleftrightarrow> fresh_ids g d \<and> graph_within limits (apply_declaration d g)"
    using graph_within_apply [OF assms] by (auto simp: validate_Inr)
next
  fix ps assume "validate_declaration g d limits = Inl (Cycle ps)"
  then obtain known adj where a: "collect_lanes known [] (sg_edges g @ sd_edges d) = Inr adj" "first_cycle adj = Some ps"
    using check_nodes_no_cycle collect_lanes_no_cycle
    by (fastforce simp: validate_declaration_def fan_out_error_def depth_error_def split: sum.splits option.splits prod.splits)
  have "lanes_ok []" "lane_rel [] = {}" by (simp_all add: lanes_ok_def lane_rel_def children_of_def)
  with collect_lanes_Inr a(1) have "lane_rel adj = edge_rel (sg_edges g @ sd_edges d)" by fastforce
  with first_cycle_Some [OF a(2)] show "2 \<le> length ps" "hd ps = last ps"
    "successively (\<lambda>p c. (p, c) \<in> edge_rel (sg_edges g @ sd_edges d)) ps" by (simp_all add: lane_cycle_def)
qed

theorem declaration_check_exact_witness:
  "graph_within default_sub_goal_limits (apply_declaration
     \<lparr>sd_nodes = [sub_goal_node_new ''a'' ''first'', sub_goal_node_new ''b'' ''second''],
      sd_edges = [edge_required ''goal'' ''a'', edge_optional ''a'' ''b'']\<rparr> empty_graph)"
proof -
  have "nodes_ok empty_graph" by (simp add: nodes_ok_def empty_graph_def)
  moreover have "validate_declaration empty_graph \<lparr>sd_nodes = [sub_goal_node_new ''a'' ''first'', sub_goal_node_new ''b'' ''second''],
      sd_edges = [edge_required ''goal'' ''a'', edge_optional ''a'' ''b'']\<rparr> default_sub_goal_limits = Inr ()"
    by code_simp
  ultimately show ?thesis using declaration_check_exact by blast
qed

section \<open>Operations on lanes\<close>

lemma modify_node_ids [simp]: "(\<And>s. ns_id (f s) = ns_id s) \<Longrightarrow> map ns_id (modify_node i f ss) = map ns_id ss"
  by (induction ss) auto

lemma graph_within_cong:
  assumes "map ns_id (sg_nodes g') = map ns_id (sg_nodes g)" "sg_edges g' = sg_edges g"
  shows "graph_within limits g' = graph_within limits g"
proof -
  from arg_cong [OF assms(1), of set] have "ns_id ` set (sg_nodes g') = ns_id ` set (sg_nodes g)" by simp
  with assms show ?thesis by (simp add: graph_within_def nodes_ok_def known_ids_def)
qed

lemma lane_operations_within:
  "graph_within limits (mark_dispatched i w g) = graph_within limits g"
  "graph_within limits (record_report i r g) = graph_within limits g"
  "graph_within limits (supersede i reason g) = graph_within limits g"
  by (rule graph_within_cong; simp add: mark_dispatched_def record_report_def supersede_def split: option.split)+

lemma graph_within_empty: "graph_within limits empty_graph"
proof -
  have "k = 0" if "(a, b) \<in> ({} :: (string \<times> string) set) ^^ k" for a b k
    using that by (cases k) auto
  then show ?thesis by (fastforce simp: graph_within_def empty_graph_def nodes_ok_def acyclic_def)
qed

section \<open>The rollup\<close>

text \<open>A lane is met by its structured verdicts: not superseded, reported as met, no failing verdict, every owed criterion met.\<close>

definition lane_met :: "node_state \<Rightarrow> bool" where
  "lane_met s \<longleftrightarrow> ns_superseded s = None \<and>
     (\<exists>r. ns_report s = Some r \<and> sr_claimed r = Met \<and> (\<forall>v \<in> set (sr_verdicts r). cv_met v) \<and>
       (\<forall>i \<in> set (sn_criterion_ids (ns_node s)). \<exists>v \<in> set (sr_verdicts r). cv_id v = i \<and> cv_met v))"

lemma set_push_new: "set (foldl push_new xs ys) = set xs \<union> set ys"
  by (induction ys arbitrary: xs) (auto simp: push_new_def)

lemma effective_outcome_met: "fst (sub_goal_effective_outcome s) = Met \<longleftrightarrow> lane_met s"
proof (cases "ns_report s")
  case None
  then show ?thesis by (auto simp: sub_goal_effective_outcome_def lane_met_def)
next
  case (Some r)
  let ?unmet = "foldl push_new (foldl push_new [] (map cv_id (filter (\<lambda>v. \<not> cv_met v) (sr_verdicts r))))
    (filter (\<lambda>i. \<not> met_verdict r i) (sn_criterion_ids (ns_node s)))"
  have "?unmet = [] \<longleftrightarrow> (\<forall>v \<in> set (sr_verdicts r). cv_met v) \<and> (\<forall>i \<in> set (sn_criterion_ids (ns_node s)). met_verdict r i)"
    by (subst set_empty [symmetric]) (auto simp: set_push_new)
  with Some show ?thesis
    by (auto simp: sub_goal_effective_outcome_def lane_met_def met_verdict_def Let_def split: sub_goal_outcome.splits)
qed

lemma length_filter_all: "length (filter P xs) = length xs \<longleftrightarrow> (\<forall>x \<in> set xs. P x)"
  by (metis filter_True length_filter_less less_irrefl)

lemma rollup_lanes:
  fixes r :: sub_goal_rollup
  shows "ru_lanes (foldl (add_to_rollup g) r es) = ru_lanes r @
    concat (map (\<lambda>e. ru_lanes (add_to_rollup g \<lparr>ru_required_total = 0, ru_required_met = 0, ru_lanes = []\<rparr> e)) es)"
  by (induction es arbitrary: r) (auto simp: add_to_rollup_def split: option.splits prod.splits)

lemma rollup_counts:
  "ru_required_total (foldl (add_to_rollup g) r es) =
     ru_required_total r + length (filter (\<lambda>e. is_required (se_kind e) \<and> graph_node g (se_child e) \<noteq> None) es)"
  "ru_required_met (foldl (add_to_rollup g) r es) =
     ru_required_met r + length (filter (\<lambda>e. is_required (se_kind e) \<and> (\<exists>s. graph_node g (se_child e) = Some s \<and> lane_met s)) es)"
  by (induction es arbitrary: r)
    (auto simp: add_to_rollup_def is_met_def effective_outcome_met [symmetric] split: option.splits prod.splits)

lemma blocking_rollup:
  fixes g :: sub_goal_graph
  shows "blocking (aggregate_sub_goals g p) = [] \<longleftrightarrow>
    (\<forall>e \<in> set (sg_edges g). se_parent e = p \<longrightarrow> se_kind e = Required \<longrightarrow> (\<forall>s. graph_node g (se_child e) = Some s \<longrightarrow> lane_met s))"
proof -
  have one: "(\<exists>l \<in> set (ru_lanes (add_to_rollup g \<lparr>ru_required_total = 0, ru_required_met = 0, ru_lanes = []\<rparr> e)).
        is_required (sl_kind l) \<and> \<not> is_met (sl_outcome l)) \<longleftrightarrow>
      se_kind e = Required \<and> (\<exists>s. graph_node g (se_child e) = Some s \<and> \<not> lane_met s)" for e
    by (auto simp: add_to_rollup_def is_required_def is_met_def effective_outcome_met [symmetric] split: option.splits prod.splits)
  show ?thesis
    unfolding blocking_def aggregate_sub_goals_def rollup_lanes filter_empty_conv using one by fastforce
qed

text \<open>
  C14: a parent may proceed exactly when every required lane under it is met by its
  structured verdicts: it was not superseded, it reported success, none of its verdicts
  failed and every criterion it owes has a met verdict. The summary of a report and the
  lane's own claim of success do not count beyond that, and the two counters agree exactly
  in this case.
\<close>

theorem parent_proceeds_iff:
  "(parent_may_proceed (aggregate_sub_goals g p) \<longleftrightarrow>
     (\<forall>e \<in> set (sg_edges g). se_parent e = p \<longrightarrow> se_kind e = Required \<longrightarrow> (\<forall>s. graph_node g (se_child e) = Some s \<longrightarrow> lane_met s))) \<and>
   (parent_may_proceed (aggregate_sub_goals g p) \<longleftrightarrow>
     ru_required_met (aggregate_sub_goals g p) = ru_required_total (aggregate_sub_goals g p))"
proof
  let ?es = "filter (\<lambda>e. se_parent e = p) (sg_edges g)"
  show may: "parent_may_proceed (aggregate_sub_goals g p) \<longleftrightarrow>
     (\<forall>e \<in> set (sg_edges g). se_parent e = p \<longrightarrow> se_kind e = Required \<longrightarrow> (\<forall>s. graph_node g (se_child e) = Some s \<longrightarrow> lane_met s))"
    by (simp add: parent_may_proceed_def blocking_rollup)
  let ?all = "filter (\<lambda>e. is_required (se_kind e) \<and> graph_node g (se_child e) \<noteq> None) ?es"
  let ?met = "filter (\<lambda>e. is_required (se_kind e) \<and> (\<exists>s. graph_node g (se_child e) = Some s \<and> lane_met s)) ?es"
  have "?met = filter (\<lambda>e. \<exists>s. graph_node g (se_child e) = Some s \<and> lane_met s) ?all" by (auto intro: filter_cong)
  then have "length ?met = length ?all \<longleftrightarrow> (\<forall>e \<in> set ?all. \<exists>s. graph_node g (se_child e) = Some s \<and> lane_met s)"
    by (simp only: length_filter_all)
  moreover have "ru_required_met (aggregate_sub_goals g p) = length ?met" "ru_required_total (aggregate_sub_goals g p) = length ?all"
    by (simp_all add: aggregate_sub_goals_def rollup_counts)
  moreover have "(\<forall>e \<in> set ?all. \<exists>s. graph_node g (se_child e) = Some s \<and> lane_met s) \<longleftrightarrow>
     (\<forall>e \<in> set (sg_edges g). se_parent e = p \<longrightarrow> se_kind e = Required \<longrightarrow> (\<forall>s. graph_node g (se_child e) = Some s \<longrightarrow> lane_met s))"
    unfolding is_required_def set_filter by (smt (verit) mem_Collect_eq not_None_eq option.inject)
  ultimately show "parent_may_proceed (aggregate_sub_goals g p) \<longleftrightarrow>
     ru_required_met (aggregate_sub_goals g p) = ru_required_total (aggregate_sub_goals g p)"
    unfolding may by presburger
qed

theorem parent_proceeds_iff_witness:
  "\<not> parent_may_proceed (aggregate_sub_goals (apply_declaration
     \<lparr>sd_nodes = [sub_goal_node_new ''a'' ''first''], sd_edges = [edge_required ''goal'' ''a'']\<rparr> empty_graph) ''goal'')"
proof -
  let ?g = "apply_declaration \<lparr>sd_nodes = [sub_goal_node_new ''a'' ''first''], sd_edges = [edge_required ''goal'' ''a'']\<rparr> empty_graph"
  have "edge_required ''goal'' ''a'' \<in> set (sg_edges ?g)" "\<exists>s. graph_node ?g ''a'' = Some s \<and> \<not> lane_met s"
    by (simp_all add: apply_declaration_def declare_node_def declare_edge_def empty_graph_def graph_node_def sub_goal_node_new_def
        root_sub_goal_id_def lane_met_def)
  with parent_proceeds_iff [of ?g "''goal''"] show ?thesis by (auto simp: edge_required_def)
qed

text \<open>
  A declaration that repeats an edge with another kind is accepted and then ignored: the
  lane stays optional, and the parent may proceed although the lane never ran.
\<close>

lemma required_redeclaration_ignored:
  fixes g :: sub_goal_graph
  defines "g \<equiv> apply_declaration \<lparr>sd_nodes = [sub_goal_node_new ''a'' ''first''], sd_edges = [edge_optional ''goal'' ''a'']\<rparr> empty_graph"
    and "d \<equiv> \<lparr>sd_nodes = [], sd_edges = [edge_required ''goal'' ''a'']\<rparr>"
  shows "validate_declaration g d default_sub_goal_limits = Inr ()" "apply_declaration d g = g"
    "parent_may_proceed (aggregate_sub_goals (apply_declaration d g) ''goal'')"
  unfolding g_def d_def by code_simp+

end
