(* ===== verification/Goal_Properties.thy ===== *)
theory Goal_Properties
  imports Goal_Session Sub_Goal_Properties
begin

text \<open>
  What a goal's session guarantees: replaying the ledger gives the live goal, the mirrors
  and the memo of the sub-goal graph never go stale, the graph stays within its limits, a
  wait is settled once, and automatic lanes never gate their goal. The sessions are those
  that any sequence of calls reaches, each call with its own settings and clock readings;
  where a property needs the calls to agree with the session they find, it says so, and two
  lemmas at the end show what happens otherwise.
\<close>

section \<open>Replay\<close>

lemma reduce_snoc: "reduce_goal_ledger (es @ [e]) = reduce_entry (reduce_goal_ledger es) e"
  by (simp add: reduce_goal_ledger_def)

lemma reduce_Nil [simp]: "reduce_goal_ledger [] = None"
  by (simp add: reduce_goal_ledger_def)

definition same_goal :: "goal_ledger_state \<Rightarrow> 'p goal_snapshot \<Rightarrow> bool" where
  "same_goal st g \<longleftrightarrow>
     ls_version st = gn_version g \<and> ls_active st = gn_active g \<and> ls_status st = gn_status g \<and> ls_budget st = gn_budget g \<and>
     ls_progress st = gn_progress g \<and> ls_attempts st = gn_attempts g \<and> ls_criteria st = gn_criteria g \<and>
     ls_snoozed_until_ms st = gn_snoozed_until_ms g \<and> ls_wait st = gn_wait g \<and> ls_stop_reason st = gn_stop_reason g \<and>
     ls_transferred_from st = gn_transferred_from g \<and> ls_transferred_to st = gn_transferred_to g"

lemma same_goal_seq [simp]: "same_goal (st\<lparr>ls_last_seq := n\<rparr>) g = same_goal st g"
  by (simp add: same_goal_def)

definition replays :: "'p goal_session \<Rightarrow> bool" where
  "replays s \<longleftrightarrow>
     (case gs_goal s of
        None \<Rightarrow> True
      | Some g \<Rightarrow> is_installed (gn_version g) (gs_ledger s) \<and> (\<exists>st. reduce_goal_ledger (gs_ledger s) = Some st \<and> same_goal st g))"

lemma is_installed_append [simp]: "is_installed v (es @ es') \<longleftrightarrow> is_installed v es \<or> is_installed v es'"
  by (auto simp: is_installed_def)

lemma is_installed_simps [simp]: "is_installed v [] = False"
  "is_installed v (e # es) \<longleftrightarrow> (case le_op e of Installed v' _ _ _ \<Rightarrow> v' = v | _ \<Rightarrow> False) \<or> is_installed v es"
  by (auto simp: is_installed_def)

text \<open>What appending an entry does to the session.\<close>

lemma append_at [simp]:
  "gs_goal (fst (goal_ledger_append_at op at s)) = gs_goal s"
  "gs_mirror (fst (goal_ledger_append_at op at s)) = gs_mirror s"
  "gs_runtime_mirror (fst (goal_ledger_append_at op at s)) = gs_runtime_mirror s"
  "gs_graph_cache (fst (goal_ledger_append_at op at s)) = None"
  "gs_stopped_by_abort (fst (goal_ledger_append_at op at s)) = gs_stopped_by_abort s"
  "gs_chat_id (fst (goal_ledger_append_at op at s)) = gs_chat_id s"
  "is_installed v (gs_ledger (fst (goal_ledger_append_at op at s))) \<longleftrightarrow>
     is_installed v (gs_ledger s) \<or> (case op of Installed v' _ _ _ \<Rightarrow> v' = v | _ \<Rightarrow> False)"
  by (auto simp: goal_ledger_append_at_def Let_def)

definition is_install :: "goal_ledger_op \<Rightarrow> bool" where
  "is_install op \<longleftrightarrow> (case op of Installed _ _ _ _ \<Rightarrow> True | _ \<Rightarrow> False)"

lemma reduce_append:
  assumes "\<not> is_install op"
  shows "\<exists>n. reduce_goal_ledger (gs_ledger (fst (goal_ledger_append_at op at s))) =
    map_option (\<lambda>st. (apply_op at op st)\<lparr>ls_last_seq := n\<rparr>) (reduce_goal_ledger (gs_ledger s))"
  using assms
  by (cases op) (auto simp: goal_ledger_append_at_def Let_def reduce_snoc reduce_entry_def is_install_def option.map_comp comp_def)

lemma reduce_append_install:
  "\<exists>n. reduce_goal_ledger (gs_ledger (fst (goal_ledger_append_at (Installed v a b cs) at s))) =
    Some ((ledger_state_new v a b cs)\<lparr>ls_last_seq := n\<rparr>)"
  by (auto simp: goal_ledger_append_at_def Let_def reduce_snoc reduce_entry_def)

text \<open>A method that changes snapshot and ledger alike keeps the replay.\<close>

lemma commit_goal_fields [simp]:
  "gs_goal (commit_goal g op at s) = Some g" "gs_chat_id (commit_goal g op at s) = gs_chat_id s"
  "gs_ledger (commit_goal g op at s) = gs_ledger (fst (goal_ledger_append_at op at s))"
  "gs_graph_cache (commit_goal g op at s) = None" "gs_stopped_by_abort (commit_goal g op at s) = gs_stopped_by_abort s"
  "gs_mirror (commit_goal g op at s) = goal_runtime_projection (Some g)"
  "gs_runtime_mirror (commit_goal g op at s) = goal_runtime_projection (Some g)"
  by (simp_all add: commit_goal_def emit_goal_status_def refresh_goal_runtime_mirror_def mark_persisted_runtime_changed_def
      increment_version_def goal_ledger_append_at_def Let_def)

lemma replays_commit:
  assumes "replays s" "gs_goal s = Some g" "gn_version g' = gn_version g" "\<not> is_install op"
    and "\<And>st. same_goal st g \<Longrightarrow> same_goal (apply_op at op st) g'"
  shows "replays (commit_goal g' op at s)"
proof -
  from assms(1,2) obtain st where st: "reduce_goal_ledger (gs_ledger s) = Some st" "same_goal st g" "is_installed (gn_version g) (gs_ledger s)"
    by (auto simp: replays_def)
  obtain n where "reduce_goal_ledger (gs_ledger (fst (goal_ledger_append_at op at s))) = Some ((apply_op at op st)\<lparr>ls_last_seq := n\<rparr>)"
    using reduce_append [OF assms(4), of at s] st(1) by auto
  with st assms(3,5) show ?thesis by (auto simp: replays_def)
qed

lemma replays_same: "replays s \<Longrightarrow> gs_goal s' = gs_goal s \<Longrightarrow> gs_ledger s' = gs_ledger s \<Longrightarrow> replays s'"
  by (simp add: replays_def split: option.splits)

lemma same_goal_account:
  "same_goal st g \<Longrightarrow> same_goal (account t f st) (live_account t t f g)"
  by (simp add: same_goal_def account_def live_account_def Let_def)

lemmas snapshot_defs = snapshot_record_progress_def snapshot_record_verifier_attempt_def snapshot_note_no_progress_turn_def
  snapshot_record_nudge_def snapshot_reset_no_progress_def snapshot_push_attempt_def snapshot_push_event_def

lemma live_account_version [simp]: "gn_version (live_account t1 t2 f g) = gn_version g"
  by (simp add: live_account_def Let_def)

section \<open>The invariant\<close>

definition mirrors_ok :: "'p goal_session \<Rightarrow> bool" where
  "mirrors_ok s \<longleftrightarrow> gs_mirror s = goal_runtime_projection (gs_goal s) \<and> gs_runtime_mirror s = goal_runtime_projection (gs_goal s)"

definition goal_inv :: "'p goal_session \<Rightarrow> bool" where
  "goal_inv s \<longleftrightarrow> replays s \<and> mirrors_ok s"

lemma inv_commit:
  assumes "goal_inv s" "gs_goal s = Some g" "gn_version g' = gn_version g" "\<not> is_install op"
    and "\<And>st. same_goal st g \<Longrightarrow> same_goal (apply_op at op st) g'"
  shows "goal_inv (commit_goal g' op at s)"
  using assms replays_commit [OF _ assms(2-5)] by (simp add: goal_inv_def mirrors_ok_def)

lemma not_install [simp]: "\<not> is_install (StatusChanged a b r)" "\<not> is_install (ProgressRecorded x y z)"
  "\<not> is_install (VerifierAttemptRecorded x)" "\<not> is_install NoProgressNoted" "\<not> is_install NudgeRecorded"
  "\<not> is_install (ProgressReset r)" "\<not> is_install (AttemptPushed x1)" "\<not> is_install (EventPushed x2)"
  "\<not> is_install (BudgetSet x3)" "\<not> is_install (CriteriaSet x4)" "\<not> is_install (SnoozeSet x5)" "\<not> is_install (WaitSet x6)"
  "\<not> is_install (SubGoalsDeclared d)" "\<not> is_install (SubGoalDispatched i w)" "\<not> is_install (SubGoalReported i rp)"
  "\<not> is_install (SubGoalSuperseded i reason)"
  by (simp_all add: is_install_def)

text \<open>Changes outside goal, ledger and mirrors.\<close>

lemma inv_cong:
  assumes "goal_inv s" "gs_goal s' = gs_goal s" "gs_ledger s' = gs_ledger s" "mirrors_ok s'"
  shows "goal_inv s'"
  using assms replays_same [of s s'] by (simp add: goal_inv_def)

lemma inv_emit [simp]: "goal_inv s \<Longrightarrow> goal_inv (emit_goal_status s)"
  by (erule inv_cong) (simp_all add: emit_goal_status_def refresh_goal_runtime_mirror_def mirrors_ok_def)

lemma inv_version [simp]: "goal_inv s \<Longrightarrow> goal_inv (increment_version s)"
  by (rule inv_cong [of s]) (simp_all add: increment_version_def goal_inv_def mirrors_ok_def)

lemma inv_marked [simp]: "goal_inv s \<Longrightarrow> goal_inv (mark_persisted_runtime_changed s)"
  by (simp add: mark_persisted_runtime_changed_def)

lemma inv_flags [simp]:
  "goal_inv s \<Longrightarrow> goal_inv (s\<lparr>gs_stopped_by_abort := x\<rparr>)" "goal_inv s \<Longrightarrow> goal_inv (s\<lparr>gs_turn_evidence := x\<rparr>)"
  "goal_inv s \<Longrightarrow> goal_inv (s\<lparr>gs_verification_generation := n\<rparr>)"
  by (rule inv_cong [of s]; simp add: goal_inv_def mirrors_ok_def)+

section \<open>Every method keeps the invariant\<close>

lemma same_goal_progress:
  "same_goal st g \<Longrightarrow> same_goal (apply_op t (ProgressRecorded tokens made cents) st) (snapshot_record_progress t t tokens made cents g)"
  "same_goal st g \<Longrightarrow> same_goal (apply_op t (VerifierAttemptRecorded tokens) st) (snapshot_record_verifier_attempt t t tokens g)"
  "same_goal st g \<Longrightarrow> same_goal (apply_op t NoProgressNoted st) (snapshot_note_no_progress_turn t t g)"
  "same_goal st g \<Longrightarrow> same_goal (apply_op t NudgeRecorded st) (snapshot_record_nudge t g)"
  "same_goal st g \<Longrightarrow> same_goal (apply_op t (ProgressReset r) st) (snapshot_reset_no_progress t g)"
  "same_goal st g \<Longrightarrow> same_goal (apply_op t (AttemptPushed a) st) (snapshot_push_attempt a g)"
  "same_goal st g \<Longrightarrow> same_goal (apply_op t (EventPushed e) st) (snapshot_push_event e g)"
  by (simp_all add: snapshot_defs same_goal_account) (simp_all add: same_goal_def Let_def)

lemma snapshot_versions [simp]:
  "gn_version (snapshot_record_progress t1 t2 tokens made cents g) = gn_version g"
  "gn_version (snapshot_record_verifier_attempt t1 t2 tokens g) = gn_version g"
  "gn_version (snapshot_note_no_progress_turn t1 t2 g) = gn_version g"
  "gn_version (snapshot_record_nudge t g) = gn_version g" "gn_version (snapshot_reset_no_progress t g) = gn_version g"
  "gn_version (snapshot_push_attempt a g) = gn_version g" "gn_version (snapshot_push_event e g) = gn_version g"
  by (simp_all add: snapshot_defs Let_def)

lemma inv_progress: "goal_inv s \<Longrightarrow> goal_inv (fst (goal_record_progress_with_cost t t t tokens made cents s))"
  by (cases "gs_goal s")
    (simp_all add: goal_record_progress_with_cost_def inv_commit [OF _ _ _ _ same_goal_progress(1)] del: apply_op.simps)

lemma inv_accounting:
  assumes "goal_inv s"
  shows "goal_inv (fst (goal_record_progress_from_usage t t t c1 c2 cents s))"
    "goal_inv (fst (goal_record_verifier_attempt t t t tokens s))"
    "goal_inv (fst (goal_note_no_progress_turn t t t s))"
    "goal_inv (fst (goal_push_attempt t a s))" "goal_inv (fst (goal_push_event t e s))"
  using assms inv_progress [of "s\<lparr>gs_turn_evidence := False\<rparr>"]
  by (cases "gs_goal s";
      simp add: goal_record_progress_from_usage_def goal_record_verifier_attempt_def goal_note_no_progress_turn_def
        goal_push_attempt_def goal_push_event_def Let_def inv_commit [OF _ _ _ _ same_goal_progress(2)]
        inv_commit [OF _ _ _ _ same_goal_progress(3)] inv_commit [OF _ _ _ _ same_goal_progress(6)]
        inv_commit [OF _ _ _ _ same_goal_progress(7)] del: apply_op.simps)+

lemma reset_unchanged: "reset_key g = reset_key (snapshot_reset_no_progress t g) \<Longrightarrow> snapshot_reset_no_progress t g = g"
  by (auto simp: reset_key_def snapshot_reset_no_progress_def Let_def)

lemma inv_reset:
  assumes "goal_inv s"
  shows "goal_inv (fst (goal_reset_no_progress t t s))"
proof (cases "gs_goal s")
  case (Some g)
  show ?thesis
  proof (cases "reset_key g = reset_key (snapshot_reset_no_progress t g)")
    case True
    then have "s\<lparr>gs_goal := Some (snapshot_reset_no_progress t g)\<rparr> = s" using Some reset_unchanged [of g t] by simp
    with True Some assms show ?thesis by (simp add: goal_reset_no_progress_def Let_def)
  next
    case False
    have "goal_inv (commit_goal (snapshot_reset_no_progress t g) (ProgressReset ''user_message'') t s)"
      by (rule inv_commit [OF assms Some _ _ same_goal_progress(5)]) simp_all
    with False Some show ?thesis by (simp add: goal_reset_no_progress_def Let_def)
  qed
qed (simp add: goal_reset_no_progress_def assms)

lemma inv_status: "goal_inv s \<Longrightarrow> goal_inv (fst (goal_set_status_reason t status reason s))"
  by (cases "gs_goal s") (auto simp: goal_set_status_reason_def same_goal_def intro!: inv_commit)

lemma inv_snooze: "goal_inv s \<Longrightarrow> goal_inv (fst (goal_set_snooze t until s))"
  by (cases "gs_goal s") (auto simp: goal_set_snooze_def same_goal_def intro!: inv_commit)

lemma inv_waits:
  assumes "goal_inv s"
  shows "goal_inv (fst (goal_begin_wait w t s))" "goal_inv (fst (goal_settle_wait subject t s))"
  using assms by (cases "gs_goal s"; auto simp: goal_begin_wait_def goal_settle_wait_def same_goal_def Let_def
      intro!: inv_commit split: option.split)+

lemma reduce_nudge:
  "le_op e = NudgeRecorded \<Longrightarrow> reduce_entry x e =
     map_option (\<lambda>st. st\<lparr>ls_progress := (ls_progress st)\<lparr>gp_last_nudge_at_ms := le_at_ms e\<rparr>, ls_last_seq := le_seq e\<rparr>) x"
  by (cases x) (simp_all add: reduce_entry_def)

lemma nudge_move_replays:
  assumes "replays s" "gs_goal s = Some g" "gs_ledger s \<noteq> []" "le_op (last (gs_ledger s)) = NudgeRecorded"
  shows "replays (s\<lparr>gs_goal := Some (snapshot_record_nudge at g), gs_ledger := butlast (gs_ledger s) @ [(last (gs_ledger s))\<lparr>le_at_ms := at\<rparr>]\<rparr>)"
proof -
  obtain es e where es: "gs_ledger s = es @ [e]" using assms(3) by (metis rev_exhaust)
  from assms(1,2) obtain st where st: "reduce_goal_ledger (gs_ledger s) = Some st" "same_goal st g" "is_installed (gn_version g) (gs_ledger s)"
    by (auto simp: replays_def)
  from st(1) assms(4) obtain st0 where
    st0: "reduce_goal_ledger es = Some st0" "st = st0\<lparr>ls_progress := (ls_progress st0)\<lparr>gp_last_nudge_at_ms := le_at_ms e\<rparr>, ls_last_seq := le_seq e\<rparr>"
    by (auto simp: es reduce_snoc reduce_nudge)
  have "gn_progress g = (ls_progress st0)\<lparr>gp_last_nudge_at_ms := le_at_ms e\<rparr>" using st(2) by (simp add: st0(2) same_goal_def)
  with st st0 assms(4) show ?thesis
    by (simp add: replays_def es reduce_snoc reduce_nudge same_goal_def snapshot_record_nudge_def)
qed

lemma inv_nudge:
  assumes "goal_inv s"
  shows "goal_inv (fst (goal_record_nudge at s))"
proof (cases "gs_goal s")
  case (Some g)
  show ?thesis
  proof (cases "gs_ledger s \<noteq> [] \<and> le_op (last (gs_ledger s)) = NudgeRecorded")
    case True
    let ?s = "s\<lparr>gs_goal := Some (snapshot_record_nudge at g), gs_ledger := butlast (gs_ledger s) @ [(last (gs_ledger s))\<lparr>le_at_ms := at\<rparr>]\<rparr>"
    have "replays ?s" using nudge_move_replays Some True assms by (auto simp: goal_inv_def)
    then have "goal_inv (emit_goal_status (mark_persisted_runtime_changed ?s))"
      using assms
      by (simp add: goal_inv_def mirrors_ok_def replays_def emit_goal_status_def refresh_goal_runtime_mirror_def
          mark_persisted_runtime_changed_def increment_version_def split: option.splits)
    with True Some show ?thesis by (simp add: goal_record_nudge_def Let_def)
  next
    case False
    have "goal_inv (commit_goal (snapshot_record_nudge at g) NudgeRecorded at s)"
      by (rule inv_commit [OF assms Some _ _ same_goal_progress(4)]) simp_all
    with False Some show ?thesis by (auto simp: goal_record_nudge_def Let_def commit_goal_def)
  qed
qed (simp add: goal_record_nudge_def assms)

text \<open>Lane operations.\<close>

lemma replays_append:
  assumes "replays s" "\<not> is_install op" "\<And>st g. same_goal st g \<Longrightarrow> same_goal (apply_op at op st) (g :: 'p goal_snapshot)"
  shows "replays (fst (goal_ledger_append_at op at (s :: 'p goal_session)))"
proof (cases "gs_goal s")
  case (Some g)
  with assms(1) obtain st where "reduce_goal_ledger (gs_ledger s) = Some st" "same_goal st g" "is_installed (gn_version g) (gs_ledger s)"
    by (auto simp: replays_def)
  with reduce_append [OF assms(2), of at s] assms(3) Some show ?thesis by (auto simp: replays_def)
qed (simp add: replays_def)

lemma inv_append_lane:
  assumes "goal_inv s" "\<not> is_install op" "\<And>st g. same_goal st g \<Longrightarrow> same_goal (apply_op at op st) (g :: 'p goal_snapshot)"
  shows "goal_inv (mark_persisted_runtime_changed (fst (goal_ledger_append_at op at (s :: 'p goal_session))))"
  using replays_append [of s op at] assms by (intro inv_marked) (simp add: goal_inv_def mirrors_ok_def)

lemma inv_graph_of: "goal_inv s \<Longrightarrow> goal_inv (snd (sub_goal_graph_of s))"
  by (rule inv_cong [of s]) (simp_all add: goal_inv_def mirrors_ok_def sub_goal_graph_of_def Let_def split: option.splits)

lemma inv_lane_operation:
  assumes "goal_inv s" "op = SubGoalDispatched i w \<or> op = SubGoalReported i r \<or> op = SubGoalSuperseded i reason"
  shows "goal_inv (fst (lane_operation i op t s))"
  using inv_append_lane [OF inv_graph_of [OF assms(1)], of op t] inv_graph_of [OF assms(1)] assms(2)
  by (auto simp: lane_operation_def split_def same_goal_def)

lemma inv_declare: "goal_inv s \<Longrightarrow> goal_inv (fst (declare_sub_goals limits t d s))"
  using inv_append_lane [OF inv_graph_of, of s "SubGoalsDeclared d" t] inv_graph_of [of s]
  by (auto simp: declare_sub_goals_def split_def same_goal_def split: sum.split)

lemma inv_ensure_lane:
  assumes "goal_inv s"
  shows "goal_inv (fst (ensure_and_dispatch_sub_goal_lane limits cap t1 t2 w title s))"
proof -
  have dispatch: "goal_inv (fst (dispatch_sub_goal t i (Some w) s))" if "goal_inv s" for t i s
    unfolding dispatch_sub_goal_def by (rule inv_lane_operation [OF that]) simp
  show ?thesis
    using assms
    by (auto simp: ensure_and_dispatch_sub_goal_lane_def sub_goal_lane_for_owner_def split_def Let_def
        intro!: dispatch inv_graph_of inv_declare split: option.split prod.split sum.split)
qed

section \<open>Projections\<close>

text \<open>A goal that only its installation has shaped: what the ledger entries of an installation describe.\<close>

definition fresh_goal :: "'p goal_snapshot \<Rightarrow> bool" where
  "fresh_goal g \<longleftrightarrow> gn_progress g = default_goal_progress \<and> gn_attempts g = [] \<and> gn_snoozed_until_ms g = None \<and> gn_wait g = None \<and>
     gn_stop_reason g = None \<and> gn_transferred_from g = None \<and> gn_transferred_to g = None"

lemma ensure_installed_fields [simp]:
  "gs_goal (ensure_goal_ledger_installed t1 t2 s) = gs_goal s" "gs_mirror (ensure_goal_ledger_installed t1 t2 s) = gs_mirror s"
  "gs_runtime_mirror (ensure_goal_ledger_installed t1 t2 s) = gs_runtime_mirror s"
  "gs_stopped_by_abort (ensure_goal_ledger_installed t1 t2 s) = gs_stopped_by_abort s"
  by (simp_all add: ensure_goal_ledger_installed_def Let_def split: option.split)

lemma inv_ensure_installed:
  assumes "mirrors_ok s"
    and "\<And>g. gs_goal s = Some g \<Longrightarrow> if is_installed (gn_version g) (gs_ledger s) then replays s else fresh_goal g"
  shows "goal_inv (ensure_goal_ledger_installed t1 t2 s)"
proof (cases "gs_goal s")
  case None
  then show ?thesis using assms(1) by (simp add: goal_inv_def replays_def ensure_goal_ledger_installed_def)
next
  case (Some g)
  show ?thesis
  proof (cases "is_installed (gn_version g) (gs_ledger s)")
    case True
    with Some assms show ?thesis by (simp add: goal_inv_def ensure_goal_ledger_installed_def)
  next
    case False
    with Some assms(2) have fresh: "fresh_goal g" by simp
    let ?s1 = "fst (goal_ledger_append_at (Installed (gn_version g) (gn_active g) (gn_budget g) (gn_criteria g)) t1 s)"
    let ?initial = "if gn_active g then Active else Paused"
    let ?op = "StatusChanged ?initial (gn_status g) (get_or [] (gn_stop_reason g))"
    obtain n where st: "reduce_goal_ledger (gs_ledger ?s1) = Some ((ledger_state_new (gn_version g) (gn_active g) (gn_budget g) (gn_criteria g))\<lparr>ls_last_seq := n\<rparr>)"
      using reduce_append_install by blast
    have inst: "is_installed (gn_version g) (gs_ledger ?s1)" by simp
    have m: "mirrors_ok ?s1" "mirrors_ok (fst (goal_ledger_append_at ?op t2 ?s1))"
      using assms(1) by (simp_all add: mirrors_ok_def)
    show ?thesis
    proof (cases "gn_status g = ?initial")
      case True
      then have "replays ?s1" using fresh Some st inst by (auto simp: replays_def same_goal_def ledger_state_new_def fresh_goal_def)
      with True False Some m show ?thesis
        by (simp add: goal_inv_def ensure_goal_ledger_installed_def Let_def)
    next
      case status: False
      obtain k where "reduce_goal_ledger (gs_ledger (fst (goal_ledger_append_at ?op t2 ?s1))) =
          Some ((apply_op t2 ?op ((ledger_state_new (gn_version g) (gn_active g) (gn_budget g) (gn_criteria g))\<lparr>ls_last_seq := n\<rparr>))\<lparr>ls_last_seq := k\<rparr>)"
        using reduce_append [of ?op t2 ?s1] st by auto
      then have "replays (fst (goal_ledger_append_at ?op t2 ?s1))"
        using fresh Some inst by (auto simp: replays_def same_goal_def ledger_state_new_def fresh_goal_def reason_of_def)
      with status False Some m show ?thesis
        by (simp add: goal_inv_def ensure_goal_ledger_installed_def Let_def)
    qed
  qed
qed

text \<open>
  When the messages agree with the session: their newest goal is the current one, with its
  budget, or one that was never installed and carries no history.
\<close>

definition fresh_meta :: "'p goal_meta \<Rightarrow> 'p goal_session \<Rightarrow> bool" where
  "fresh_meta m s \<longleftrightarrow> \<not> is_installed (me_version m) (gs_ledger s) \<and> me_progress m = None \<and> me_attempts m = None \<and>
     me_transferred_from m = None \<and> me_transferred_to m = None"

definition keeps_goal :: "'p goal_meta \<Rightarrow> 'p goal_snapshot \<Rightarrow> bool" where
  "keeps_goal m g \<longleftrightarrow> migrate_legacy_default_hard_limits (get_or (gn_budget g) (me_budget m)) = gn_budget g \<and>
     or_else (gn_transferred_from g) (me_transferred_from m) = gn_transferred_from g \<and>
     or_else (gn_transferred_to g) (me_transferred_to m) = gn_transferred_to g"

definition agrees :: "'p goal_session \<Rightarrow> 'p projection \<Rightarrow> bool" where
  "agrees s pr \<longleftrightarrow>
     (case pr of
        GoalMessage m \<Rightarrow>
          (case gs_goal s of
             Some g \<Rightarrow> if gn_version g = me_version m then keeps_goal m g else fresh_meta m s
           | None \<Rightarrow> fresh_meta m s)
      | _ \<Rightarrow> True)"

lemma stamp_owner_same [simp]: "same_goal st (stamp_owner c old g) = same_goal st g"
  and stamp_owner_version [simp]: "gn_version (stamp_owner c old g) = gn_version g"
  and stamp_owner_fresh [simp]: "fresh_goal (stamp_owner c old g) = fresh_goal g"
  and stamp_owner_fields [simp]: "gn_wait (stamp_owner c old g) = gn_wait g" "gn_budget (stamp_owner c old g) = gn_budget g"
  by (auto simp: stamp_owner_def same_goal_def fresh_goal_def Let_def split: option.split goal_owner.split)

lemma or_else_simps [simp]: "or_else None y = y" "or_else (Some x) y = Some x"
  by (simp_all add: or_else_def)

lemma project_version [simp]: "gn_version (project_goal m old) = me_version m"
  by (simp add: project_goal_def Let_def)

lemma project_fresh:
  assumes "fresh_meta m s" "old = None \<or> (\<exists>g. old = Some g \<and> gn_version g \<noteq> me_version m)"
  shows "fresh_goal (project_goal m old)"
  using assms by (auto simp: project_goal_def fresh_goal_def fresh_meta_def Let_def)

lemma project_same:
  assumes "gn_version g = me_version m" "keeps_goal m g"
  shows "same_goal st (project_goal m (Some g)) = same_goal st g"
proof -
  have "get_or default_goal_budget (or_else (me_budget m) (Some (gn_budget g))) = get_or (gn_budget g) (me_budget m)"
    by (cases "me_budget m") simp_all
  with assms show ?thesis by (simp add: project_goal_def same_goal_def keeps_goal_def Let_def)
qed

lemma inv_rebuild:
  assumes inv: "goal_inv s" and agrees: "agrees s pr"
  shows "goal_inv (rebuild_goal_projection_from_messages t1 t2 pr s)"
proof -
  define g where "g = map_option (stamp_owner (gs_chat_id s) (gs_goal s)) (goal_snapshot_from_messages pr (gs_goal s))"
  let ?s = "refresh_goal_runtime_mirror (s\<lparr>gs_goal := g\<rparr>)"
  have fields: "gs_goal ?s = g" "gs_ledger ?s = gs_ledger s" "mirrors_ok ?s"
    by (simp_all add: refresh_goal_runtime_mirror_def mirrors_ok_def)
  have "goal_inv (ensure_goal_ledger_installed t1 t2 ?s)"
  proof (rule inv_ensure_installed [OF fields(3)])
    fix h assume "gs_goal ?s = Some h"
    then have h: "g = Some h" using fields(1) by simp
    then obtain h0 where h0: "goal_snapshot_from_messages pr (gs_goal s) = Some h0" "h = stamp_owner (gs_chat_id s) (gs_goal s) h0"
      by (auto simp: g_def)
    have old: "is_installed (gn_version h) (gs_ledger s) \<and> replays ?s"
      if "gs_goal s = Some g0" "gn_version h0 = gn_version g0" "\<And>st. same_goal st h0 = same_goal st g0" for g0
      using that inv h h0(2) fields by (auto simp: goal_inv_def replays_def)
    show "if is_installed (gn_version h) (gs_ledger ?s) then replays ?s else fresh_goal h"
    proof (cases pr)
      case Unreadable
      with h0 old show ?thesis by (simp add: goal_snapshot_from_messages_def fields(2))
    next
      case NoGoalMessage
      with h0 show ?thesis by (simp add: goal_snapshot_from_messages_def)
    next
      case (GoalMessage m)
      with h0 have hm: "h0 = project_goal m (gs_goal s)" by (simp add: goal_snapshot_from_messages_def)
      show ?thesis
      proof (cases "\<exists>g0. gs_goal s = Some g0 \<and> gn_version g0 = me_version m")
        case True
        then obtain g0 where g0: "gs_goal s = Some g0" "gn_version g0 = me_version m" by blast
        with agrees GoalMessage have "keeps_goal m g0" by (simp add: agrees_def)
        with old [OF g0(1)] project_same [OF g0(2)] hm g0 show ?thesis by (simp add: fields(2))
      next
        case False
        with agrees GoalMessage have fm: "fresh_meta m s" by (cases "gs_goal s") (auto simp: agrees_def)
        with False hm project_fresh [OF fm, of "gs_goal s"] h0(2) show ?thesis
          by (cases "gs_goal s") (auto simp: fresh_meta_def fields(2))
      qed
    qed
  qed
  then show ?thesis by (simp add: rebuild_goal_projection_from_messages_def Let_def g_def)
qed

lemma inv_finish_install:
  assumes "goal_inv s" "agrees s pr"
  shows "goal_inv (finish_install t t t pr criteria s)"
proof -
  let ?s1 = "rebuild_goal_projection_from_messages t t pr s"
  have inv: "goal_inv ?s1" by (rule inv_rebuild [OF assms])
  show ?thesis
  proof (cases "criteria = []")
    case True
    with inv show ?thesis by (simp add: finish_install_def Let_def)
  next
    case False
    show ?thesis
    proof (cases "gs_goal ?s1")
      case None
      have "?s1\<lparr>gs_goal := map_option (\<lambda>g. g\<lparr>gn_criteria := criteria\<rparr>) (gs_goal ?s1)\<rparr> = ?s1" by (simp add: None)
      moreover have "goal_inv (fst (goal_ledger_append_at (CriteriaSet criteria) t ?s1))"
        using inv None by (simp add: goal_inv_def replays_def mirrors_ok_def)
      ultimately show ?thesis unfolding finish_install_def Let_def using False by (simp only: if_True not_False_eq_True inv_emit inv_flags)
    next
      case (Some g)
      let ?g = "g\<lparr>gn_criteria := criteria\<rparr>" and ?s2 = "?s1\<lparr>gs_goal := Some (g\<lparr>gn_criteria := criteria\<rparr>)\<rparr>"
      have "goal_inv (commit_goal ?g (CriteriaSet criteria) t ?s1)"
        using inv Some by (intro inv_commit) (auto simp: same_goal_def)
      then have "goal_inv (emit_goal_status ((fst (goal_ledger_append_at (CriteriaSet criteria) t ?s2))\<lparr>gs_stopped_by_abort := False\<rparr>))"
        by (rule inv_cong) (simp_all add: emit_goal_status_def refresh_goal_runtime_mirror_def mirrors_ok_def goal_ledger_append_at_def Let_def)
      with Some False show ?thesis by (simp add: finish_install_def Let_def)
    qed
  qed
qed

text \<open>A budget that the user set is explicit, and is written into the message of the current goal.\<close>

definition sets_budget :: "'p goal_session \<Rightarrow> 'p projection \<Rightarrow> goal_budget \<Rightarrow> bool" where
  "sets_budget s pr b \<longleftrightarrow>
     (case (gs_goal s, pr) of
        (Some g, GoalMessage m) \<Rightarrow> gn_version g = me_version m \<and> me_budget m = Some b \<and> gb_explicit b \<and>
          or_else (gn_transferred_from g) (me_transferred_from m) = gn_transferred_from g \<and>
          or_else (gn_transferred_to g) (me_transferred_to m) = gn_transferred_to g
      | _ \<Rightarrow> False)"

lemma inv_finish_set_budget:
  assumes inv: "goal_inv s" and b: "sets_budget s pr b"
  shows "goal_inv (finish_set_budget t t t t t pr b s)"
proof -
  from b obtain g m where gm: "gs_goal s = Some g" "pr = GoalMessage m" "gn_version g = me_version m" "me_budget m = Some b" "gb_explicit b"
    "or_else (gn_transferred_from g) (me_transferred_from m) = gn_transferred_from g"
    "or_else (gn_transferred_to g) (me_transferred_to m) = gn_transferred_to g"
    by (auto simp: sets_budget_def split: option.splits projection.splits)
  let ?g = "stamp_owner (gs_chat_id s) (gs_goal s) (project_goal m (gs_goal s))"
  let ?s1 = "rebuild_goal_projection_from_messages t t pr s"
  let ?s2 = "fst (goal_ledger_append_at (BudgetSet b) t ?s1)"
  from inv gm(1) obtain st where st: "reduce_goal_ledger (gs_ledger s) = Some st" "same_goal st g" "is_installed (gn_version g) (gs_ledger s)"
    by (auto simp: goal_inv_def replays_def)
  have s1: "?s1 = refresh_goal_runtime_mirror (s\<lparr>gs_goal := Some ?g\<rparr>)"
    using gm st(3) by (simp add: rebuild_goal_projection_from_messages_def goal_snapshot_from_messages_def Let_def
        ensure_goal_ledger_installed_def refresh_goal_runtime_mirror_def)
  have "same_goal (st\<lparr>ls_budget := b\<rparr>) (project_goal m (Some g))"
    using st(2) gm by (simp add: same_goal_def project_goal_def Let_def migrate_legacy_default_hard_limits_def)
  then have same: "same_goal (apply_op t (BudgetSet b) st) ?g" using gm(1) by simp
  have fields: "gs_goal ?s2 = Some ?g" "mirrors_ok ?s2"
    by (simp_all add: s1 refresh_goal_runtime_mirror_def mirrors_ok_def)
  have led: "gs_ledger ?s1 = gs_ledger s" by (simp add: s1 refresh_goal_runtime_mirror_def)
  have "replays ?s2"
  proof -
    obtain n where "reduce_goal_ledger (gs_ledger ?s2) = Some ((apply_op t (BudgetSet b) st)\<lparr>ls_last_seq := n\<rparr>)"
      using reduce_append [of "BudgetSet b" t ?s1] st(1) unfolding led by auto
    moreover have "is_installed (gn_version ?g) (gs_ledger ?s2)" using st(3) gm(3) by (simp add: led)
    ultimately show ?thesis using same by (simp add: replays_def fields(1) del: apply_op.simps append_at)
  qed
  then have "goal_inv ?s2" using fields by (simp add: goal_inv_def)
  then show ?thesis unfolding finish_set_budget_def Let_def
    by (intro inv_emit inv_marked) (auto intro: inv_status split: option.split)
qed

lemma agrees_cong:
  assumes "map_option (\<lambda>g. (gn_version g, gn_budget g, gn_transferred_from g, gn_transferred_to g)) (gs_goal s') =
      map_option (\<lambda>g. (gn_version g, gn_budget g, gn_transferred_from g, gn_transferred_to g)) (gs_goal s)"
    and "\<And>v. is_installed v (gs_ledger s') = is_installed v (gs_ledger s)"
  shows "agrees s' pr = agrees s pr"
  using assms by (cases "gs_goal s"; cases "gs_goal s'"; cases pr) (auto simp: agrees_def keeps_goal_def fresh_meta_def)

lemma agrees_status: "agrees (fst (goal_set_status_reason t status reason s)) pr = agrees s pr"
  and agrees_reset: "agrees (fst (goal_reset_no_progress t t s)) pr = agrees s pr"
  and agrees_abort: "agrees (s\<lparr>gs_stopped_by_abort := x\<rparr>) pr = agrees s pr"
  by (rule agrees_cong; cases "gs_goal s";
      simp add: goal_set_status_reason_def goal_reset_no_progress_def Let_def snapshot_reset_no_progress_def emit_goal_status_def
        refresh_goal_runtime_mirror_def)+

lemma inv_goal_event: "goal_inv s \<Longrightarrow> (\<And>p. pr = Some p \<Longrightarrow> agrees s p) \<Longrightarrow> goal_inv (add_goal_event t1 t2 pr s)"
  by (auto simp: add_goal_event_def intro: inv_version inv_rebuild split: option.split)

lemma inv_abort:
  assumes "goal_inv s" "\<And>p. pr = Some p \<Longrightarrow> agrees s p"
  shows "goal_inv (fst (stop_goal_on_manual_abort t t t pr s))"
    "goal_inv (fst (reactivate_goal_stopped_by_manual_abort t t t pr s))"
  using assms
  by (auto simp: stop_goal_on_manual_abort_def reactivate_goal_stopped_by_manual_abort_def goal_set_status_def Let_def
      agrees_abort agrees_status intro!: inv_goal_event inv_flags inv_status split: option.split)

lemma inv_clear_marker: "goal_inv s \<Longrightarrow> goal_inv (clear_goal_stopped_by_abort_marker t s)"
  by (auto simp: clear_goal_stopped_by_abort_marker_def Let_def intro!: inv_status inv_flags split: option.split)

lemma inv_user_turn:
  assumes "goal_inv s" "\<And>p. pr = Some p \<Longrightarrow> agrees s p"
  shows "goal_inv (note_user_turn_resets_goal_pursuit t t t t t pr s)"
  unfolding note_user_turn_resets_goal_pursuit_def
  by (rule inv_abort(2)) (simp_all add: assms inv_reset agrees_reset)

section \<open>Sessions as machines\<close>

text \<open>
  The methods of a session and of its callers that change the goal: those above, and the
  setters that load a goal, a ledger, or both from a trajectory, a task record or a transfer
  (\<open>OpRestore\<close> sets both before anything else runs).
\<close>

datatype 'p session_op =
    OpProgress nat bool nat | OpUsage nat nat nat | OpVerifier nat | OpNoProgress | OpNudge | OpReset
  | OpStatus goal_status string | OpSnooze "nat option" | OpAttempt goal_attempt | OpEvent goal_event
  | OpBeginWait goal_wait | OpSettleWait "goal_wait_subject option" goal_wait_resume | OpSupersedeVerification
  | OpReadGraph | OpDeclare sub_goal_declaration | OpDispatch string "sub_goal_owner option" | OpReport string sub_goal_report
  | OpSupersede string string | OpEnsureLane sub_goal_owner string
  | OpRebuild "'p projection" | OpInstall "'p projection" "goal_criterion list" | OpSetBudget "'p projection" goal_budget
  | OpAbort "'p projection option" | OpReactivate "'p projection option" | OpClearMarker | OpUserTurn "'p projection option"
  | OpToolResult tool_result "(string \<times> string) list list"
  | OpSetProjection "'p goal_snapshot option" | OpSetLedger "goal_ledger_entry list"
  | OpRestore "'p goal_snapshot option" "goal_ledger_entry list"

text \<open>
  A call of a method comes with the settings as they are read during the call and with what
  the clock says each time the call reads it.
\<close>

record 'p call =
  cl_limits :: sub_goal_limits
  cl_cap :: nat
  cl_clock :: "nat \<Rightarrow> nat"
  cl_op :: "'p session_op"

primrec run_op :: "sub_goal_limits \<Rightarrow> nat \<Rightarrow> (nat \<Rightarrow> nat) \<Rightarrow> 'p session_op \<Rightarrow> 'p goal_session \<Rightarrow> 'p goal_session" where
  "run_op limits cap t (OpProgress tokens made cents) s = fst (goal_record_progress_with_cost (t 0) (t 1) (t 2) tokens made cents s)"
| "run_op limits cap t (OpUsage completion total_tokens cents) s =
     fst (goal_record_progress_from_usage (t 0) (t 1) (t 2) completion total_tokens cents s)"
| "run_op limits cap t (OpVerifier tokens) s = fst (goal_record_verifier_attempt (t 0) (t 1) (t 2) tokens s)"
| "run_op limits cap t OpNoProgress s = fst (goal_note_no_progress_turn (t 0) (t 1) (t 2) s)"
| "run_op limits cap t OpNudge s = fst (goal_record_nudge (t 0) s)"
| "run_op limits cap t OpReset s = fst (goal_reset_no_progress (t 0) (t 1) s)"
| "run_op limits cap t (OpStatus status reason) s = fst (goal_set_status_reason (t 0) status reason s)"
| "run_op limits cap t (OpSnooze until) s = fst (goal_set_snooze (t 0) until s)"
| "run_op limits cap t (OpAttempt a) s = fst (goal_push_attempt (t 0) a s)"
| "run_op limits cap t (OpEvent e) s = fst (goal_push_event (t 0) e s)"
| "run_op limits cap t (OpBeginWait w) s = fst (goal_begin_wait w (t 0) s)"
| "run_op limits cap t (OpSettleWait subject resume) s = fst (settle_goal_wait_in_session subject resume (t 0) s)"
| "run_op limits cap t OpSupersedeVerification s = fst (supersede_goal_verification s)"
| "run_op limits cap t OpReadGraph s = snd (sub_goal_rollup_of s)"
| "run_op limits cap t (OpDeclare d) s = fst (declare_sub_goals limits (t 0) d s)"
| "run_op limits cap t (OpDispatch i w) s = fst (dispatch_sub_goal (t 0) i w s)"
| "run_op limits cap t (OpReport i r) s = fst (record_sub_goal_report (t 0) i r s)"
| "run_op limits cap t (OpSupersede i reason) s = fst (supersede_sub_goal (t 0) i reason s)"
| "run_op limits cap t (OpEnsureLane w title) s = fst (ensure_and_dispatch_sub_goal_lane limits cap (t 0) (t 1) w title s)"
| "run_op limits cap t (OpRebuild pr) s = rebuild_goal_projection_from_messages (t 0) (t 1) pr s"
| "run_op limits cap t (OpInstall pr criteria) s = finish_install (t 0) (t 1) (t 2) pr criteria s"
| "run_op limits cap t (OpSetBudget pr b) s = finish_set_budget (t 0) (t 1) (t 2) (t 3) (t 4) pr b s"
| "run_op limits cap t (OpAbort pr) s = fst (stop_goal_on_manual_abort (t 0) (t 1) (t 2) pr s)"
| "run_op limits cap t (OpReactivate pr) s = fst (reactivate_goal_stopped_by_manual_abort (t 0) (t 1) (t 2) pr s)"
| "run_op limits cap t OpClearMarker s = clear_goal_stopped_by_abort_marker (t 0) s"
| "run_op limits cap t (OpUserTurn pr) s = note_user_turn_resets_goal_pursuit (t 0) (t 1) (t 2) (t 3) (t 4) pr s"
| "run_op limits cap t (OpToolResult r history) s = add_tool_result r history s"
| "run_op limits cap t (OpSetProjection g) s = set_goal_projection g s"
| "run_op limits cap t (OpSetLedger ledger) s = set_goal_ledger ledger s"
| "run_op limits cap t (OpRestore g ledger) s = set_goal_projection g (set_goal_ledger ledger s)"

definition session_step :: "'p goal_session \<Rightarrow> 'p call \<Rightarrow> 'p goal_session" where
  "session_step s c = run_op (cl_limits c) (cl_cap c) (cl_clock c) (cl_op c) s"

definition session_run :: "'p goal_session \<Rightarrow> 'p call list \<Rightarrow> 'p goal_session" where
  "session_run s calls = foldl session_step s calls"

text \<open>
  What a call brings with it agrees with the session: the messages it projects, the goal or
  the ledger it loads, and the readings of its clock among each other.
\<close>

definition described_by :: "goal_ledger_entry list \<Rightarrow> 'p goal_snapshot option \<Rightarrow> bool" where
  "described_by ledger goal \<longleftrightarrow>
     (case goal of
        None \<Rightarrow> True
      | Some g \<Rightarrow> is_installed (gn_version g) ledger \<and> (\<exists>st. reduce_goal_ledger ledger = Some st \<and> same_goal st g))"

definition steady :: "(nat \<Rightarrow> nat) \<Rightarrow> bool" where
  "steady t \<longleftrightarrow> (\<forall>k. t k = t 0)"

definition agreeing :: "'p goal_session \<Rightarrow> 'p call \<Rightarrow> bool" where
  "agreeing s c \<longleftrightarrow> steady (cl_clock c) \<and>
     (case cl_op c of
        OpRebuild pr \<Rightarrow> agrees s pr
      | OpInstall pr _ \<Rightarrow> agrees s pr
      | OpSetBudget pr b \<Rightarrow> sets_budget s pr b
      | OpAbort (Some pr) \<Rightarrow> agrees s pr
      | OpReactivate (Some pr) \<Rightarrow> agrees s pr
      | OpUserTurn (Some pr) \<Rightarrow> agrees s pr
      | OpSetProjection goal \<Rightarrow> described_by (gs_ledger s) goal
      | OpSetLedger ledger \<Rightarrow> described_by ledger (gs_goal s)
      | OpRestore goal ledger \<Rightarrow> described_by ledger goal
      | _ \<Rightarrow> True)"

lemma settle_in_session_fst: "fst (settle_goal_wait_in_session subject resume t s) = fst (goal_settle_wait subject t s)"
  by (simp add: settle_goal_wait_in_session_def split: prod.split option.split)

lemma inv_loaded:
  "described_by (gs_ledger s) goal \<Longrightarrow> goal_inv (set_goal_projection goal s)"
  "goal_inv s \<Longrightarrow> described_by ledger (gs_goal s) \<Longrightarrow> goal_inv (set_goal_ledger ledger s)"
  by (auto simp: goal_inv_def replays_def mirrors_ok_def described_by_def set_goal_projection_def set_goal_ledger_def
      refresh_goal_runtime_mirror_def split: option.splits)

lemma goal_inv_step:
  assumes "goal_inv s" "agreeing s c"
  shows "goal_inv (session_step s c)"
proof -
  obtain limits cap t op where c: "c = \<lparr>cl_limits = limits, cl_cap = cap, cl_clock = t, cl_op = op\<rparr>" by (cases c) auto
  note keep = assms(1) inv_progress inv_accounting inv_reset inv_status inv_snooze inv_waits inv_nudge inv_declare inv_ensure_lane
    inv_rebuild inv_finish_install inv_finish_set_budget inv_clear_marker inv_graph_of inv_loaded
  from assms(2) have t: "t k = t 0" for k by (simp add: c agreeing_def steady_def)
  note t_eqs = t [of 1] t [of 2] t [of 3] t [of 4]
  show ?thesis
  proof (cases op)
    case (OpDispatch i w)
    then show ?thesis using inv_lane_operation [OF assms(1), of _ i w] by (simp add: c session_step_def dispatch_sub_goal_def)
  next
    case (OpReport i r)
    then show ?thesis using inv_lane_operation [OF assms(1), of _ i _ r] by (simp add: c session_step_def record_sub_goal_report_def)
  next
    case (OpSupersede i reason)
    then show ?thesis using inv_lane_operation [OF assms(1), of _ i _ _ reason] by (simp add: c session_step_def supersede_sub_goal_def)
  next
    case (OpAbort pr)
    with assms show ?thesis by (auto simp: c session_step_def agreeing_def t_eqs simp del: One_nat_def intro!: inv_abort(1))
  next
    case (OpReactivate pr)
    with assms show ?thesis by (auto simp: c session_step_def agreeing_def t_eqs simp del: One_nat_def intro!: inv_abort(2))
  next
    case (OpUserTurn pr)
    with assms show ?thesis by (auto simp: c session_step_def agreeing_def t_eqs simp del: One_nat_def intro!: inv_user_turn)
  next
    case (OpRestore goal ledger)
    with assms show ?thesis by (auto simp: c session_step_def agreeing_def set_goal_ledger_def intro!: inv_loaded(1))
  qed (use assms(2) in \<open>simp_all add: c session_step_def t_eqs keep settle_in_session_fst supersede_goal_verification_def
        sub_goal_rollup_of_def split_def Let_def agreeing_def add_tool_result_def del: One_nat_def\<close>)
qed

lemma inv_new: "goal_inv (goal_session_new chat_id)"
  by (simp add: goal_inv_def goal_session_new_def replays_def mirrors_ok_def)

interpretation replay: checked_machine "goal_session_new chat_id :: 'p goal_session" session_step agreeing goal_inv
  for chat_id
  by unfold_locales (simp_all add: inv_new goal_inv_step)

lemma same_goal_applies: "same_goal st g \<Longrightarrow> apply_to_snapshot st g = g\<lparr>gn_sub_goals := ls_sub_goals st\<rparr>"
  by (simp add: same_goal_def apply_to_snapshot_def or_else_def split: option.split)

text \<open>A session with a goal, for examples.\<close>

definition demo_meta :: "nat \<Rightarrow> unit goal_meta" where
  "demo_meta version = \<lparr>me_version = version, me_active = None, me_status = None, me_budget = None, me_progress = None, me_events = None,
     me_owner = None, me_attempts = None, me_criteria = None, me_transferred_from = None, me_transferred_to = None, me_revision = 0,
     me_plan = None, me_content = ''ship it'', me_derived_events = []\<rparr>"

definition demo_call :: "nat \<Rightarrow> unit session_op \<Rightarrow> unit call" where
  "demo_call t op = \<lparr>cl_limits = default_sub_goal_limits, cl_cap = 8, cl_clock = (\<lambda>k. t), cl_op = op\<rparr>"

definition demo_install :: "unit call" where
  "demo_install = demo_call 1 (OpInstall (GoalMessage (demo_meta 1)) [])"

definition demo_session :: "unit goal_session" where
  "demo_session = finish_install 1 1 1 (GoalMessage (demo_meta 1)) [] (goal_session_new ''chat'')"

lemmas demo_simps = demo_session_def demo_meta_def goal_session_new_def finish_install_def rebuild_goal_projection_from_messages_def
  goal_snapshot_from_messages_def project_goal_def stamp_owner_def ensure_goal_ledger_installed_def refresh_goal_runtime_mirror_def
  emit_goal_status_def goal_ledger_append_at_def

lemma demo_installed: "session_step (goal_session_new ''chat'') demo_install = demo_session"
  by (simp add: session_step_def demo_install_def demo_call_def demo_session_def)

text \<open>
  C6: the ledger is the goal. After every sequence of calls of the session's methods, loads
  of a goal or a ledger included, in which every call agrees with the session it finds
  (\<open>agreeing\<close>: the goal in the messages is the current one or a new one without history, a
  loaded ledger describes the goal, and the readings of the clock within one call are the same),
  replaying the ledger and applying the result to the live goal changes nothing but the copy of the
  sub-goals, which the live goal does not keep: status, progress, attempts, criteria,
  snooze, wait, stop reason and transfers agree, and so do version and budget. The mirrors
  shown to clients agree with the live goal. \<open>clock_readings_matter\<close> and
  \<open>truncated_goal_keeps_ledger\<close> below show why the calls have to agree.
\<close>

theorem ledger_replays_goal:
  assumes "along session_step agreeing (goal_session_new chat_id) calls"
  shows "let s = session_run (goal_session_new chat_id) calls in
   gs_mirror s = goal_runtime_projection (gs_goal s) \<and> gs_runtime_mirror s = goal_runtime_projection (gs_goal s) \<and>
   (case gs_goal s of
      None \<Rightarrow> True
    | Some g \<Rightarrow> \<exists>st. reduce_goal_ledger (gs_ledger s) = Some st \<and> apply_to_snapshot st g = g\<lparr>gn_sub_goals := ls_sub_goals st\<rparr> \<and>
                 ls_budget st = gn_budget g \<and> ls_version st = gn_version g)"
  using replay.checked_reachable [OF assms] same_goal_applies
  by (auto simp: session_run_def Let_def goal_inv_def mirrors_ok_def replays_def same_goal_def split: option.splits)

theorem ledger_replays_goal_witness:
  "let s = session_run (goal_session_new ''chat'') [demo_install, demo_call 4 (OpProgress 10 True 2), demo_call 5 OpNudge] in
   gs_goal s \<noteq> None \<and>
   (\<exists>st. reduce_goal_ledger (gs_ledger s) = Some st \<and>
      apply_to_snapshot st (the (gs_goal s)) = (the (gs_goal s))\<lparr>gn_sub_goals := ls_sub_goals st\<rparr>)"
proof -
  let ?calls = "[demo_install, demo_call 4 (OpProgress 10 True 2), demo_call 5 OpNudge]"
  have "agreeing (goal_session_new ''chat'') demo_install"
    by (simp add: agreeing_def steady_def demo_install_def demo_call_def agrees_def fresh_meta_def demo_meta_def goal_session_new_def)
  then have "along session_step agreeing (goal_session_new ''chat'') ?calls"
    by (simp add: agreeing_def steady_def demo_call_def)
  moreover have "gs_goal (session_run (goal_session_new ''chat'') ?calls) \<noteq> None"
    by (simp add: session_run_def demo_installed) (simp add: session_step_def demo_call_def demo_simps
        goal_record_progress_with_cost_def goal_record_nudge_def mark_persisted_runtime_changed_def increment_version_def Let_def)
  ultimately show ?thesis using ledger_replays_goal [of "''chat''" ?calls] by (auto simp: Let_def)
qed

section \<open>The memo of the graph\<close>

definition graph_of :: "'p goal_session \<Rightarrow> sub_goal_graph" where
  "graph_of s = reduced_graph (gs_ledger s)"

definition cache_ok :: "'p goal_session \<Rightarrow> bool" where
  "cache_ok s \<longleftrightarrow> (case gs_graph_cache s of None \<Rightarrow> True | Some e \<Rightarrow> gce_graph e = graph_of s)"

lemma sub_goal_graph_of:
  assumes "cache_ok s"
  shows "fst (sub_goal_graph_of s) = graph_of s" "cache_ok (snd (sub_goal_graph_of s))"
    "gs_goal (snd (sub_goal_graph_of s)) = gs_goal s" "gs_ledger (snd (sub_goal_graph_of s)) = gs_ledger s"
    "gs_mirror (snd (sub_goal_graph_of s)) = gs_mirror s" "gs_runtime_mirror (snd (sub_goal_graph_of s)) = gs_runtime_mirror s"
  using assms by (auto simp: sub_goal_graph_of_def cache_ok_def graph_of_def Let_def split: option.splits)

lemma graph_of_cong: "gs_ledger s' = gs_ledger s \<Longrightarrow> graph_of s' = graph_of s"
  by (simp add: graph_of_def)

lemma cache_ok_cong: "gs_ledger s' = gs_ledger s \<Longrightarrow> gs_graph_cache s' = gs_graph_cache s \<Longrightarrow> cache_ok s' = cache_ok s"
  using graph_of_cong [of s' s] by (simp add: cache_ok_def split: option.split)

text \<open>How an entry changes the graph.\<close>

fun graph_effect :: "goal_ledger_op \<Rightarrow> sub_goal_graph \<Rightarrow> sub_goal_graph" where
  "graph_effect (SubGoalsDeclared d) = apply_declaration d"
| "graph_effect (SubGoalDispatched i w) = mark_dispatched i w"
| "graph_effect (SubGoalReported i r) = record_report i r"
| "graph_effect (SubGoalSuperseded i reason) = supersede i reason"
| "graph_effect _ = (\<lambda>g. g)"

lemma apply_op_graph: "ls_sub_goals (apply_op at op st) = graph_effect op (ls_sub_goals st)"
  by (cases op) (simp_all add: account_def Let_def)

lemma graph_of_append:
  assumes "\<not> is_install op"
  shows "graph_of (fst (goal_ledger_append_at op at s)) =
    (if reduce_goal_ledger (gs_ledger s) = None then graph_of s else graph_effect op (graph_of s))"
  using reduce_append [OF assms, of at s] by (auto simp: graph_of_def reduced_graph_def apply_op_graph)

lemma graph_of_append_install: "graph_of (fst (goal_ledger_append_at (Installed v a b cs) at s)) = empty_graph"
  using reduce_append_install [of v a b cs at s] by (auto simp: graph_of_def reduced_graph_def ledger_state_new_def)

lemma graph_of_nudge_move:
  assumes "es \<noteq> []" "le_op (last es) = NudgeRecorded"
  shows "reduced_graph (butlast es @ [(last es)\<lparr>le_at_ms := at\<rparr>]) = reduced_graph es"
proof -
  have "reduce_goal_ledger es = reduce_entry (reduce_goal_ledger (butlast es)) (last es)"
    using assms(1) by (metis append_butlast_last_id reduce_snoc)
  with assms(2) show ?thesis
    by (simp add: reduced_graph_def reduce_snoc reduce_entry_def split: option.split)
qed

definition silent :: "goal_ledger_op \<Rightarrow> bool" where
  "silent op \<longleftrightarrow> \<not> is_install op \<and> graph_effect op = (\<lambda>g. g)"

lemma silent_simps [simp]: "silent (StatusChanged a b r)" "silent (ProgressRecorded x y z)" "silent (VerifierAttemptRecorded x)"
  "silent NoProgressNoted" "silent NudgeRecorded" "silent (ProgressReset r)" "silent (AttemptPushed x1)" "silent (EventPushed x2)"
  "silent (BudgetSet x3)" "silent (CriteriaSet x4)" "silent (SnoozeSet x5)" "silent (WaitSet x6)"
  by (simp_all add: silent_def is_install_def)

lemma graph_of_marks [simp]: "graph_of (mark_persisted_runtime_changed s) = graph_of s"
  by (rule graph_of_cong) (simp add: mark_persisted_runtime_changed_def increment_version_def)

lemma graph_of_reads: "cache_ok s \<Longrightarrow> graph_of (snd (sub_goal_graph_of s)) = graph_of s"
  by (rule graph_of_cong) (simp add: sub_goal_graph_of(4))

text \<open>Dispatching and declaring on a session whose ledger has a goal.\<close>

lemma dispatch_graph:
  assumes "cache_ok s" "graph_node (graph_of s) i \<noteq> None"
  shows "graph_of (fst (dispatch_sub_goal t i w s)) = mark_dispatched i w (graph_of s)"
proof -
  have "reduce_goal_ledger (gs_ledger s) \<noteq> None"
    using assms(2) by (auto simp: graph_of_def reduced_graph_def graph_node_def empty_graph_def split: option.splits)
  with assms show ?thesis
    by (auto simp: dispatch_sub_goal_def lane_operation_def split_def sub_goal_graph_of graph_of_append graph_of_reads is_install_def)
qed

lemma declare_graph:
  assumes "cache_ok s" "reduce_goal_ledger (gs_ledger s) \<noteq> None" "validate_declaration (graph_of s) d limits = Inr ()"
  shows "graph_of (fst (declare_sub_goals limits t d s)) = apply_declaration d (graph_of s)"
    "cache_ok (fst (declare_sub_goals limits t d s))"
proof -
  show "graph_of (fst (declare_sub_goals limits t d s)) = apply_declaration d (graph_of s)"
    using assms by (auto simp: declare_sub_goals_def split_def sub_goal_graph_of graph_of_append graph_of_reads is_install_def)
  show "cache_ok (fst (declare_sub_goals limits t d s))"
    using sub_goal_graph_of(1) [OF assms(1)] assms(3)
    by (simp add: declare_sub_goals_def split_def cache_ok_def mark_persisted_runtime_changed_def increment_version_def)
qed

section \<open>The lanes of a goal\<close>

lemma nudge_move_reduces:
  "es \<noteq> [] \<Longrightarrow> le_op (last es) = NudgeRecorded \<Longrightarrow>
    reduce_goal_ledger (butlast es @ [(last es)\<lparr>le_at_ms := at\<rparr>]) = None \<longleftrightarrow> reduce_goal_ledger es = None"
  by (cases es rule: rev_cases) (simp_all add: reduce_snoc reduce_nudge)

lemma installed_reduces: "is_installed v es \<Longrightarrow> reduce_goal_ledger es \<noteq> None"
proof (induction es rule: rev_induct)
  case (snoc e es)
  then show ?case by (cases "le_op e") (auto simp: reduce_snoc reduce_entry_def)
qed simp

lemma append_reduces: "reduce_goal_ledger (gs_ledger s) \<noteq> None \<Longrightarrow> reduce_goal_ledger (gs_ledger (fst (goal_ledger_append_at op at s))) \<noteq> None"
  by (cases op) (auto simp: goal_ledger_append_at_def Let_def reduce_snoc reduce_entry_def)

text \<open>
  What holds of the lanes of a session: the memo is not stale and the graph has a
  property; if asked for, the ledger of a session with a goal has an installation. What calls have to bring with them
  for that: limits that are \<open>ok\<close>, and loaded ledgers with the same property.
\<close>

definition lanes_inv :: "(sub_goal_graph \<Rightarrow> bool) \<Rightarrow> bool \<Rightarrow> 'p goal_session \<Rightarrow> bool" where
  "lanes_inv G grounded s \<longleftrightarrow>
     cache_ok s \<and> G (graph_of s) \<and> (grounded \<longrightarrow> gs_goal s = None \<or> reduce_goal_ledger (gs_ledger s) \<noteq> None)"

definition lanes_allowed :: "(sub_goal_graph \<Rightarrow> bool) \<Rightarrow> (sub_goal_limits \<Rightarrow> bool) \<Rightarrow> bool \<Rightarrow> 'p goal_session \<Rightarrow> 'p call \<Rightarrow> bool" where
  "lanes_allowed G ok grounded s c \<longleftrightarrow> ok (cl_limits c) \<and>
     (case cl_op c of
        OpSetProjection goal \<Rightarrow> \<not> grounded \<or> goal = None \<or> reduce_goal_ledger (gs_ledger s) \<noteq> None
      | OpSetLedger ledger \<Rightarrow> G (reduced_graph ledger) \<and> (\<not> grounded \<or> gs_goal s = None \<or> reduce_goal_ledger ledger \<noteq> None)
      | OpRestore goal ledger \<Rightarrow> G (reduced_graph ledger) \<and> (\<not> grounded \<or> goal = None \<or> reduce_goal_ledger ledger \<noteq> None)
      | _ \<Rightarrow> True)"

text \<open>
  A property of graphs that the empty graph has, that lane operations keep and that every
  declaration keeps which is accepted under the limits \<open>ok\<close> admits. The graph of a session
  has it after every call, if it had it before and loaded ledgers bring it with them.
\<close>

locale lane_law =
  fixes G :: "sub_goal_graph \<Rightarrow> bool" and ok :: "sub_goal_limits \<Rightarrow> bool" and grounded :: bool
  assumes G_empty: "G empty_graph"
    and G_dispatch: "G g \<Longrightarrow> G (mark_dispatched i w g)"
    and G_report: "G g \<Longrightarrow> G (record_report i r g)"
    and G_supersede: "G g \<Longrightarrow> G (supersede i reason g)"
    and G_declare: "G g \<Longrightarrow> ok limits \<Longrightarrow> validate_declaration g d limits = Inr () \<Longrightarrow> G (apply_declaration d g)"
begin

lemma lanes_cong:
  assumes "lanes_inv G grounded s" "gs_ledger s' = gs_ledger s" "gs_graph_cache s' = gs_graph_cache s"
    and "gs_goal s = None \<Longrightarrow> gs_goal s' = None"
  shows "lanes_inv G grounded s'"
  using assms graph_of_cong [OF assms(2)] cache_ok_cong [OF assms(2,3)] by (auto simp: lanes_inv_def)

lemma lanes_same:
  "gs_ledger s' = gs_ledger s \<Longrightarrow> gs_graph_cache s' = gs_graph_cache s \<Longrightarrow> gs_goal s' = gs_goal s \<Longrightarrow>
    lanes_inv G grounded s' = lanes_inv G grounded s"
  using graph_of_cong [of s' s] cache_ok_cong [of s' s] by (simp add: lanes_inv_def)

lemma lanes_marks [simp]: "lanes_inv G grounded (emit_goal_status s) = lanes_inv G grounded s" "lanes_inv G grounded (increment_version s) = lanes_inv G grounded s"
  "lanes_inv G grounded (mark_persisted_runtime_changed s) = lanes_inv G grounded s" "lanes_inv G grounded (s\<lparr>gs_stopped_by_abort := x\<rparr>) = lanes_inv G grounded s"
  "lanes_inv G grounded (s\<lparr>gs_turn_evidence := x\<rparr>) = lanes_inv G grounded s" "lanes_inv G grounded (s\<lparr>gs_verification_generation := n\<rparr>) = lanes_inv G grounded s"
  by (rule lanes_same; simp add: emit_goal_status_def refresh_goal_runtime_mirror_def increment_version_def
      mark_persisted_runtime_changed_def)+

lemma lanes_append:
  assumes "lanes_inv G grounded s" "\<not> is_install op" "G (graph_effect op (graph_of s))"
  shows "lanes_inv G grounded (fst (goal_ledger_append_at op at s))"
  using assms graph_of_append [OF assms(2), of at s] append_reduces [of s op at] by (auto simp: lanes_inv_def cache_ok_def)

lemma lanes_silent: "lanes_inv G grounded s \<Longrightarrow> silent op \<Longrightarrow> lanes_inv G grounded (fst (goal_ledger_append_at op at s))"
  by (rule lanes_append) (simp_all add: silent_def lanes_inv_def)

lemma lanes_commit: "lanes_inv G grounded s \<Longrightarrow> gs_goal s \<noteq> None \<Longrightarrow> silent op \<Longrightarrow> lanes_inv G grounded (commit_goal g op at s)"
  unfolding commit_goal_def lanes_marks by (intro lanes_silent) (auto intro: lanes_cong)

lemma lanes_read: "lanes_inv G grounded s \<Longrightarrow> lanes_inv G grounded (snd (sub_goal_graph_of s))"
  using sub_goal_graph_of(2,3,4) [of s] graph_of_reads [of s] by (simp add: lanes_inv_def)

lemma lanes_nudge: "lanes_inv G grounded s \<Longrightarrow> lanes_inv G grounded (fst (goal_record_nudge at s))"
proof (cases "gs_goal s")
  case (Some g)
  assume inv: "lanes_inv G grounded s"
  let ?s = "s\<lparr>gs_goal := Some (snapshot_record_nudge at g)\<rparr>"
  have inv': "lanes_inv G grounded ?s" using inv Some by (rule_tac lanes_cong [of s]) simp_all
  let ?l = "butlast (gs_ledger s) @ [(last (gs_ledger s))\<lparr>le_at_ms := at\<rparr>]"
  have "lanes_inv G grounded (?s\<lparr>gs_ledger := ?l\<rparr>)" if "gs_ledger s \<noteq> []" "le_op (last (gs_ledger s)) = NudgeRecorded"
  proof -
    have "graph_of (?s\<lparr>gs_ledger := ?l\<rparr>) = graph_of s" using graph_of_nudge_move [OF that] by (simp add: graph_of_def)
    with inv Some show ?thesis using nudge_move_reduces [OF that, of at] by (auto simp: lanes_inv_def cache_ok_def split: option.splits)
  qed
  then show ?thesis using Some lanes_silent [OF inv'] by (auto simp: goal_record_nudge_def Let_def)
qed (simp add: goal_record_nudge_def)

lemma lanes_accounting:
  assumes "lanes_inv G grounded s"
  shows "lanes_inv G grounded (fst (goal_record_progress_with_cost t1 t2 t3 tokens made cents s))"
    "lanes_inv G grounded (fst (goal_record_progress_from_usage t1 t2 t3 c1 c2 cents s))"
    "lanes_inv G grounded (fst (goal_record_verifier_attempt t1 t2 t3 tokens s))"
    "lanes_inv G grounded (fst (goal_note_no_progress_turn t1 t2 t3 s))"
    "lanes_inv G grounded (fst (goal_push_attempt t a s))" "lanes_inv G grounded (fst (goal_push_event t e s))"
    "lanes_inv G grounded (fst (goal_set_status_reason t status reason s))" "lanes_inv G grounded (fst (goal_set_snooze t until s))"
    "lanes_inv G grounded (fst (goal_begin_wait w t s))" "lanes_inv G grounded (fst (goal_settle_wait subject t s))"
  using assms
  by (cases "gs_goal s"; auto simp: goal_record_progress_with_cost_def goal_record_progress_from_usage_def goal_record_verifier_attempt_def
      goal_note_no_progress_turn_def goal_push_attempt_def goal_push_event_def goal_set_status_reason_def goal_set_snooze_def
      goal_begin_wait_def goal_settle_wait_def Let_def intro!: lanes_commit split: option.split)+

lemma lanes_reset: "lanes_inv G grounded s \<Longrightarrow> lanes_inv G grounded (fst (goal_reset_no_progress t1 t2 s))"
  by (cases "gs_goal s") (auto simp: goal_reset_no_progress_def Let_def intro: lanes_cong intro!: lanes_commit)

lemma lanes_operation:
  assumes "lanes_inv G grounded s" "op = SubGoalDispatched i w \<or> op = SubGoalReported i r \<or> op = SubGoalSuperseded i reason"
  shows "lanes_inv G grounded (fst (lane_operation i op t s))"
proof -
  have inv: "lanes_inv G grounded (snd (sub_goal_graph_of s))" by (rule lanes_read [OF assms(1)])
  then have "G (graph_effect op (graph_of (snd (sub_goal_graph_of s))))"
    using assms(2) by (auto simp: lanes_inv_def G_dispatch G_report G_supersede)
  with inv assms(2) lanes_append [OF inv, of op t] show ?thesis by (auto simp: lane_operation_def split_def)
qed

lemma lanes_declare:
  assumes "lanes_inv G grounded s" "ok limits"
  shows "lanes_inv G grounded (fst (declare_sub_goals limits t d s))"
proof -
  let ?s = "snd (sub_goal_graph_of s)"
  have inv: "lanes_inv G grounded ?s" by (rule lanes_read [OF assms(1)])
  have g: "fst (sub_goal_graph_of s) = graph_of ?s"
    using sub_goal_graph_of(1) [of s] graph_of_reads [of s] assms(1) by (simp add: lanes_inv_def)
  have "lanes_inv G grounded (fst (goal_ledger_append_at (SubGoalsDeclared d) t ?s))" if "validate_declaration (graph_of ?s) d limits = Inr ()"
    using inv G_declare [OF _ assms(2) that] by (intro lanes_append) (auto simp: lanes_inv_def)
  with g inv show ?thesis by (simp add: declare_sub_goals_def split_def split: sum.split)
qed

lemma lanes_ensure_lane:
  assumes "lanes_inv G grounded s" "ok limits"
  shows "lanes_inv G grounded (fst (ensure_and_dispatch_sub_goal_lane limits cap t1 t2 w title s))"
proof -
  have dispatch: "lanes_inv G grounded (fst (dispatch_sub_goal t i (Some w) s))" if "lanes_inv G grounded s" for t i s
    unfolding dispatch_sub_goal_def by (rule lanes_operation [OF that]) simp
  show ?thesis
    using assms
    by (auto simp: ensure_and_dispatch_sub_goal_lane_def sub_goal_lane_for_owner_def split_def Let_def
        intro!: dispatch lanes_read lanes_declare split: option.split prod.split sum.split)
qed

lemma lanes_installed:
  assumes "cache_ok s" "G (graph_of s)"
  shows "lanes_inv G grounded (ensure_goal_ledger_installed t1 t2 s)"
proof -
  have inst: "lanes_inv G grounded (fst (goal_ledger_append_at (Installed v a b cs) t1 s))" for v a b cs
    using reduce_append_install [of v a b cs t1 s] graph_of_append_install [of v a b cs t1 s]
    by (auto simp: lanes_inv_def cache_ok_def G_empty)
  show ?thesis
  proof (cases "\<exists>g. gs_goal s = Some g \<and> \<not> is_installed (gn_version g) (gs_ledger s)")
    case True
    then show ?thesis by (auto simp: ensure_goal_ledger_installed_def Let_def inst lanes_silent [OF inst])
  next
    case False
    then have "gs_goal s = None \<or> reduce_goal_ledger (gs_ledger s) \<noteq> None"
      using installed_reduces by (cases "gs_goal s") blast+
    with assms have "lanes_inv G grounded s" by (auto simp: lanes_inv_def)
    with False show ?thesis by (auto simp: ensure_goal_ledger_installed_def split: option.split)
  qed
qed

lemma lanes_rebuild: "lanes_inv G grounded s \<Longrightarrow> lanes_inv G grounded (rebuild_goal_projection_from_messages t1 t2 pr s)"
  unfolding rebuild_goal_projection_from_messages_def Let_def
  by (rule lanes_installed) (auto simp: lanes_inv_def cache_ok_def graph_of_def refresh_goal_runtime_mirror_def split: option.splits)

lemma lanes_finish:
  assumes "lanes_inv G grounded s"
  shows "lanes_inv G grounded (finish_install t1 t2 t3 pr cs s)" "lanes_inv G grounded (finish_set_budget t1 t2 t3 t4 t5 pr b s)"
proof -
  have r: "lanes_inv G grounded (rebuild_goal_projection_from_messages t1 t2 pr s)" by (rule lanes_rebuild [OF assms])
  then show "lanes_inv G grounded (finish_install t1 t2 t3 pr cs s)"
    by (auto simp: finish_install_def Let_def intro!: lanes_silent intro: lanes_cong)
  from lanes_silent [OF r, of "BudgetSet b" t3] show "lanes_inv G grounded (finish_set_budget t1 t2 t3 t4 t5 pr b s)"
    unfolding finish_set_budget_def Let_def lanes_marks by (auto intro!: lanes_accounting(7) split: option.split)
qed

lemma lanes_event: "lanes_inv G grounded s \<Longrightarrow> lanes_inv G grounded (add_goal_event t1 t2 pr s)"
  by (cases pr) (simp_all add: add_goal_event_def lanes_rebuild)

lemma lanes_abort:
  assumes "lanes_inv G grounded s"
  shows "lanes_inv G grounded (fst (stop_goal_on_manual_abort t t1 t2 pr s))" "lanes_inv G grounded (fst (reactivate_goal_stopped_by_manual_abort t t1 t2 pr s))"
    "lanes_inv G grounded (clear_goal_stopped_by_abort_marker t s)"
  using assms
  by (auto simp: stop_goal_on_manual_abort_def reactivate_goal_stopped_by_manual_abort_def clear_goal_stopped_by_abort_marker_def
      goal_set_status_def Let_def intro!: lanes_event lanes_accounting(7) split: option.split)

lemma lanes_loaded:
  "lanes_inv G grounded s \<Longrightarrow> \<not> grounded \<or> goal = None \<or> reduce_goal_ledger (gs_ledger s) \<noteq> None \<Longrightarrow> lanes_inv G grounded (set_goal_projection goal s)"
  "G (reduced_graph ledger) \<Longrightarrow> \<not> grounded \<or> gs_goal s = None \<or> reduce_goal_ledger ledger \<noteq> None \<Longrightarrow> lanes_inv G grounded (set_goal_ledger ledger s)"
  by (auto simp: lanes_inv_def cache_ok_def graph_of_def set_goal_projection_def set_goal_ledger_def refresh_goal_runtime_mirror_def
      split: option.splits)

lemma lanes_restored:
  "G (reduced_graph ledger) \<Longrightarrow> \<not> grounded \<or> goal = None \<or> reduce_goal_ledger ledger \<noteq> None \<Longrightarrow>
    lanes_inv G grounded (set_goal_projection goal (set_goal_ledger ledger s))"
  by (auto simp: lanes_inv_def cache_ok_def graph_of_def set_goal_projection_def set_goal_ledger_def refresh_goal_runtime_mirror_def)

lemma lanes_step:
  assumes "lanes_inv G grounded s" "lanes_allowed G ok grounded s c"
  shows "lanes_inv G grounded (session_step s c)"
proof -
  obtain limits cap t op where c: "c = \<lparr>cl_limits = limits, cl_cap = cap, cl_clock = t, cl_op = op\<rparr>" by (cases c) auto
  have ok: "ok limits" using assms(2) by (simp add: c lanes_allowed_def)
  show ?thesis
  proof (cases op)
    case (OpDispatch i w)
    then show ?thesis using lanes_operation [OF assms(1), of _ i w] by (simp add: c session_step_def dispatch_sub_goal_def)
  next
    case (OpReport i r)
    then show ?thesis using lanes_operation [OF assms(1), of _ i _ r] by (simp add: c session_step_def record_sub_goal_report_def)
  next
    case (OpSupersede i reason)
    then show ?thesis using lanes_operation [OF assms(1), of _ i _ _ reason] by (simp add: c session_step_def supersede_sub_goal_def)
  next
    case (OpUserTurn pr)
    then show ?thesis using assms(1) by (simp add: c session_step_def note_user_turn_resets_goal_pursuit_def lanes_abort lanes_reset)
  qed (use assms ok in \<open>simp_all add: c session_step_def lanes_allowed_def lanes_accounting lanes_nudge lanes_reset lanes_declare
        lanes_ensure_lane lanes_rebuild lanes_finish lanes_abort lanes_read lanes_loaded lanes_restored settle_in_session_fst
        supersede_goal_verification_def sub_goal_rollup_of_def split_def Let_def add_tool_result_def\<close>)
qed

lemma lanes_start: "lanes_inv G grounded (goal_session_new chat_id)"
  by (simp add: lanes_inv_def goal_session_new_def cache_ok_def graph_of_def reduced_graph_def G_empty)

end

sublocale lane_law \<subseteq> run: checked_machine "goal_session_new chat_id :: 'p goal_session" session_step "lanes_allowed G ok grounded" "lanes_inv G grounded"
  for chat_id
  by unfold_locales (simp_all add: lanes_start lanes_step)

text \<open>Three such properties: none at all, identifiers that belong to lanes, and the limits.\<close>

definition ids_closed :: "sub_goal_graph \<Rightarrow> bool" where
  "ids_closed g \<longleftrightarrow> nodes_ok g \<and> edge_rel (sg_edges g) \<subseteq> known_ids g \<times> known_ids g"

definition limits_le :: "sub_goal_limits \<Rightarrow> sub_goal_limits \<Rightarrow> bool" where
  "limits_le l m \<longleftrightarrow> lm_max_fan_out l \<le> lm_max_fan_out m \<and> lm_max_depth l \<le> lm_max_depth m"

lemma graph_within_mono: "graph_within l g \<Longrightarrow> limits_le l m \<Longrightarrow> graph_within m g"
  unfolding graph_within_def limits_le_def by (meson le_trans)

lemma graph_within_closed: "graph_within l g \<Longrightarrow> ids_closed g"
  by (simp add: graph_within_def ids_closed_def)

lemma declared_within: "nodes_ok g \<Longrightarrow> validate_declaration g d l = Inr () \<Longrightarrow> graph_within l (apply_declaration d g)"
  using graph_within_apply [of g d l] validate_Inr [of g d l] by blast

interpretation coherent: lane_law "\<lambda>g. True" "\<lambda>l. True" False
  by unfold_locales simp_all

interpretation bounded: lane_law "graph_within L" "\<lambda>l. limits_le l L" False for L
proof unfold_locales
  fix g d l assume "graph_within L g" "limits_le l L" "validate_declaration g d l = Inr ()"
  moreover from this have "nodes_ok g" by (simp add: graph_within_def)
  ultimately show "graph_within L (apply_declaration d g)" using declared_within graph_within_mono by blast
qed (simp_all add: graph_within_empty lane_operations_within)

lemma ids_closed_cong:
  assumes "map ns_id (sg_nodes g') = map ns_id (sg_nodes g)" "sg_edges g' = sg_edges g"
  shows "ids_closed g' = ids_closed g"
proof -
  from arg_cong [OF assms(1), of set] have "ns_id ` set (sg_nodes g') = ns_id ` set (sg_nodes g)" by simp
  with assms show ?thesis by (simp add: ids_closed_def nodes_ok_def known_ids_def)
qed

interpretation tracked: lane_law ids_closed "\<lambda>l. True" True
proof unfold_locales
  show "ids_closed empty_graph" by (rule graph_within_closed [OF graph_within_empty])
next
  fix g i w assume "ids_closed g"
  then show "ids_closed (mark_dispatched i w g)"
    by (subst ids_closed_cong [of _ g]) (simp_all add: mark_dispatched_def split: option.split)
next
  fix g i r assume "ids_closed g"
  then show "ids_closed (record_report i r g)" by (subst ids_closed_cong [of _ g]) (simp_all add: record_report_def)
next
  fix g i reason assume "ids_closed g"
  then show "ids_closed (supersede i reason g)" by (subst ids_closed_cong [of _ g]) (simp_all add: supersede_def)
next
  fix g d l assume "ids_closed g" "validate_declaration g d l = Inr ()"
  then show "ids_closed (apply_declaration d g)" using graph_within_closed [OF declared_within] by (simp add: ids_closed_def [of g])
qed

text \<open>Calls within limits: their settings do not exceed them, nor does the graph of a ledger they load.\<close>

definition calls_within :: "sub_goal_limits \<Rightarrow> 'p goal_session \<Rightarrow> 'p call \<Rightarrow> bool" where
  "calls_within L s c \<longleftrightarrow> limits_le (cl_limits c) L \<and>
     (case cl_op c of
        OpSetLedger ledger \<Rightarrow> graph_within L (reduced_graph ledger)
      | OpRestore goal ledger \<Rightarrow> graph_within L (reduced_graph ledger)
      | _ \<Rightarrow> True)"

lemma calls_within_allowed: "calls_within L = lanes_allowed (graph_within L) (\<lambda>l. limits_le l L) False"
  by (intro ext) (simp add: calls_within_def lanes_allowed_def split: session_op.split)

lemma along_all: "along step (lanes_allowed (\<lambda>g. True) (\<lambda>l. True) False) s calls"
  by (induction calls arbitrary: s) (simp_all add: lanes_allowed_def split: session_op.split)

text \<open>
  C13: the lanes of a goal. After every sequence of calls of the session's methods, loads of goals and ledgers
  included, the graph a session works with -- read from its memo or reduced anew -- is the
  one its ledger describes. And it is within limits \<open>L\<close> -- edges between declared lanes, no
  cycle, bounded fan-out and depth -- whenever the limits in force at each call did not exceed
  \<open>L\<close> and every ledger that was loaded describes a graph within \<open>L\<close>.
\<close>

theorem lanes_stay_within_limits:
  "let s = session_run (goal_session_new chat_id) calls in
   fst (sub_goal_graph_of s) = reduced_graph (gs_ledger s) \<and>
   (along session_step (calls_within L) (goal_session_new chat_id) calls \<longrightarrow> graph_within L (fst (sub_goal_graph_of s)))"
proof -
  let ?s = "session_run (goal_session_new chat_id) calls"
  have "lanes_inv (\<lambda>g. True) False ?s"
    unfolding session_run_def by (rule coherent.run.checked_reachable [OF along_all])
  then have "fst (sub_goal_graph_of ?s) = graph_of ?s" by (intro sub_goal_graph_of(1)) (simp add: lanes_inv_def)
  moreover have "graph_within L (graph_of ?s)" if "along session_step (calls_within L) (goal_session_new chat_id) calls"
    using bounded.run.checked_reachable [OF that [unfolded calls_within_allowed]]
    by (simp add: session_run_def lanes_inv_def)
  ultimately show ?thesis by (simp add: graph_of_def Let_def)
qed

lemma demo_ready: "cache_ok demo_session" "reduce_goal_ledger (gs_ledger demo_session) \<noteq> None" "graph_of demo_session = empty_graph"
  by (simp_all add: demo_simps cache_ok_def graph_of_def reduced_graph_def reduce_goal_ledger_def reduce_entry_def ledger_state_new_def
      is_installed_def Let_def)

lemma demo_declared:
  "validate_declaration empty_graph \<lparr>sd_nodes = [sub_goal_node_new ''a'' ''first''], sd_edges = [edge_required ''goal'' ''a'']\<rparr>
     default_sub_goal_limits = Inr ()"
  by code_simp

theorem lanes_stay_within_limits_witness:
  "let s = session_run (goal_session_new ''chat'')
       [demo_install, demo_call 2 (OpDeclare \<lparr>sd_nodes = [sub_goal_node_new ''a'' ''first''], sd_edges = [edge_required ''goal'' ''a'']\<rparr>)]
   in sg_edges (fst (sub_goal_graph_of s)) = [edge_required ''goal'' ''a''] \<and>
      graph_within default_sub_goal_limits (fst (sub_goal_graph_of s))"
proof -
  let ?d = "\<lparr>sd_nodes = [sub_goal_node_new ''a'' ''first''], sd_edges = [edge_required ''goal'' ''a'']\<rparr>"
  let ?calls = "[demo_install, demo_call 2 (OpDeclare ?d)]"
  let ?s = "session_run (goal_session_new ''chat'') ?calls"
  have "along session_step (calls_within default_sub_goal_limits) (goal_session_new ''chat'') ?calls"
    by (simp add: calls_within_def demo_install_def demo_call_def limits_le_def)
  moreover have "graph_of ?s = apply_declaration ?d empty_graph"
    using declare_graph(1) [OF demo_ready(1,2), of ?d default_sub_goal_limits 2]
    by (simp add: session_run_def demo_installed demo_ready(3) demo_declared)
      (simp add: session_step_def [of demo_session] demo_call_def)
  then have "sg_edges (reduced_graph (gs_ledger ?s)) = [edge_required ''goal'' ''a'']"
    by (simp add: graph_of_def apply_declaration_def empty_graph_def declare_edge_def edge_required_def Let_def)
  ultimately show ?thesis
    using lanes_stay_within_limits [of "''chat''" ?calls default_sub_goal_limits] unfolding Let_def by metis
qed

section \<open>Waits\<close>

definition no_wait :: "'p goal_session \<Rightarrow> bool" where
  "no_wait s \<longleftrightarrow> (case gs_goal s of None \<Rightarrow> True | Some g \<Rightarrow> gn_wait g = None)"

lemma goal_of_graph_reads [simp]: "gs_goal (snd (sub_goal_graph_of s)) = gs_goal s"
  by (simp add: sub_goal_graph_of_def Let_def split: option.split)

lemma goal_of_marks [simp]: "gs_goal (increment_version s) = gs_goal s" "gs_goal (mark_persisted_runtime_changed s) = gs_goal s"
  "gs_goal (emit_goal_status s) = gs_goal s" "gs_goal (refresh_goal_runtime_mirror s) = gs_goal s"
  by (simp_all add: increment_version_def mark_persisted_runtime_changed_def emit_goal_status_def refresh_goal_runtime_mirror_def)

lemma goal_of_lanes [simp]: "gs_goal (fst (lane_operation i op t s)) = gs_goal s" "gs_goal (fst (declare_sub_goals limits t d s)) = gs_goal s"
  "gs_goal (fst (dispatch_sub_goal t i w s)) = gs_goal s"
  by (simp_all add: dispatch_sub_goal_def lane_operation_def declare_sub_goals_def split_def split: sum.split)

lemma goal_of_ensure_lane [simp]: "gs_goal (fst (ensure_and_dispatch_sub_goal_lane limits cap t1 t2 w title s)) = gs_goal s"
  using goal_of_lanes(2) [of limits t1 "auto_declaration w title"]
  by (auto simp: ensure_and_dispatch_sub_goal_lane_def sub_goal_lane_for_owner_def split_def Let_def split: option.split sum.split)

lemma no_wait_commit: "no_wait (commit_goal g op at s) \<longleftrightarrow> gn_wait g = None"
  by (simp add: no_wait_def)

lemma no_wait_same: "gs_goal s' = gs_goal s \<Longrightarrow> no_wait s' = no_wait s"
  by (simp add: no_wait_def)

lemma no_wait_marks [simp]: "no_wait (increment_version s) = no_wait s" "no_wait (mark_persisted_runtime_changed s) = no_wait s"
  "no_wait (emit_goal_status s) = no_wait s" "no_wait (fst (goal_ledger_append_at op at s)) = no_wait s"
  by (simp_all add: no_wait_def)

lemma no_wait_rebuild: "no_wait s \<Longrightarrow> no_wait (rebuild_goal_projection_from_messages t1 t2 pr s)"
  by (auto simp: no_wait_def rebuild_goal_projection_from_messages_def goal_snapshot_from_messages_def project_goal_def Let_def
      split: option.splits projection.splits)

lemma no_wait_status: "no_wait s \<Longrightarrow> no_wait (fst (goal_set_status_reason t status reason s))"
  by (cases "gs_goal s") (auto simp: goal_set_status_reason_def no_wait_def)

lemma no_wait_event: "no_wait s \<Longrightarrow> no_wait (add_goal_event t1 t2 pr s)"
  by (cases pr) (simp_all add: add_goal_event_def no_wait_rebuild)

lemma no_wait_flag [simp]: "no_wait (s\<lparr>gs_stopped_by_abort := x\<rparr>) = no_wait s" "no_wait (s\<lparr>gs_turn_evidence := x\<rparr>) = no_wait s"
  by (simp_all add: no_wait_def)

lemma no_wait_abort:
  assumes "no_wait s"
  shows "no_wait (fst (stop_goal_on_manual_abort t t1 t2 pr s))" "no_wait (fst (reactivate_goal_stopped_by_manual_abort t t1 t2 pr s))"
    "no_wait (clear_goal_stopped_by_abort_marker t s)"
  using assms
  by (auto simp: stop_goal_on_manual_abort_def reactivate_goal_stopped_by_manual_abort_def clear_goal_stopped_by_abort_marker_def
      goal_set_status_def Let_def intro!: no_wait_event no_wait_status split: option.split)

lemma no_wait_reset: "no_wait s \<Longrightarrow> no_wait (fst (goal_reset_no_progress t1 t2 s))"
  by (cases "gs_goal s") (auto simp: goal_reset_no_progress_def Let_def no_wait_def snapshot_reset_no_progress_def)

lemma no_wait_finish:
  assumes "no_wait s"
  shows "no_wait (finish_install t1 t2 t3 pr cs s)" "no_wait (finish_set_budget t1 t2 t3 t4 t5 pr b s)"
proof -
  have r: "no_wait (rebuild_goal_projection_from_messages t1 t2 pr s)" by (rule no_wait_rebuild [OF assms])
  then show "no_wait (finish_install t1 t2 t3 pr cs s)"
    by (auto simp: finish_install_def Let_def no_wait_def split: option.splits)
  from r show "no_wait (finish_set_budget t1 t2 t3 t4 t5 pr b s)"
    unfolding finish_set_budget_def Let_def no_wait_marks by (auto intro: no_wait_status split: option.split)
qed

text \<open>The methods that can give a goal a wait: beginning one, or loading a goal that has one.\<close>

definition may_begin_wait :: "'p session_op \<Rightarrow> bool" where
  "may_begin_wait op \<longleftrightarrow>
     (case op of
        OpBeginWait w \<Rightarrow> True
      | OpSetProjection (Some g) \<Rightarrow> gn_wait g \<noteq> None
      | OpRestore (Some g) ledger \<Rightarrow> gn_wait g \<noteq> None
      | _ \<Rightarrow> False)"

lemma no_wait_step:
  assumes "no_wait s" "\<not> may_begin_wait op"
  shows "no_wait (run_op limits cap t op s)"
proof (cases op)
  case (OpSettleWait subject resume)
  with assms(1) show ?thesis
    by (cases "gs_goal s") (auto simp: settle_in_session_fst goal_settle_wait_def no_wait_def split: option.splits)
next
  case (OpUsage a b c)
  with assms(1) show ?thesis
    by (cases "gs_goal s") (auto simp: goal_record_progress_from_usage_def goal_record_progress_with_cost_def Let_def no_wait_def
        snapshot_defs live_account_def)
next
  case (OpUserTurn pr)
  with assms(1) show ?thesis by (auto simp: note_user_turn_resets_goal_pursuit_def intro!: no_wait_abort no_wait_reset)
next
  case (OpSetProjection goal)
  with assms show ?thesis by (cases goal) (auto simp: may_begin_wait_def no_wait_def set_goal_projection_def)
next
  case (OpRestore goal ledger)
  with assms show ?thesis by (cases goal) (auto simp: may_begin_wait_def no_wait_def set_goal_projection_def set_goal_ledger_def)
qed (use assms in \<open>auto simp: may_begin_wait_def set_goal_ledger_def no_wait_status no_wait_reset no_wait_finish no_wait_abort no_wait_rebuild
      record_sub_goal_report_def supersede_sub_goal_def sub_goal_rollup_of_def supersede_goal_verification_def add_tool_result_def\<close>,
    use assms in \<open>auto simp: no_wait_def goal_record_progress_with_cost_def goal_record_verifier_attempt_def goal_note_no_progress_turn_def
      goal_record_nudge_def goal_set_snooze_def goal_push_attempt_def goal_push_event_def snapshot_defs live_account_def split_def Let_def
      split: option.splits\<close>)

interpretation settled: checked_machine "s0 :: 'p goal_session" session_step "\<lambda>s c. \<not> may_begin_wait (cl_op c)"
    "\<lambda>s. no_wait s0 \<longrightarrow> no_wait s" for s0
  by unfold_locales (simp_all add: session_step_def no_wait_step)

lemma along_Ball: "\<forall>c \<in> set cs. P c \<Longrightarrow> along step (\<lambda>s c. P c) s cs"
  by (induction cs arbitrary: s) simp_all

text \<open>
  C15: a wait is settled once. When settling hands the wait of a goal to a caller, no other
  caller gets it, whatever calls the session sees in between, whatever their settings and
  clocks, and whatever subject or deadline the other caller reports, until a wait is begun again or a goal that
  already waits is loaded.
\<close>

theorem wait_settled_once:
  assumes "goal_settle_wait subject t s = (s', Some w)" "\<forall>c \<in> set calls. \<not> may_begin_wait (cl_op c)"
  shows "gs_goal s \<noteq> None \<and> gn_wait (the (gs_goal s)) = Some w \<and>
    snd (goal_settle_wait subject' t' (session_run s' calls)) = None"
proof -
  from assms(1) obtain g where g: "gs_goal s = Some g" "gn_wait g = Some w" "s' = commit_goal (g\<lparr>gn_wait := None\<rparr>) (WaitSet None) t s"
    by (auto simp: goal_settle_wait_def split: option.splits if_splits)
  then have start: "no_wait s'" by (simp add: no_wait_def)
  with settled.checked_reachable [OF along_Ball [OF assms(2)], of s'] have "no_wait (session_run s' calls)"
    by (simp add: session_run_def)
  with g show ?thesis by (auto simp: goal_settle_wait_def no_wait_def split: option.splits)
qed

theorem wait_settled_once_witness:
  "let s = fst (goal_begin_wait (goal_wait_new (Child ''run-7'') (Some 90)) 5 demo_session);
       first = goal_settle_wait (Some (Child ''run-7'')) 8 s
   in snd first \<noteq> None \<and> snd (goal_settle_wait None 90 (session_run (fst first) [demo_call 9 OpNudge, demo_call 10 (OpUserTurn None)])) = None"
proof -
  let ?s = "fst (goal_begin_wait (goal_wait_new (Child ''run-7'') (Some 90)) 5 demo_session)"
  let ?w = "\<lparr>gw_subject = Child ''run-7'', gw_since_ms = 5, gw_deadline_ms = Some 90\<rparr>"
  have settled: "snd (goal_settle_wait (Some (Child ''run-7'')) 8 ?s) = Some ?w"
    by (simp add: demo_simps goal_begin_wait_def goal_settle_wait_def goal_wait_new_def wait_matches_def Let_def)
  then have first: "goal_settle_wait (Some (Child ''run-7'')) 8 ?s = (fst (goal_settle_wait (Some (Child ''run-7'')) 8 ?s), Some ?w)"
    by (simp add: prod_eq_iff)
  from wait_settled_once [OF first, of "[demo_call 9 OpNudge, demo_call 10 (OpUserTurn None)]"] settled show ?thesis
    by (simp add: Let_def may_begin_wait_def demo_call_def)
qed

section \<open>Automatic lanes\<close>

text \<open>Whether a parent may proceed depends on which required children are met.\<close>

lemma proceeds_met:
  "parent_may_proceed (aggregate_sub_goals g p) \<longleftrightarrow>
     (\<forall>e \<in> set (sg_edges g). se_parent e = p \<longrightarrow> se_kind e = Required \<longrightarrow> map_option lane_met (graph_node g (se_child e)) \<noteq> Some False)"
  unfolding parent_may_proceed_def blocking_rollup by auto

lemma dispatch_met: "map_option lane_met (graph_node (mark_dispatched i w g) j) = map_option lane_met (graph_node g j)"
proof -
  have "map_option lane_met (List.find (\<lambda>n. ns_id n = j) (modify_node i f ns)) = map_option lane_met (List.find (\<lambda>n. ns_id n = j) ns)"
    if "\<And>n. ns_id (f n) = ns_id n" "\<And>n. lane_met (f n) = lane_met n" for f ns
    using that by (induction ns) auto
  then show ?thesis by (auto simp: graph_node_def mark_dispatched_def lane_met_def split: option.split)
qed

lemma dispatch_proceeds:
  "parent_may_proceed (aggregate_sub_goals (mark_dispatched i w g) p) = parent_may_proceed (aggregate_sub_goals g p)"
  unfolding proceeds_met dispatch_met by (simp add: mark_dispatched_def)

lemma dispatch_claims_lane:
  assumes "graph_node g i \<noteq> None" "lane_for_owner w g \<in> {None, Some i}"
  shows "lane_for_owner w (mark_dispatched i (Some w) g) = Some i"
proof -
  have "map_option ns_id (List.find (\<lambda>n. sn_owner (ns_node n) = Some w) (modify_node i f ns)) = Some i"
    if "List.find (\<lambda>n. ns_id n = i) ns \<noteq> None" "map_option ns_id (List.find (\<lambda>n. sn_owner (ns_node n) = Some w) ns) \<in> {None, Some i}"
      "\<And>n. ns_id (f n) = ns_id n" "\<And>n. sn_owner (ns_node (f n)) = Some w" for f ns
    using that by (induction ns) (auto split: if_splits)
  with assms show ?thesis by (simp add: graph_node_def lane_for_owner_def mark_dispatched_def)
qed

definition auto_lanes :: "sub_goal_graph \<Rightarrow> nat" where
  "auto_lanes g = length (filter is_auto_lane (sg_nodes g))"

lemma auto_lanes_ids: "auto_lanes g = length (filter (\<lambda>i. strip_prefix auto_sub_goal_lane_prefix i \<noteq> None) (map ns_id (sg_nodes g)))"
  by (simp add: auto_lanes_def is_auto_lane_def [abs_def] filter_map comp_def)

lemma dispatch_auto_lanes: "auto_lanes (mark_dispatched i w g) = auto_lanes g"
  unfolding auto_lanes_ids by (simp add: mark_dispatched_def split: option.split)

text \<open>The declaration of an automatic lane adds one node, with an optional edge.\<close>

lemma auto_declared:
  assumes "ids_closed g" "validate_declaration g (auto_declaration w title) limits = Inr ()"
  defines "g' \<equiv> apply_declaration (auto_declaration w title) g" and "i \<equiv> auto_sub_goal_lane_prefix @ so_id w"
  shows "parent_may_proceed (aggregate_sub_goals g' p) = parent_may_proceed (aggregate_sub_goals g p)"
    "graph_node g' i \<noteq> None" "lane_for_owner w g = None \<Longrightarrow> lane_for_owner w g' = Some i" "auto_lanes g' = auto_lanes g + 1"
proof -
  have fresh: "i \<notin> known_ids g" "i \<noteq> []"
    using assms(2) by (auto simp: validate_Inr fresh_ids_def auto_declaration_def i_def node_with_owner_def sub_goal_node_new_def Let_def)
  then have none: "\<not> (\<exists>s \<in> set (sg_nodes g). ns_id s = i)" "i \<noteq> root_sub_goal_id" by (auto simp: known_ids_def)
  let ?n = "\<lparr>ns_node = node_with_owner w (sub_goal_node_new i title), ns_dispatched = False, ns_superseded = None, ns_report = None\<rparr>"
  have n: "sn_id (node_with_owner w (sub_goal_node_new i title)) = i" "sn_owner (node_with_owner w (sub_goal_node_new i title)) = Some w"
    by (simp_all add: node_with_owner_def sub_goal_node_new_def)
  have nodes: "sg_nodes g' = sg_nodes g @ [?n]"
    using none fresh(2) n by (simp add: g'_def apply_declaration_def auto_declaration_def declare_node_def Let_def i_def [symmetric])
  have edges: "sg_edges g' = declare_edge (sg_edges g) (edge_optional root_sub_goal_id i)"
    by (simp add: g'_def apply_declaration_def auto_declaration_def Let_def i_def)
  have find_app: "List.find P (xs @ [x]) = (case List.find P xs of None \<Rightarrow> if P x then Some x else None | r \<Rightarrow> r)"
    for P and xs :: "node_state list" and x by (induction xs) auto
  show "graph_node g' i \<noteq> None" by (simp add: graph_node_def nodes find_app n split: option.split)
  show "lane_for_owner w g = None \<Longrightarrow> lane_for_owner w g' = Some i"
    by (simp add: lane_for_owner_def nodes find_app n split: option.split)
  show "auto_lanes g' = auto_lanes g + 1" by (simp add: auto_lanes_def nodes is_auto_lane_def n) (simp add: i_def)
  have old: "graph_node g' (se_child e) = graph_node g (se_child e)" if "e \<in> set (sg_edges g)" for e
  proof -
    have "se_child e \<in> known_ids g" using assms(1) that by (fastforce simp: ids_closed_def edge_rel_def)
    with fresh have "se_child e \<noteq> i" by auto
    then show ?thesis by (simp add: graph_node_def nodes find_app n split: option.split)
  qed
  have "e \<in> set (sg_edges g') \<longleftrightarrow> e \<in> set (sg_edges g)" if "se_kind e = Required" for e
    using that by (auto simp: edges declare_edge_def edge_optional_def)
  with old show "parent_may_proceed (aggregate_sub_goals g' p) = parent_may_proceed (aggregate_sub_goals g p)"
    unfolding proceeds_met by metis
qed

lemma rollup_of: "cache_ok s \<Longrightarrow> fst (sub_goal_rollup_of s) = aggregate_sub_goals (graph_of s) root_sub_goal_id"
  and lane_of: "cache_ok s \<Longrightarrow> fst (sub_goal_lane_for_owner w s) = lane_for_owner w (graph_of s)"
  by (simp_all add: sub_goal_rollup_of_def sub_goal_lane_for_owner_def split_def sub_goal_graph_of(1))

lemma lane_for_owner_node: "lane_for_owner w g = Some k \<Longrightarrow> graph_node g k \<noteq> None"
  by (auto simp: lane_for_owner_def graph_node_def find_Some_iff find_None_iff) (metis nth_mem)

text \<open>The three ways opening a lane can go.\<close>

lemma opened_graph:
  assumes "lanes_inv ids_closed True s" "gs_goal s \<noteq> None" "validate_declaration (graph_of s) (auto_declaration w title) limits = Inr ()"
  shows "graph_of (fst (dispatch_sub_goal t2 (auto_sub_goal_lane_prefix @ so_id w) (Some w)
      (fst (declare_sub_goals limits t1 (auto_declaration w title) s)))) =
    mark_dispatched (auto_sub_goal_lane_prefix @ so_id w) (Some w) (apply_declaration (auto_declaration w title) (graph_of s))"
proof -
  from assms(1,2) have inv: "cache_ok s" "reduce_goal_ledger (gs_ledger s) \<noteq> None" "ids_closed (graph_of s)"
    by (auto simp: lanes_inv_def)
  note declared = declare_graph [OF inv(1,2) assms(3), of t1]
  show ?thesis
    using auto_declared(2) [OF inv(3) assms(3)] dispatch_graph [OF declared(2)] by (simp add: declared(1))
qed

lemma ensure_lane_cases:
  assumes inv: "lanes_inv ids_closed True s" and run: "ensure_and_dispatch_sub_goal_lane limits cap t1 t2 w title s = (s', r)"
  obtains (found) k where "lane_for_owner w (graph_of s) = Some k" "r = Inr k" "graph_of s' = mark_dispatched k (Some w) (graph_of s)"
    | (refused) e where "graph_of s' = graph_of s" "r = Inl e"
    | (opened) "lane_for_owner w (graph_of s) = None" "auto_lanes (graph_of s) < cap"
      "validate_declaration (graph_of s) (auto_declaration w title) limits = Inr ()" "r = Inr (auto_sub_goal_lane_prefix @ so_id w)"
      "graph_of s' = mark_dispatched (auto_sub_goal_lane_prefix @ so_id w) (Some w) (apply_declaration (auto_declaration w title) (graph_of s))"
proof -
  define s1 where "s1 = snd (sub_goal_graph_of s)"
  define s2 where "s2 = snd (sub_goal_graph_of s1)"
  have inv1: "lanes_inv ids_closed True s1" and inv2: "lanes_inv ids_closed True s2"
    unfolding s1_def s2_def by (intro tracked.lanes_read inv)+
  then have cache: "cache_ok s" "cache_ok s1" "cache_ok s2" using inv by (simp_all add: lanes_inv_def)
  have graphs: "graph_of s1 = graph_of s" "graph_of s2 = graph_of s" and goal: "gs_goal s2 = gs_goal s" "gs_goal s1 = gs_goal s"
    using graph_of_reads [OF cache(1)] graph_of_reads [OF cache(2)] by (simp_all add: s1_def s2_def)
  have lane: "sub_goal_lane_for_owner w s = (lane_for_owner w (graph_of s), s1)"
    using cache by (simp add: sub_goal_lane_for_owner_def split_def sub_goal_graph_of(1) s1_def)
  have reads: "sub_goal_graph_of s1 = (graph_of s, s2)"
    using cache graphs by (simp add: prod_eq_iff s2_def sub_goal_graph_of(1))
  note unfolded = run [unfolded ensure_and_dispatch_sub_goal_lane_def lane, simplified]
  show thesis
  proof (cases "lane_for_owner w (graph_of s)")
    case (Some k)
    with unfolded dispatch_graph [OF cache(2), of k t1 "Some w"] lane_for_owner_node [OF Some] graphs show thesis
      by (auto intro: found)
  next
    case None
    note open_run = unfolded [unfolded None goal(2), simplified, unfolded reads, simplified, folded auto_lanes_def]
    note declares = declare_sub_goals_def [of limits t1 "auto_declaration w title" s2, unfolded split_def sub_goal_graph_of(1) [OF cache(3)] graphs]
    show thesis
    proof (cases "gs_goal s = None \<or> auto_lanes (graph_of s) \<ge> cap \<or> validate_declaration (graph_of s) (auto_declaration w title) limits \<noteq> Inr ()")
      case True
      with open_run graphs graph_of_reads [OF cache(3)] have "graph_of s' = graph_of s" "\<exists>e. r = Inl e"
        by (auto simp: Let_def declares split: if_splits sum.splits)
      then show thesis using refused by blast
    next
      case False
      with open_run have "r = Inr (auto_sub_goal_lane_prefix @ so_id w)" "s' = fst (dispatch_sub_goal t2
          (auto_sub_goal_lane_prefix @ so_id w) (Some w) (fst (declare_sub_goals limits t1 (auto_declaration w title) s2)))"
        by (auto simp: Let_def declares split: if_splits)
      with None False opened opened_graph [OF inv2, of w title limits t2 t1] goal graphs show thesis by auto
    qed
  qed
qed

text \<open>Loads that are sound: a loaded ledger has edges between lanes only, and a session with a goal has an installation in its ledger.\<close>

definition sound_load :: "'p goal_session \<Rightarrow> 'p call \<Rightarrow> bool" where
  "sound_load s c \<longleftrightarrow>
     (case cl_op c of
        OpSetProjection goal \<Rightarrow> goal = None \<or> reduce_goal_ledger (gs_ledger s) \<noteq> None
      | OpSetLedger ledger \<Rightarrow> ids_closed (reduced_graph ledger) \<and> (gs_goal s = None \<or> reduce_goal_ledger ledger \<noteq> None)
      | OpRestore goal ledger \<Rightarrow> ids_closed (reduced_graph ledger) \<and> (goal = None \<or> reduce_goal_ledger ledger \<noteq> None)
      | _ \<Rightarrow> True)"

lemma sound_load_allowed: "sound_load = lanes_allowed ids_closed (\<lambda>l. True) True"
  by (intro ext) (simp add: sound_load_def lanes_allowed_def split: session_op.split)

text \<open>
  C16: automatic lanes never gate. Opening the lane of a child run for a session's goal --
  found by its owner, newly declared, or refused -- does not change whether the goal may
  proceed. A lane that is returned is the one the graph then finds for that owner, and
  automatic lanes are opened only below the cap. The session is one reached by any calls of its methods, under
  whatever settings, in which the goals and ledgers that were loaded are sound.
\<close>

theorem auto_lane_never_gates:
  assumes "along session_step sound_load (goal_session_new chat_id) calls"
    and "ensure_and_dispatch_sub_goal_lane limits cap t1 t2 w title (session_run (goal_session_new chat_id) calls) = (s', r)"
  shows "let s = session_run (goal_session_new chat_id) calls in
    parent_may_proceed (fst (sub_goal_rollup_of s')) = parent_may_proceed (fst (sub_goal_rollup_of s)) \<and>
    (\<forall>i. r = Inr i \<longrightarrow> fst (sub_goal_lane_for_owner w s') = Some i) \<and>
    auto_lanes (fst (sub_goal_graph_of s')) \<le> max cap (auto_lanes (fst (sub_goal_graph_of s)))"
proof -
  let ?s = "session_run (goal_session_new chat_id) calls"
  have inv: "lanes_inv ids_closed True ?s"
    using tracked.run.checked_reachable [OF assms(1) [unfolded sound_load_allowed]] by (simp add: session_run_def)
  moreover have "lanes_inv ids_closed True s'"
    using tracked.lanes_ensure_lane [OF inv TrueI, of limits cap t1 t2 w title] assms(2) by simp
  ultimately have cache: "cache_ok ?s" "cache_ok s'" and closed: "ids_closed (graph_of ?s)" by (simp_all add: lanes_inv_def)
  from inv assms(2) have "parent_may_proceed (aggregate_sub_goals (graph_of s') root_sub_goal_id) =
        parent_may_proceed (aggregate_sub_goals (graph_of ?s) root_sub_goal_id) \<and>
      (\<forall>i. r = Inr i \<longrightarrow> lane_for_owner w (graph_of s') = Some i) \<and> auto_lanes (graph_of s') \<le> max cap (auto_lanes (graph_of ?s))"
  proof (cases rule: ensure_lane_cases)
    case (found k)
    with dispatch_claims_lane [OF lane_for_owner_node] show ?thesis by (simp add: dispatch_proceeds dispatch_auto_lanes)
  next
    case opened
    note declared = auto_declared [OF closed opened(3)]
    from opened declared dispatch_claims_lane [OF declared(2)] show ?thesis by (simp add: dispatch_proceeds dispatch_auto_lanes)
  qed simp
  with cache show ?thesis by (simp add: Let_def rollup_of lane_of sub_goal_graph_of(1))
qed

theorem auto_lane_never_gates_witness:
  "let s = session_run (goal_session_new ''chat'') [demo_install];
       s' = fst (ensure_and_dispatch_sub_goal_lane default_sub_goal_limits 8 2 3 (owner_background_agent ''x'') ''look'' s)
   in parent_may_proceed (fst (sub_goal_rollup_of s')) = parent_may_proceed (fst (sub_goal_rollup_of s))"
proof -
  have "along session_step sound_load (goal_session_new ''chat'') [demo_install]"
    by (simp add: sound_load_def demo_install_def demo_call_def)
  from auto_lane_never_gates [OF this surjective_pairing, of default_sub_goal_limits 8 2 3 "owner_background_agent ''x''" "''look''"]
  show ?thesis by (simp add: Let_def)
qed

section \<open>Transfers, and what the proofs leave out\<close>

text \<open>The ledger that a transferred goal starts with replays to the goal that was handed over.\<close>

lemma seeded_ledger_replays:
  "\<exists>st. reduce_goal_ledger (seed_transferred_goal_ledger g source at) = Some st \<and> ls_active st \<and> ls_version st = gn_version g \<and>
     ls_status st = gn_status g \<and> ls_budget st = gn_budget g \<and> ls_progress st = gn_progress g \<and> ls_criteria st = gn_criteria g \<and>
     ls_transferred_from st = Some source \<and> ls_attempts st = [] \<and> ls_wait st = None"
  by (simp add: reduce_goal_ledger_def reduce_entry_def seed_transferred_goal_ledger_def ledger_state_new_def)

text \<open>
  Recording progress reads the clock for the live goal and again for the ledger entry. When
  the readings differ, the replayed goal has started at another time than the live one.
\<close>

lemma clock_readings_matter:
  "let s = fst (goal_record_progress_with_cost 4 4 5 10 True 0 demo_session)
   in map_option (\<lambda>g. gp_started_at_ms (gn_progress g)) (gs_goal s) = Some 4 \<and>
      map_option (\<lambda>st. gp_started_at_ms (ls_progress st)) (reduce_goal_ledger (gs_ledger s)) = Some 5"
  by (simp add: demo_simps goal_record_progress_with_cost_def commit_goal_def snapshot_record_progress_def live_account_def
      count_progress_def add_cost_def add_turn_def start_clock_def default_goal_progress_def mark_persisted_runtime_changed_def
      increment_version_def reduce_goal_ledger_def reduce_entry_def ledger_state_new_def account_def Let_def)

text \<open>
  Truncating a chat to before its second goal makes the first one current again, but the
  ledger already has an installation of that version, so it goes on describing the second.
\<close>

lemma truncated_goal_keeps_ledger:
  "let s = rebuild_goal_projection_from_messages 3 3 (GoalMessage (demo_meta 1))
             (finish_install 2 2 2 (GoalMessage (demo_meta 2)) [] demo_session)
   in map_option gn_version (gs_goal s) = Some 1 \<and> map_option ls_version (reduce_goal_ledger (gs_ledger s)) = Some 2"
  by (simp add: demo_simps reduce_goal_ledger_def reduce_entry_def ledger_state_new_def is_installed_def Let_def)

text \<open>Declaring lanes without a goal answers with a sequence number, and the replay drops the declaration.\<close>

lemma declaration_without_goal_lost:
  "let (s, r) = declare_sub_goals default_sub_goal_limits 1
         \<lparr>sd_nodes = [sub_goal_node_new ''a'' ''first''], sd_edges = [edge_required ''goal'' ''a'']\<rparr> (goal_session_new ''chat'' :: unit goal_session)
   in r = Inr 1 \<and> fst (sub_goal_graph_of s) = empty_graph"
  by code_simp

end
