(* ===== verification/Spec2Isabelle.thy ===== *)
theory Spec2Isabelle
  imports Cap_Stop Scheduler_Guarantees Waitgraph_Registry Approval_Properties Outcome_Properties
    Board_Properties Waves_Groups Question_Properties Deadlock_Properties
    Patch_Properties Text_Edit_Properties Transcript_Properties Goal_Properties
begin

text \<open>
  The coordination core of the Refact agent engine: which run may execute, which runs wait
  for each other, which tool call was approved, and which card of a task board is worked on
  next, with what a chat session keeps of its goal. The Rust sources are under \<open>src/refact-agent/engine\<close>; modelled are the crates
  \<open>refact-work-core\<close> and \<open>refact-tasks\<close>, the questions, goals and
  sub-goals of \<open>refact-chat-api\<close>, the deadlock scan of the engine (\<open>src/coordination\<close>), the
  goal of a chat session (\<open>src/chat/session.rs\<close>), the tools with which a run edits files
  (\<open>refact-file-edit-core\<close>, \<open>src/tools/file_edit\<close>), and the output of the processes it starts
  (\<open>refact-exec\<close>).

  \<^bold>\<open>Parts and how they interact.\<close> Settings (\<open>settings.rs\<close>) are validated and installed in a
  process-wide slot; the scheduler (\<open>scheduler.rs\<close>) admits the runs named by the keys of
  \<open>identity.rs\<close> under the caps of those settings; every wait of a run is declared in the
  registry of \<open>waitgraph.rs\<close>, whose detector looks for cycles among the captured waits and
  refuses one wait of a cycle; tool calls that need consent go through \<open>approval.rs\<close>;
  questions to a parent, a planner or the user go through \<open>refact-chat-api/src/question.rs\<close>;
  a run stopped by a cap says so through \<open>cap_stop.rs\<close>. The scan of
  \<open>src/coordination/deadlock.rs\<close> joins them: it captures scheduler, declared waits, questions
  and approvals as one graph, refuses a wait of a deadlock and may cancel its run. A planner keeps its cards on the task
  board of \<open>refact-tasks/src/types.rs\<close>; \<open>waves.rs\<close> turns the board into submissions, ordered
  by the file overlaps of \<open>overlap_order.rs\<close>, and the submitted cards become the runs the
  scheduler admits. A run changes files through patches (\<open>openai_apply_patch.rs\<close>) and through
  edits by text, anchor or line (\<open>text_edit.rs\<close>, \<open>auxiliary.rs\<close>), and reads what its
  processes write from the transcripts of \<open>refact-exec/src/transcript.rs\<close>. What a run works
  towards is the goal of its chat session: every method of \<open>session.rs\<close> that changes it also
  appends to the ledger of \<open>goal_ledger.rs\<close>, from which the goal is restored; child runs are
  lanes of the goal's graph (\<open>sub_goal.rs\<close>), and their reports decide whether it may proceed.

  \<^bold>\<open>Theories.\<close>
  \<^item> \<open>Prelude\<close>: the collections \<open>rust_arith\<close> and \<open>alist_simps\<close>, saturating and checked
    arithmetic, association lists for the maps of the source (a \<open>BTreeMap\<close> iterates through
    \<open>btree_iter\<close>, sorted), and the interfaces \<open>string_enum\<close> (enum with a name table),
    \<open>kv_store\<close> (lookup after insert, removal, update), \<open>machine\<close> (operations that keep an
    invariant) and \<open>checked_machine\<close> (operations that keep it when they meet a condition), each interpreted on the definitions of the components; and the lemma on
    finished nodes that the two depth-first searches share.
  \<^item> \<open>Rust_Text\<close>: the string functions of the standard library the sources use, on the bytes
    of a UTF-8 string.
  \<^item> \<open>Identity\<close>, \<open>Contracts\<close>, \<open>Cap_Stop\<close>, \<open>Settings\<close>: the data of the core, with their
    derived orders and string forms; \<open>validate\<close> reports the violations of the source in its
    order, and the slot keeps only valid settings.
  \<^item> \<open>Scheduler\<close>: the state behind the scheduler's lock as a record, one definition per method
    (\<open>reserve\<close>, \<open>acquire_begin\<close>, \<open>park\<close>, \<open>abandon\<close>, \<open>cancel_ticket\<close>, \<open>configure\<close>, ...), the pump
    with its termination proof, and the messages sent to waiters. \<open>Scheduler_Invariant\<close>,
    \<open>Scheduler_Steps\<close>, \<open>Scheduler_Properties\<close> hold the invariant and how a step changes a
    ticket; \<open>Scheduler_Guarantees\<close>, \<open>Scheduler_Fairness\<close> and \<open>Scheduler_Ledger\<close> what follows:
    the caps, no lost wakeup, no idle capacity, the choice of a turn, and the refinement of an
    abstract ledger of permits. \<open>Scheduler_Examples\<close> holds small runs.
  \<^item> \<open>Waitgraph\<close>: graph, detector and registry. \<open>Waitgraph_Build\<close> shows that the passes of
    \<open>build\<close> compute a declarative wait-for relation, \<open>Waitgraph_Detection\<close> that the detector
    decides its cycles, \<open>Waitgraph_Registry\<close> what a refusal and the version table do.
  \<^item> \<open>Approval\<close>, \<open>Approval_Properties\<close>: the registry of approvals, the life of a request
    (\<open>approval_move\<close>) and what it implies: at most one consumption, decisions only by the
    owner, bounds, an end to every wait.
  \<^item> \<open>Question\<close>, \<open>Question_Properties\<close>: the registry of questions, the life of a question
    (\<open>question_move\<close>) and what it implies: answers only by the answerer, settlements that are
    final, bounds, an end to every wait, snapshots that restore. \<open>Retention\<close> holds what the two
    registries share: dropping the oldest settled entries, and the interface \<open>settling_table\<close>
    of a table whose settled entries stay settled.
  \<^item> \<open>Deadlock\<close>, \<open>Deadlock_Properties\<close>: the scan across the components, for any interference
    of other tasks between its steps (the argument \<open>env\<close>), and the view shown to a caller.
  \<^item> \<open>Outcome\<close>, \<open>Outcome_Properties\<close>: outcome requirements, fragments and reports of cards,
    with their text forms.
  \<^item> \<open>Board\<close>: the board, its checks before a write and its operations; \<open>board_step\<close> runs any of
    them. \<open>Board_Dependencies\<close> shows that the dependency check decides acyclicity,
    \<open>Board_Properties\<close> what claims, reviews and finalisation guarantee.
  \<^item> \<open>Overlap_Order\<close>, \<open>Waves\<close>: ranks of overlapping cards, waves, lanes, the gate and the
    schedule. \<open>Waves_Levels\<close> shows that waves are topological levels, \<open>Waves_Schedule\<close> that
    only ready cards are submitted, \<open>Waves_Groups\<close> that a submission group holds no overlap.
  \<^item> \<open>Text_Lines\<close>, \<open>Splices\<close>: laws of trimming and of lines, and the interface \<open>back_to_front\<close>
    of editors that apply replacements from the last to the first.
  \<^item> \<open>Patch\<close>, \<open>Patch_Properties\<close>: the patch format, that printed patches parse back, that
    accepted paths stay in the workspace, that an update replaces exactly the lines its
    hunks name, at the places where they are to be taken (\<open>chunks_located\<close>), and that it fails only when a
    hunk stands nowhere (\<open>stuck\<close>); with the cases in which insertions go wrong.
  \<^item> \<open>Text_Edit\<close>, \<open>Text_Edit_Properties\<close>: edits by text, between anchors and by line ranges as
    rewritings of exactly the named parts. Line endings are stated by \<open>to_lf\<close>, \<open>to_crlf\<close> and
    \<open>uses_crlf\<close>: a text is edited with LF endings and written with CRLF if it had any.
  \<^item> \<open>Transcript\<close>, \<open>Transcript_Properties\<close>: the transcript of a process as the end of its output
    that fits the cap, readers by sequence number and by byte offset that miss and repeat
    nothing, captures and the spilled log as beginnings of the output.
  \<^item> \<open>Sub_Goal\<close>, \<open>Sub_Goal_Properties\<close>: the graph of sub-goals, the check of a declaration with
    its search for cycles and its longest paths, shown exact, and the rollup of a parent.
  \<^item> \<open>Goal\<close>, \<open>Goal_Session\<close>: budgets, waits, snapshots and the ledger with its replay; the
    goal fields of a session as a record and its methods. \<open>Goal_Properties\<close> runs them as calls
    (\<open>session_step\<close>), each with the settings it reads and its own clock readings, together with the
    setters that load a goal or a ledger: the ledger replays the goal, the memo of the graph is never
    stale, a wait is settled once, automatic lanes never gate. What the chat's messages say
    of the goal is the argument \<open>projection\<close>. The replay needs calls that agree with the session they find
    (\<open>agreeing\<close>), the bounds need limits and loaded ledgers within them (\<open>calls_within\<close>), the lanes need
    sound loads (\<open>sound_load\<close>); nothing else is assumed of a run. The interface \<open>lane_law\<close> shows once
    for all that every method keeps what holds of the graph.

  \<^bold>\<open>Modelling.\<close> Structs are records and enums datatypes with the constructors of the source;
  a method that mutates returns the new state beside its result; an error is the left side
  of a sum. Counters of 64 bits are natural numbers with the saturating and checked
  operations of the source written out; a subtraction that would panic is an explicit
  value (\<open>None\<close> or \<open>overflow_panic\<close>) that is shown not to occur. The clock, identifiers drawn
  at random, hashes and JSON values are arguments or type parameters; a date is the integer
  of its nanoseconds. Every loop is a structural
  recursion or has a termination proof by a measure: no definition uses fuel.

  \<^bold>\<open>Not modelled.\<close> The store of \<open>refact-work-core\<close> (transactions of an embedded database), the
  parsing of configuration files, asynchronous tasks and their wakers, and the rest of the
  engine: chat sessions beyond their goal, model providers, integrations, code indexes, git, the terminal
  and graphical clients. They are I/O, third-party wire formats or user interface; the
  manifest lists them.
\<close>

end
